(* ===== verification/Prelude.thy ===== *)
theory Prelude
  imports Main "HOL-Library.Word"
begin

text \<open>
  Shared vocabulary of the development: the collections the component proofs add to the
  simplifier, the part of Go's and JavaScript's string and integer library the sources use,
  and generic facts about them. Strings are byte lists, as Go's are. Go's \<open>int\<close> is a 64 bit
  signed integer, represented by an \<open>int\<close> that every arithmetic operation wraps.
\<close>

named_theorems go_simps \<open>equations of the notification service that carry its component proofs\<close>
named_theorems js_simps \<open>equations of the documentation viewer that carry its component proofs\<close>

section \<open>Results\<close>

type_synonym ('e, 'a) result = "'e + 'a"

fun is_ok :: "('e, 'a) result \<Rightarrow> bool" where
  "is_ok (Inl e) = False"
| "is_ok (Inr a) = True"

lemma is_ok_iff: "is_ok r \<longleftrightarrow> (\<exists>a. r = Inr a)"
  by (cases r) auto

section \<open>Go integers\<close>

definition wrap64 :: "int \<Rightarrow> int" where
  "wrap64 x = (x + 2 ^ 63) mod 2 ^ 64 - 2 ^ 63"

definition go_int :: "int \<Rightarrow> bool" where
  "go_int x \<longleftrightarrow> - (2 ^ 63) \<le> x \<and> x < 2 ^ 63"

definition go_add :: "int \<Rightarrow> int \<Rightarrow> int" where
  "go_add x y = wrap64 (x + y)"

definition go_sub :: "int \<Rightarrow> int \<Rightarrow> int" where
  "go_sub x y = wrap64 (x - y)"

definition go_mul :: "int \<Rightarrow> int \<Rightarrow> int" where
  "go_mul x y = wrap64 (x * y)"

text \<open>Division truncates towards zero; a zero divisor is a run time panic, which is \<open>None\<close>.\<close>

definition trunc_div :: "int \<Rightarrow> int \<Rightarrow> int" where
  "trunc_div a b = sgn a * sgn b * (\<bar>a\<bar> div \<bar>b\<bar>)"

definition go_div :: "int \<Rightarrow> int \<Rightarrow> int option" where
  "go_div x y = (if y = 0 then None else Some (wrap64 (trunc_div x y)))"

definition go_rem :: "int \<Rightarrow> int \<Rightarrow> int option" where
  "go_rem x y = (if y = 0 then None else Some (x - y * trunc_div x y))"

lemma wrap64_id [simp]: "go_int x \<Longrightarrow> wrap64 x = x"
  by (simp add: wrap64_def go_int_def)

lemma go_int_wrap64 [simp]: "go_int (wrap64 x)"
proof -
  have "0 \<le> (x + 2 ^ 63) mod 2 ^ 64" and "(x + 2 ^ 63) mod 2 ^ 64 < 2 ^ 64"
    by (rule pos_mod_sign, simp) (rule pos_mod_bound, simp)
  then show ?thesis by (simp add: wrap64_def go_int_def)
qed

lemma trunc_div_nonneg: "0 \<le> a \<Longrightarrow> 0 < b \<Longrightarrow> trunc_div a b = a div b"
  by (cases "a = 0") (auto simp: trunc_div_def)

section \<open>Go strings\<close>

definition has_prefix :: "string \<Rightarrow> string \<Rightarrow> bool" where
  "has_prefix s p \<longleftrightarrow> take (length p) s = p"

definition has_suffix :: "string \<Rightarrow> string \<Rightarrow> bool" where
  "has_suffix s p \<longleftrightarrow> length p \<le> length s \<and> drop (length s - length p) s = p"

definition trim_suffix :: "string \<Rightarrow> string \<Rightarrow> string" where
  "trim_suffix s p = (if has_suffix s p then take (length s - length p) s else s)"

definition trim_prefix :: "string \<Rightarrow> string \<Rightarrow> string" where
  "trim_prefix s p = (if has_prefix s p then drop (length p) s else s)"

lemma has_prefix_append [simp]: "has_prefix (p @ s) p"
  by (simp add: has_prefix_def)

lemma has_prefix_iff: "has_prefix s p \<longleftrightarrow> (\<exists>r. s = p @ r)"
  by (metis append_eq_conv_conj append_take_drop_id has_prefix_def)

lemma has_suffix_append [simp]: "has_suffix (s @ p) p"
  by (simp add: has_suffix_def)

lemma has_suffix_iff: "has_suffix s p \<longleftrightarrow> (\<exists>r. s = r @ p)"
proof
  assume "has_suffix s p"
  then have "s = take (length s - length p) s @ p"
    by (metis append_take_drop_id has_suffix_def)
  then show "\<exists>r. s = r @ p" by blast
qed (auto simp: has_suffix_def)

lemma trim_suffix_append [simp]: "trim_suffix (s @ p) p = s"
  by (simp add: trim_suffix_def)

lemma trim_suffix_cases: "s = trim_suffix s p @ p \<or> s = trim_suffix s p"
  by (metis has_suffix_iff trim_suffix_append trim_suffix_def)

text \<open>The part of a string after the last occurrence of a byte, as \<open>s[LastIndex(s, c)+1:]\<close>
  gives it (\<open>LastIndex\<close> is -1 when there is none, so the whole string is kept).\<close>

definition last_index :: "string \<Rightarrow> char \<Rightarrow> int" where
  "last_index s c = int (length s) - 1 - int (length (takeWhile (\<lambda>x. x \<noteq> c) (rev s)))"

definition after_last :: "string \<Rightarrow> char \<Rightarrow> string" where
  "after_last s c = drop (nat (last_index s c + 1)) s"

lemma after_last_eq: "after_last s c = rev (takeWhile (\<lambda>x. x \<noteq> c) (rev s))"
proof -
  let ?w = "takeWhile (\<lambda>x. x \<noteq> c) (rev s)"
  have len: "length ?w \<le> length s"
    using length_takeWhile_le [of "\<lambda>x. x \<noteq> c" "rev s"] by simp
  then have "nat (last_index s c + 1) = length s - length ?w"
    by (simp add: last_index_def nat_diff_distrib)
  then have "after_last s c = rev (take (length ?w) (rev s))"
    using len by (simp add: after_last_def rev_take)
  then show ?thesis
    by (metis append_eq_conv_conj takeWhile_dropWhile_id)
qed

lemma after_last_none [simp]: "c \<notin> set s \<Longrightarrow> after_last s c = s"
proof -
  assume "c \<notin> set s"
  then have w: "takeWhile (\<lambda>x. x \<noteq> c) (rev s) = rev s"
    by (auto simp: takeWhile_eq_all_conv)
  show ?thesis unfolding after_last_eq w by simp
qed

lemma after_last_append [simp]: "c \<notin> set t \<Longrightarrow> after_last (s @ c # t) c = t"
proof -
  assume "c \<notin> set t"
  then have "takeWhile (\<lambda>x. x \<noteq> c) (rev t @ c # rev s) = rev t"
    by (subst takeWhile_append2) auto
  then show ?thesis by (simp add: after_last_eq)
qed

lemma after_last_not_in: "c \<notin> set (after_last s c)"
  by (auto simp: after_last_eq dest: set_takeWhileD)

text \<open>\<open>strings.ReplaceAll\<close> of one byte by one byte, \<open>strings.Replace\<close> of the first occurrence of a
  string, and \<open>strings.NewReplacer\<close>: at each position of the target the first of the
  pairs, in argument order, that matches there is used, and matches do not overlap.\<close>

definition replace_byte :: "char \<Rightarrow> char \<Rightarrow> string \<Rightarrow> string" where
  "replace_byte a b s = map (\<lambda>c. if c = a then b else c) s"

fun replace_first :: "string \<Rightarrow> string \<Rightarrow> string \<Rightarrow> string" where
  "replace_first old new [] = (if old = [] then new else [])"
| "replace_first old new (c # cs) =
     (if has_prefix (c # cs) old then new @ drop (length old) (c # cs)
      else c # replace_first old new cs)"

function replacer :: "(string \<times> string) list \<Rightarrow> string \<Rightarrow> string" where
  "replacer ps [] = []"
| "replacer ps (c # cs) =
     (case find (\<lambda>(old, new). old \<noteq> [] \<and> has_prefix (c # cs) old) ps of
        Some (old, new) \<Rightarrow> new @ replacer ps (drop (length old - 1) cs)
      | None \<Rightarrow> c # replacer ps cs)"
  by pat_completeness auto
termination
  by (relation "measure (\<lambda>(ps, s). length s)") auto

lemma replacer_no_match:
  "(\<And>i. i < length s \<Longrightarrow> find (\<lambda>(old, new). old \<noteq> [] \<and> has_prefix (drop i s) old) ps = None)
    \<Longrightarrow> replacer ps s = s"
proof (induction s)
  case (Cons c cs)
  have "find (\<lambda>(old, new). old \<noteq> [] \<and> has_prefix (c # cs) old) ps = None"
    using Cons.prems [of 0] by simp
  moreover have "replacer ps cs = cs"
    using Cons.prems [of "Suc i" for i] by (intro Cons.IH) auto
  ultimately show ?case by simp
qed simp

section \<open>Decimal numerals\<close>

fun dec_digits :: "nat \<Rightarrow> nat list" where
  "dec_digits n = (if n < 10 then [n] else dec_digits (n div 10) @ [n mod 10])"

declare dec_digits.simps [simp del]

definition digit_char :: "nat \<Rightarrow> char" where
  "digit_char d = (if d < 10 then ''0123456789'' ! d else CHR ''?'')"

definition dec_nat :: "nat \<Rightarrow> string" where
  "dec_nat n = map digit_char (dec_digits n)"

definition dec_int :: "int \<Rightarrow> string" where
  "dec_int i = (if i < 0 then CHR ''-'' # dec_nat (nat (- i)) else dec_nat (nat i))"

definition parse_dec :: "string \<Rightarrow> nat" where
  "parse_dec s = foldl (\<lambda>n c. 10 * n + (of_char c - 48)) 0 s"

lemma dec_digits_small: "d \<in> set (dec_digits n) \<Longrightarrow> d < 10"
  by (induction n rule: dec_digits.induct)
    (subst (asm) (2) dec_digits.simps, auto split: if_splits)

lemma of_digit_char [simp]: "d < 10 \<Longrightarrow> (of_char (digit_char d) :: nat) = 48 + d"
proof -
  assume "d < 10"
  then have "d \<in> {0, 1, 2, 3, 4, 5, 6, 7, 8, 9}" by auto
  then show ?thesis by (auto simp: digit_char_def)
qed

lemma foldl_dec_digits: "foldl (\<lambda>n d. 10 * n + d) 0 (dec_digits n) = n"
  by (induction n rule: dec_digits.induct) (subst dec_digits.simps, simp)

lemma parse_dec_nat [simp]: "parse_dec (dec_nat n) = n"
proof -
  have eq: "foldl (\<lambda>n c. 10 * n + (of_char c - 48)) a (map digit_char ds)
      = foldl (\<lambda>n d. 10 * n + d) a ds" if "\<forall>d \<in> set ds. d < 10" for a ds
    using that by (induction ds arbitrary: a) auto
  show ?thesis
    using eq [of "dec_digits n" 0] foldl_dec_digits
    by (simp add: parse_dec_def dec_nat_def dec_digits_small)
qed

text \<open>Evaluating the decimal numeral of a concrete number.\<close>

lemmas dec_eval = dec_int_def dec_nat_def dec_digits.simps digit_char_def

lemma dec_nat_inject [simp]: "dec_nat m = dec_nat n \<longleftrightarrow> m = n"
  by (metis parse_dec_nat)

section \<open>Searching a list in order\<close>

text \<open>A \<open>for\<close> loop that returns the first element with a property.\<close>

lemma find_SomeD: "find P xs = Some x \<Longrightarrow> P x \<and> x \<in> set xs"
  by (induction xs) (auto split: if_splits)

lemma find_NoneD: "find P xs = None \<Longrightarrow> x \<in> set xs \<Longrightarrow> \<not> P x"
  by (auto simp: find_None_iff)

end
