(* ===== verification/Notif_Types.thy ===== *)
theory Notif_Types
  imports Prelude "HOL-Library.AList" "HOL-Library.List_Lexorder" "HOL-Library.Char_ord"
begin

text \<open>
  The data of the notification service: \<open>types/types.go\<close>. A struct is a record whose fields
  carry a short prefix, a set kept as \<open>map[K]struct{}\<close> is a list of its keys, \<open>Timestamp\<close> is
  the number of seconds since the epoch, and \<open>OrgID\<close> and \<open>AccountNumber\<close> are 32 bit words.
  The text of a cluster report is represented by what \<open>encoding/json\<close> makes of it: either
  text that is no JSON document or the document.
\<close>

section \<open>Identifiers\<close>

type_synonym OrgID = "32 word"
type_synonym AccountNumber = "32 word"
type_synonym ClusterName = string
type_synonym KafkaOffset = int
type_synonym Timestamp = int
type_synonym RuleID = string
type_synonym RuleName = string
type_synonym ModuleName = string
type_synonym ErrorKey = string
type_synonym StateID = int
type_synonym NotificationTypeID = int
type_synonym TagsSet = "string list"

datatype DBDriver = DBDriverSQLite3 | DBDriverPostgres | DBDriverGeneral

datatype EventTarget = NotificationBackendTarget | ServiceLogTarget

text \<open>The code the database stores for a target.\<close>

fun event_target_code :: "EventTarget \<Rightarrow> int" where
  "event_target_code NotificationBackendTarget = 1"
| "event_target_code ServiceLogTarget = 2"

datatype EventType = InstantNotif

fun EventType_ToString :: "EventType \<Rightarrow> string" where
  "EventType_ToString InstantNotif = ''new-recommendation''"

section \<open>JSON documents\<close>

datatype json =
  JNull
| JBool bool
| JNum string
| JStr string
| JArr "json list"
| JObj "(string \<times> json) list"

datatype ClusterReport = Malformed string | Document json

text \<open>
  \<open>encoding/json\<close> matches the keys of a document with the names of struct fields after
  folding: upper case ASCII letters, the Kelvin sign and the long s have a lower case ASCII
  letter as their fold.
\<close>

definition fold_byte :: "char \<Rightarrow> char" where
  "fold_byte c = (let n = of_char c :: nat in if 65 \<le> n \<and> n \<le> 90 then char_of (n + 32) else c)"

text \<open>The fold of the first character and the number of bytes that follow its first one.\<close>

definition fold_first :: "char \<Rightarrow> string \<Rightarrow> char \<times> nat" where
  "fold_first c cs =
     (if c = CHR 0xC5 \<and> take 1 cs = [CHR 0xBF] then (CHR ''s'', 1)
      else if c = CHR 0xE2 \<and> take 2 cs = [CHR 0x84, CHR 0xAA] then (CHR ''k'', 2)
      else (fold_byte c, 0))"

function fold_name :: "string \<Rightarrow> string" where
  "fold_name [] = []"
| "fold_name (c # cs) = fst (fold_first c cs) # fold_name (drop (snd (fold_first c cs)) cs)"
  by pat_completeness auto
termination
  by (relation "measure length") auto

declare fold_name.simps [simp del]

text \<open>A document decoded into \<open>map[string]json.RawMessage\<close>: the last value of a key counts.\<close>

definition raw_fields :: "(string \<times> json) list \<Rightarrow> (string \<times> json) list" where
  "raw_fields fs = foldl (\<lambda>m (k, v). AList.update k v m) [] fs"

text \<open>\<open>json.Marshal\<close> of such a map writes the keys in ascending order.\<close>

definition marshal_fields :: "(string \<times> json) list \<Rightarrow> json" where
  "marshal_fields m = JObj (sort_key fst m)"

section \<open>Reports\<close>

record ReportItem =
  ri_Type :: string
  ri_Module :: ModuleName
  ri_ErrorKey :: ErrorKey
  ri_Details :: "json option"

record EvaluatedReportItem = ReportItem +
  ri_TotalRisk :: int

definition empty_item :: ReportItem where
  "empty_item = \<lparr>ri_Type = [], ri_Module = [], ri_ErrorKey = [], ri_Details = None\<rparr>"

definition empty_evaluated_item :: EvaluatedReportItem where
  "empty_evaluated_item = ReportItem.extend empty_item \<lparr>ri_TotalRisk = 0\<rparr>"

text \<open>A JSON string field: \<open>null\<close> leaves the field as it is, another value is a type error.\<close>

fun set_string :: "(string \<Rightarrow> 'r) \<Rightarrow> 'r \<Rightarrow> json \<Rightarrow> 'r option" where
  "set_string upd r (JStr s) = Some (upd s)"
| "set_string upd r JNull = Some r"
| "set_string upd r _ = None"

definition parse_int64 :: "string \<Rightarrow> int option" where
  "parse_int64 s =
     (let neg = (take 1 s = ''-''); ds = (if neg then drop 1 s else s);
          n = (if neg then - int (parse_dec ds) else int (parse_dec ds))
      in if ds \<noteq> [] \<and> (\<forall>c \<in> set ds. of_char c \<in> {48..57 :: nat}) \<and> go_int n then Some n else None)"

fun set_int :: "(int \<Rightarrow> 'r) \<Rightarrow> 'r \<Rightarrow> json \<Rightarrow> 'r option" where
  "set_int upd r (JNum s) = map_option upd (parse_int64 s)"
| "set_int upd r JNull = Some r"
| "set_int upd r _ = None"

text \<open>One field of a report item; the fields of \<open>EvaluatedReportItem\<close> include those of the
  embedded \<open>ReportItem\<close>, and its own field has no tag, so its JSON name is its Go name.\<close>

definition item_field :: "'a ReportItem_scheme \<Rightarrow> string \<Rightarrow> json \<Rightarrow> 'a ReportItem_scheme option" where
  "item_field r k v =
     (if fold_name k = ''type'' then set_string (\<lambda>s. r\<lparr>ri_Type := s\<rparr>) r v
      else if fold_name k = ''component'' then set_string (\<lambda>s. r\<lparr>ri_Module := s\<rparr>) r v
      else if fold_name k = ''key'' then set_string (\<lambda>s. r\<lparr>ri_ErrorKey := s\<rparr>) r v
      else if fold_name k = ''details'' then Some (r\<lparr>ri_Details := Some v\<rparr>)
      else Some r)"

definition evaluated_field :: "EvaluatedReportItem \<Rightarrow> string \<Rightarrow> json \<Rightarrow> EvaluatedReportItem option" where
  "evaluated_field r k v =
     (if fold_name k = ''totalrisk'' then set_int (\<lambda>n. r\<lparr>ri_TotalRisk := n\<rparr>) r v
      else item_field r k v)"

fun decode_fields :: "('r \<Rightarrow> string \<Rightarrow> json \<Rightarrow> 'r option) \<Rightarrow> 'r \<Rightarrow> (string \<times> json) list \<Rightarrow> 'r option" where
  "decode_fields f r [] = Some r"
| "decode_fields f r ((k, v) # fs) =
     (case f r k v of None \<Rightarrow> None | Some r' \<Rightarrow> decode_fields f r' fs)"

text \<open>\<open>json.Unmarshal\<close> into a \<open>ReportItem\<close>: \<open>null\<close> leaves the zero value.\<close>

fun decode_report_item :: "json \<Rightarrow> ReportItem option" where
  "decode_report_item (JObj fs) = decode_fields item_field empty_item fs"
| "decode_report_item JNull = Some empty_item"
| "decode_report_item _ = None"

text \<open>An element of \<open>[]*EvaluatedReportItem\<close>: \<open>null\<close> is the nil pointer, here \<open>None\<close>.\<close>

fun decode_evaluated_item :: "json \<Rightarrow> EvaluatedReportItem option option" where
  "decode_evaluated_item (JObj fs) = map_option Some (decode_fields evaluated_field empty_evaluated_item fs)"
| "decode_evaluated_item JNull = Some None"
| "decode_evaluated_item _ = None"

type_synonym ReportContent = "EvaluatedReportItem option list"

fun decode_items :: "json list \<Rightarrow> ReportContent option" where
  "decode_items [] = Some []"
| "decode_items (j # js) =
     (case decode_evaluated_item j of
        None \<Rightarrow> None
      | Some i \<Rightarrow> (case decode_items js of None \<Rightarrow> None | Some is \<Rightarrow> Some (i # is)))"

definition report_field :: "ReportContent \<Rightarrow> string \<Rightarrow> json \<Rightarrow> ReportContent option" where
  "report_field r k v =
     (if fold_name k = ''reports''
      then (case v of JArr js \<Rightarrow> decode_items js | JNull \<Rightarrow> Some [] | _ \<Rightarrow> None)
      else Some r)"

text \<open>\<open>json.Unmarshal([]byte(report), &Report{})\<close>: \<open>None\<close> is an error.\<close>

fun decode_report :: "ClusterReport \<Rightarrow> ReportContent option" where
  "decode_report (Malformed t) = None"
| "decode_report (Document (JObj fs)) = decode_fields report_field [] fs"
| "decode_report (Document JNull) = Some []"
| "decode_report (Document _) = None"

section \<open>Entries and records\<close>

record ClusterEntry =
  ce_OrgID :: OrgID
  ce_AccountNumber :: AccountNumber
  ce_ClusterName :: ClusterName
  ce_KafkaOffset :: KafkaOffset
  ce_UpdatedAt :: Timestamp

record NotificationType =
  nt_ID :: NotificationTypeID
  nt_Value :: string
  nt_Frequency :: string
  nt_Comment :: string

record NotificationTypes =
  nts_Instant :: NotificationTypeID
  nts_Weekly :: NotificationTypeID

record State =
  st_ID :: StateID
  st_Value :: string
  st_Comment :: string

record States =
  sts_SameState :: StateID
  sts_SentState :: StateID
  sts_LowerIssueState :: StateID
  sts_ErrorState :: StateID

record NotificationRecord =
  nr_OrgID :: OrgID
  nr_AccountNumber :: AccountNumber
  nr_ClusterName :: ClusterName
  nr_UpdatedAt :: Timestamp
  nr_NotificationTypeID :: NotificationTypeID
  nr_StateID :: StateID
  nr_Report :: ClusterReport
  nr_NotifiedAt :: Timestamp
  nr_ErrorLog :: string
  nr_EventTarget :: EventTarget

record CliFlags =
  cli_InstantReports :: bool
  cli_WeeklyReports :: bool
  cli_ShowVersion :: bool
  cli_ShowAuthors :: bool
  cli_ShowConfiguration :: bool
  cli_PrintNewReportsForCleanup :: bool
  cli_PerformNewReportsCleanup :: bool
  cli_PrintOldReportsForCleanup :: bool
  cli_PerformOldReportsCleanup :: bool
  cli_CleanupOnStartup :: bool
  cli_Verbose :: bool
  cli_IgnoreDisabledRules :: bool
  cli_MaxAge :: string

type_synonym ClusterOrgKey = "OrgID \<times> ClusterName"

record ClusterRuleKey =
  crk_OrgID :: string
  crk_ClusterID :: ClusterName
  crk_RuleID :: RuleID
  crk_ErrorKey :: ErrorKey

record OrgRuleKey =
  ork_OrgID :: string
  ork_RuleID :: RuleID
  ork_ErrorKey :: ErrorKey

type_synonym ClusterDisabledRules = "ClusterRuleKey list"
type_synonym OrgDisabledRules = "OrgRuleKey list"
type_synonym NotifiedRecordsPerCluster = "ClusterOrgKey \<rightharpoonup> NotificationRecord"

section \<open>Messages\<close>

record Event =
  ev_Payload :: "(string \<times> string) list"

record NotificationMessage =
  nm_Bundle :: string
  nm_Application :: string
  nm_EventType :: string
  nm_Timestamp :: string
  nm_AccountID :: string
  nm_OrgID :: string
  nm_Events :: "Event list"
  nm_Context :: "(string \<times> string) list"

record RenderedReport =
  rr_RuleID :: RuleID
  rr_ErrorKey :: ErrorKey
  rr_Resolution :: string
  rr_Reason :: string
  rr_Description :: string

record ServiceLogEntry =
  sle_ClusterUUID :: ClusterName
  sle_Description :: string
  sle_ServiceName :: string
  sle_Severity :: string
  sle_Summary :: string
  sle_CreatedBy :: string
  sle_Username :: string

text \<open>The helper that turns a list of tags into a set: the keys of the map it fills.\<close>

definition MakeSetOfTags :: "string list \<Rightarrow> TagsSet" where
  "MakeSetOfTags tags = foldl (\<lambda>m t. List.insert t m) [] tags"

lemma set_MakeSetOfTags [simp]: "set (MakeSetOfTags tags) = set tags"
proof -
  have "set (foldl (\<lambda>m t. List.insert t m) acc tags) = set acc \<union> set tags" for acc
    by (induction tags arbitrary: acc) auto
  then show ?thesis by (simp add: MakeSetOfTags_def)
qed

lemma distinct_MakeSetOfTags: "distinct (MakeSetOfTags tags)"
proof -
  have "distinct acc \<Longrightarrow> distinct (foldl (\<lambda>m t. List.insert t m) acc tags)" for acc
    by (induction tags arbitrary: acc) auto
  then show ?thesis by (simp add: MakeSetOfTags_def)
qed

section \<open>Facts about decoding\<close>

lemma fold_name_reports [simp]: "fold_name ''reports'' = ''reports''"
  by code_simp

lemma fold_name_keys [simp]:
  "fold_name ''type'' = ''type''" "fold_name ''component'' = ''component''"
  "fold_name ''key'' = ''key''" "fold_name ''details'' = ''details''"
  by code_simp+

lemma report_field_other: "fold_name k \<noteq> ''reports'' \<Longrightarrow> report_field r k v = Some r"
  by (simp add: report_field_def)

lemma decode_fields_append:
  "decode_fields f r (fs @ gs) =
     (case decode_fields f r fs of None \<Rightarrow> None | Some r' \<Rightarrow> decode_fields f r' gs)"
  by (induction fs arbitrary: r) (auto split: option.splits)

lemma decode_items_length: "decode_items js = Some is \<Longrightarrow> length is = length js"
  by (induction js arbitrary: "is") (auto split: option.splits)

lemma decode_items_nth:
  "decode_items js = Some is \<Longrightarrow> n < length js \<Longrightarrow> decode_evaluated_item (js ! n) = Some (is ! n)"
proof (induction js arbitrary: "is" n)
  case (Cons j js)
  then show ?case by (cases n) (auto split: option.splits)
qed simp

lemma decode_items_filter:
  "decode_items js = Some is \<Longrightarrow>
    decode_items (filter P js) = Some (map snd (filter (\<lambda>(j, i). P j) (zip js is)))"
  by (induction js arbitrary: "is") (auto split: option.splits)

text \<open>The item an \<open>EvaluatedReportItem\<close> embeds is the item the same JSON value decodes to.\<close>

lemma set_string_truncate:
  "set_string (\<lambda>s. ReportItem.truncate (u s r)) (ReportItem.truncate r) v
     = map_option ReportItem.truncate (set_string (\<lambda>s. u s r) r v)"
  by (cases v) auto

lemma item_field_truncate:
  "item_field (ReportItem.truncate r) k v = map_option ReportItem.truncate (item_field r k v)"
  by (cases r; cases v) (auto simp: item_field_def ReportItem.truncate_def)

lemma evaluated_field_truncate:
  "evaluated_field r k v = Some r' \<Longrightarrow>
    item_field (ReportItem.truncate r) k v = Some (ReportItem.truncate r')"
proof (cases "fold_name k = ''totalrisk''")
  case True
  assume "evaluated_field r k v = Some r'"
  with True have "ReportItem.truncate r' = ReportItem.truncate r"
    by (cases v) (auto simp: evaluated_field_def ReportItem.truncate_def)
  with True show ?thesis by (simp add: item_field_def)
next
  case False
  assume "evaluated_field r k v = Some r'"
  with False show ?thesis by (simp add: evaluated_field_def item_field_truncate)
qed

lemma decode_fields_truncate:
  "decode_fields evaluated_field r fs = Some r' \<Longrightarrow>
    decode_fields item_field (ReportItem.truncate r) fs = Some (ReportItem.truncate r')"
proof (induction fs arbitrary: r)
  case (Cons f fs)
  obtain k v where f: "f = (k, v)" by (cases f)
  with Cons.prems obtain r1 where r1: "evaluated_field r k v = Some r1"
    and rest: "decode_fields evaluated_field r1 fs = Some r'"
    by (auto split: option.splits)
  from Cons.IH [OF rest] evaluated_field_truncate [OF r1] show ?case
    by (simp add: f)
qed simp

lemma decode_evaluated_item_truncate:
  "decode_evaluated_item j = Some (Some i) \<Longrightarrow> decode_report_item j = Some (ReportItem.truncate i)"
proof (cases j)
  case (JObj fs)
  assume "decode_evaluated_item j = Some (Some i)"
  with JObj have "decode_fields evaluated_field empty_evaluated_item fs = Some i" by auto
  from decode_fields_truncate [OF this] JObj show ?thesis
    by (simp add: empty_evaluated_item_def empty_item_def ReportItem.truncate_def ReportItem.extend_def)
qed auto

end
