(* ===== verification/Configuration.thy ===== *)
theory Configuration
  imports Notif_Types
begin

text \<open>
  The configuration of the notification service: \<open>conf/config.go\<close>. The sections other
  components read are records. The configuration reader (viper), the URL parser and the
  Clowder environment are not part of the repository: they are arguments of
  \<open>LoadConfiguration\<close> and of the functions that update the configuration from Clowder.
  A pointer is an \<open>option\<close>, and a nil dereference is the result \<open>None\<close>.
\<close>

section \<open>Sections\<close>

record StorageConfiguration =
  sc_Driver :: string
  sc_PGUsername :: string
  sc_PGPassword :: string
  sc_PGHost :: string
  sc_PGPort :: int
  sc_PGDBName :: string
  sc_PGParams :: string
  sc_LogSQLQueries :: bool

record DependenciesConfiguration =
  dc_ContentServiceServer :: string
  dc_ContentServiceEndpoint :: string
  dc_TemplateRendererServer :: string
  dc_TemplateRendererEndpoint :: string
  dc_TemplateRendererURL :: string

record KafkaConfiguration =
  kc_Enabled :: bool
  kc_Addresses :: string
  kc_SecurityProtocol :: string
  kc_CertPath :: string
  kc_SaslMechanism :: string
  kc_SaslUsername :: string
  kc_SaslPassword :: string
  kc_Topic :: string
  kc_Timeout :: int
  kc_LikelihoodThreshold :: int
  kc_ImpactThreshold :: int
  kc_SeverityThreshold :: int
  kc_TotalRiskThreshold :: int
  kc_Cooldown :: string
  kc_EventFilter :: string
  kc_TagFilterEnabled :: bool
  kc_Tags :: "string list"
  kc_TagsSet :: "TagsSet option"

record ServiceLogConfiguration =
  slc_Enabled :: bool
  slc_ClientID :: string
  slc_ClientSecret :: string
  slc_CreatedBy :: string
  slc_Username :: string
  slc_TokenURL :: string
  slc_URL :: string
  slc_Timeout :: int
  slc_LikelihoodThreshold :: int
  slc_ImpactThreshold :: int
  slc_SeverityThreshold :: int
  slc_TotalRiskThreshold :: int
  slc_Cooldown :: string
  slc_EventFilter :: string
  slc_RuleDetailsURI :: string
  slc_TagFilterEnabled :: bool
  slc_Tags :: "string list"
  slc_TagsSet :: "TagsSet option"

record NotificationsConfiguration =
  nc_InsightsAdvisorURL :: string
  nc_ClusterDetailsURI :: string
  nc_RuleDetailsURI :: string

record MetricsConfiguration =
  mc_Job :: string
  mc_Namespace :: string
  mc_Subsystem :: string
  mc_GatewayURL :: string
  mc_GatewayAuthToken :: string
  mc_Retries :: int
  mc_RetryAfter :: int
  mc_GatewayTimeBetweenPush :: int

record ProcessingConfiguration =
  pc_FilterAllowedClusters :: bool
  pc_AllowedClusters :: "string list"
  pc_FilterBlockedClusters :: bool
  pc_BlockedClusters :: "string list"

record ConfigStruct =
  cfg_Storage :: StorageConfiguration
  cfg_AggregatorStorage :: StorageConfiguration
  cfg_Kafka :: KafkaConfiguration
  cfg_ServiceLog :: ServiceLogConfiguration
  cfg_Dependencies :: DependenciesConfiguration
  cfg_Notifications :: NotificationsConfiguration
  cfg_Metrics :: MetricsConfiguration
  cfg_CleanerMaxAge :: string
  cfg_Processing :: ProcessingConfiguration

section \<open>Clowder\<close>

text \<open>What the service reads of \<open>clowder.LoadedConfig\<close> and \<open>clowder.KafkaTopics\<close>.\<close>

record ClowderSasl =
  cs_Username :: "string option"
  cs_Password :: "string option"
  cs_SaslMechanism :: "string option"
  cs_SecurityProtocol :: "string option"

record ClowderBroker =
  cb_Hostname :: string
  cb_Port :: "int option"
  cb_Authtype :: "string option"
  cb_Sasl :: "ClowderSasl option"

record ClowderDatabase =
  cd_Name :: string
  cd_Hostname :: string
  cd_Port :: int
  cd_Username :: string
  cd_Password :: string

record ClowderConfig =
  cl_Brokers :: "ClowderBroker list option"
  cl_Database :: "ClowderDatabase option"
  cl_KafkaTopics :: "string \<rightharpoonup> string"
  cl_KafkaCa :: "ClowderBroker \<Rightarrow> string option"

definition updateStorageCfgFromClowder :: "ClowderDatabase \<Rightarrow> ConfigStruct \<Rightarrow> ConfigStruct" where
  "updateStorageCfgFromClowder db c = c\<lparr>cfg_Storage := (cfg_Storage c)
     \<lparr>sc_PGDBName := cd_Name db, sc_PGHost := cd_Hostname db, sc_PGPort := cd_Port db,
      sc_PGUsername := cd_Username db, sc_PGPassword := cd_Password db\<rparr>\<rparr>"

definition updateTopicsMapping :: "ClowderConfig \<Rightarrow> ConfigStruct \<Rightarrow> ConfigStruct" where
  "updateTopicsMapping cl c =
     (case cl_KafkaTopics cl (kc_Topic (cfg_Kafka c)) of
        Some name \<Rightarrow> c\<lparr>cfg_Kafka := (cfg_Kafka c)\<lparr>kc_Topic := name\<rparr>\<rparr>
      | None \<Rightarrow> c)"

definition broker_address :: "ClowderBroker \<Rightarrow> string" where
  "broker_address b =
     (case cb_Port b of
        Some p \<Rightarrow> cb_Hostname b @ '':'' @ dec_int p
      | None \<Rightarrow> cb_Hostname b)"

definition broker_addresses :: "ClowderBroker list \<Rightarrow> string" where
  "broker_addresses bs =
     (let a = foldl (\<lambda>a b. a @ broker_address b @ '','') [] bs
      in take (length a - 1) a)"

definition update_sasl :: "ClowderConfig \<Rightarrow> ClowderBroker \<Rightarrow> KafkaConfiguration \<Rightarrow> KafkaConfiguration option" where
  "update_sasl cl b k =
     (case cb_Authtype b of
        None \<Rightarrow> Some k
      | Some _ \<Rightarrow>
         (case cb_Sasl b of
            None \<Rightarrow> Some k
          | Some s \<Rightarrow>
             (case (cs_Username s, cs_Password s, cs_SaslMechanism s, cs_SecurityProtocol s) of
                (Some u, Some p, Some m, Some sp) \<Rightarrow>
                  (let k' = k\<lparr>kc_SaslUsername := u, kc_SaslPassword := p,
                              kc_SaslMechanism := m, kc_SecurityProtocol := sp\<rparr>
                   in Some (case cl_KafkaCa cl b of
                        Some ca \<Rightarrow> k'\<lparr>kc_CertPath := ca\<rparr> | None \<Rightarrow> k'))
              | _ \<Rightarrow> None)))"

definition updateBrokerCfgFromClowder ::
  "ClowderConfig \<Rightarrow> ClowderBroker list \<Rightarrow> ConfigStruct \<Rightarrow> ConfigStruct option" where
  "updateBrokerCfgFromClowder cl brokers c =
     map_option (updateTopicsMapping cl)
       (case brokers of
          [] \<Rightarrow> Some c
        | b # _ \<Rightarrow>
            map_option (\<lambda>k. c\<lparr>cfg_Kafka := k\<rparr>)
              (update_sasl cl b ((cfg_Kafka c)\<lparr>kc_Addresses := broker_addresses brokers\<rparr>)))"

text \<open>\<open>None\<close> as the environment: Clowder is disabled or its configuration is not loaded.\<close>

definition updateConfigFromClowder :: "ClowderConfig option \<Rightarrow> ConfigStruct \<Rightarrow> ConfigStruct option" where
  "updateConfigFromClowder env c =
     (case env of
        None \<Rightarrow> Some c
      | Some cl \<Rightarrow>
         (case (case cl_Brokers cl of
                  None \<Rightarrow> Some c
                | Some bs \<Rightarrow> updateBrokerCfgFromClowder cl bs c) of
            None \<Rightarrow> None
          | Some c1 \<Rightarrow> Some (case cl_Database cl of
                None \<Rightarrow> c1 | Some db \<Rightarrow> updateStorageCfgFromClowder db c1)))"

section \<open>Loading\<close>

text \<open>\<open>filepath.Split\<close> and \<open>filepath.Ext\<close> on Unix paths, and the name and the directory the
  configuration file is looked for.\<close>

definition filepath_Split :: "string \<Rightarrow> string \<times> string" where
  "filepath_Split p =
     (let i = nat (last_index p (CHR ''/'') + 1) in (take i p, drop i p))"

definition filepath_Ext :: "string \<Rightarrow> string" where
  "filepath_Ext p =
     (let b = snd (filepath_Split p)
      in if CHR ''.'' \<in> set b then drop (nat (last_index b (CHR ''.''))) b else [])"

definition config_file_location :: "string option \<Rightarrow> string \<Rightarrow> string \<times> string" where
  "config_file_location env_value defaultConfigFile =
     (case env_value of
        Some configFile \<Rightarrow>
          (let (directory, basename) = filepath_Split configFile
           in (directory, trim_suffix basename (filepath_Ext basename)))
      | None \<Rightarrow> (''.'', defaultConfigFile))"

datatype load_error = FatalConfigFile | EncodeError | UnmarshalError | URLError

datatype read_outcome = ReadOk | ReadNotFound | ReadFailed

text \<open>
  \<open>LoadConfiguration\<close>: \<open>read\<close> is \<open>viper.ReadInConfig\<close> at the directory and name,
  \<open>fake\<close> the reading of the encoded empty configuration, \<open>unmarshal\<close> the decoded
  configuration with the environment applied, \<open>mkurl\<close> is \<open>createURL\<close>. The result is
  \<open>None\<close> for a nil dereference in the Clowder update.
\<close>

definition LoadConfiguration ::
  "string option \<Rightarrow> string \<Rightarrow> (string \<times> string \<Rightarrow> read_outcome) \<Rightarrow> bool \<Rightarrow> ConfigStruct option \<Rightarrow>
   ClowderConfig option \<Rightarrow> (string \<Rightarrow> string \<Rightarrow> string option) \<Rightarrow> (load_error + ConfigStruct) option" where
  "LoadConfiguration env_value defaultConfigFile read fake unmarshal clowder mkurl =
     (let outcome = read (config_file_location env_value defaultConfigFile);
          continue =
            (case unmarshal of
               None \<Rightarrow> Some (Inl UnmarshalError)
             | Some c0 \<Rightarrow>
                (case updateConfigFromClowder clowder c0 of
                   None \<Rightarrow> None
                 | Some c1 \<Rightarrow>
                    (case mkurl (dc_TemplateRendererServer (cfg_Dependencies c1))
                                (dc_TemplateRendererEndpoint (cfg_Dependencies c1)) of
                       None \<Rightarrow> Some (Inl URLError)
                     | Some url \<Rightarrow> Some (Inr (c1
                        \<lparr>cfg_Dependencies := (cfg_Dependencies c1)\<lparr>dc_TemplateRendererURL := url\<rparr>,
                         cfg_Kafka := (cfg_Kafka c1)
                           \<lparr>kc_TagsSet := Some (MakeSetOfTags (kc_Tags (cfg_Kafka c1)))\<rparr>,
                         cfg_ServiceLog := (cfg_ServiceLog c1)
                           \<lparr>slc_TagsSet := Some (MakeSetOfTags (slc_Tags (cfg_ServiceLog c1)))\<rparr>\<rparr>)))))
      in if env_value = None \<and> outcome = ReadNotFound
         then (if fake then continue else Some (Inl EncodeError))
         else if outcome \<noteq> ReadOk then Some (Inl FatalConfigFile)
         else continue)"

text \<open>\<open>strings.Split(s, c)\<close> for a one byte separator, as the Kafka producer applies it to the
  addresses.\<close>

fun split_on :: "char \<Rightarrow> string \<Rightarrow> string list" where
  "split_on c [] = [[]]"
| "split_on c (x # xs) =
     (if x = c then [] # split_on c xs
      else (case split_on c xs of [] \<Rightarrow> [[x]] | w # ws \<Rightarrow> (x # w) # ws))"

lemma split_on_nonempty [simp]: "split_on c s \<noteq> []"
  by (induction s) (auto split: list.splits)

lemma split_on_word: "c \<notin> set w \<Longrightarrow> split_on c w = [w]"
  by (induction w) auto

lemma split_on_append: "c \<notin> set w \<Longrightarrow> split_on c (w @ c # s) = w # split_on c s"
  by (induction w) auto

lemma broker_addresses_fold:
  "foldl (\<lambda>a b. a @ broker_address b @ '','') acc bs = acc @ concat (map (\<lambda>b. broker_address b @ '','') bs)"
  by (induction bs arbitrary: acc) auto

lemma broker_addresses_butlast:
  "broker_addresses bs = butlast (concat (map (\<lambda>b. broker_address b @ '','') bs))"
  by (simp add: broker_addresses_def broker_addresses_fold Let_def butlast_conv_take)

lemma broker_addresses_Cons:
  "broker_addresses (b # bs) =
     (if bs = [] then broker_address b else broker_address b @ '','' @ broker_addresses bs)"
  by (cases bs) (auto simp: broker_addresses_butlast butlast_append)

text \<open>The broker list Clowder provides survives its trip through the comma separated
  \<open>Addresses\<close> string: the list the Kafka producer gets from \<open>strings.Split\<close> is the list of
  the brokers' addresses, in order, whenever no address holds a comma.\<close>

theorem broker_addresses_roundtrip:
  assumes "bs \<noteq> []" and "\<forall>b \<in> set bs. CHR '','' \<notin> set (broker_address b)"
  shows "split_on (CHR '','') (broker_addresses bs) = map broker_address bs"
  using assms
proof (induction bs)
  case (Cons b bs)
  then show ?case
    by (cases "bs = []") (auto simp: broker_addresses_Cons split_on_word split_on_append)
qed simp

theorem broker_addresses_roundtrip_witness:
  "split_on (CHR '','') (broker_addresses
     [\<lparr>cb_Hostname = ''kafka-1'', cb_Port = Some 9092, cb_Authtype = None, cb_Sasl = None\<rparr>,
      \<lparr>cb_Hostname = ''kafka-2'', cb_Port = None, cb_Authtype = None, cb_Sasl = None\<rparr>])
   = [''kafka-1:9092'', ''kafka-2'']"
proof -
  let ?bs = "[\<lparr>cb_Hostname = ''kafka-1'', cb_Port = Some 9092, cb_Authtype = None, cb_Sasl = None\<rparr>,
      \<lparr>cb_Hostname = ''kafka-2'', cb_Port = None, cb_Authtype = None, cb_Sasl = None\<rparr>]"
  have a: "map broker_address ?bs = [''kafka-1:9092'', ''kafka-2'']"
    by (simp add: broker_address_def dec_eval)
  then have h: "\<forall>b \<in> set ?bs. CHR '','' \<notin> set (broker_address b)" by simp
  show ?thesis using broker_addresses_roundtrip [of ?bs, OF _ h] a by simp
qed

end
