(* ===== verification/Rule_Filter.thy ===== *)
theory Rule_Filter
  imports Configuration "HOL-Library.Multiset"
begin

text \<open>
  Which rule hits are worth a notification, and what is stored of a report: the functions of
  \<open>differ/differ.go\<close> on rule names, thresholds, tags, severities and disabled rules, and
  \<open>addDetailedInfoURLToRenderedReport\<close> of \<open>differ/renderer.go\<close>. The rule content is what the
  content service sends; only the metadata the service reads is represented, and a key that
  is missing from a Go map reads as the zero value. The expression evaluator of the event
  filter is a package of its own: an argument \<open>evaluator\<close>, \<open>None\<close> for an error.
\<close>

section \<open>Rule content, thresholds\<close>

record RuleMetadata =
  rm_Description :: string
  rm_Impact :: int
  rm_Likelihood :: int
  rm_Tags :: "string list"

type_synonym RuleContent = "ErrorKey \<rightharpoonup> RuleMetadata"
type_synonym RulesMap = "string \<rightharpoonup> RuleContent"

record EventThresholds =
  et_TotalRisk :: int
  et_Likelihood :: int
  et_Impact :: int
  et_Severity :: int

record EventValue =
  evv_TotalRisk :: int
  evv_Likelihood :: int
  evv_Impact :: int
  evv_Severity :: int

type_synonym evaluator = "string \<Rightarrow> (string \<rightharpoonup> int) \<Rightarrow> int option"

definition calculateTotalRisk :: "int \<Rightarrow> int \<Rightarrow> int" where
  "calculateTotalRisk impact likelihood = wrap64 (trunc_div (go_add impact likelihood) 2)"

definition ruleModuleSuffix :: string where
  "ruleModuleSuffix = ''.report''"

definition ruleIDToRuleName :: "RuleID \<Rightarrow> RuleName" where
  "ruleIDToRuleName ruleID = after_last ruleID (CHR ''.'')"

definition moduleToRuleName :: "ModuleName \<Rightarrow> RuleName" where
  "moduleToRuleName module = ruleIDToRuleName (trim_suffix module ruleModuleSuffix)"

definition zero_metadata :: RuleMetadata where
  "zero_metadata = \<lparr>rm_Description = [], rm_Impact = 0, rm_Likelihood = 0, rm_Tags = []\<rparr>"

definition rule_metadata :: "RulesMap \<Rightarrow> RuleName \<Rightarrow> ErrorKey \<Rightarrow> RuleMetadata" where
  "rule_metadata ruleContent ruleName errorKey =
     (case ruleContent ruleName of
        None \<Rightarrow> zero_metadata
      | Some ek \<Rightarrow> (case ek errorKey of None \<Rightarrow> zero_metadata | Some m \<Rightarrow> m))"

text \<open>Likelihood, impact, total risk, description and tags, as the source returns them.\<close>

definition findRuleByNameAndErrorKey ::
  "RulesMap \<Rightarrow> RuleName \<Rightarrow> ErrorKey \<Rightarrow> int \<times> int \<times> int \<times> string \<times> TagsSet" where
  "findRuleByNameAndErrorKey ruleContent ruleName errorKey =
     (let val = rule_metadata ruleContent ruleName errorKey;
          likelihood = rm_Likelihood val;
          description = rm_Description val;
          impact = rm_Impact val;
          totalRisk = calculateTotalRisk likelihood impact;
          tags = MakeSetOfTags (rm_Tags val)
      in (likelihood, impact, totalRisk, description, tags))"

definition filter_values :: "EventThresholds \<Rightarrow> EventValue \<Rightarrow> (string \<rightharpoonup> int)" where
  "filter_values thresholds eventValue =
     [''likelihoodThreshold'' \<mapsto> et_Likelihood thresholds,
      ''impactThreshold'' \<mapsto> et_Impact thresholds,
      ''severityThreshold'' \<mapsto> et_Severity thresholds,
      ''totalRiskThreshold'' \<mapsto> et_TotalRisk thresholds,
      ''likelihood'' \<mapsto> evv_Likelihood eventValue,
      ''impact'' \<mapsto> evv_Impact eventValue,
      ''severity'' \<mapsto> evv_Severity eventValue,
      ''totalRisk'' \<mapsto> evv_TotalRisk eventValue]"

definition evaluateFilterExpression ::
  "evaluator \<Rightarrow> string \<Rightarrow> EventThresholds \<Rightarrow> EventValue \<Rightarrow> int option" where
  "evaluateFilterExpression evaluator eventFilter thresholds eventValue =
     evaluator eventFilter (filter_values thresholds eventValue)"

definition DefaultEventFilter :: string where
  "DefaultEventFilter = ''totalRisk >= totalRiskThreshold''"

section \<open>Severities and service log entries\<close>

definition serviceLogSeverityMap :: "int \<rightharpoonup> string" where
  "serviceLogSeverityMap = [1 \<mapsto> ''Low'', 2 \<mapsto> ''Moderate'', 3 \<mapsto> ''Important'', 4 \<mapsto> ''Critical'']"

definition getServiceLogSeverity :: "int \<Rightarrow> string" where
  "getServiceLogSeverity totalRisk =
     (if 1 \<le> totalRisk \<and> totalRisk \<le> 4
      then (case serviceLogSeverityMap totalRisk of None \<Rightarrow> [] | Some s \<Rightarrow> s)
      else ''Low'')"

fun findRenderedReport :: "RenderedReport list \<Rightarrow> RuleName \<Rightarrow> ErrorKey \<Rightarrow> RenderedReport option" where
  "findRenderedReport [] ruleName errorKey = None"
| "findRenderedReport (r # rs) ruleName errorKey =
     (if ruleIDToRuleName (rr_RuleID r) = ruleName \<and> rr_ErrorKey r = errorKey then Some r
      else findRenderedReport rs ruleName errorKey)"

definition serviceLogSummaryMaxLength :: nat where
  "serviceLogSummaryMaxLength = 255"

definition serviceLogDescriptionMaxLength :: nat where
  "serviceLogDescriptionMaxLength = 4000"

definition createServiceLogEntry ::
  "RenderedReport \<Rightarrow> ClusterEntry \<Rightarrow> string \<Rightarrow> string \<Rightarrow> string \<Rightarrow> ServiceLogEntry" where
  "createServiceLogEntry report cluster createdBy username severity =
     (let e = \<lparr>sle_ClusterUUID = ce_ClusterName cluster,
               sle_Description = rr_Reason report,
               sle_ServiceName = ''CCX Notification Service'',
               sle_Severity = severity,
               sle_Summary = rr_Description report,
               sle_CreatedBy = createdBy,
               sle_Username = username\<rparr>;
          e1 = (if length (sle_Summary e) > serviceLogSummaryMaxLength
                then e\<lparr>sle_Summary := take serviceLogSummaryMaxLength (sle_Summary e)\<rparr> else e)
      in if length (sle_Description e1) > serviceLogDescriptionMaxLength
         then e1\<lparr>sle_Description := take serviceLogDescriptionMaxLength (sle_Description e1)\<rparr> else e1)"

definition addDetailedInfoURLToRenderedReport :: "RenderedReport \<Rightarrow> string \<Rightarrow> RenderedReport" where
  "addDetailedInfoURLToRenderedReport report infoURL =
     report\<lparr>rr_Reason := rr_Reason report @ [CHR 0x0A, CHR 0x0A] @ ''[More details]('' @
       replacer [(''{module}'', rr_RuleID report), (''{error_key}'', rr_ErrorKey report)] infoURL @ '').''\<rparr>"

section \<open>Tags\<close>

definition evaluateTagFilter :: "bool \<Rightarrow> TagsSet \<Rightarrow> TagsSet \<Rightarrow> bool" where
  "evaluateTagFilter filterEnabled tagsSet reportItemTags =
     (if \<not> filterEnabled then True
      else list_all (\<lambda>neededTag. neededTag \<in> set reportItemTags) tagsSet)"

section \<open>Disabled rules\<close>

definition org_string :: "OrgID \<Rightarrow> string" where
  "org_string oid = dec_nat (unat oid)"

definition isRuleDisabled ::
  "ClusterDisabledRules \<Rightarrow> OrgDisabledRules \<Rightarrow> ClusterEntry \<Rightarrow> ModuleName \<Rightarrow> ErrorKey \<Rightarrow> bool" where
  "isRuleDisabled clusterRules orgRules cluster module errorKey =
     (let orgID = org_string (ce_OrgID cluster)
      in if \<lparr>crk_OrgID = orgID, crk_ClusterID = ce_ClusterName cluster,
             crk_RuleID = module, crk_ErrorKey = errorKey\<rparr> \<in> set clusterRules then True
         else if \<lparr>ork_OrgID = orgID, ork_RuleID = trim_suffix module ruleModuleSuffix,
             ork_ErrorKey = errorKey\<rparr> \<in> set orgRules then True
         else False)"

text \<open>The loop over the raw report items: \<open>None\<close> when one of them does not decode.\<close>

fun active_items :: "(ModuleName \<Rightarrow> ErrorKey \<Rightarrow> bool) \<Rightarrow> json list \<Rightarrow> json list option" where
  "active_items disabled [] = Some []"
| "active_items disabled (raw # raws) =
     (case decode_report_item raw of
        None \<Rightarrow> None
      | Some item \<Rightarrow>
          (case active_items disabled raws of
             None \<Rightarrow> None
           | Some rest \<Rightarrow> Some (if disabled (ri_Module item) (ri_ErrorKey item) then rest else raw # rest)))"

definition reportsJSONField :: string where
  "reportsJSONField = ''reports''"

definition filterDisabledRulesFromReport ::
  "ClusterDisabledRules \<Rightarrow> OrgDisabledRules \<Rightarrow> ClusterEntry \<Rightarrow> ClusterReport \<Rightarrow> ClusterReport" where
  "filterDisabledRulesFromReport clusterRules orgRules cluster report =
     (if clusterRules = [] \<and> orgRules = [] then report
      else case report of
        Document (JObj fs) \<Rightarrow>
          (let rawReport = raw_fields fs
           in case map_of rawReport reportsJSONField of
                Some (JArr reportItems) \<Rightarrow>
                  (case active_items (isRuleDisabled clusterRules orgRules cluster) reportItems of
                     None \<Rightarrow> report
                   | Some active \<Rightarrow>
                       if length active = length reportItems then report
                       else Document (marshal_fields (AList.update reportsJSONField (JArr active) rawReport)))
              | _ \<Rightarrow> report)
      | _ \<Rightarrow> report)"

section \<open>Names, risks, tags, severities\<close>

lemma moduleToRuleName_report [simp]:
  "CHR ''.'' \<notin> set name \<Longrightarrow> moduleToRuleName (p @ CHR ''.'' # name @ ''.report'') = name"
proof -
  assume name: "CHR ''.'' \<notin> set name"
  have "trim_suffix ((p @ CHR ''.'' # name) @ ''.report'') ''.report'' = p @ CHR ''.'' # name"
    by (rule trim_suffix_append)
  then show ?thesis
    using name by (simp add: moduleToRuleName_def ruleIDToRuleName_def ruleModuleSuffix_def)
qed

lemma calculateTotalRisk_small:
  assumes "0 \<le> i" "0 \<le> l" "i + l < 2 ^ 63"
  shows "calculateTotalRisk i l = (i + l) div 2"
proof -
  have "go_int (i + l)" and "go_int ((i + l) div 2)"
    using assms by (auto simp: go_int_def)
  then show ?thesis
    using assms by (simp add: calculateTotalRisk_def go_add_def trunc_div_nonneg)
qed

text \<open>For metadata in the range the content uses (impact and likelihood not negative,
  no overflow of their sum), the total risk lies between the smaller and the larger of the
  two, is monotone in both, and a total risk of 1 to 4 has a severity of its own.\<close>

theorem total_risk_bounds:
  assumes "0 \<le> i" "0 \<le> l" "i \<le> i'" "l \<le> l'" "i' + l' < 2 ^ 63"
  shows "min i l \<le> calculateTotalRisk i l \<and> calculateTotalRisk i l \<le> max i l
    \<and> calculateTotalRisk i l \<le> calculateTotalRisk i' l'
    \<and> (calculateTotalRisk i l \<in> {1..4} \<longrightarrow>
        getServiceLogSeverity (calculateTotalRisk i l)
          = [''Low'', ''Moderate'', ''Important'', ''Critical''] ! nat (calculateTotalRisk i l - 1))"
proof -
  have r: "calculateTotalRisk i l = (i + l) div 2" "calculateTotalRisk i' l' = (i' + l') div 2"
    using assms by (simp_all add: calculateTotalRisk_small)
  have sev: "getServiceLogSeverity k = [''Low'', ''Moderate'', ''Important'', ''Critical''] ! nat (k - 1)"
    if "k \<in> {1..4}" for k
  proof -
    from that have "k \<in> {1, 2, 3, 4}" by auto
    then show ?thesis by (auto simp: getServiceLogSeverity_def serviceLogSeverityMap_def)
  qed
  have "(i + l) div 2 \<le> (i' + l') div 2" using assms by (intro zdiv_mono1) auto
  then show ?thesis using sev r by auto
qed

theorem total_risk_bounds_witness:
  "min 3 2 \<le> calculateTotalRisk 3 2 \<and> calculateTotalRisk 3 2 \<le> calculateTotalRisk 4 2
    \<and> getServiceLogSeverity (calculateTotalRisk 3 2) = ''Moderate''"
proof -
  have "calculateTotalRisk 3 2 = 2" by (simp add: calculateTotalRisk_small)
  with total_risk_bounds [of 3 2 4 2] show ?thesis by simp
qed

lemma evaluateTagFilter_iff:
  "evaluateTagFilter en needed tags \<longleftrightarrow> \<not> en \<or> set needed \<subseteq> set tags"
  by (auto simp: evaluateTagFilter_def list_all_iff)

text \<open>An entry sent to Service Log never exceeds the limits on its text fields, keeps a
  prefix of the rendered texts (the whole text where it fits) and carries the severity and
  the cluster it was created for.\<close>

theorem service_log_entry_bounded:
  "length (sle_Summary (createServiceLogEntry r c by u s)) \<le> 255
    \<and> length (sle_Description (createServiceLogEntry r c by u s)) \<le> 4000
    \<and> sle_Summary (createServiceLogEntry r c by u s) = take 255 (rr_Description r)
    \<and> sle_Description (createServiceLogEntry r c by u s) = take 4000 (rr_Reason r)
    \<and> sle_Severity (createServiceLogEntry r c by u s) = s
    \<and> sle_ClusterUUID (createServiceLogEntry r c by u s) = ce_ClusterName c"
  by (simp add: createServiceLogEntry_def Let_def serviceLogSummaryMaxLength_def
      serviceLogDescriptionMaxLength_def)

section \<open>Matching disabled rules\<close>

lemma org_string_inject [simp]: "org_string a = org_string b \<longleftrightarrow> a = b"
  by (metis dec_nat_inject org_string_def word_unat_eq_iff)

lemma isRuleDisabled_iff:
  "isRuleDisabled cr orgr c m k \<longleftrightarrow>
     \<lparr>crk_OrgID = org_string (ce_OrgID c), crk_ClusterID = ce_ClusterName c, crk_RuleID = m, crk_ErrorKey = k\<rparr>
       \<in> set cr \<or>
     \<lparr>ork_OrgID = org_string (ce_OrgID c), ork_RuleID = trim_suffix m ruleModuleSuffix, ork_ErrorKey = k\<rparr>
       \<in> set orgr"
  by (simp add: isRuleDisabled_def Let_def)

text \<open>Disabling is scoped to the organization: rules that other organizations toggled or
  acked never disable a rule hit of this cluster, whatever their cluster, rule and error key
  are; what counts is exactly the entries of the cluster's own organization.\<close>

theorem disabled_rules_scoped_to_org:
  "isRuleDisabled cr orgr c m k
    = isRuleDisabled (filter (\<lambda>e. crk_OrgID e = org_string (ce_OrgID c)) cr)
        (filter (\<lambda>e. ork_OrgID e = org_string (ce_OrgID c)) orgr) c m k
  \<and> (\<forall>o2. o2 \<noteq> ce_OrgID c \<longrightarrow>
       \<not> isRuleDisabled (filter (\<lambda>e. crk_OrgID e = org_string o2) cr)
           (filter (\<lambda>e. ork_OrgID e = org_string o2) orgr) c m k)"
  by (auto simp: isRuleDisabled_iff)

definition acked_elsewhere :: "OrgRuleKey list" where
  "acked_elsewhere = [\<lparr>ork_OrgID = org_string 7, ork_RuleID = ''rules.r'', ork_ErrorKey = ''K''\<rparr>]"

theorem disabled_rules_scoped_to_org_witness:
  "\<not> isRuleDisabled [] acked_elsewhere
       \<lparr>ce_OrgID = 1, ce_AccountNumber = 1, ce_ClusterName = ''c'', ce_KafkaOffset = 0, ce_UpdatedAt = 0\<rparr> ''rules.r.report'' ''K''"
proof -
  let ?c = "\<lparr>ce_OrgID = 1, ce_AccountNumber = 1, ce_ClusterName = ''c'', ce_KafkaOffset = 0, ce_UpdatedAt = 0\<rparr> :: ClusterEntry"
  have "filter (\<lambda>e. ork_OrgID e = org_string (7 :: OrgID)) acked_elsewhere = acked_elsewhere"
    by (simp add: acked_elsewhere_def)
  moreover have "(7 :: OrgID) \<noteq> ce_OrgID ?c" by simp
  ultimately show ?thesis
    using disabled_rules_scoped_to_org [of "[]" acked_elsewhere ?c "''rules.r.report''" "''K''"] by fastforce
qed

section \<open>Filtering the stored report\<close>

lemma active_items_eq:
  "active_items d raws = Some act \<Longrightarrow>
     act = filter (\<lambda>j. \<not> (case decode_report_item j of None \<Rightarrow> False
        | Some i \<Rightarrow> d (ri_Module i) (ri_ErrorKey i))) raws"
  by (induction raws arbitrary: act) (auto split: option.splits)

lemma active_items_decodable:
  "decode_items raws = Some is \<Longrightarrow> \<exists>act. active_items d raws = Some act"
proof (induction raws arbitrary: "is")
  case (Cons r rs)
  then obtain i rest where i: "decode_evaluated_item r = Some i" and "decode_items rs = Some rest"
    by (auto split: option.splits)
  with Cons.IH obtain act where act: "active_items d rs = Some act" by blast
  have "\<exists>it. decode_report_item r = Some it"
    using i by (cases i; cases r) (auto dest: decode_fields_truncate
        simp: empty_evaluated_item_def empty_item_def ReportItem.truncate_def ReportItem.extend_def)
  with act show ?case by auto
qed simp

text \<open>The same JSON value decides the same way for the filter and for the comparison: the
  nil pointer of a \<open>null\<close> item counts as the empty item.\<close>

definition item_or_empty :: "EvaluatedReportItem option \<Rightarrow> EvaluatedReportItem" where
  "item_or_empty i = (case i of None \<Rightarrow> empty_evaluated_item | Some it \<Rightarrow> it)"

lemma decode_report_item_evaluated:
  "decode_evaluated_item j = Some i \<Longrightarrow>
    \<exists>r. decode_report_item j = Some r \<and> ri_Module r = ri_Module (item_or_empty i)
      \<and> ri_ErrorKey r = ri_ErrorKey (item_or_empty i)"
proof (cases i)
  case None
  assume "decode_evaluated_item j = Some i"
  with None show ?thesis
    by (cases j) (auto simp: item_or_empty_def empty_evaluated_item_def empty_item_def ReportItem.extend_def)
next
  case (Some it)
  assume "decode_evaluated_item j = Some i"
  with Some have "decode_report_item j = Some (ReportItem.truncate it)"
    by (auto intro: decode_evaluated_item_truncate)
  with Some show ?thesis by (simp add: item_or_empty_def ReportItem.truncate_def)
qed

lemma active_items_decoded:
  "decode_items raws = Some is \<Longrightarrow> active_items d raws = Some act \<Longrightarrow>
    decode_items act = Some (filter (\<lambda>i. \<not> d (ri_Module (item_or_empty i)) (ri_ErrorKey (item_or_empty i))) is)"
proof (induction raws arbitrary: "is" act)
  case (Cons r rs)
  then obtain i rest where i: "decode_evaluated_item r = Some i" and rest: "decode_items rs = Some rest"
    and is_eq: "is = i # rest"
    by (auto split: option.splits)
  from decode_report_item_evaluated [OF i] obtain it where it: "decode_report_item r = Some it"
    and eq: "ri_Module it = ri_Module (item_or_empty i)" "ri_ErrorKey it = ri_ErrorKey (item_or_empty i)"
    by blast
  from Cons.prems(2) it obtain act' where act': "active_items d rs = Some act'"
    and act: "act = (if d (ri_Module it) (ri_ErrorKey it) then act' else r # act')"
    by (auto split: option.splits)
  from Cons.IH [OF rest act'] show ?case
    by (simp add: act eq is_eq i)
qed simp

lemma decode_fields_ignored:
  "(\<And>k v. (k, v) \<in> set fs \<Longrightarrow> fold_name k \<noteq> ''reports'') \<Longrightarrow> decode_fields report_field r fs = Some r"
proof (induction fs arbitrary: r)
  case (Cons f fs)
  obtain k v where f: "f = (k, v)" by (cases f)
  have "decode_fields report_field r fs = Some r"
    using Cons.prems by (intro Cons.IH) auto
  moreover have "fold_name k \<noteq> ''reports''"
    using Cons.prems [of k v] by (simp add: f)
  ultimately show ?case by (simp add: f report_field_other)
qed simp

text \<open>A document whose only key that folds to \<open>reports\<close> is \<open>reports\<close> itself.\<close>

definition plain_reports :: "(string \<times> json) list \<Rightarrow> bool" where
  "plain_reports fs \<longleftrightarrow> distinct (map fst fs) \<and>
     (\<forall>k \<in> set (map fst fs). fold_name k = ''reports'' \<longrightarrow> k = ''reports'')"

lemma raw_fields_distinct: "distinct (map fst fs) \<Longrightarrow> raw_fields fs = fs"
proof -
  have upd: "k \<notin> fst ` set m \<Longrightarrow> AList.update k v m = m @ [(k, v)]" for k v m
    by (induction m) auto
  have "distinct (map fst (m @ fs)) \<Longrightarrow> foldl (\<lambda>m (k, v). AList.update k v m) m fs = m @ fs" for m
  proof (induction fs arbitrary: m)
    case (Cons f fs)
    obtain k v where f: "f = (k, v)" by (cases f)
    with Cons.prems have "AList.update k v m = m @ [(k, v)]" by (intro upd) auto
    with Cons.IH [of "m @ [(k, v)]"] Cons.prems show ?case by (simp add: f)
  qed simp
  from this [of "[]"] show "distinct (map fst fs) \<Longrightarrow> raw_fields fs = fs"
    by (simp add: raw_fields_def)
qed

lemma decode_fields_plain:
  assumes "plain_reports fs" and "map_of fs ''reports'' = Some v"
  shows "decode_fields report_field [] fs = report_field [] ''reports'' v"
proof -
  from assms(2) have "(''reports'', v) \<in> set fs" by (rule map_of_SomeD)
  then obtain xs ys where fs: "fs = xs @ (''reports'', v) # ys" by (auto simp: in_set_conv_decomp)
  have no: "fold_name k \<noteq> ''reports''" if "(k, w) \<in> set xs \<or> (k, w) \<in> set ys" for k w
  proof
    assume fold: "fold_name k = ''reports''"
    have kin: "k \<in> fst ` set xs \<or> k \<in> fst ` set ys" using that by force
    then have "k \<in> set (map fst fs)" by (auto simp: fs)
    with fold assms(1) have k: "k = ''reports''" unfolding plain_reports_def by blast
    have "''reports'' \<notin> fst ` set xs \<and> ''reports'' \<notin> fst ` set ys"
      using assms(1) by (simp add: fs plain_reports_def)
    with kin k show False by simp
  qed
  have xs: "decode_fields report_field [] xs = Some []"
    using no by (intro decode_fields_ignored) blast
  have ys: "decode_fields report_field r ys = Some r" for r
    using no by (intro decode_fields_ignored) blast
  show ?thesis
    by (simp add: fs decode_fields_append xs ys split: option.splits)
qed

lemma plain_reports_perm:
  assumes "mset fs = mset gs" and "plain_reports fs"
  shows "plain_reports gs"
proof -
  have m: "mset (map fst fs) = mset (map fst gs)" using assms(1) by simp
  have "distinct (map fst gs)"
    using assms(2) mset_eq_imp_distinct_iff [OF m] by (simp add: plain_reports_def)
  moreover have "set (map fst gs) = set (map fst fs)"
    using mset_eq_setD [OF m] by simp
  ultimately show ?thesis using assms(2) by (simp add: plain_reports_def)
qed

lemma plain_reports_update:
  assumes "plain_reports fs"
  shows "plain_reports (AList.update ''reports'' v fs)"
  using assms by (auto simp: plain_reports_def dom_update distinct_update)

lemma map_of_mset_eq:
  assumes "mset fs = mset gs" and "distinct (map fst fs)"
  shows "map_of fs = map_of gs"
proof
  fix k
  have m: "mset (map fst fs) = mset (map fst gs)" using assms(1) by simp
  have d: "distinct (map fst gs)" using assms(2) mset_eq_imp_distinct_iff [OF m] by simp
  have "map_of fs k = Some v \<longleftrightarrow> map_of gs k = Some v" for v
    using assms(2) d mset_eq_setD [OF assms(1)] by simp
  then show "map_of fs k = map_of gs k"
    by (metis not_None_eq)
qed

lemma marshalled_fields:
  assumes "plain_reports fs"
  shows "decode_report (Document (marshal_fields (AList.update ''reports'' (JArr js) fs))) = decode_items js"
    and "marshal_fields (AList.update ''reports'' (JArr js) fs) = JObj gs \<Longrightarrow>
         map_of gs = (map_of fs)(''reports'' \<mapsto> JArr js)"
proof -
  let ?u = "AList.update ''reports'' (JArr js) fs"
  have pu: "plain_reports ?u" using assms by (rule plain_reports_update)
  have ms: "mset ?u = mset (sort_key fst ?u)" by simp
  have ps: "plain_reports (sort_key fst ?u)" using plain_reports_perm [OF ms pu] .
  have mo: "map_of (sort_key fst ?u) = (map_of fs)(''reports'' \<mapsto> JArr js)"
    using map_of_mset_eq [OF ms] pu by (simp add: plain_reports_def update_conv')
  have "decode_fields report_field [] (sort_key fst ?u) = report_field [] ''reports'' (JArr js)"
    by (rule decode_fields_plain [OF ps]) (simp add: mo)
  then show "decode_report (Document (marshal_fields ?u)) = decode_items js"
    by (simp add: marshal_fields_def report_field_def)
  show "marshal_fields ?u = JObj gs \<Longrightarrow> map_of gs = (map_of fs)(''reports'' \<mapsto> JArr js)"
    using mo by (auto simp: marshal_fields_def)
qed

lemma filter_length_all: "length (filter P xs) = length xs \<Longrightarrow> filter P xs = xs"
  by (metis filter_False filter_id_conv length_filter_less less_irrefl)

lemma filter_report_array:
  assumes plain: "plain_reports fs" and field: "map_of fs ''reports'' = Some (JArr raws)"
    and dec: "decode_items raws = Some items" and rules: "\<not> (cr = [] \<and> orgr = [])"
    and res: "r = filterDisabledRulesFromReport cr orgr c (Document (JObj fs))"
  shows "decode_report r = Some (filter (\<lambda>i. \<not> isRuleDisabled cr orgr c (ri_Module (item_or_empty i))
                                 (ri_ErrorKey (item_or_empty i))) items)
    \<and> (\<forall>gs k. r = Document (JObj gs) \<longrightarrow> k \<noteq> ''reports'' \<longrightarrow> map_of gs k = map_of fs k)"
proof -
  let ?d = "isRuleDisabled cr orgr c"
  let ?keep = "\<lambda>i. \<not> ?d (ri_Module (item_or_empty i)) (ri_ErrorKey (item_or_empty i))"
  from active_items_decodable [OF dec] obtain act where act: "active_items ?d raws = Some act"
    by blast
  from active_items_decoded [OF dec act] have dact: "decode_items act = Some (filter ?keep items)" .
  have len: "length (filter ?keep items) = length act" "length items = length raws"
    using decode_items_length [OF dact] decode_items_length [OF dec] by simp_all
  have raw: "raw_fields fs = fs" using plain by (simp add: plain_reports_def raw_fields_distinct)
  have r: "r = (if length act = length raws then Document (JObj fs)
       else Document (marshal_fields (AList.update ''reports'' (JArr act) fs)))"
    using rules field
    by (auto simp: res filterDisabledRulesFromReport_def raw reportsJSONField_def Let_def act)
  show ?thesis
  proof (cases "length act = length raws")
    case True
    then have "filter ?keep items = items" using len by (intro filter_length_all) simp
    with True r decode_fields_plain [OF plain field] dec show ?thesis
      by (simp add: report_field_def)
  next
    case False
    with r marshalled_fields [OF plain, of act] dact show ?thesis by auto
  qed
qed

lemma filtered_report:
  assumes "plain_reports fs" and "decode_report (Document (JObj fs)) = Some items"
  shows "decode_report (filterDisabledRulesFromReport cr orgr c (Document (JObj fs)))
      = Some (filter (\<lambda>i. \<not> isRuleDisabled cr orgr c (ri_Module (item_or_empty i))
                                 (ri_ErrorKey (item_or_empty i))) items)
    \<and> (\<forall>gs k. filterDisabledRulesFromReport cr orgr c (Document (JObj fs)) = Document (JObj gs)
          \<longrightarrow> k \<noteq> ''reports'' \<longrightarrow> map_of gs k = map_of fs k)"
proof (cases "(cr = [] \<and> orgr = []) \<or> \<not> (\<exists>raws. map_of fs ''reports'' = Some (JArr raws))")
  case True
  have raw: "raw_fields fs = fs" using assms(1) by (simp add: plain_reports_def raw_fields_distinct)
  have same: "filterDisabledRulesFromReport cr orgr c (Document (JObj fs)) = Document (JObj fs)"
    using True by (auto simp: filterDisabledRulesFromReport_def raw reportsJSONField_def Let_def
        split: option.splits json.splits)
  have "items = []" if "map_of fs ''reports'' = None"
  proof -
    have "\<And>k v. (k, v) \<in> set fs \<Longrightarrow> fold_name k \<noteq> ''reports''"
      using that assms(1) by (force simp: plain_reports_def map_of_eq_None_iff)
    from decode_fields_ignored [of fs "[]", OF this] assms(2) show ?thesis by simp
  qed
  moreover have "items = []" if "map_of fs ''reports'' = Some v" "\<nexists>raws. v = JArr raws" for v
    using decode_fields_plain [OF assms(1) that(1)] that(2) assms(2)
    by (cases v) (auto simp: report_field_def)
  ultimately have "cr = [] \<and> orgr = [] \<or> items = []" using True by (metis option.exhaust)
  with same assms(2) show ?thesis by (auto simp: isRuleDisabled_iff)
next
  case False
  then obtain raws where raws: "map_of fs ''reports'' = Some (JArr raws)" by blast
  with decode_fields_plain [OF assms(1)] assms(2) have "decode_items raws = Some items"
    by (simp add: report_field_def)
  with False show ?thesis using filter_report_array [OF assms(1) raws] by blast
qed

text \<open>C9. The report stored for a cluster is the original one with exactly the disabled rule
  hits left out: read back as the comparison baseline it holds the enabled hits in their
  order, and every other top level field of the document keeps its value.\<close>

theorem stored_report_omits_disabled:
  assumes "plain_reports fs" and "decode_report (Document (JObj fs)) = Some items"
  shows "decode_report (filterDisabledRulesFromReport cr orgr c (Document (JObj fs)))
      = Some (filter (\<lambda>i. \<not> isRuleDisabled cr orgr c (ri_Module (item_or_empty i))
                                 (ri_ErrorKey (item_or_empty i))) items)
    \<and> (\<forall>gs k. filterDisabledRulesFromReport cr orgr c (Document (JObj fs)) = Document (JObj gs)
          \<longrightarrow> k \<noteq> ''reports'' \<longrightarrow> map_of gs k = map_of fs k)"
  using filtered_report [OF assms] .

theorem stored_report_omits_disabled_witness:
  "decode_report (filterDisabledRulesFromReport []
      [\<lparr>ork_OrgID = org_string 7, ork_RuleID = ''ocp.rules.b'', ork_ErrorKey = ''K2''\<rparr>]
      \<lparr>ce_OrgID = 7, ce_AccountNumber = 1, ce_ClusterName = ''c1'', ce_KafkaOffset = 0, ce_UpdatedAt = 0\<rparr>
      (Document (JObj [(''reports'', JArr
        [JObj [(''component'', JStr ''ocp.rules.a.report''), (''key'', JStr ''K1'')],
         JObj [(''component'', JStr ''ocp.rules.b.report''), (''key'', JStr ''K2'')]])])))
   = Some [Some (empty_evaluated_item\<lparr>ri_Module := ''ocp.rules.a.report'', ri_ErrorKey := ''K1''\<rparr>)]"
proof -
  let ?fs = "[(''reports'', JArr
        [JObj [(''component'', JStr ''ocp.rules.a.report''), (''key'', JStr ''K1'')],
         JObj [(''component'', JStr ''ocp.rules.b.report''), (''key'', JStr ''K2'')]])]"
  let ?a = "empty_evaluated_item\<lparr>ri_Module := ''ocp.rules.a.report'', ri_ErrorKey := ''K1''\<rparr>"
  let ?b = "empty_evaluated_item\<lparr>ri_Module := ''ocp.rules.b.report'', ri_ErrorKey := ''K2''\<rparr>"
  have p: "plain_reports ?fs" by (simp add: plain_reports_def)
  have d: "decode_report (Document (JObj ?fs)) = Some [Some ?a, Some ?b]"
    by (simp add: report_field_def evaluated_field_def item_field_def)
  show ?thesis
    using stored_report_omits_disabled [OF p d, of "[]"
        "[\<lparr>ork_OrgID = org_string 7, ork_RuleID = ''ocp.rules.b'', ork_ErrorKey = ''K2''\<rparr>]"
        "\<lparr>ce_OrgID = 7, ce_AccountNumber = 1, ce_ClusterName = ''c1'', ce_KafkaOffset = 0, ce_UpdatedAt = 0\<rparr>"]
    by (simp add: isRuleDisabled_iff item_or_empty_def trim_suffix_def has_suffix_def ruleModuleSuffix_def)
qed

end
