(* ===== verification/Messages.thy ===== *)
theory Messages
  imports Rule_Filter
begin

text \<open>
  Building the message for the notification backend: the functions of \<open>differ/differ.go\<close> that
  fill a \<open>NotificationMessage\<close> and its events. The maps of strings they build are association
  lists in the order of the source. Times are printed as \<open>time.RFC3339Nano\<close> prints a time of
  whole seconds in UTC.
\<close>

section \<open>Printing a time\<close>

text \<open>Year, month and day of a day counted from 1970-01-01 in the Gregorian calendar.\<close>

definition civil_date :: "int \<Rightarrow> int \<times> int \<times> int" where
  "civil_date days =
     (let z = days + 719468;
          era = z div 146097;
          doe = z mod 146097;
          yoe = (doe - doe div 1460 + doe div 36524 - doe div 146096) div 365;
          doy = doe - (365 * yoe + yoe div 4 - yoe div 100);
          mp = (5 * doy + 2) div 153;
          d = doy - (153 * mp + 2) div 5 + 1;
          m = (if mp < 10 then mp + 3 else mp - 9);
          y = yoe + era * 400
      in (if m \<le> 2 then y + 1 else y, m, d))"

definition pad_dec :: "nat \<Rightarrow> int \<Rightarrow> string" where
  "pad_dec n i = (let s = dec_nat (nat \<bar>i\<bar>) in
     (if i < 0 then ''-'' else []) @ replicate (n - length s) (CHR ''0'') @ s)"

definition format_time :: "Timestamp \<Rightarrow> string" where
  "format_time t =
     (let (y, m, d) = civil_date (t div 86400); s = t mod 86400
      in pad_dec 4 y @ ''-'' @ pad_dec 2 m @ ''-'' @ pad_dec 2 d @ ''T'' @
         pad_dec 2 (s div 3600) @ '':'' @ pad_dec 2 (s div 60 mod 60) @ '':'' @ pad_dec 2 (s mod 60) @ ''Z'')"

section \<open>The message\<close>

record NotificationURLs =
  url_ClusterDetails :: string
  url_RuleDetails :: string
  url_InsightsAdvisor :: string

definition setupNotificationURLs :: "NotificationsConfiguration \<Rightarrow> NotificationURLs" where
  "setupNotificationURLs config = \<lparr>url_ClusterDetails = nc_ClusterDetailsURI config,
     url_RuleDetails = nc_RuleDetailsURI config, url_InsightsAdvisor = nc_InsightsAdvisorURL config\<rparr>"

definition generateInstantNotificationMessage ::
  "Timestamp \<Rightarrow> string \<Rightarrow> string \<Rightarrow> string \<Rightarrow> string \<Rightarrow> NotificationMessage" where
  "generateInstantNotificationMessage now clusterURI accountID orgID clusterID =
     \<lparr>nm_Bundle = ''openshift'', nm_Application = ''advisor'',
      nm_EventType = EventType_ToString InstantNotif, nm_Timestamp = format_time now,
      nm_AccountID = accountID, nm_OrgID = orgID, nm_Events = [],
      nm_Context = [(''display_name'', clusterID),
                    (''host_url'', replace_first ''{cluster_id}'' clusterID clusterURI)]\<rparr>"

definition generateNotificationPayloadURL ::
  "string \<Rightarrow> string \<Rightarrow> ModuleName \<Rightarrow> ErrorKey \<Rightarrow> string" where
  "generateNotificationPayloadURL ruleURI clusterID module errorKey =
     (let parsedModule = replace_byte (CHR ''.'') (CHR ''|'') module
      in replacer [(''{cluster_id}'', clusterID), (''{module}'', parsedModule), (''{error_key}'', errorKey)] ruleURI)"

definition appendEventToNotificationMessage ::
  "string \<Rightarrow> NotificationMessage \<Rightarrow> string \<Rightarrow> int \<Rightarrow> string \<Rightarrow> NotificationMessage" where
  "appendEventToNotificationMessage url notification ruleDescription totalRisk publishDate =
     notification\<lparr>nm_Events := nm_Events notification @
       [\<lparr>ev_Payload = [(''rule_description'', ruleDescription), (''rule_url'', url),
          (''total_risk'', dec_int totalRisk), (''publish_date'', publishDate)]\<rparr>]\<rparr>"

section \<open>Substituting into the URLs\<close>

text \<open>A text in which no placeholder starts is copied.\<close>

lemma replacer_literal:
  assumes "CHR ''{'' \<notin> set u" and "\<forall>(old, new) \<in> set ps. \<exists>k. old = CHR ''{'' # k"
  shows "replacer ps (u @ s) = u @ replacer ps s"
  using assms(1)
proof (induction u)
  case (Cons c u)
  then have "\<not> has_prefix (c # u @ s) old" if "(old, new) \<in> set ps" for old new
    using that assms(2) by (auto simp: has_prefix_def)
  then have "find (\<lambda>(old, new). old \<noteq> [] \<and> has_prefix (c # u @ s) old) ps = None"
    by (auto simp: find_None_iff)
  with Cons show ?case by simp
qed simp

lemma replacer_here:
  assumes "find (\<lambda>(old, new). old \<noteq> [] \<and> has_prefix (p @ s) old) ps = Some (p, new)" "p \<noteq> []"
  shows "replacer ps (p @ s) = new @ replacer ps s"
  using assms by (cases p) auto

lemma pad_dec_length: "0 \<le> i \<Longrightarrow> nat i < 10 ^ n \<Longrightarrow> 0 < n \<Longrightarrow> length (pad_dec n i) = n"
proof -
  have len: "length (dec_digits m) \<le> k" if "m < 10 ^ k" "0 < k" for m k
    using that
  proof (induction m arbitrary: k rule: dec_digits.induct)
    case (1 m)
    show ?case
    proof (cases "m < 10")
      case True
      then show ?thesis using 1 by (subst dec_digits.simps) auto
    next
      case False
      then obtain j where k: "k = Suc j" and j: "0 < j"
        using 1(2,3) by (cases k; cases "k - 1") auto
      with 1 False have "length (dec_digits (m div 10)) \<le> j" by (auto simp: less_mult_imp_div_less mult.commute)
      then show ?thesis using False k by (subst dec_digits.simps) auto
    qed
  qed
  assume "0 \<le> i" "nat i < 10 ^ n" "0 < n"
  with len [of "nat i" n] show ?thesis by (simp add: pad_dec_def Let_def dec_nat_def)
qed

text \<open>The URL of a rule in a message is the template with every placeholder replaced, in one
  pass: what is substituted is never scanned again, so a cluster name or error key that
  itself looks like a placeholder stays as it is, and the dots of the module become bars.\<close>

theorem payload_url_substitutes:
  assumes "CHR ''{'' \<notin> set a" "CHR ''{'' \<notin> set b" "CHR ''{'' \<notin> set c" "CHR ''{'' \<notin> set d"
  shows "generateNotificationPayloadURL
      (a @ ''{cluster_id}'' @ b @ ''{module}'' @ c @ ''{error_key}'' @ d) cluster module key
    = a @ cluster @ b @ replace_byte (CHR ''.'') (CHR ''|'') module @ c @ key @ d"
proof -
  let ?ps = "[(''{cluster_id}'', cluster), (''{module}'', replace_byte (CHR ''.'') (CHR ''|'') module),
      (''{error_key}'', key)]"
  have lit: "CHR ''{'' \<notin> set u \<Longrightarrow> replacer ?ps (u @ s) = u @ replacer ?ps s" for u s
    by (rule replacer_literal) auto
  have d: "replacer ?ps d = d" using lit [of d "[]"] assms by simp
  have 1: "replacer ?ps (''{cluster_id}'' @ s) = cluster @ replacer ?ps s" for s
    by (rule replacer_here) (auto simp: has_prefix_def)
  have 2: "replacer ?ps (''{module}'' @ s) = replace_byte (CHR ''.'') (CHR ''|'') module @ replacer ?ps s" for s
    by (rule replacer_here) (auto simp: has_prefix_def)
  have 3: "replacer ?ps (''{error_key}'' @ s) = key @ replacer ?ps s" for s
    by (rule replacer_here) (auto simp: has_prefix_def)
  show ?thesis
    unfolding generateNotificationPayloadURL_def Let_def
    by (simp only: lit assms 1 2 3 d not_False_eq_True)
qed

theorem payload_url_substitutes_witness:
  "generateNotificationPayloadURL
     (''https://x/'' @ ''{cluster_id}'' @ ''?first='' @ ''{module}'' @ ''|'' @ ''{error_key}'' @ '''')
     ''{module}'' ''a.b'' ''KEY'' = ''https://x/{module}?first=a|b|KEY''"
  by (subst payload_url_substitutes) (auto simp: replace_byte_def)

end
