(* ===== verification/Storage.thy ===== *)
theory Storage
  imports Configuration
begin

text \<open>
  The storage of the service: \<open>differ/storage.go\<close>. The SQL statements of the source are
  written out over tables that are lists of rows in insertion order. The engine itself can
  fail: \<open>db_err\<close> says for every call whether and how it does, \<open>db_now\<close> is its \<open>NOW()\<close> and
  \<open>db_interval\<close> the number of seconds of a text cast to \<open>INTERVAL\<close> (\<open>None\<close>: the cast fails).
  \<open>SELECT DISTINCT ON (cluster) .. ORDER BY cluster, t DESC\<close> keeps one row for each cluster, a
  row with the greatest \<open>t\<close> (the first such row of the table).
\<close>

section \<open>Tables\<close>

record new_report =
  new_OrgID :: OrgID
  new_AccountNumber :: AccountNumber
  new_ClusterName :: ClusterName
  new_Report :: ClusterReport
  new_UpdatedAt :: Timestamp
  new_KafkaOffset :: KafkaOffset

record read_error =
  re_OrgID :: OrgID
  re_ClusterName :: ClusterName
  re_UpdatedAt :: Timestamp
  re_CreatedAt :: Timestamp
  re_ErrorText :: string

record cluster_rule_toggle =
  crt_OrgID :: string
  crt_ClusterID :: ClusterName
  crt_RuleID :: RuleID
  crt_ErrorKey :: ErrorKey
  crt_Disabled :: int

datatype db_error = ErrNoRows | DBError string

fun db_error_text :: "db_error \<Rightarrow> string" where
  "db_error_text ErrNoRows = ''sql: no rows in result set''"
| "db_error_text (DBError t) = t"

datatype db_op =
  OpClose
| OpReadNotificationTypes
| OpReadStates
| OpReadClusterList
| OpReadReportAtTime OrgID ClusterName Timestamp
| OpReadReportAtOffset OrgID ClusterName KafkaOffset
| OpReadReport OrgID ClusterName
| OpWriteRecord ClusterName
| OpReadErrorExists OrgID ClusterName
| OpWriteReadError OrgID ClusterName
| OpReadLastNotified
| OpReadToggles
| OpReadDisables
| OpDelete
| OpCleanup
| OpPrint

record database =
  db_driver :: DBDriver
  db_new_reports :: "new_report list"
  db_reported :: "NotificationRecord list"
  db_read_errors :: "read_error list"
  db_notification_types :: "NotificationType list"
  db_states :: "State list"
  db_toggles :: "cluster_rule_toggle list"
  db_disables :: "OrgRuleKey list"
  db_now :: Timestamp
  db_interval :: "string \<Rightarrow> int option"
  db_err :: "db_op \<Rightarrow> string option"

definition db_call :: "database \<Rightarrow> db_op \<Rightarrow> db_error + 'a \<Rightarrow> db_error + 'a" where
  "db_call db c r = (case db_err db c of Some e \<Rightarrow> Inl (DBError e) | None \<Rightarrow> r)"

section \<open>Connections and query texts\<close>

definition inClauseFromStringSlice :: "string list \<Rightarrow> string" where
  "inClauseFromStringSlice items =
     (if items = [] then []
      else [CHR 0x27] @ concat (map (\<lambda>s. s @ [CHR 0x27, CHR '','', CHR 0x27]) (butlast items)) @ last items @ [CHR 0x27])"

definition initAndGetDriver :: "StorageConfiguration \<Rightarrow> string + DBDriver \<times> string \<times> string" where
  "initAndGetDriver c =
     (if sc_Driver c = ''sqlite3'' then Inr (DBDriverSQLite3, sc_Driver c, [])
      else if sc_Driver c = ''postgres'' then
        Inr (DBDriverPostgres, sc_Driver c,
          ''postgresql://'' @ sc_PGUsername c @ '':'' @ sc_PGPassword c @ ''@'' @ sc_PGHost c @ '':'' @
          dec_int (sc_PGPort c) @ ''/'' @ sc_PGDBName c @ ''?'' @ sc_PGParams c)
      else Inl (''driver '' @ sc_Driver c @ '' is not supported''))"

text \<open>\<open>NewStorage\<close>: \<open>open\<close> is \<open>sql.Open\<close> on the driver name and the data source.\<close>

definition NewStorage ::
  "(string \<Rightarrow> string \<Rightarrow> string + database) \<Rightarrow> StorageConfiguration \<Rightarrow> string + database" where
  "NewStorage open_db c =
     (case initAndGetDriver c of
        Inl e \<Rightarrow> Inl e
      | Inr (driverType, driverName, dataSource) \<Rightarrow>
          (case open_db driverName dataSource of
             Inl e \<Rightarrow> Inl e
           | Inr connection \<Rightarrow> Inr (connection\<lparr>db_driver := driverType\<rparr>)))"

definition storage_Close :: "database \<Rightarrow> db_error + unit" where
  "storage_Close db = db_call db OpClose (Inr ())"

section \<open>Selecting the latest row of each cluster\<close>

text \<open>The first row with the greatest time, and the rows of \<open>DISTINCT ON\<close> in ascending
  order of the clusters.\<close>

fun latest :: "('r \<Rightarrow> Timestamp) \<Rightarrow> 'r list \<Rightarrow> 'r option" where
  "latest t [] = None"
| "latest t (r # rs) =
     (case latest t rs of
        None \<Rightarrow> Some r
      | Some r' \<Rightarrow> if t r < t r' then Some r' else Some r)"

definition distinct_on :: "('r \<Rightarrow> ClusterName) \<Rightarrow> ('r \<Rightarrow> Timestamp) \<Rightarrow> 'r list \<Rightarrow> 'r list" where
  "distinct_on key t rows =
     List.map_filter (\<lambda>k. latest t (filter (\<lambda>r. key r = k) rows)) (sort (remdups (map key rows)))"

section \<open>Reading\<close>

definition ReadNotificationTypes :: "database \<Rightarrow> db_error + NotificationType list" where
  "ReadNotificationTypes db =
     db_call db OpReadNotificationTypes (Inr (sort_key nt_ID (db_notification_types db)))"

definition ReadStates :: "database \<Rightarrow> db_error + State list" where
  "ReadStates db = db_call db OpReadStates (Inr (sort_key st_ID (db_states db)))"

definition entry_of_row :: "new_report \<Rightarrow> ClusterEntry" where
  "entry_of_row r = \<lparr>ce_OrgID = new_OrgID r, ce_AccountNumber = new_AccountNumber r,
     ce_ClusterName = new_ClusterName r, ce_KafkaOffset = new_KafkaOffset r,
     ce_UpdatedAt = new_UpdatedAt r\<rparr>"

definition ReadClusterList :: "database \<Rightarrow> db_error + ClusterEntry list" where
  "ReadClusterList db = db_call db OpReadClusterList
     (Inr (map entry_of_row (distinct_on new_ClusterName new_UpdatedAt (db_new_reports db))))"

definition query_row :: "('r \<Rightarrow> bool) \<Rightarrow> 'r list \<Rightarrow> db_error + 'r" where
  "query_row P rows = (case find P rows of None \<Rightarrow> Inl ErrNoRows | Some r \<Rightarrow> Inr r)"

definition ReadReportForClusterAtTime ::
  "database \<Rightarrow> OrgID \<Rightarrow> ClusterName \<Rightarrow> Timestamp \<Rightarrow> db_error + ClusterReport" where
  "ReadReportForClusterAtTime db oid cluster updatedAt =
     db_call db (OpReadReportAtTime oid cluster updatedAt)
       (map_sum id new_Report (query_row (\<lambda>r. new_OrgID r = oid \<and> new_ClusterName r = cluster
          \<and> new_UpdatedAt r = updatedAt) (db_new_reports db)))"

definition ReadReportForClusterAtOffset ::
  "database \<Rightarrow> OrgID \<Rightarrow> ClusterName \<Rightarrow> KafkaOffset \<Rightarrow> db_error + ClusterReport" where
  "ReadReportForClusterAtOffset db oid cluster offset =
     db_call db (OpReadReportAtOffset oid cluster offset)
       (map_sum id new_Report (query_row (\<lambda>r. new_OrgID r = oid \<and> new_ClusterName r = cluster
          \<and> new_KafkaOffset r = offset) (db_new_reports db)))"

definition ReadReportForCluster ::
  "database \<Rightarrow> OrgID \<Rightarrow> ClusterName \<Rightarrow> db_error + ClusterReport \<times> Timestamp" where
  "ReadReportForCluster db oid cluster =
     db_call db (OpReadReport oid cluster)
       (case latest new_UpdatedAt
               (filter (\<lambda>r. new_OrgID r = oid \<and> new_ClusterName r = cluster) (db_new_reports db)) of
          None \<Rightarrow> Inl ErrNoRows
        | Some r \<Rightarrow> Inr (new_Report r, new_UpdatedAt r))"

definition ReadErrorExists :: "database \<Rightarrow> OrgID \<Rightarrow> ClusterName \<Rightarrow> Timestamp \<Rightarrow> db_error + bool" where
  "ReadErrorExists db oid cluster updatedAt =
     db_call db (OpReadErrorExists oid cluster)
       (Inr (\<exists>r \<in> set (db_read_errors db).
          re_OrgID r = oid \<and> re_ClusterName r = cluster \<and> re_UpdatedAt r = updatedAt))"

section \<open>Cool down\<close>

definition is_space :: "char \<Rightarrow> bool" where
  "is_space c \<longleftrightarrow> c \<in> {CHR 0x20, CHR 0x09, CHR 0x0A, CHR 0x0B, CHR 0x0C, CHR 0x0D}"

text \<open>An offset that is blank, or whose first word is \<open>0\<close>, switches the cool down off.\<close>

definition no_cooldown :: "string \<Rightarrow> bool" where
  "no_cooldown timeOffset \<longleftrightarrow>
     list_all is_space timeOffset \<or> hd (split_on (CHR '' '') timeOffset) = ''0''"

text \<open>The inner query: the sent records (state 1) of the target, of the organizations and of
  the clusters given, the last one for each cluster; the outer one keeps those that are not
  older than the interval.\<close>

definition last_notified_rows ::
  "database \<Rightarrow> ClusterEntry list \<Rightarrow> EventTarget \<Rightarrow> NotificationRecord list" where
  "last_notified_rows db entries target =
     distinct_on nr_ClusterName nr_NotifiedAt
       (filter (\<lambda>r. nr_EventTarget r = target \<and> nr_StateID r = 1
          \<and> nr_OrgID r \<in> set (map ce_OrgID entries)
          \<and> nr_ClusterName r \<in> set (map ce_ClusterName entries)) (db_reported db))"

text \<open>The record kept in memory holds the scanned columns only.\<close>

definition scanned_record :: "NotificationRecord \<Rightarrow> NotificationRecord" where
  "scanned_record r = \<lparr>nr_OrgID = nr_OrgID r, nr_AccountNumber = 0, nr_ClusterName = nr_ClusterName r,
     nr_UpdatedAt = 0, nr_NotificationTypeID = 0, nr_StateID = 0, nr_Report = nr_Report r,
     nr_NotifiedAt = nr_NotifiedAt r, nr_ErrorLog = [], nr_EventTarget = nr_EventTarget r\<rparr>"

definition ReadLastNotifiedRecordForClusterList ::
  "database \<Rightarrow> ClusterEntry list \<Rightarrow> string \<Rightarrow> EventTarget \<Rightarrow> db_error + NotifiedRecordsPerCluster" where
  "ReadLastNotifiedRecordForClusterList db entries timeOffset target =
     (if entries = [] then Inr Map.empty
      else if no_cooldown timeOffset then Inr Map.empty
      else db_call db OpReadLastNotified
        (case db_interval db timeOffset of
           None \<Rightarrow> Inl (DBError ''invalid input syntax for type interval'')
         | Some off \<Rightarrow>
             Inr (map_of (map (\<lambda>r. ((nr_OrgID r, nr_ClusterName r), scanned_record r))
                    (rev (filter (\<lambda>r. db_now db - off < nr_NotifiedAt r) (last_notified_rows db entries target)))))))"

section \<open>Writing\<close>

definition WriteNotificationRecordImpl :: "database \<Rightarrow> NotificationRecord \<Rightarrow> db_error option \<times> database" where
  "WriteNotificationRecordImpl db r =
     (case db_err db (OpWriteRecord (nr_ClusterName r)) of
        Some e \<Rightarrow> (Some (DBError e), db)
      | None \<Rightarrow> (None, db\<lparr>db_reported := db_reported db @ [r]\<rparr>))"

definition WriteNotificationRecord :: "database \<Rightarrow> NotificationRecord \<Rightarrow> db_error option \<times> database" where
  "WriteNotificationRecord db r =
     WriteNotificationRecordImpl db (r\<lparr>nr_EventTarget := NotificationBackendTarget\<rparr>)"

definition WriteNotificationRecordForCluster ::
  "database \<Rightarrow> ClusterEntry \<Rightarrow> NotificationTypeID \<Rightarrow> StateID \<Rightarrow> ClusterReport \<Rightarrow> Timestamp \<Rightarrow> string \<Rightarrow>
   EventTarget \<Rightarrow> db_error option \<times> database" where
  "WriteNotificationRecordForCluster db entry typeID stateID report notifiedAt errorLog target =
     WriteNotificationRecordImpl db
       \<lparr>nr_OrgID = ce_OrgID entry, nr_AccountNumber = ce_AccountNumber entry,
        nr_ClusterName = ce_ClusterName entry, nr_UpdatedAt = ce_UpdatedAt entry,
        nr_NotificationTypeID = typeID, nr_StateID = stateID, nr_Report = report,
        nr_NotifiedAt = notifiedAt, nr_ErrorLog = errorLog, nr_EventTarget = target\<rparr>"

definition WriteReadError ::
  "database \<Rightarrow> OrgID \<Rightarrow> ClusterName \<Rightarrow> Timestamp \<Rightarrow> Timestamp \<Rightarrow> string \<Rightarrow> db_error option \<times> database" where
  "WriteReadError db oid cluster lastChecked createdAt errorText =
     (if db_driver db \<noteq> DBDriverSQLite3 \<and> db_driver db \<noteq> DBDriverPostgres
      then (Some (DBError ''writing error with DB is not supported''), db)
      else case db_err db (OpWriteReadError oid cluster) of
        Some e \<Rightarrow> (Some (DBError e), db)
      | None \<Rightarrow> (None, db\<lparr>db_read_errors := db_read_errors db @
          [\<lparr>re_OrgID = oid, re_ClusterName = cluster, re_UpdatedAt = lastChecked,
            re_CreatedAt = createdAt, re_ErrorText = errorText\<rparr>]\<rparr>))"

section \<open>Disabled rules of the aggregator database\<close>

definition ReadClusterRuleToggles :: "database \<Rightarrow> db_error + ClusterDisabledRules" where
  "ReadClusterRuleToggles db = db_call db OpReadToggles
     (Inr (remdups (map (\<lambda>r. \<lparr>crk_OrgID = crt_OrgID r, crk_ClusterID = crt_ClusterID r,
             crk_RuleID = crt_RuleID r, crk_ErrorKey = crt_ErrorKey r\<rparr>)
           (filter (\<lambda>r. crt_Disabled r = 1) (db_toggles db)))))"

definition ReadOrgRuleDisables :: "database \<Rightarrow> db_error + OrgDisabledRules" where
  "ReadOrgRuleDisables db = db_call db OpReadDisables (Inr (remdups (db_disables db)))"

section \<open>Deleting and displaying old rows\<close>

text \<open>A \<open>DELETE\<close> with its number of affected rows.\<close>

definition delete_rows :: "('r \<Rightarrow> bool) \<Rightarrow> 'r list \<Rightarrow> 'r list \<times> int" where
  "delete_rows P rows = (filter (\<lambda>r. \<not> P r) rows, int (length (filter P rows)))"

definition DeleteRowFromNewReports ::
  "database \<Rightarrow> OrgID \<Rightarrow> ClusterName \<Rightarrow> Timestamp \<Rightarrow> db_error + database \<times> int" where
  "DeleteRowFromNewReports db oid cluster updatedAt = db_call db OpDelete
     (let (rows, n) = delete_rows (\<lambda>r. new_OrgID r = oid \<and> new_ClusterName r = cluster
            \<and> new_UpdatedAt r = updatedAt) (db_new_reports db)
      in Inr (db\<lparr>db_new_reports := rows\<rparr>, n))"

definition DeleteRowFromReported ::
  "database \<Rightarrow> OrgID \<Rightarrow> ClusterName \<Rightarrow> Timestamp \<Rightarrow> db_error + database \<times> int" where
  "DeleteRowFromReported db oid cluster notifiedAt = db_call db OpDelete
     (let (rows, n) = delete_rows (\<lambda>r. nr_OrgID r = oid \<and> nr_ClusterName r = cluster
            \<and> nr_NotifiedAt r = notifiedAt) (db_reported db)
      in Inr (db\<lparr>db_reported := rows\<rparr>, n))"

definition bad_interval :: db_error where
  "bad_interval = DBError ''invalid input syntax for type interval''"

definition CleanupNewReports :: "database \<Rightarrow> string \<Rightarrow> db_error + database \<times> int" where
  "CleanupNewReports db maxAge = db_call db OpCleanup
     (case db_interval db maxAge of
        None \<Rightarrow> Inl bad_interval
      | Some age \<Rightarrow>
          (let (rows, n) = delete_rows (\<lambda>r. new_UpdatedAt r < db_now db - age) (db_new_reports db)
           in Inr (db\<lparr>db_new_reports := rows\<rparr>, n)))"

definition CleanupOldReports :: "database \<Rightarrow> string \<Rightarrow> db_error + database \<times> int" where
  "CleanupOldReports db maxAge = db_call db OpCleanup
     (case db_interval db maxAge of
        None \<Rightarrow> Inl bad_interval
      | Some age \<Rightarrow>
          (let (rows, n) = delete_rows (\<lambda>r. nr_UpdatedAt r < db_now db - age) (db_reported db)
           in Inr (db\<lparr>db_reported := rows\<rparr>, n)))"

text \<open>One line of the display: organization, account, cluster, time, and the age in days,
  rounded up, at the time \<open>now\<close> of the caller.\<close>

definition age_in_days :: "Timestamp \<Rightarrow> Timestamp \<Rightarrow> int" where
  "age_in_days now updatedAt = - ((- (now - updatedAt)) div 86400)"

type_synonym printed_report = "OrgID \<times> AccountNumber \<times> ClusterName \<times> Timestamp \<times> int"

definition PrintNewReportsForCleanup :: "database \<Rightarrow> Timestamp \<Rightarrow> string \<Rightarrow> db_error + printed_report list" where
  "PrintNewReportsForCleanup db now maxAge = db_call db OpPrint
     (case db_interval db maxAge of
        None \<Rightarrow> Inl bad_interval
      | Some age \<Rightarrow> Inr (map (\<lambda>r. (new_OrgID r, new_AccountNumber r, new_ClusterName r, new_UpdatedAt r,
            age_in_days now (new_UpdatedAt r)))
          (sort_key new_UpdatedAt (filter (\<lambda>r. new_UpdatedAt r < db_now db - age) (db_new_reports db)))))"

definition PrintOldReportsForCleanup :: "database \<Rightarrow> Timestamp \<Rightarrow> string \<Rightarrow> db_error + printed_report list" where
  "PrintOldReportsForCleanup db now maxAge = db_call db OpPrint
     (case db_interval db maxAge of
        None \<Rightarrow> Inl bad_interval
      | Some age \<Rightarrow> Inr (map (\<lambda>r. (nr_OrgID r, nr_AccountNumber r, nr_ClusterName r, nr_UpdatedAt r,
            age_in_days now (nr_UpdatedAt r)))
          (sort_key nr_UpdatedAt (filter (\<lambda>r. nr_UpdatedAt r < db_now db - age) (db_reported db)))))"


section \<open>The latest row\<close>

lemma latest_None [simp]: "latest t rs = None \<longleftrightarrow> rs = []"
  by (cases rs) (auto split: option.splits)

lemma latest_SomeD: "latest t rs = Some r \<Longrightarrow> r \<in> set rs \<and> (\<forall>r' \<in> set rs. t r' \<le> t r)"
proof (induction rs arbitrary: r)
  case (Cons x xs)
  show ?case
  proof (cases "latest t xs")
    case None
    with Cons.prems show ?thesis by simp
  next
    case (Some y)
    from Cons.IH [OF Some] Cons.prems Some show ?thesis by (auto split: if_splits)
  qed
qed simp

lemma latest_unique:
  "r \<in> set rs \<Longrightarrow> (\<And>r'. r' \<in> set rs \<Longrightarrow> r' \<noteq> r \<Longrightarrow> t r' < t r) \<Longrightarrow> latest t rs = Some r"
proof (cases "latest t rs")
  case (Some r')
  assume "r \<in> set rs" and gt: "\<And>r'. r' \<in> set rs \<Longrightarrow> r' \<noteq> r \<Longrightarrow> t r' < t r"
  with latest_SomeD [OF Some] have "r' = r" by force
  with Some show ?thesis by simp
qed auto

lemma set_distinct_on:
  "r \<in> set (distinct_on key t rows) \<longleftrightarrow>
     latest t (filter (\<lambda>r'. key r' = key r) rows) = Some r"
proof
  assume "r \<in> set (distinct_on key t rows)"
  then obtain k where k: "latest t (filter (\<lambda>r'. key r' = k) rows) = Some r"
    by (auto simp: distinct_on_def List.map_filter_def)
  with latest_SomeD [OF k] show "latest t (filter (\<lambda>r'. key r' = key r) rows) = Some r" by auto
next
  assume r: "latest t (filter (\<lambda>r'. key r' = key r) rows) = Some r"
  with latest_SomeD [OF r] have "key r \<in> set (map key rows)" by auto
  with r show "r \<in> set (distinct_on key t rows)"
    by (force simp: distinct_on_def List.map_filter_def)
qed

lemma map_filter_keys:
  "(\<And>k r. k \<in> set ks \<Longrightarrow> f k = Some r \<Longrightarrow> key r = k) \<Longrightarrow>
    map key (List.map_filter f ks) = filter (\<lambda>k. f k \<noteq> None) ks"
  by (induction ks) (auto simp: List.map_filter_simps split: option.splits)

lemma keys_distinct_on: "map key (distinct_on key t rows) = sort (remdups (map key rows))"
proof -
  let ?f = "\<lambda>k. latest t (filter (\<lambda>r. key r = k) rows)"
  have "map key (distinct_on key t rows) = filter (\<lambda>k. ?f k \<noteq> None) (sort (remdups (map key rows)))"
    unfolding distinct_on_def by (rule map_filter_keys) (auto dest: latest_SomeD)
  also have "\<dots> = sort (remdups (map key rows))"
    by (intro filter_True) (auto simp: filter_empty_conv)
  finally show ?thesis .
qed

lemma distinct_on_unique:
  "r \<in> set (distinct_on key t rows) \<Longrightarrow> r' \<in> set (distinct_on key t rows) \<Longrightarrow> key r = key r' \<Longrightarrow> r = r'"
  by (simp add: set_distinct_on)

text \<open>When the engine answers, the cluster list names every cluster of \<open>new_reports\<close>
  exactly once, in ascending order, each with a row of that table that no other row of the
  same cluster is newer than.\<close>

theorem cluster_list_latest:
  assumes "ReadClusterList db = Inr cs"
  shows "map ce_ClusterName cs = sort (remdups (map new_ClusterName (db_new_reports db)))
    \<and> (\<forall>c \<in> set cs. \<exists>r \<in> set (db_new_reports db). c = entry_of_row r
         \<and> (\<forall>r' \<in> set (db_new_reports db). new_ClusterName r' = new_ClusterName r
               \<longrightarrow> new_UpdatedAt r' \<le> new_UpdatedAt r))"
proof -
  let ?rows = "distinct_on new_ClusterName new_UpdatedAt (db_new_reports db)"
  have cs: "cs = map entry_of_row ?rows"
    using assms by (auto simp: ReadClusterList_def db_call_def split: option.splits)
  have "map ce_ClusterName cs = map new_ClusterName ?rows"
    by (simp add: cs entry_of_row_def)
  moreover have "\<exists>r \<in> set (db_new_reports db). c = entry_of_row r
         \<and> (\<forall>r' \<in> set (db_new_reports db). new_ClusterName r' = new_ClusterName r
               \<longrightarrow> new_UpdatedAt r' \<le> new_UpdatedAt r)" if c: "c \<in> set cs" for c
  proof -
    from c cs obtain r where r: "r \<in> set ?rows" "c = entry_of_row r" by auto
    with latest_SomeD [of new_UpdatedAt _ r] show ?thesis by (fastforce simp: set_distinct_on)
  qed
  ultimately show ?thesis by (simp add: keys_distinct_on)
qed

definition example_db :: database where
  "example_db = \<lparr>db_driver = DBDriverPostgres,
     db_new_reports =
       [\<lparr>new_OrgID = 1, new_AccountNumber = 1, new_ClusterName = ''c1'', new_Report = Document JNull,
         new_UpdatedAt = 100, new_KafkaOffset = 1\<rparr>,
        \<lparr>new_OrgID = 1, new_AccountNumber = 1, new_ClusterName = ''c1'', new_Report = Document JNull,
         new_UpdatedAt = 300, new_KafkaOffset = 2\<rparr>],
     db_reported = [], db_read_errors = [], db_notification_types = [], db_states = [],
     db_toggles = [], db_disables = [], db_now = 1000, db_interval = (\<lambda>_. Some 500), db_err = (\<lambda>_. None)\<rparr>"

theorem cluster_list_latest_witness:
  "\<exists>c. ReadClusterList example_db = Inr [c] \<and> ce_ClusterName c = ''c1'' \<and> ce_UpdatedAt c = 300"
proof -
  let ?cs = "[\<lparr>ce_OrgID = 1, ce_AccountNumber = 1, ce_ClusterName = ''c1'', ce_KafkaOffset = 2, ce_UpdatedAt = 300\<rparr>]"
  have r: "ReadClusterList example_db = Inr ?cs"
    by (simp add: ReadClusterList_def db_call_def example_db_def distinct_on_def entry_of_row_def
        List.map_filter_def)
  from cluster_list_latest [OF r] r show ?thesis by auto
qed

section \<open>Clean up\<close>

lemma delete_rows_partition:
  "delete_rows P rows = (rest, n) \<Longrightarrow> rest = filter (\<lambda>r. \<not> P r) rows \<and> n = int (length rows - length rest)"
  using sum_length_filter_compl [of P rows] by (auto simp: delete_rows_def)

text \<open>Cleaning up \<open>new_reports\<close> deletes exactly the rows its display would show, the
  reported count is their number, what stays is not older than the age given, in its
  order, and no other table changes.\<close>

theorem cleanup_new_reports_exact:
  assumes "CleanupNewReports db maxAge = Inr (db', n)"
  shows "\<exists>age. db_interval db maxAge = Some age
    \<and> db' = db\<lparr>db_new_reports := filter (\<lambda>r. db_now db - age \<le> new_UpdatedAt r) (db_new_reports db)\<rparr>
    \<and> (\<forall>now shown. PrintNewReportsForCleanup db now maxAge = Inr shown \<longrightarrow> n = int (length shown)
         \<and> (\<forall>r \<in> set (db_new_reports db). r \<notin> set (db_new_reports db') \<longrightarrow>
              (\<exists>line \<in> set shown. fst line = new_OrgID r \<and> fst (snd (snd line)) = new_ClusterName r)))"
proof -
  from assms obtain age where age: "db_interval db maxAge = Some age"
    by (auto simp: CleanupNewReports_def db_call_def split: option.splits)
  let ?old = "\<lambda>r. new_UpdatedAt r < db_now db - age"
  have eq: "filter (\<lambda>r. \<not> ?old r) (db_new_reports db)
      = filter (\<lambda>r. db_now db - age \<le> new_UpdatedAt r) (db_new_reports db)"
    by (rule filter_cong) auto
  have db': "db' = db\<lparr>db_new_reports := filter (\<lambda>r. \<not> ?old r) (db_new_reports db)\<rparr>"
    and n: "n = int (length (filter ?old (db_new_reports db)))"
    using assms age
    by (auto simp: CleanupNewReports_def db_call_def delete_rows_def split: option.splits)
  have "n = int (length shown)
         \<and> (\<forall>r \<in> set (db_new_reports db). r \<notin> set (db_new_reports db') \<longrightarrow>
              (\<exists>line \<in> set shown. fst line = new_OrgID r \<and> fst (snd (snd line)) = new_ClusterName r))"
    if "PrintNewReportsForCleanup db now maxAge = Inr shown" for now shown
    using that age n
    by (auto simp: PrintNewReportsForCleanup_def db_call_def db' split: option.splits)
  with age db' eq show ?thesis by auto
qed

theorem cleanup_new_reports_exact_witness:
  "\<exists>db'. CleanupNewReports example_db ''90 days'' = Inr (db', 2) \<and> db_new_reports db' = []"
proof -
  have r: "CleanupNewReports example_db ''90 days'' = Inr (example_db\<lparr>db_new_reports := []\<rparr>, 2)"
    by (simp add: CleanupNewReports_def db_call_def example_db_def delete_rows_def)
  from cleanup_new_reports_exact [OF r] r show ?thesis by auto
qed

end
