(* ===== verification/Comparator.thy ===== *)
theory Comparator
  imports Messages Storage
begin

text \<open>
  Comparing a report with the one last sent, and recording the outcome for a cluster:
  \<open>differ/comparator.go\<close>, with the counters of \<open>differ/metrics.go\<close> it moves. The state of a
  run is a record: the database, the notifier (\<open>None\<close> for the nil interface value), the
  counters and the global variables that hold the identifiers of the states and of the
  notification types and the URLs of the messages; \<open>w_clock\<close> counts the readings of the clock. A step that does not return to its caller is \<open>Inl\<close>: a panic (nil
  dereference), \<open>os.Exit\<close> with its code, or a call that never returns.
\<close>

datatype halt = Panic | ExitProcess int | Hangs

type_synonym 'a run = "halt + 'a"

record metrics =
  m_FetchContentErrors :: nat
  m_ReadClusterListErrors :: nat
  m_ReadReportedErrors :: nat
  m_ProducerSetupErrors :: nat
  m_StorageSetupErrors :: nat
  m_ReadReportForClusterErrors :: nat
  m_DeserializeReportErrors :: nat
  m_ReportWithHighImpact :: nat
  m_NotificationNotSentSameState :: nat
  m_NotificationNotSentErrorState :: nat
  m_NotificationSent :: nat
  m_ServiceStatus :: nat

record 'n world =
  w_db :: database
  w_notifier :: "'n option"
  w_metrics :: metrics
  w_states :: States
  w_types :: NotificationTypes
  w_urls :: NotificationURLs
  w_clock :: nat

definition count_metric :: "(metrics \<Rightarrow> metrics) \<Rightarrow> 'n world \<Rightarrow> 'n world" where
  "count_metric f w = w\<lparr>w_metrics := f (w_metrics w)\<rparr>"

definition inc_ReadReportedErrors :: "metrics \<Rightarrow> metrics" where
  "inc_ReadReportedErrors m = m\<lparr>m_ReadReportedErrors := Suc (m_ReadReportedErrors m)\<rparr>"

definition inc_ReadClusterListErrors :: "metrics \<Rightarrow> metrics" where
  "inc_ReadClusterListErrors m = m\<lparr>m_ReadClusterListErrors := Suc (m_ReadClusterListErrors m)\<rparr>"

definition inc_FetchContentErrors :: "metrics \<Rightarrow> metrics" where
  "inc_FetchContentErrors m = m\<lparr>m_FetchContentErrors := Suc (m_FetchContentErrors m)\<rparr>"

definition inc_ReadReportForClusterErrors :: "metrics \<Rightarrow> metrics" where
  "inc_ReadReportForClusterErrors m = m\<lparr>m_ReadReportForClusterErrors := Suc (m_ReadReportForClusterErrors m)\<rparr>"

definition inc_DeserializeReportErrors :: "metrics \<Rightarrow> metrics" where
  "inc_DeserializeReportErrors m = m\<lparr>m_DeserializeReportErrors := Suc (m_DeserializeReportErrors m)\<rparr>"

definition inc_ReportWithHighImpact :: "metrics \<Rightarrow> metrics" where
  "inc_ReportWithHighImpact m = m\<lparr>m_ReportWithHighImpact := Suc (m_ReportWithHighImpact m)\<rparr>"

definition inc_NotSentSameState :: "metrics \<Rightarrow> metrics" where
  "inc_NotSentSameState m = m\<lparr>m_NotificationNotSentSameState := Suc (m_NotificationNotSentSameState m)\<rparr>"

definition inc_NotSentErrorState :: "metrics \<Rightarrow> metrics" where
  "inc_NotSentErrorState m = m\<lparr>m_NotificationNotSentErrorState := Suc (m_NotificationNotSentErrorState m)\<rparr>"

definition inc_NotificationSent :: "metrics \<Rightarrow> metrics" where
  "inc_NotificationSent m = m\<lparr>m_NotificationSent := Suc (m_NotificationSent m)\<rparr>"

section \<open>States and notification types\<close>

fun getState :: "State list \<Rightarrow> string \<Rightarrow> StateID" where
  "getState [] v = -1"
| "getState (s # ss) v = (if st_Value s = v then st_ID s else getState ss v)"

fun getNotificationType :: "NotificationType list \<Rightarrow> string \<Rightarrow> NotificationTypeID" where
  "getNotificationType [] v = -1"
| "getNotificationType (t # ts) v = (if nt_Value t = v then nt_ID t else getNotificationType ts v)"

definition getNotificationTypes :: "'n world \<Rightarrow> db_error option \<times> 'n world" where
  "getNotificationTypes w =
     (case ReadNotificationTypes (w_db w) of
        Inl e \<Rightarrow> (Some e, w)
      | Inr raw \<Rightarrow> (None, w\<lparr>w_types := \<lparr>nts_Instant = getNotificationType raw ''instant'', nts_Weekly = 0\<rparr>\<rparr>))"

definition getStates :: "'n world \<Rightarrow> db_error option \<times> 'n world" where
  "getStates w =
     (case ReadStates (w_db w) of
        Inl e \<Rightarrow> (Some e, w)
      | Inr raw \<Rightarrow> (None, w\<lparr>w_states := \<lparr>sts_SameState = getState raw ''same'',
          sts_SentState = getState raw ''sent'', sts_LowerIssueState = getState raw ''lower'',
          sts_ErrorState = getState raw ''error''\<rparr>\<rparr>))"

section \<open>Comparing\<close>

definition IssuesEqual :: "EvaluatedReportItem \<Rightarrow> EvaluatedReportItem \<Rightarrow> bool" where
  "IssuesEqual issue1 issue2 \<longleftrightarrow> ri_Type issue1 = ri_Type issue2 \<and> ri_Module issue1 = ri_Module issue2
     \<and> ri_ErrorKey issue1 = ri_ErrorKey issue2"

fun IssueNotInReport :: "ReportContent \<Rightarrow> EvaluatedReportItem \<Rightarrow> bool run" where
  "IssueNotInReport [] issue = Inr True"
| "IssueNotInReport (None # old) issue = Inl Panic"
| "IssueNotInReport (Some oldIssue # old) issue =
     (if IssuesEqual oldIssue issue then Inr False else IssueNotInReport old issue)"

definition ExitStatusStorageError :: int where
  "ExitStatusStorageError = 3"

definition getNotificationResolution :: "EvaluatedReportItem \<Rightarrow> NotificationRecord \<Rightarrow> bool run" where
  "getNotificationResolution issue record =
     (case decode_report (nr_Report record) of
        None \<Rightarrow> Inl (ExitProcess ExitStatusStorageError)
      | Some oldReport \<Rightarrow> IssueNotInReport oldReport issue)"

definition ShouldNotify :: "NotifiedRecordsPerCluster \<Rightarrow> ClusterEntry \<Rightarrow> EvaluatedReportItem \<Rightarrow> bool run" where
  "ShouldNotify previously cluster issue =
     (case previously (ce_OrgID cluster, ce_ClusterName cluster) of
        None \<Rightarrow> Inr True
      | Some reported \<Rightarrow> getNotificationResolution issue reported)"

section \<open>Recording\<close>

text \<open>An error of the write is only logged.\<close>

definition write_record ::
  "'n world \<Rightarrow> ClusterEntry \<Rightarrow> StateID \<Rightarrow> ClusterReport \<Rightarrow> Timestamp \<Rightarrow> string \<Rightarrow> EventTarget \<Rightarrow> 'n world" where
  "write_record w cluster state report notifiedAt errorLog target =
     w\<lparr>w_db := snd (WriteNotificationRecordForCluster (w_db w) cluster (nts_Instant (w_types w)) state
          report notifiedAt errorLog target)\<rparr>"

definition updateNotificationRecordSameState ::
  "'n world \<Rightarrow> ClusterEntry \<Rightarrow> ClusterReport \<Rightarrow> Timestamp \<Rightarrow> EventTarget \<Rightarrow> 'n world" where
  "updateNotificationRecordSameState w cluster report notifiedAt target =
     (let w1 = count_metric inc_NotSentSameState w
      in write_record w1 cluster (sts_SameState (w_states w)) report notifiedAt [] target)"

definition updateNotificationRecordSentState ::
  "'n world \<Rightarrow> ClusterEntry \<Rightarrow> ClusterReport \<Rightarrow> Timestamp \<Rightarrow> EventTarget \<Rightarrow> 'n world" where
  "updateNotificationRecordSentState w cluster report notifiedAt target =
     (let w1 = count_metric inc_NotificationSent w
      in write_record w1 cluster (sts_SentState (w_states w)) report notifiedAt [] target)"

definition updateNotificationRecordErrorState ::
  "'n world \<Rightarrow> string \<Rightarrow> ClusterEntry \<Rightarrow> ClusterReport \<Rightarrow> Timestamp \<Rightarrow> EventTarget \<Rightarrow> 'n world" where
  "updateNotificationRecordErrorState w err cluster report notifiedAt target =
     (let w1 = count_metric inc_NotSentErrorState w
      in write_record w1 cluster (sts_ErrorState (w_states w)) report notifiedAt err target)"

definition updateNotificationRecordState ::
  "'n world \<Rightarrow> ClusterEntry \<Rightarrow> ClusterReport \<Rightarrow> int \<Rightarrow> Timestamp \<Rightarrow> EventTarget \<Rightarrow> string option \<Rightarrow> 'n world" where
  "updateNotificationRecordState w cluster report numEvents notifiedAt target err =
     (case err of
        Some e \<Rightarrow> updateNotificationRecordErrorState w e cluster report notifiedAt target
      | None \<Rightarrow>
          if numEvents = 0 then updateNotificationRecordSameState w cluster report notifiedAt target
          else if numEvents > 0 then updateNotificationRecordSentState w cluster report notifiedAt target
          else w)"

section \<open>Comparison and decoding\<close>

lemma getState_first: "getState ss v = (case find (\<lambda>s. st_Value s = v) ss of None \<Rightarrow> -1 | Some s \<Rightarrow> st_ID s)"
  by (induction ss) auto

lemma IssuesEqual_equiv: "IssuesEqual a a" "IssuesEqual a b \<Longrightarrow> IssuesEqual b a"
  "IssuesEqual a b \<Longrightarrow> IssuesEqual b c \<Longrightarrow> IssuesEqual a c"
  by (auto simp: IssuesEqual_def)

lemma IssueNotInReport_iff:
  "None \<notin> set old \<Longrightarrow>
     IssueNotInReport old issue = Inr (\<not> (\<exists>o1. Some o1 \<in> set old \<and> IssuesEqual o1 issue))"
  by (induction old issue rule: IssueNotInReport.induct) auto

lemma ShouldNotify_recalled:
  assumes "previously (ce_OrgID c, ce_ClusterName c) = Some r"
    and "decode_report (nr_Report r) = Some old" and "None \<notin> set old"
  shows "ShouldNotify previously c issue = Inr (\<not> (\<exists>o1. Some o1 \<in> set old \<and> IssuesEqual o1 issue))"
  using assms by (simp add: ShouldNotify_def getNotificationResolution_def IssueNotInReport_iff)

section \<open>What is written is found again\<close>

text \<open>
  The contract between recording and comparing: a record written for a cluster is the one a
  later run recalls for it, and writing leaves what is recalled for other clusters alone.
  \<open>current\<close> says that the time of the record is later than every record before and still
  in the cool down.
\<close>

locale notification_store =
  fixes write_sent :: "'s \<Rightarrow> ClusterEntry \<Rightarrow> ClusterReport \<Rightarrow> Timestamp \<Rightarrow> 's option"
    and recall :: "'s \<Rightarrow> ClusterEntry \<Rightarrow> ClusterReport option"
    and current :: "'s \<Rightarrow> ClusterEntry \<Rightarrow> Timestamp \<Rightarrow> bool"
  assumes recall_written: "current s c t \<Longrightarrow> write_sent s c r t = Some s' \<Longrightarrow> recall s' c = Some r"
    and recall_other: "current s c t \<Longrightarrow> write_sent s c r t = Some s' \<Longrightarrow>
      ce_ClusterName c' \<noteq> ce_ClusterName c \<Longrightarrow> recall s' c' = recall s c'"
begin

text \<open>An issue is due for notification when it is not in the recalled report.\<close>

definition due :: "'s \<Rightarrow> ClusterEntry \<Rightarrow> EvaluatedReportItem \<Rightarrow> bool" where
  "due s c issue \<longleftrightarrow>
     (case recall s c of
        None \<Rightarrow> True
      | Some r \<Rightarrow> (case decode_report r of
            None \<Rightarrow> True
          | Some old \<Rightarrow> \<not> (\<exists>o1. Some o1 \<in> set old \<and> IssuesEqual o1 issue)))"

lemma written_not_due:
  "current s c t \<Longrightarrow> write_sent s c r t = Some s' \<Longrightarrow> decode_report r = Some items \<Longrightarrow>
     Some issue \<in> set items \<Longrightarrow> \<not> due s' c issue"
  using recall_written by (fastforce simp: due_def IssuesEqual_def)

lemma unwritten_due:
  "current s c t \<Longrightarrow> write_sent s c r t = Some s' \<Longrightarrow> decode_report r = Some items \<Longrightarrow>
     (\<And>o1. Some o1 \<in> set items \<Longrightarrow> \<not> IssuesEqual o1 issue) \<Longrightarrow> due s' c issue"
  using recall_written by (fastforce simp: due_def)

lemma other_cluster_due:
  "current s c t \<Longrightarrow> write_sent s c r t = Some s' \<Longrightarrow> ce_ClusterName c' \<noteq> ce_ClusterName c \<Longrightarrow>
     due s' c' issue = due s c' issue"
  using recall_other by (simp add: due_def)

end

text \<open>The database as such a store: records are written with the state number 1, which the
  query of the last notification reads.\<close>

definition db_write_sent ::
  "NotificationTypeID \<Rightarrow> EventTarget \<Rightarrow> database \<Rightarrow> ClusterEntry \<Rightarrow> ClusterReport \<Rightarrow> Timestamp \<Rightarrow> database option" where
  "db_write_sent tid target db c report t =
     (case WriteNotificationRecordForCluster db c tid 1 report t [] target of
        (None, db') \<Rightarrow> Some db' | (Some e, db') \<Rightarrow> None)"

definition db_recall ::
  "ClusterEntry list \<Rightarrow> string \<Rightarrow> EventTarget \<Rightarrow> database \<Rightarrow> ClusterEntry \<Rightarrow> ClusterReport option" where
  "db_recall entries cooldown target db c =
     (case ReadLastNotifiedRecordForClusterList db entries cooldown target of
        Inl e \<Rightarrow> None
      | Inr m \<Rightarrow> map_option nr_Report (m (ce_OrgID c, ce_ClusterName c)))"

definition db_current ::
  "ClusterEntry list \<Rightarrow> string \<Rightarrow> EventTarget \<Rightarrow> database \<Rightarrow> ClusterEntry \<Rightarrow> Timestamp \<Rightarrow> bool" where
  "db_current entries cooldown target db c t \<longleftrightarrow>
     c \<in> set entries \<and> \<not> no_cooldown cooldown \<and> db_err db OpReadLastNotified = None \<and>
     (\<exists>off. db_interval db cooldown = Some off \<and> db_now db - off < t) \<and>
     (\<forall>r \<in> set (db_reported db). nr_ClusterName r = ce_ClusterName c \<longrightarrow> nr_NotifiedAt r < t)"


definition sent_row :: "ClusterEntry list \<Rightarrow> EventTarget \<Rightarrow> NotificationRecord \<Rightarrow> bool" where
  "sent_row entries target r \<longleftrightarrow> nr_EventTarget r = target \<and> nr_StateID r = 1
     \<and> nr_OrgID r \<in> set (map ce_OrgID entries) \<and> nr_ClusterName r \<in> set (map ce_ClusterName entries)"

text \<open>What is recalled for a cluster, from the rows of that cluster alone.\<close>

definition recalled_row ::
  "ClusterEntry list \<Rightarrow> EventTarget \<Rightarrow> Timestamp \<Rightarrow> NotificationRecord list \<Rightarrow> OrgID \<Rightarrow> ClusterName \<Rightarrow>
   NotificationRecord option" where
  "recalled_row entries target oldest rows oid cl =
     (case latest nr_NotifiedAt (filter (\<lambda>r. nr_ClusterName r = cl) (filter (sent_row entries target) rows)) of
        None \<Rightarrow> None
      | Some r \<Rightarrow> if nr_OrgID r = oid \<and> oldest < nr_NotifiedAt r then Some r else None)"

lemma map_of_rows:
  assumes "distinct (map key rows)" and "\<And>r. key r = snd (k r)"
  shows "map_of (map (\<lambda>r. (k r, f r)) (rev rows)) x = Some v \<longleftrightarrow> (\<exists>r \<in> set rows. k r = x \<and> f r = v)"
proof -
  have "map fst (map (\<lambda>r. (k r, f r)) (rev rows)) = rev (map k rows)" by (simp add: rev_map comp_def)
  moreover have "distinct (map k rows)"
    using assms by (metis (no_types, lifting) distinct_map list.map_comp list.map_cong comp_apply)
  ultimately have "distinct (map fst (map (\<lambda>r. (k r, f r)) (rev rows)))" by simp
  then show ?thesis by (subst map_of_eq_Some_iff) auto
qed

lemma ReadLastNotified_eq:
  assumes "entries \<noteq> []" "\<not> no_cooldown cd" "db_err db OpReadLastNotified = None" "db_interval db cd = Some off"
  shows "\<exists>m. ReadLastNotifiedRecordForClusterList db entries cd target = Inr m \<and>
     (\<forall>oid cl. m (oid, cl) = map_option scanned_record
        (recalled_row entries target (db_now db - off) (db_reported db) oid cl))"
proof -
  let ?all = "distinct_on nr_ClusterName nr_NotifiedAt (filter (sent_row entries target) (db_reported db))"
  let ?rows = "filter (\<lambda>r. db_now db - off < nr_NotifiedAt r) ?all"
  let ?m = "map_of (map (\<lambda>r. ((nr_OrgID r, nr_ClusterName r), scanned_record r)) (rev ?rows))"
  have last: "last_notified_rows db entries target = ?all"
    by (simp add: last_notified_rows_def sent_row_def [abs_def])
  have "distinct (map nr_ClusterName ?all)" by (simp add: keys_distinct_on)
  then have dist: "distinct (map nr_ClusterName ?rows)" by (simp add: distinct_map_filter)
  have iff: "?m (oid, cl) = Some v \<longleftrightarrow> (\<exists>r \<in> set ?rows. (nr_OrgID r, nr_ClusterName r) = (oid, cl) \<and> scanned_record r = v)"
    for oid cl v by (rule map_of_rows [OF dist]) simp
  have mem: "r \<in> set ?all \<longleftrightarrow> latest nr_NotifiedAt
      (filter (\<lambda>r'. nr_ClusterName r' = nr_ClusterName r) (filter (sent_row entries target) (db_reported db))) = Some r" for r
    by (rule set_distinct_on)
  have sub: "latest nr_NotifiedAt (filter (\<lambda>r'. nr_ClusterName r' = cl) rs) = Some r \<Longrightarrow> nr_ClusterName r = cl"
    for cl rs r by (auto dest: latest_SomeD)
  have "?m (oid, cl) = map_option scanned_record
        (recalled_row entries target (db_now db - off) (db_reported db) oid cl)" for oid cl
  proof (cases "recalled_row entries target (db_now db - off) (db_reported db) oid cl")
    case None
    have "?m (oid, cl) \<noteq> Some v" for v
      unfolding iff using None mem by (auto simp: recalled_row_def split: option.splits if_splits)
    with None show ?thesis by auto
  next
    case (Some r)
    then have "latest nr_NotifiedAt
      (filter (\<lambda>r'. nr_ClusterName r' = cl) (filter (sent_row entries target) (db_reported db))) = Some r"
      and r: "nr_OrgID r = oid" "db_now db - off < nr_NotifiedAt r"
      by (auto simp: recalled_row_def split: option.splits if_splits)
    with sub mem have "r \<in> set ?all" "nr_ClusterName r = cl" by blast+
    with r have "?m (oid, cl) = Some (scanned_record r)" unfolding iff by auto
    with Some show ?thesis by simp
  qed
  then show ?thesis
    using assms by (intro exI [of _ ?m])
      (simp add: ReadLastNotifiedRecordForClusterList_def db_call_def last)
qed

lemma db_recall_eq:
  assumes "entries \<noteq> []" "\<not> no_cooldown cd" "db_err db OpReadLastNotified = None" "db_interval db cd = Some off"
  shows "db_recall entries cd target db c = map_option nr_Report
    (recalled_row entries target (db_now db - off) (db_reported db) (ce_OrgID c) (ce_ClusterName c))"
proof -
  have "nr_Report \<circ> scanned_record = nr_Report" by (auto simp: scanned_record_def)
  with ReadLastNotified_eq [OF assms, of target] show ?thesis
    by (auto simp: db_recall_def option.map_comp)
qed

lemma db_write_sent_eq:
  "db_write_sent tid target db c rep t = Some db' \<Longrightarrow> \<exists>r. db' = db\<lparr>db_reported := db_reported db @ [r]\<rparr>
     \<and> nr_ClusterName r = ce_ClusterName c \<and> nr_OrgID r = ce_OrgID c \<and> nr_Report r = rep
     \<and> nr_NotifiedAt r = t \<and> nr_StateID r = 1 \<and> nr_EventTarget r = target"
  by (auto simp: db_write_sent_def WriteNotificationRecordForCluster_def WriteNotificationRecordImpl_def
      split: option.splits)

interpretation recorded: notification_store "db_write_sent tid target" "db_recall entries cd target" "db_current entries cd target"
  for tid target entries cd
proof (unfold_locales, goal_cases)
  case (1 db c t rep db')
  from db_write_sent_eq [OF 1(2)] obtain r where db': "db' = db\<lparr>db_reported := db_reported db @ [r]\<rparr>"
    and r: "nr_ClusterName r = ce_ClusterName c" "nr_OrgID r = ce_OrgID c" "nr_Report r = rep"
      "nr_NotifiedAt r = t" "nr_StateID r = 1" "nr_EventTarget r = target" by blast
  from 1(1) obtain off where off: "db_interval db cd = Some off" "db_now db - off < t"
    and cur: "c \<in> set entries" "\<not> no_cooldown cd" "db_err db OpReadLastNotified = None"
      "\<forall>r \<in> set (db_reported db). nr_ClusterName r = ce_ClusterName c \<longrightarrow> nr_NotifiedAt r < t"
    by (auto simp: db_current_def)
  have "latest nr_NotifiedAt (filter (\<lambda>r. nr_ClusterName r = ce_ClusterName c)
      (filter (sent_row entries target) (db_reported db @ [r]))) = Some r"
    using cur r by (intro latest_unique) (auto simp: sent_row_def)
  then have "recalled_row entries target (db_now db - off) (db_reported db @ [r]) (ce_OrgID c) (ce_ClusterName c) = Some r"
    using r off by (simp add: recalled_row_def)
  moreover have "entries \<noteq> []" using cur by auto
  ultimately show ?case using cur off r db_recall_eq [of entries cd db' off] by (auto simp: db')
next
  case (2 db c t rep db' c')
  from db_write_sent_eq [OF 2(2)] obtain r where db': "db' = db\<lparr>db_reported := db_reported db @ [r]\<rparr>"
    and r: "nr_ClusterName r = ce_ClusterName c" by blast
  from 2(1) obtain off where off: "db_interval db cd = Some off"
    and cur: "c \<in> set entries" "\<not> no_cooldown cd" "db_err db OpReadLastNotified = None"
    by (auto simp: db_current_def)
  have "recalled_row entries target (db_now db - off) (db_reported db @ [r]) (ce_OrgID c') (ce_ClusterName c')
      = recalled_row entries target (db_now db - off) (db_reported db) (ce_OrgID c') (ce_ClusterName c')"
    using 2(3) r by (simp add: recalled_row_def)
  moreover have "entries \<noteq> []" using cur by auto
  ultimately show ?case
    using cur off db_recall_eq [of entries cd db' off] db_recall_eq [of entries cd db off] by (auto simp: db')
qed


section \<open>Recording and comparing together\<close>

text \<open>What a run decides about an issue agrees with the store's notion of being due.\<close>

lemma ShouldNotify_due:
  assumes "ReadLastNotifiedRecordForClusterList db entries cd target = Inr m"
    and "\<And>r items. m (ce_OrgID c, ce_ClusterName c) = Some r \<Longrightarrow>
      \<exists>items. decode_report (nr_Report r) = Some items \<and> None \<notin> set items"
  shows "ShouldNotify m c issue = Inr (recorded.due entries cd target db c issue)"
proof (cases "m (ce_OrgID c, ce_ClusterName c)")
  case None
  then show ?thesis using assms(1) by (simp add: ShouldNotify_def recorded.due_def db_recall_def)
next
  case (Some r)
  with assms(2) obtain items where "decode_report (nr_Report r) = Some items" "None \<notin> set items" by blast
  with Some assms(1) ShouldNotify_recalled [of m c r items issue] show ?thesis
    by (simp add: recorded.due_def db_recall_def)
qed

lemma sent_state_write:
  assumes "sts_SentState (w_states w) = 1" "db_err (w_db w) (OpWriteRecord (ce_ClusterName c)) = None"
  shows "db_write_sent (nts_Instant (w_types w)) target (w_db w) c rep t
    = Some (w_db (updateNotificationRecordSentState w c rep t target))"
  using assms by (simp add: db_write_sent_def updateNotificationRecordSentState_def write_record_def
      count_metric_def Let_def WriteNotificationRecordForCluster_def WriteNotificationRecordImpl_def)

lemma sent_recalled:
  assumes "sts_SentState (w_states w) = 1"
    and "db_err (w_db w) (OpWriteRecord (ce_ClusterName c)) = None"
    and "db_current entries cd target (w_db w) c t"
    and "decode_report rep = Some items" and "None \<notin> set items"
    and "ReadLastNotifiedRecordForClusterList
      (w_db (updateNotificationRecordSentState w c rep t target)) entries cd target = Inr m"
  shows "ShouldNotify m c issue = Inr (\<not> (\<exists>o1. Some o1 \<in> set items \<and> IssuesEqual o1 issue))"
proof -
  let ?db = "w_db (updateNotificationRecordSentState w c rep t target)"
  note wr = sent_state_write [OF assms(1,2), of target rep t]
  have rec: "db_recall entries cd target ?db c = Some rep"
    by (rule recorded.recall_written [OF assms(3) wr])
  then obtain r where r: "m (ce_OrgID c, ce_ClusterName c) = Some r" "nr_Report r = rep"
    using assms(6) by (auto simp: db_recall_def)
  have "ShouldNotify m c issue = Inr (recorded.due entries cd target ?db c issue)"
    using r assms(4,5) by (intro ShouldNotify_due [OF assms(6)]) auto
  with rec assms(4) show ?thesis by (simp add: recorded.due_def)
qed

text \<open>C5. Within the cool down an issue is notified once: after the sent record of a cluster has
  been written, the next run recalls it and \<open>ShouldNotify\<close> refuses exactly the issues of the
  stored report, while every other issue of the cluster is still notified.\<close>

theorem sent_issue_not_repeated:
  assumes "sts_SentState (w_states w) = 1"
    and "db_err (w_db w) (OpWriteRecord (ce_ClusterName c)) = None"
    and "db_current entries cd target (w_db w) c t"
    and "decode_report rep = Some items" and "None \<notin> set items"
    and "ReadLastNotifiedRecordForClusterList
      (w_db (updateNotificationRecordSentState w c rep t target)) entries cd target = Inr m"
  shows "ShouldNotify m c issue = Inr (\<not> (\<exists>o1. Some o1 \<in> set items \<and> IssuesEqual o1 issue))"
  by (rule sent_recalled [OF assms])

definition example_world :: "'n option \<Rightarrow> database \<Rightarrow> 'n world" where
  "example_world p db = \<lparr>w_db = db, w_notifier = p,
     w_metrics = \<lparr>m_FetchContentErrors = 0, m_ReadClusterListErrors = 0, m_ReadReportedErrors = 0,
       m_ProducerSetupErrors = 0, m_StorageSetupErrors = 0, m_ReadReportForClusterErrors = 0,
       m_DeserializeReportErrors = 0, m_ReportWithHighImpact = 0, m_NotificationNotSentSameState = 0,
       m_NotificationNotSentErrorState = 0, m_NotificationSent = 0, m_ServiceStatus = 0\<rparr>,
     w_states = \<lparr>sts_SameState = 2, sts_SentState = 1, sts_LowerIssueState = 3, sts_ErrorState = 4\<rparr>,
     w_types = \<lparr>nts_Instant = 1, nts_Weekly = 0\<rparr>,
     w_urls = \<lparr>url_ClusterDetails = ''{cluster_id}'', url_RuleDetails = ''{module}'', url_InsightsAdvisor = []\<rparr>,
     w_clock = 0\<rparr>"

definition example_cluster :: ClusterEntry where
  "example_cluster = \<lparr>ce_OrgID = 1, ce_AccountNumber = 1, ce_ClusterName = ''c1'', ce_KafkaOffset = 2,
     ce_UpdatedAt = 300\<rparr>"

definition example_hit :: "string \<Rightarrow> json" where
  "example_hit key = JObj [(''type'', JStr ''rule''), (''component'', JStr ''rules.some_rule.report''), (''key'', JStr key)]"

definition example_item :: "string \<Rightarrow> EvaluatedReportItem" where
  "example_item key = empty_evaluated_item
     \<lparr>ri_Type := ''rule'', ri_Module := ''rules.some_rule.report'', ri_ErrorKey := key\<rparr>"

lemma decode_example_hit: "decode_evaluated_item (example_hit key) = Some (Some (example_item key))"
  by (simp add: example_hit_def example_item_def evaluated_field_def item_field_def)

lemma decode_example_report:
  "decode_report (Document (JObj [(''reports'', JArr (map example_hit keys))]))
     = Some (map (\<lambda>k. Some (example_item k)) keys)"
proof -
  have "decode_items (map example_hit keys) = Some (map (\<lambda>k. Some (example_item k)) keys)"
    by (induction keys) (auto simp: decode_example_hit)
  then show ?thesis by (simp add: report_field_def)
qed

theorem sent_issue_not_repeated_witness:
  "\<exists>m. ReadLastNotifiedRecordForClusterList
      (w_db (updateNotificationRecordSentState (example_world (None :: unit option) example_db) example_cluster
         (Document (JObj [(''reports'', JArr [example_hit ''K''])])) 900 NotificationBackendTarget))
      [example_cluster] ''1 day'' NotificationBackendTarget = Inr m
    \<and> ShouldNotify m example_cluster (example_item ''K'') = Inr False
    \<and> ShouldNotify m example_cluster (example_item ''OTHER'') = Inr True"
proof -
  let ?w = "example_world (None :: unit option) example_db"
  let ?rep = "Document (JObj [(''reports'', JArr [example_hit ''K''])])"
  let ?db = "w_db (updateNotificationRecordSentState ?w example_cluster ?rep 900 NotificationBackendTarget)"
  have dec: "decode_report ?rep = Some [Some (example_item ''K'')]"
    using decode_example_report [of "[''K'']"] by simp
  have cd: "\<not> no_cooldown ''1 day''" by (simp add: no_cooldown_def is_space_def)
  have cur: "db_current [example_cluster] ''1 day'' NotificationBackendTarget (w_db ?w) example_cluster 900"
    using cd by (simp add: db_current_def example_world_def example_db_def)
  have st: "sts_SentState (w_states ?w) = 1" "db_err (w_db ?w) (OpWriteRecord (ce_ClusterName example_cluster)) = None"
    by (simp_all add: example_world_def example_db_def)
  note wr = sent_state_write [OF st, of NotificationBackendTarget ?rep 900]
  have "db_recall [example_cluster] ''1 day'' NotificationBackendTarget ?db example_cluster = Some ?rep"
    by (rule recorded.recall_written [OF cur wr])
  then obtain m where m: "ReadLastNotifiedRecordForClusterList ?db [example_cluster] ''1 day'' NotificationBackendTarget = Inr m"
    by (auto simp: db_recall_def split: sum.splits)
  then show ?thesis
    using m sent_issue_not_repeated [OF st cur dec _ m]
    by (intro exI [of _ m]) (auto simp: IssuesEqual_def example_item_def)
qed

end
