(* ===== verification/Producers.thy ===== *)
theory Producers
  imports Configuration
begin

text \<open>
  The producers of messages: \<open>producer/producer.go\<close>, \<open>producer/kafka/kafka_producer.go\<close>,
  \<open>producer/disabled/disabled_producer.go\<close>, \<open>producer/servicelog/service_log_producer.go\<close>
  and \<open>ocmclient/ocmclient.go\<close>. The Kafka client, the HTTP client and the OCM connection are
  not in the repository: their answers are arguments, one answer for each call in the order
  of the calls. Times are nanoseconds, as \<open>time.Duration\<close> counts.
\<close>

datatype producer_message = KafkaMessage NotificationMessage | ServiceLogMessage ServiceLogEntry

text \<open>What a caller learns from \<open>ProduceMessage\<close>: partition and offset, or an error.\<close>

datatype send_result = Accepted int int | SendFailed string

section \<open>The interface\<close>

text \<open>
  What the differ relies on: a message counts as sent when the result is no error and the
  offset is not -1, and then, and only then, it has been delivered. \<open>ready\<close> is what the
  constructor of the producer establishes.
\<close>

definition counts_as_sent :: "send_result \<Rightarrow> bool" where
  "counts_as_sent r = (case r of Accepted part offset \<Rightarrow> offset \<noteq> -1 | SendFailed e \<Rightarrow> False)"

locale message_sink =
  fixes produce :: "'p \<Rightarrow> producer_message \<Rightarrow> ('p \<times> send_result) option"
    and delivered :: "'p \<Rightarrow> producer_message list"
    and ready :: "'p \<Rightarrow> bool"
  assumes produce_ready: "ready p \<Longrightarrow> produce p m = Some (p', r) \<Longrightarrow> ready p'"
    and produce_sent: "ready p \<Longrightarrow> produce p m = Some (p', r) \<Longrightarrow> counts_as_sent r \<Longrightarrow>
      delivered p' = delivered p @ [m]"
    and produce_not_sent: "ready p \<Longrightarrow> produce p m = Some (p', r) \<Longrightarrow> \<not> counts_as_sent r \<Longrightarrow>
      delivered p' = delivered p"
begin

text \<open>Sending a list of messages one after the other, counting the successes.\<close>

fun produce_all :: "'p \<Rightarrow> producer_message list \<Rightarrow> ('p \<times> nat) option" where
  "produce_all p [] = Some (p, 0)"
| "produce_all p (m # ms) =
     (case produce p m of
        None \<Rightarrow> None
      | Some (p', r) \<Rightarrow>
          (case produce_all p' ms of
             None \<Rightarrow> None
           | Some (p'', n) \<Rightarrow> Some (p'', if counts_as_sent r then Suc n else n)))"

lemma delivered_step:
  "ready p \<Longrightarrow> produce p m = Some (p', r) \<Longrightarrow>
     delivered p' = (if counts_as_sent r then delivered p @ [m] else delivered p)"
  using produce_sent produce_not_sent by auto

lemma produce_all_delivered:
  "ready p \<Longrightarrow> produce_all p ms = Some (p', n) \<Longrightarrow>
     ready p' \<and> (\<exists>sent. delivered p' = delivered p @ sent \<and> length sent = n \<and> set sent \<subseteq> set ms)"
proof (induction ms arbitrary: p n)
  case (Cons m ms)
  from Cons.prems(2) obtain p1 r k where p1: "produce p m = Some (p1, r)"
    and rest: "produce_all p1 ms = Some (p', k)" and n: "n = (if counts_as_sent r then Suc k else k)"
    by (auto split: option.splits)
  from produce_ready [OF Cons.prems(1) p1] have "ready p1" .
  from Cons.IH [OF this rest] obtain sent where "ready p'" and sent: "delivered p' = delivered p1 @ sent"
    "length sent = k" "set sent \<subseteq> set ms" by blast
  moreover from delivered_step [OF Cons.prems(1) p1] n sent
  have "\<exists>s. delivered p' = delivered p @ s \<and> length s = n \<and> set s \<subseteq> set (m # ms)"
    by (cases "counts_as_sent r") (auto intro: exI [of _ "m # sent"])
  ultimately show ?case by blast
qed simp

end

text \<open>A sink that delivers everything it does not refuse with an error.\<close>

locale acknowledging_sink = message_sink +
  assumes produce_accepted: "ready p \<Longrightarrow> produce p m = Some (p', Accepted part off) \<Longrightarrow> off \<noteq> -1"
begin

lemma accepted_delivered:
  "ready p \<Longrightarrow> produce p m = Some (p', Accepted part off) \<Longrightarrow> delivered p' = delivered p @ [m]"
  using produce_sent produce_accepted by (simp add: counts_as_sent_def)

lemma failed_not_delivered:
  "ready p \<Longrightarrow> produce p m = Some (p', SendFailed e) \<Longrightarrow> delivered p' = delivered p"
  using produce_not_sent by (simp add: counts_as_sent_def)

end

section \<open>The disabled producer\<close>

fun disabled_ProduceMessage :: "unit \<Rightarrow> producer_message \<Rightarrow> (unit \<times> send_result) option" where
  "disabled_ProduceMessage u m = Some (u, Accepted 0 (-1))"

interpretation disabled: message_sink disabled_ProduceMessage "\<lambda>_. []" "\<lambda>_. True"
  by unfold_locales (auto simp: counts_as_sent_def)

section \<open>Kafka\<close>

text \<open>\<open>kp_sent\<close> is the log of the messages the broker accepted, \<open>kp_calls\<close> counts the calls of
  \<open>SendMessage\<close>, whose answers are given by \<open>kp_send\<close>; an accepted message has an offset that
  is not negative.\<close>

record kafka_producer =
  kp_Configuration :: KafkaConfiguration
  kp_send :: "nat \<Rightarrow> string \<Rightarrow> producer_message \<Rightarrow> string + int \<times> nat"
  kp_calls :: nat
  kp_sent :: "producer_message list"

definition kafka_ProduceMessage ::
  "kafka_producer \<Rightarrow> producer_message \<Rightarrow> (kafka_producer \<times> send_result) option" where
  "kafka_ProduceMessage p msg =
     (if \<not> kc_Enabled (kp_Configuration p) then Some (p, Accepted 0 0)
      else let p' = p\<lparr>kp_calls := Suc (kp_calls p)\<rparr>
           in case kp_send p (kp_calls p) (kc_Topic (kp_Configuration p)) msg of
                Inl e \<Rightarrow> Some (p', SendFailed e)
              | Inr (part, offset) \<Rightarrow>
                  Some (p'\<lparr>kp_sent := kp_sent p @ [msg]\<rparr>, Accepted part (int offset)))"

definition kafka_ready :: "kafka_producer \<Rightarrow> bool" where
  "kafka_ready p \<longleftrightarrow> kc_Enabled (kp_Configuration p)"

interpretation kafka: acknowledging_sink kafka_ProduceMessage kp_sent kafka_ready
  by unfold_locales
    (auto simp: kafka_ProduceMessage_def kafka_ready_def counts_as_sent_def Let_def
      split: sum.splits prod.splits if_splits)

record SaramaConfig =
  sar_TLS_Enable :: bool
  sar_TLS_Config :: "string option"
  sar_SASL_Enable :: bool
  sar_SASL_User :: string
  sar_SASL_Password :: string
  sar_SASL_Mechanism :: string
  sar_SASL_Handshake :: bool
  sar_SASL_Scram512 :: bool
  sar_ReturnSuccesses :: bool

definition contains :: "string \<Rightarrow> string \<Rightarrow> bool" where
  "contains s sub \<longleftrightarrow> list_ex (\<lambda>i. has_prefix (drop i s) sub) [0..<Suc (length s)]"

definition equal_fold :: "string \<Rightarrow> string \<Rightarrow> bool" where
  "equal_fold a b \<longleftrightarrow> fold_name a = fold_name b"

text \<open>\<open>def\<close> is \<open>sarama.NewConfig()\<close>, \<open>tls\<close> is \<open>tlsutils.NewTLSConfig\<close>.\<close>

definition saramaConfigFromBrokerConfig ::
  "SaramaConfig \<Rightarrow> (string \<Rightarrow> string + string) \<Rightarrow> KafkaConfiguration \<Rightarrow> string + SaramaConfig" where
  "saramaConfigFromBrokerConfig def tls cfg =
     (let c0 = (if contains (kc_SecurityProtocol cfg) ''SSL'' then def\<lparr>sar_TLS_Enable := True\<rparr> else def);
          c1 = (if equal_fold (kc_SecurityProtocol cfg) ''SSL'' \<and> kc_CertPath cfg \<noteq> []
                then map_sum id (\<lambda>t. c0\<lparr>sar_TLS_Config := Some t\<rparr>) (tls (kc_CertPath cfg))
                else if has_prefix (kc_SecurityProtocol cfg) ''SASL_''
                then Inr (let c = c0\<lparr>sar_SASL_Enable := True, sar_SASL_User := kc_SaslUsername cfg,
                                     sar_SASL_Password := kc_SaslPassword cfg,
                                     sar_SASL_Mechanism := kc_SaslMechanism cfg\<rparr>
                          in if equal_fold (kc_SaslMechanism cfg) ''SCRAM-SHA-512''
                             then c\<lparr>sar_SASL_Handshake := True, sar_SASL_Scram512 := True\<rparr> else c)
                else Inr c0)
      in map_sum id (\<lambda>c. c\<lparr>sar_ReturnSuccesses := True\<rparr>) c1)"

text \<open>\<open>New\<close>: an error of the configuration is only logged, the client is started with the nil
  configuration then. \<open>start\<close> is \<open>sarama.NewSyncProducer\<close>.\<close>

definition kafka_New ::
  "SaramaConfig \<Rightarrow> (string \<Rightarrow> string + string) \<Rightarrow>
   (string list \<Rightarrow> SaramaConfig option \<Rightarrow> string + (nat \<Rightarrow> string \<Rightarrow> producer_message \<Rightarrow> string + int \<times> nat)) \<Rightarrow>
   ConfigStruct \<Rightarrow> string + kafka_producer" where
  "kafka_New def tls start config =
     (let cfg = cfg_Kafka config;
          sarama = (case saramaConfigFromBrokerConfig def tls cfg of Inl e \<Rightarrow> None | Inr c \<Rightarrow> Some c)
      in case start (split_on (CHR '','') (kc_Addresses cfg)) sarama of
           Inl e \<Rightarrow> Inl e
         | Inr send \<Rightarrow> Inr \<lparr>kp_Configuration = cfg, kp_send = send, kp_calls = 0, kp_sent = []\<rparr>)"

section \<open>Service Log\<close>

definition second :: int where
  "second = 1000000000"

datatype http_outcome = RequestError string | TransportError string | Response int string

text \<open>
  The producer, with the answers of the outside world: \<open>slp_http n\<close> answers the \<open>n\<close>-th request,
  \<open>slp_tokens n\<close> the \<open>n\<close>-th call of \<open>GetTokens\<close>. \<open>slp_posts\<close> lists the requests made, each with
  the access token in its header, \<open>slp_sent\<close> the messages answered with 201 Created,
  \<open>slp_slept\<close> the delays slept.
\<close>

record service_log_producer =
  slp_Configuration :: ServiceLogConfiguration
  slp_AccessToken :: string
  slp_StartDelay :: int
  slp_Delay :: int
  slp_Threshold :: int
  slp_http :: "nat \<Rightarrow> http_outcome"
  slp_tokens :: "nat \<Rightarrow> string + string"
  slp_token_calls :: nat
  slp_posts :: "(string \<times> producer_message) list"
  slp_sent :: "producer_message list"
  slp_slept :: "int list"

definition refreshToken :: "service_log_producer \<Rightarrow> string option \<times> service_log_producer" where
  "refreshToken p =
     (let p' = p\<lparr>slp_token_calls := Suc (slp_token_calls p)\<rparr>
      in case slp_tokens p (slp_token_calls p) of
           Inl e \<Rightarrow> (Some e, p')
         | Inr token \<Rightarrow> (None, p'\<lparr>slp_AccessToken := token\<rparr>))"

definition service_log_New ::
  "ServiceLogConfiguration \<Rightarrow> (nat \<Rightarrow> http_outcome) \<Rightarrow> (nat \<Rightarrow> string + string) \<Rightarrow>
   string option \<times> service_log_producer" where
  "service_log_New config http tokens =
     refreshToken \<lparr>slp_Configuration = config, slp_AccessToken = [], slp_StartDelay = second,
       slp_Delay = second, slp_Threshold = 30 * second, slp_http = http, slp_tokens = tokens,
       slp_token_calls = 0, slp_posts = [], slp_sent = [], slp_slept = []\<rparr>"

text \<open>The loop that retries a failed refreshment. The first component of the result is the
  error it gives up with.\<close>

partial_function (option) refresh_retry ::
  "string \<Rightarrow> service_log_producer \<Rightarrow> (string option \<times> service_log_producer) option" where
  "refresh_retry err p =
     (if slp_Threshold p \<le> slp_Delay p then Some (Some err, p)
      else (case refreshToken (p\<lparr>slp_slept := slp_slept p @ [slp_Delay p]\<rparr>) of
              (r, p1) \<Rightarrow>
                (let p2 = p1\<lparr>slp_Delay := go_mul 2 (slp_Delay p1)\<rparr>
                 in case r of None \<Rightarrow> Some (None, p2) | Some e \<Rightarrow> refresh_retry e p2)))"

text \<open>The time limit of the HTTP client: the configured duration times a second, in 64 bit
  arithmetic; \<open>http.Client\<close> applies no limit when it is not positive.\<close>

definition client_timeout :: "ServiceLogConfiguration \<Rightarrow> int" where
  "client_timeout c = go_mul second (slc_Timeout c)"

definition refresh_token_loop :: "service_log_producer \<Rightarrow> (string option \<times> service_log_producer) option" where
  "refresh_token_loop p =
     (case refreshToken p of (None, p1) \<Rightarrow> Some (None, p1) | (Some e, p1) \<Rightarrow> refresh_retry e p1)"

partial_function (option) service_log_ProduceMessage ::
  "service_log_producer \<Rightarrow> producer_message \<Rightarrow> (service_log_producer \<times> send_result) option" where
  "service_log_ProduceMessage p msg =
     (let n = length (slp_posts p);
          p1 = p\<lparr>slp_posts := slp_posts p @ [(slp_AccessToken p, msg)]\<rparr>
      in case slp_http p n of
           RequestError e \<Rightarrow> Some (p1, SendFailed e)
         | TransportError e \<Rightarrow> Some (p1, SendFailed e)
         | Response code status \<Rightarrow>
             (if code = 401
              then Option.bind (refresh_token_loop p1) (\<lambda>(err, p2).
                     case err of
                       Some e \<Rightarrow> Some (p2, SendFailed e)
                     | None \<Rightarrow> service_log_ProduceMessage (p2\<lparr>slp_Delay := slp_StartDelay p2\<rparr>) msg)
              else if code = 201 then Some (p1\<lparr>slp_sent := slp_sent p1 @ [msg]\<rparr>, Accepted 0 0)
              else Some (p1, SendFailed (''received unexpected response status code - '' @ status))))"

section \<open>The OCM client\<close>

text \<open>\<open>NewOCMClientWithTransport\<close>: \<open>build\<close> is the connection builder of the OCM SDK at the URL,
  the token URL (if any) and the credentials.\<close>

definition NewOCMClient ::
  "(string \<Rightarrow> string option \<Rightarrow> string \<Rightarrow> string \<Rightarrow> string + (nat \<Rightarrow> string + string)) \<Rightarrow>
   string \<Rightarrow> string \<Rightarrow> string \<Rightarrow> string \<Rightarrow> string + (nat \<Rightarrow> string + string)" where
  "NewOCMClient build clientID clientSecret url tokenURL =
     (if clientID = [] \<or> clientSecret = []
      then Inl ''cannot create the OCM API client with the provided credentials''
      else build url (if tokenURL = [] then None else Some tokenURL) clientID clientSecret)"


section \<open>Refreshing the access token\<close>

text \<open>What a refreshment leaves alone.\<close>

definition same_log :: "service_log_producer \<Rightarrow> service_log_producer \<Rightarrow> bool" where
  "same_log p q \<longleftrightarrow> slp_sent q = slp_sent p \<and> slp_posts q = slp_posts p \<and> slp_http q = slp_http p
     \<and> slp_tokens q = slp_tokens p \<and> slp_StartDelay q = slp_StartDelay p
     \<and> slp_Threshold q = slp_Threshold p"

lemma same_log_refl [simp]: "same_log p p"
  by (simp add: same_log_def)

lemma same_log_trans: "same_log p q \<Longrightarrow> same_log q r \<Longrightarrow> same_log p r"
  by (simp add: same_log_def)

lemma refreshToken_effect:
  "refreshToken p = (r, q) \<Longrightarrow> same_log p q \<and> slp_Delay q = slp_Delay p
     \<and> slp_token_calls q = Suc (slp_token_calls p) \<and> slp_slept q = slp_slept p"
  by (auto simp: refreshToken_def same_log_def Let_def split: sum.splits)

lemma refresh_retry_returns:
  assumes "0 < slp_Delay p" "slp_Threshold p \<le> slp_Delay p * 2 ^ k" "slp_Threshold p \<le> 2 ^ 61"
  shows "\<exists>r q. refresh_retry e p = Some (r, q) \<and> same_log p q \<and> 0 < slp_Delay q
    \<and> slp_Delay p \<le> slp_Delay q \<and> slp_token_calls q \<le> slp_token_calls p + k"
  using assms
proof (induction k arbitrary: e p)
  case 0
  then show ?case by (subst refresh_retry.simps) simp
next
  case (Suc k)
  show ?case
  proof (cases "slp_Threshold p \<le> slp_Delay p")
    case True
    with Suc.prems show ?thesis by (subst refresh_retry.simps) simp
  next
    case False
    let ?p = "p\<lparr>slp_slept := slp_slept p @ [slp_Delay p]\<rparr>"
    obtain r1 p1 where rt: "refreshToken ?p = (r1, p1)" by (cases "refreshToken ?p")
    from refreshToken_effect [OF rt] have p1: "same_log p p1" "slp_Delay p1 = slp_Delay p"
      "slp_token_calls p1 = Suc (slp_token_calls p)" by (simp_all add: same_log_def)
    let ?p2 = "p1\<lparr>slp_Delay := go_mul 2 (slp_Delay p1)\<rparr>"
    have dbl: "go_mul 2 (slp_Delay p1) = 2 * slp_Delay p"
      using False Suc.prems p1 by (simp add: go_mul_def go_int_def)
    have p2: "same_log p ?p2" "slp_Delay ?p2 = 2 * slp_Delay p"
      "slp_token_calls ?p2 = Suc (slp_token_calls p)" "slp_Threshold ?p2 = slp_Threshold p"
      using p1 dbl by (simp_all add: same_log_def)
    show ?thesis
    proof (cases r1)
      case None
      with False rt p2 Suc.prems show ?thesis by (subst refresh_retry.simps) (simp add: Let_def)
    next
      case (Some e1)
      have "\<exists>r q. refresh_retry e1 ?p2 = Some (r, q) \<and> same_log ?p2 q \<and> 0 < slp_Delay q
          \<and> slp_Delay ?p2 \<le> slp_Delay q \<and> slp_token_calls q \<le> slp_token_calls ?p2 + k"
        using Suc.prems p2 by (intro Suc.IH) (auto simp: algebra_simps)
      then obtain r q where q: "refresh_retry e1 ?p2 = Some (r, q)" "same_log ?p2 q" "0 < slp_Delay q"
        "slp_Delay ?p2 \<le> slp_Delay q" "slp_token_calls q \<le> slp_token_calls ?p2 + k" by blast
      have "refresh_retry e p = Some (r, q)"
        using False rt Some q(1) by (subst refresh_retry.simps) (simp add: Let_def)
      with q p2 Suc.prems same_log_trans [OF p2(1) q(2)] show ?thesis by auto
    qed
  qed
qed

text \<open>What \<open>New\<close> establishes and every call keeps: the delay has been at least its start value of
  a second since, and the threshold is 30 seconds.\<close>

definition service_log_ready :: "service_log_producer \<Rightarrow> bool" where
  "service_log_ready p \<longleftrightarrow> slp_StartDelay p = second \<and> slp_Threshold p = 30 * second \<and> second \<le> slp_Delay p"

lemma service_log_New_ready: "service_log_New c h t = (r, p) \<Longrightarrow> service_log_ready p"
  using refreshToken_effect by (fastforce simp: service_log_New_def service_log_ready_def same_log_def)

lemma refresh_token_loop_effect:
  assumes "service_log_ready p"
  shows "\<exists>r q. refresh_token_loop p = Some (r, q) \<and> same_log p q \<and> service_log_ready q
    \<and> slp_token_calls q \<le> slp_token_calls p + 6"
proof -
  obtain r1 p1 where rt: "refreshToken p = (r1, p1)" by (cases "refreshToken p")
  from refreshToken_effect [OF rt] have p1: "same_log p p1" "slp_Delay p1 = slp_Delay p"
    "slp_token_calls p1 = Suc (slp_token_calls p)" by simp_all
  have rd: "service_log_ready p1" using assms p1 by (simp add: service_log_ready_def same_log_def)
  show ?thesis
  proof (cases r1)
    case None
    with rt p1 rd show ?thesis by (simp add: refresh_token_loop_def)
  next
    case (Some e)
    have "\<exists>r q. refresh_retry e p1 = Some (r, q) \<and> same_log p1 q \<and> 0 < slp_Delay q
      \<and> slp_Delay p1 \<le> slp_Delay q \<and> slp_token_calls q \<le> slp_token_calls p1 + 5"
      using rd by (intro refresh_retry_returns) (auto simp: service_log_ready_def second_def)
    then obtain r q where q: "refresh_retry e p1 = Some (r, q)" "same_log p1 q"
      "slp_Delay p1 \<le> slp_Delay q" "slp_token_calls q \<le> slp_token_calls p1 + 5" by blast
    then have "service_log_ready q" using rd by (simp add: service_log_ready_def same_log_def)
    with q Some rt p1 same_log_trans [OF p1(1) q(2)] show ?thesis
      by (simp add: refresh_token_loop_def)
  qed
qed

text \<open>Refreshing an expired token always comes to an end: from the state the constructor
  leaves and every later one, the loop returns after at most six calls of \<open>GetTokens\<close>, and it
  touches neither the requests made nor the messages accepted.\<close>

theorem token_refresh_terminates:
  assumes "service_log_ready p"
  shows "\<exists>r q. refresh_token_loop p = Some (r, q) \<and> slp_token_calls q \<le> slp_token_calls p + 6
    \<and> slp_sent q = slp_sent p \<and> slp_posts q = slp_posts p \<and> service_log_ready q"
  using refresh_token_loop_effect [OF assms] by (auto simp: same_log_def)

definition example_service_log :: "(nat \<Rightarrow> http_outcome) \<Rightarrow> (nat \<Rightarrow> string + string) \<Rightarrow> service_log_producer" where
  "example_service_log http tokens = snd (service_log_New
     \<lparr>slc_Enabled = True, slc_ClientID = ''id'', slc_ClientSecret = ''secret'', slc_CreatedBy = ''ccx'',
      slc_Username = ''ccx'', slc_TokenURL = [], slc_URL = ''http://ocm'', slc_Timeout = 15 * second,
      slc_LikelihoodThreshold = 0, slc_ImpactThreshold = 0, slc_SeverityThreshold = 0,
      slc_TotalRiskThreshold = 0, slc_Cooldown = ''1 week'', slc_EventFilter = [], slc_RuleDetailsURI = [],
      slc_TagFilterEnabled = False, slc_Tags = [], slc_TagsSet = Some []\<rparr> http tokens)"

lemma example_service_log_ready: "service_log_ready (example_service_log h t)"
  unfolding example_service_log_def by (metis prod.collapse service_log_New_ready)

theorem token_refresh_terminates_witness:
  "service_log_ready (example_service_log (\<lambda>_. Response 401 ''401'') (\<lambda>_. Inl ''down''))
   \<and> refresh_token_loop (example_service_log (\<lambda>_. Response 401 ''401'') (\<lambda>_. Inl ''down'')) \<noteq> None"
  using token_refresh_terminates [OF example_service_log_ready] example_service_log_ready by fastforce

section \<open>Sending to Service Log\<close>

definition service_log_post :: "service_log_producer \<Rightarrow> producer_message \<Rightarrow> service_log_producer \<times> send_result \<Rightarrow> bool" where
  "service_log_post p m x \<longleftrightarrow> (service_log_ready p \<longrightarrow> service_log_ready (fst x) \<and>
     (\<forall>part off. snd x = Accepted part off \<longrightarrow> off = 0) \<and>
     slp_sent (fst x) = (if counts_as_sent (snd x) then slp_sent p @ [m] else slp_sent p))"

lemma service_log_partial:
  assumes "service_log_ProduceMessage p m = Some x"
  shows "service_log_post p m x"
proof (rule service_log_ProduceMessage.raw_induct [where P = service_log_post, OF _ assms])
  fix f and p :: service_log_producer and m x
  let ?p1 = "p\<lparr>slp_posts := slp_posts p @ [(slp_AccessToken p, m)]\<rparr>"
  assume IH: "\<And>p m x. f p m = Some x \<Longrightarrow> service_log_post p m x"
    and eq: "(let n = length (slp_posts p); p1 = ?p1
      in case slp_http p n of
           RequestError e \<Rightarrow> Some (p1, SendFailed e)
         | TransportError e \<Rightarrow> Some (p1, SendFailed e)
         | Response code status \<Rightarrow>
             (if code = 401
              then Option.bind (refresh_token_loop p1) (\<lambda>(err, p2).
                     case err of
                       Some e \<Rightarrow> Some (p2, SendFailed e)
                     | None \<Rightarrow> f (p2\<lparr>slp_Delay := slp_StartDelay p2\<rparr>) m)
              else if code = 201 then Some (p1\<lparr>slp_sent := slp_sent p1 @ [m]\<rparr>, Accepted 0 0)
              else Some (p1, SendFailed (''received unexpected response status code - '' @ status)))) = Some x"
  show "service_log_post p m x"
  proof (cases "service_log_ready p")
    case True
    then have rd1: "service_log_ready ?p1" by (simp add: service_log_ready_def)
    from refresh_token_loop_effect [OF rd1] obtain err p2 where loop: "refresh_token_loop ?p1 = Some (err, p2)"
      and p2: "slp_sent p2 = slp_sent p" "service_log_ready p2" by (auto simp: same_log_def)
    have rd3: "service_log_ready (p2\<lparr>slp_Delay := slp_StartDelay p2\<rparr>)"
      using p2 by (simp add: service_log_ready_def second_def)
    show ?thesis
      using eq loop p2 rd1 rd3 IH [of "p2\<lparr>slp_Delay := slp_StartDelay p2\<rparr>" m x]
      by (auto simp: Let_def counts_as_sent_def service_log_post_def service_log_ready_def
          split: http_outcome.splits if_splits option.splits)
  qed (simp add: service_log_post_def)
qed

interpretation service_log: acknowledging_sink service_log_ProduceMessage slp_sent service_log_ready
  by unfold_locales (use service_log_partial in \<open>fastforce simp: service_log_post_def\<close>)+


lemma service_log_returns_aux:
  assumes "service_log_ready p" and "\<forall>st. slp_http p (length (slp_posts p) + k) \<noteq> Response 401 st"
  shows "\<exists>q r. service_log_ProduceMessage p m = Some (q, r) \<and> length (slp_posts q) \<le> length (slp_posts p) + Suc k"
  using assms
proof (induction k arbitrary: p)
  case 0
  then show ?case
    by (subst service_log_ProduceMessage.simps) (auto simp: Let_def split: http_outcome.split)
next
  case (Suc k)
  let ?p1 = "p\<lparr>slp_posts := slp_posts p @ [(slp_AccessToken p, m)]\<rparr>"
  have rd1: "service_log_ready ?p1" using Suc.prems by (simp add: service_log_ready_def)
  from refresh_token_loop_effect [OF rd1] obtain err p2 where loop: "refresh_token_loop ?p1 = Some (err, p2)"
    and same: "same_log ?p1 p2" and rd2: "service_log_ready p2" by auto
  let ?p3 = "p2\<lparr>slp_Delay := slp_StartDelay p2\<rparr>"
  have p3: "length (slp_posts ?p3) = Suc (length (slp_posts p))" "slp_http ?p3 = slp_http p"
    using same by (simp_all add: same_log_def)
  have "\<exists>q r. service_log_ProduceMessage ?p3 m = Some (q, r)
      \<and> length (slp_posts q) \<le> length (slp_posts ?p3) + Suc k"
    using rd2 Suc.prems(2) p3 by (intro Suc.IH) (auto simp: service_log_ready_def second_def)
  with loop p3 same show ?case
    by (subst service_log_ProduceMessage.simps)
      (auto simp: Let_def same_log_def split: http_outcome.split option.split)
qed

text \<open>C15. A message to Service Log gets its result as soon as the server's answer is anything
  but 401: if the \<open>k\<close>-th answer from now is, the call returns after at most \<open>k + 1\<close> requests,
  the message is accepted at most once, and the result tells the caller whether it was.\<close>

theorem service_log_produce_returns:
  assumes "service_log_ready p" and "\<forall>st. slp_http p (length (slp_posts p) + k) \<noteq> Response 401 st"
  shows "\<exists>q r. service_log_ProduceMessage p m = Some (q, r)
    \<and> length (slp_posts q) \<le> length (slp_posts p) + Suc k
    \<and> slp_sent q = (if counts_as_sent r then slp_sent p @ [m] else slp_sent p)
    \<and> service_log_ready q"
  using service_log_returns_aux [OF assms, of m] service_log.delivered_step [OF assms(1)]
    service_log.produce_ready [OF assms(1)] by metis

definition example_entry :: producer_message where
  "example_entry = ServiceLogMessage \<lparr>sle_ClusterUUID = ''c1'', sle_Description = ''text'', sle_ServiceName = ''svc'',
     sle_Severity = ''Low'', sle_Summary = ''sum'', sle_CreatedBy = ''by'', sle_Username = ''user''\<rparr>"

theorem service_log_produce_returns_witness:
  "\<exists>q r. service_log_ProduceMessage
     (example_service_log (\<lambda>n. if n = 0 then Response 401 ''401'' else Response 201 ''201'') (\<lambda>n. Inr ''token''))
     example_entry = Some (q, r)"
proof -
  let ?p = "example_service_log (\<lambda>n. if n = 0 then Response 401 ''401'' else Response 201 ''201'') (\<lambda>n. Inr ''token'')"
  have "slp_http ?p = (\<lambda>n. if n = 0 then Response 401 ''401'' else Response 201 ''201'')"
    by (simp add: example_service_log_def service_log_New_def refreshToken_def)
  then have "\<forall>st. slp_http ?p (length (slp_posts ?p) + 1) \<noteq> Response 401 st" by simp
  from service_log_produce_returns [OF example_service_log_ready this] show ?thesis by blast
qed

text \<open>A server that answers every request with 401 while the token service keeps handing out
  tokens.\<close>

definition rejects_every_token :: "service_log_producer \<Rightarrow> bool" where
  "rejects_every_token p \<longleftrightarrow> (\<forall>n. \<exists>st. slp_http p n = Response 401 st) \<and> (\<forall>n. \<exists>t. slp_tokens p n = Inr t)"

lemma rejected_never_returns:
  assumes "service_log_ProduceMessage p m = Some x"
  shows "\<not> rejects_every_token p"
proof (rule service_log_ProduceMessage.raw_induct [where P = "\<lambda>p m x. \<not> rejects_every_token p", OF _ assms])
  fix f and p :: service_log_producer and m :: producer_message and x :: "service_log_producer \<times> send_result"
  let ?p1 = "p\<lparr>slp_posts := slp_posts p @ [(slp_AccessToken p, m)]\<rparr>"
  assume IH: "\<And>p m (x :: service_log_producer \<times> send_result). f p m = Some x \<Longrightarrow> \<not> rejects_every_token p"
    and eq: "(let n = length (slp_posts p); p1 = ?p1
      in case slp_http p n of
           RequestError e \<Rightarrow> Some (p1, SendFailed e)
         | TransportError e \<Rightarrow> Some (p1, SendFailed e)
         | Response code status \<Rightarrow>
             (if code = 401
              then Option.bind (refresh_token_loop p1) (\<lambda>(err, p2).
                     case err of
                       Some e \<Rightarrow> Some (p2, SendFailed e)
                     | None \<Rightarrow> f (p2\<lparr>slp_Delay := slp_StartDelay p2\<rparr>) m)
              else if code = 201 then Some (p1\<lparr>slp_sent := slp_sent p1 @ [m]\<rparr>, Accepted 0 0)
              else Some (p1, SendFailed (''received unexpected response status code - '' @ status)))) = Some x"
  show "\<not> rejects_every_token p"
  proof
    assume rej: "rejects_every_token p"
    then obtain st t where "slp_http p (length (slp_posts p)) = Response 401 st"
      and tok: "slp_tokens p (slp_token_calls p) = Inr t"
      unfolding rejects_every_token_def by blast
    then obtain p3 where p3: "f p3 m = Some x" "slp_http p3 = slp_http p" "slp_tokens p3 = slp_tokens p"
      using eq by (auto simp: Let_def refresh_token_loop_def refreshToken_def)
    have "rejects_every_token p3"
      using rej unfolding rejects_every_token_def p3(2,3) .
    with IH [OF p3(1)] show False by blast
  qed
qed

text \<open>The retry of a rejected request has no bound: while the server answers 401 and the
  token service keeps answering, \<open>ProduceMessage\<close> never returns.\<close>

theorem service_log_unbounded_retry:
  "rejects_every_token p \<Longrightarrow> service_log_ProduceMessage p m = None"
  using rejected_never_returns by fastforce

theorem service_log_unbounded_retry_witness:
  "service_log_ProduceMessage (example_service_log (\<lambda>n. Response 401 ''401'') (\<lambda>n. Inr ''token'')) example_entry = None"
  by (rule service_log_unbounded_retry)
    (simp add: rejects_every_token_def example_service_log_def service_log_New_def refreshToken_def)

text \<open>The time limit of the HTTP client is not the configured one: a limit of \<open>n\<close> seconds,
  \<open>n\<close> from 1 to 9, becomes \<open>n\<close> times 10 to the 9 seconds, and the documented 15 seconds wrap
  around to a negative duration, which means no limit at all.\<close>

theorem client_timeout_wraps:
  "(\<forall>n \<in> {1..9}. slc_Timeout c = n * second \<longrightarrow> client_timeout c = n * 1000000000 * second)
   \<and> (slc_Timeout c = 15 * second \<longrightarrow> client_timeout c < 0)"
  by (auto simp: client_timeout_def go_mul_def wrap64_def second_def)

theorem client_timeout_wraps_witness:
  "\<exists>c. slc_Timeout c = 15 * second \<and> client_timeout c < 0"
proof -
  have "slc_Timeout (slp_Configuration (example_service_log h t)) = 15 * second" for h t
    by (auto simp: example_service_log_def service_log_New_def refreshToken_def Let_def split: sum.split)
  with client_timeout_wraps show ?thesis by blast
qed

end
