(* ===== verification/Cluster_Filter.thy ===== *)
theory Cluster_Filter
  imports Configuration
begin

text \<open>
  The allow list and block list of clusters: \<open>differ/cluster_filter.go\<close>. The loop keeps the
  statistic and the list built so far; the membership test of \<open>collections.StringInSlice\<close>
  is list membership.
\<close>

record ClusterFilterStatistic =
  cfs_Input :: int
  cfs_Allowed :: int
  cfs_Blocked :: int
  cfs_Filtered :: int

definition zero_statistic :: ClusterFilterStatistic where
  "zero_statistic = \<lparr>cfs_Input = 0, cfs_Allowed = 0, cfs_Blocked = 0, cfs_Filtered = 0\<rparr>"

text \<open>One turn of the loop over the clusters.\<close>

definition filter_step ::
  "ProcessingConfiguration \<Rightarrow> ClusterEntry list \<times> ClusterFilterStatistic \<Rightarrow> ClusterEntry \<Rightarrow>
   ClusterEntry list \<times> ClusterFilterStatistic" where
  "filter_step cfg acc cluster =
     (case acc of (filtered, stat0) \<Rightarrow>
       (let stat = stat0\<lparr>cfs_Input := cfs_Input stat0 + 1\<rparr>
        in if pc_FilterAllowedClusters cfg
           then if ce_ClusterName cluster \<in> set (pc_AllowedClusters cfg)
                then (filtered @ [cluster],
                      stat\<lparr>cfs_Allowed := cfs_Allowed stat + 1, cfs_Filtered := cfs_Filtered stat + 1\<rparr>)
                else (filtered, stat)
           else if pc_FilterBlockedClusters cfg
           then if ce_ClusterName cluster \<in> set (pc_BlockedClusters cfg)
                then (filtered, stat\<lparr>cfs_Blocked := cfs_Blocked stat + 1\<rparr>)
                else (filtered @ [cluster], stat\<lparr>cfs_Filtered := cfs_Filtered stat + 1\<rparr>)
           else (filtered, stat)))"

definition filterClusterList ::
  "ClusterEntry list \<Rightarrow> ProcessingConfiguration \<Rightarrow> ClusterEntry list \<times> ClusterFilterStatistic" where
  "filterClusterList clusters cfg =
     (if \<not> pc_FilterAllowedClusters cfg \<and> \<not> pc_FilterBlockedClusters cfg
      then (clusters, zero_statistic\<lparr>cfs_Input := int (length clusters), cfs_Filtered := int (length clusters)\<rparr>)
      else foldl (filter_step cfg) ([], zero_statistic) clusters)"

text \<open>What the two lists mean: the allow list wins when both filters are on.\<close>

definition cluster_selected :: "ProcessingConfiguration \<Rightarrow> ClusterEntry \<Rightarrow> bool" where
  "cluster_selected cfg c =
     (if pc_FilterAllowedClusters cfg then ce_ClusterName c \<in> set (pc_AllowedClusters cfg)
      else if pc_FilterBlockedClusters cfg then ce_ClusterName c \<notin> set (pc_BlockedClusters cfg)
      else True)"

definition statistic_of :: "ProcessingConfiguration \<Rightarrow> ClusterEntry list \<Rightarrow> ClusterFilterStatistic" where
  "statistic_of cfg cs =
     (let kept = int (length (filter (cluster_selected cfg) cs)); all = int (length cs)
      in \<lparr>cfs_Input = all,
          cfs_Allowed = (if pc_FilterAllowedClusters cfg then kept else 0),
          cfs_Blocked = (if \<not> pc_FilterAllowedClusters cfg \<and> pc_FilterBlockedClusters cfg
                         then all - kept else 0),
          cfs_Filtered = kept\<rparr>)"

lemma filter_step_statistic:
  assumes "pc_FilterAllowedClusters cfg \<or> pc_FilterBlockedClusters cfg"
  shows "filter_step cfg (filter (cluster_selected cfg) cs, statistic_of cfg cs) c
    = (filter (cluster_selected cfg) (cs @ [c]), statistic_of cfg (cs @ [c]))"
  using assms by (auto simp: filter_step_def cluster_selected_def statistic_of_def Let_def)

lemma filter_fold:
  assumes "pc_FilterAllowedClusters cfg \<or> pc_FilterBlockedClusters cfg"
  shows "foldl (filter_step cfg) ([], zero_statistic) cs
    = (filter (cluster_selected cfg) cs, statistic_of cfg cs)"
proof (induction cs rule: rev_induct)
  case Nil
  show ?case by (simp add: zero_statistic_def statistic_of_def)
next
  case (snoc c cs)
  then show ?case using filter_step_statistic [OF assms] by simp
qed

lemma filterClusterList_eq:
  "filterClusterList cs cfg = (filter (cluster_selected cfg) cs, statistic_of cfg cs)"
proof (cases "pc_FilterAllowedClusters cfg \<or> pc_FilterBlockedClusters cfg")
  case True
  then show ?thesis by (auto simp: filterClusterList_def filter_fold)
next
  case False
  then have "filter (cluster_selected cfg) cs = cs"
    by (simp add: cluster_selected_def)
  with False show ?thesis
    by (simp add: filterClusterList_def statistic_of_def zero_statistic_def)
qed

lemma filterClusterList_subset: "set (fst (filterClusterList cs cfg)) \<subseteq> set cs"
  by (auto simp: filterClusterList_eq)

text \<open>For every configuration and cluster list, \<open>filterClusterList\<close> returns exactly the
  selected clusters, in their order (all of them with both filters off, the allow list first
  when both are on), and its statistic counts the input, the allowed, the blocked and the
  returned clusters.\<close>

theorem filterClusterList_correct:
  "filterClusterList cs cfg = (filter (cluster_selected cfg) cs, statistic_of cfg cs)"
  by (rule filterClusterList_eq)

end
