(* ===== verification/Differ.thy ===== *)
theory Differ
  imports Comparator Producers Cluster_Filter "HOL-Library.Sublist"
begin

text \<open>
  Processing the clusters: the loops of \<open>differ/differ.go\<close> that select the issues of a report,
  send them to the notification backend or to Service Log and record the outcome, and
  \<open>renderReportsForCluster\<close> of \<open>differ/renderer.go\<close>. What the service calls outside of the
  repository is the record \<open>outside\<close>: the expression evaluator, the content template
  renderer, the producer's \<open>ProduceMessage\<close> (\<open>None\<close>: it does not return), and the clock, whose
  \<open>n\<close>-th reading is \<open>x_now n\<close>. \<open>json.Marshal\<close> of the messages cannot fail, since they hold
  strings only, so its error branches are not represented.
\<close>

record 'n outside =
  x_evaluator :: evaluator
  x_valid_url :: "string \<Rightarrow> bool"
  x_render :: "string \<Rightarrow> RulesMap \<Rightarrow> ReportContent \<Rightarrow> ClusterName \<Rightarrow> string + (ClusterName \<rightharpoonup> RenderedReport list)"
  x_produce :: "'n \<Rightarrow> producer_message \<Rightarrow> ('n \<times> send_result) option"
  x_now :: "nat \<Rightarrow> Timestamp"

record differ =
  d_Target :: EventTarget
  d_NotificationType :: EventType
  d_PreviouslyReported :: NotifiedRecordsPerCluster
  d_CoolDown :: string
  d_Thresholds :: EventThresholds
  d_Filter :: string
  d_FilterByTag :: bool
  d_TagsSet :: "TagsSet option"
  d_IgnoreDisabledRules :: bool
  d_AggregatorStorage :: "database option"
  d_ClusterDisabledRules :: ClusterDisabledRules
  d_OrgDisabledRules :: OrgDisabledRules

text \<open>Ranging over a nil map makes no turn.\<close>

definition tags_set :: "TagsSet option \<Rightarrow> TagsSet" where
  "tags_set ts = (case ts of None \<Rightarrow> [] | Some t \<Rightarrow> t)"

definition time_now :: "'n outside \<Rightarrow> 'n world \<Rightarrow> Timestamp \<times> 'n world" where
  "time_now x w = (x_now x (w_clock w), w\<lparr>w_clock := Suc (w_clock w)\<rparr>)"

text \<open>The call through the \<open>Notifier\<close> interface, which panics when the interface is nil.\<close>

definition notify :: "'n outside \<Rightarrow> producer_message \<Rightarrow> 'n world \<Rightarrow> (send_result \<times> 'n world) run" where
  "notify x msg w =
     (case w_notifier w of
        None \<Rightarrow> Inl Panic
      | Some n \<Rightarrow> (case x_produce x n msg of
            None \<Rightarrow> Inl Hangs
          | Some (n', r) \<Rightarrow> Inr (r, w\<lparr>w_notifier := Some n'\<rparr>)))"

section \<open>Rendering\<close>

text \<open>\<open>None\<close> of \<open>http.NewRequest\<close>: the header of the nil request is set before the error is
  looked at.\<close>

definition renderReportsForCluster ::
  "'n outside \<Rightarrow> DependenciesConfiguration \<Rightarrow> ClusterName \<Rightarrow> ReportContent \<Rightarrow> RulesMap \<Rightarrow>
   (string + RenderedReport list) run" where
  "renderReportsForCluster x config clusterName reports rules =
     (if \<not> x_valid_url x (dc_TemplateRendererURL config) then Inl Panic
      else Inr (case x_render x (dc_TemplateRendererURL config) rules reports clusterName of
                  Inl e \<Rightarrow> Inl e
                | Inr m \<Rightarrow> Inr (case m clusterName of None \<Rightarrow> [] | Some rs \<Rightarrow> rs)))"

section \<open>Service Log\<close>

text \<open>The issues of a report that are to be notified, with their total risk filled in.\<close>

fun getReportsWithIssuesToNotify ::
  "'n outside \<Rightarrow> differ \<Rightarrow> ClusterEntry \<Rightarrow> RulesMap \<Rightarrow> ReportContent \<Rightarrow> 'n world \<Rightarrow>
   (EvaluatedReportItem list \<times> 'n world) run" where
  "getReportsWithIssuesToNotify x d cluster ruleContent [] w = Inr ([], w)"
| "getReportsWithIssuesToNotify x d cluster ruleContent (None # rs) w = Inl Panic"
| "getReportsWithIssuesToNotify x d cluster ruleContent (Some r # rs) w =
     (let ruleName = moduleToRuleName (ri_Module r); errorKey = ri_ErrorKey r
      in if isRuleDisabled (d_ClusterDisabledRules d) (d_OrgDisabledRules d) cluster (ri_Module r) errorKey
         then getReportsWithIssuesToNotify x d cluster ruleContent rs w
         else case findRuleByNameAndErrorKey ruleContent ruleName errorKey of
           (likelihood, impact, totalRisk, description, tags) \<Rightarrow>
             (case evaluateFilterExpression (x_evaluator x) (d_Filter d) (d_Thresholds d)
                     \<lparr>evv_TotalRisk = totalRisk, evv_Likelihood = likelihood, evv_Impact = impact,
                      evv_Severity = 0\<rparr> of
                None \<Rightarrow> getReportsWithIssuesToNotify x d cluster ruleContent rs w
              | Some result \<Rightarrow>
                  if result > 0 \<and> evaluateTagFilter (d_FilterByTag d) (tags_set (d_TagsSet d)) tags
                  then (case ShouldNotify (d_PreviouslyReported d) cluster r of
                          Inl h \<Rightarrow> Inl h
                        | Inr False \<Rightarrow>
                            getReportsWithIssuesToNotify x d cluster ruleContent rs (count_metric inc_NotSentSameState w)
                        | Inr True \<Rightarrow>
                            (case getReportsWithIssuesToNotify x d cluster ruleContent rs w of
                               Inl h \<Rightarrow> Inl h
                             | Inr (sel, w') \<Rightarrow> Inr (r\<lparr>ri_TotalRisk := totalRisk\<rparr> # sel, w')))
                  else getReportsWithIssuesToNotify x d cluster ruleContent rs w))"

text \<open>The result is the error of the entry, if any.\<close>

definition createAndSendServiceLogEntry ::
  "'n outside \<Rightarrow> ConfigStruct \<Rightarrow> RenderedReport \<Rightarrow> int \<Rightarrow> ClusterEntry \<Rightarrow> 'n world \<Rightarrow>
   (string option \<times> 'n world) run" where
  "createAndSendServiceLogEntry x configuration renderedReport totalRisk cluster w =
     (let logEntry = createServiceLogEntry renderedReport cluster
            (slc_CreatedBy (cfg_ServiceLog configuration)) (slc_Username (cfg_ServiceLog configuration))
            (getServiceLogSeverity totalRisk)
      in case notify x (ServiceLogMessage logEntry) w of
           Inl h \<Rightarrow> Inl h
         | Inr (SendFailed e, w') \<Rightarrow> Inr (Some e, count_metric inc_NotSentErrorState w')
         | Inr (Accepted part offset, w') \<Rightarrow> Inr (None, count_metric inc_NotificationSent w'))"

fun send_entries ::
  "'n outside \<Rightarrow> ConfigStruct \<Rightarrow> ClusterEntry \<Rightarrow> RenderedReport list \<Rightarrow> EvaluatedReportItem list \<Rightarrow> 'n world \<Rightarrow>
   (int \<times> 'n world) run" where
  "send_entries x configuration cluster rendered [] w = Inr (0, w)"
| "send_entries x configuration cluster rendered (r # rs) w =
     (let ruleName = moduleToRuleName (ri_Module r); errorKey = ri_ErrorKey r;
          w1 = count_metric inc_ReportWithHighImpact w
      in case findRenderedReport rendered ruleName errorKey of
           None \<Rightarrow> send_entries x configuration cluster rendered rs w1
         | Some renderedReport \<Rightarrow>
             (case createAndSendServiceLogEntry x configuration
                     (addDetailedInfoURLToRenderedReport renderedReport (slc_RuleDetailsURI (cfg_ServiceLog configuration)))
                     (ri_TotalRisk r) cluster w1 of
                Inl h \<Rightarrow> Inl h
              | Inr (err, w2) \<Rightarrow>
                  (case send_entries x configuration cluster rendered rs w2 of
                     Inl h \<Rightarrow> Inl h
                   | Inr (n, w3) \<Rightarrow> Inr (if err = None then n + 1 else n, w3))))"

definition ProduceEntriesToServiceLog ::
  "'n outside \<Rightarrow> differ \<Rightarrow> ConfigStruct \<Rightarrow> ClusterEntry \<Rightarrow> RulesMap \<Rightarrow> ReportContent \<Rightarrow> 'n world \<Rightarrow>
   (int \<times> string option \<times> 'n world) run" where
  "ProduceEntriesToServiceLog x d configuration cluster ruleContent reports w =
     (case getReportsWithIssuesToNotify x d cluster ruleContent reports w of
        Inl h \<Rightarrow> Inl h
      | Inr (reportsToRender, w1) \<Rightarrow>
          if reportsToRender = [] then Inr (0, None, w1)
          else (case renderReportsForCluster x (cfg_Dependencies configuration) (ce_ClusterName cluster)
                       (map Some reportsToRender) ruleContent of
                  Inl h \<Rightarrow> Inl h
                | Inr (Inl e) \<Rightarrow> Inr (0, Some e, w1)
                | Inr (Inr rendered) \<Rightarrow>
                    (case send_entries x configuration cluster rendered reportsToRender w1 of
                       Inl h \<Rightarrow> Inl h
                     | Inr (n, w2) \<Rightarrow> Inr (n, None, w2))))"

section \<open>Kafka\<close>

text \<open>The loop that adds an event to the message for each issue to be notified.\<close>

fun kafka_events ::
  "'n outside \<Rightarrow> differ \<Rightarrow> ClusterEntry \<Rightarrow> RulesMap \<Rightarrow> ReportContent \<Rightarrow> NotificationMessage \<Rightarrow> 'n world \<Rightarrow>
   (NotificationMessage \<times> 'n world) run" where
  "kafka_events x d cluster ruleContent [] msg w = Inr (msg, w)"
| "kafka_events x d cluster ruleContent (None # rs) msg w = Inl Panic"
| "kafka_events x d cluster ruleContent (Some r # rs) msg w =
     (let module = ri_Module r; ruleName = moduleToRuleName module; errorKey = ri_ErrorKey r
      in if isRuleDisabled (d_ClusterDisabledRules d) (d_OrgDisabledRules d) cluster module errorKey
         then kafka_events x d cluster ruleContent rs msg w
         else case findRuleByNameAndErrorKey ruleContent ruleName errorKey of
           (likelihood, impact, totalRisk, description, tags) \<Rightarrow>
             (case evaluateFilterExpression (x_evaluator x) (d_Filter d) (d_Thresholds d)
                     \<lparr>evv_TotalRisk = totalRisk, evv_Likelihood = likelihood, evv_Impact = impact,
                      evv_Severity = 0\<rparr> of
                None \<Rightarrow> kafka_events x d cluster ruleContent rs msg w
              | Some result \<Rightarrow>
                  if result > 0 \<and> evaluateTagFilter (d_FilterByTag d) (tags_set (d_TagsSet d)) tags
                  then (case ShouldNotify (d_PreviouslyReported d) cluster r of
                          Inl h \<Rightarrow> Inl h
                        | Inr False \<Rightarrow> kafka_events x d cluster ruleContent rs msg w
                        | Inr True \<Rightarrow>
                            (let w1 = count_metric inc_ReportWithHighImpact w;
                                 url = generateNotificationPayloadURL (url_RuleDetails (w_urls w))
                                         (ce_ClusterName cluster) module errorKey
                             in kafka_events x d cluster ruleContent rs
                                  (appendEventToNotificationMessage url msg description totalRisk
                                     (format_time (ce_UpdatedAt cluster))) w1))
                  else kafka_events x d cluster ruleContent rs msg w))"

text \<open>The number of events notified and the error, as \<open>(int, error)\<close>.\<close>

definition produceEntriesToKafka ::
  "'n outside \<Rightarrow> differ \<Rightarrow> ClusterEntry \<Rightarrow> RulesMap \<Rightarrow> ReportContent \<Rightarrow> ClusterReport \<Rightarrow> 'n world \<Rightarrow>
   (int \<times> string option \<times> 'n world) run" where
  "produceEntriesToKafka x d cluster ruleContent reportItems report w =
     (let reportToStore = filterDisabledRulesFromReport (d_ClusterDisabledRules d) (d_OrgDisabledRules d) cluster report;
          (now, w1) = time_now x w;
          notificationMsg = generateInstantNotificationMessage now (url_ClusterDetails (w_urls w))
            (org_string (ce_AccountNumber cluster)) (org_string (ce_OrgID cluster)) (ce_ClusterName cluster);
          (notifiedAt, w2) = time_now x w1
      in case kafka_events x d cluster ruleContent reportItems notificationMsg w2 of
           Inl h \<Rightarrow> Inl h
         | Inr (msg, w3) \<Rightarrow>
             if nm_Events msg = []
             then Inr (0, None, updateNotificationRecordSameState w3 cluster reportToStore notifiedAt NotificationBackendTarget)
             else case notify x (KafkaMessage msg) w3 of
               Inl h \<Rightarrow> Inl h
             | Inr (SendFailed e, w4) \<Rightarrow>
                 Inr (-1, Some e, updateNotificationRecordErrorState w4 e cluster reportToStore notifiedAt NotificationBackendTarget)
             | Inr (Accepted part offset, w4) \<Rightarrow>
                 if offset \<noteq> -1
                 then Inr (int (length (nm_Events msg)), None,
                        updateNotificationRecordSentState w4 cluster reportToStore notifiedAt NotificationBackendTarget)
                 else Inr (0, None, w4))"

section \<open>All clusters\<close>

record progress =
  pg_notifiedIssues :: int
  pg_skippedEntries :: int
  pg_emptyEntries :: int

text \<open>A report that cannot be read: no row is skipped silently, another error is stored once.\<close>

definition report_read_error ::
  "'n outside \<Rightarrow> ClusterEntry \<Rightarrow> db_error \<Rightarrow> progress \<Rightarrow> 'n world \<Rightarrow> progress \<times> 'n world" where
  "report_read_error x cluster err p w =
     (if err = ErrNoRows then (p\<lparr>pg_skippedEntries := pg_skippedEntries p + 1\<rparr>, w)
      else let reportedAlready = (case ReadErrorExists (w_db w) (ce_OrgID cluster) (ce_ClusterName cluster) (ce_UpdatedAt cluster) of
                                    Inl e \<Rightarrow> False | Inr b \<Rightarrow> b)
           in if reportedAlready then (p, w)
              else let w1 = count_metric inc_ReadReportForClusterErrors w;
                       (now, w2) = time_now x w1
                   in (p\<lparr>pg_skippedEntries := pg_skippedEntries p + 1\<rparr>,
                       w2\<lparr>w_db := snd (WriteReadError (w_db w2) (ce_OrgID cluster) (ce_ClusterName cluster)
                             (ce_UpdatedAt cluster) now (db_error_text err))\<rparr>))"

definition service_log_part ::
  "'n outside \<Rightarrow> differ \<Rightarrow> ConfigStruct \<Rightarrow> RulesMap \<Rightarrow> ClusterEntry \<Rightarrow> ClusterReport \<Rightarrow> ReportContent \<Rightarrow>
   progress \<Rightarrow> 'n world \<Rightarrow> (progress \<times> 'n world) run" where
  "service_log_part x d config ruleContent cluster report items p w =
     (let (notifiedAt, w1) = time_now x w
      in case ProduceEntriesToServiceLog x d config cluster ruleContent items w1 of
           Inl h \<Rightarrow> Inl h
         | Inr (newNotifiedIssues, err, w2) \<Rightarrow>
             (let reportToStore = filterDisabledRulesFromReport (d_ClusterDisabledRules d) (d_OrgDisabledRules d) cluster report
              in Inr (p\<lparr>pg_notifiedIssues := pg_notifiedIssues p + newNotifiedIssues\<rparr>,
                   updateNotificationRecordState w2 cluster reportToStore newNotifiedIssues notifiedAt ServiceLogTarget err)))"

definition kafka_part ::
  "'n outside \<Rightarrow> differ \<Rightarrow> RulesMap \<Rightarrow> ClusterEntry \<Rightarrow> ClusterReport \<Rightarrow> ReportContent \<Rightarrow>
   progress \<Rightarrow> 'n world \<Rightarrow> (progress \<times> 'n world) run" where
  "kafka_part x d ruleContent cluster report items p w =
     (case produceEntriesToKafka x d cluster ruleContent items report w of
        Inl h \<Rightarrow> Inl h
      | Inr (n, Some e, w1) \<Rightarrow> Inr (p, w1)
      | Inr (n, None, w1) \<Rightarrow> Inr (p\<lparr>pg_notifiedIssues := pg_notifiedIssues p + n\<rparr>, w1))"

text \<open>One turn of the loop over the clusters.\<close>

definition process_cluster ::
  "'n outside \<Rightarrow> differ \<Rightarrow> ConfigStruct \<Rightarrow> RulesMap \<Rightarrow> ClusterEntry \<Rightarrow> progress \<Rightarrow> 'n world \<Rightarrow>
   (progress \<times> 'n world) run" where
  "process_cluster x d config ruleContent cluster p w =
     (case ReadReportForClusterAtTime (w_db w) (ce_OrgID cluster) (ce_ClusterName cluster) (ce_UpdatedAt cluster) of
        Inl err \<Rightarrow> Inr (report_read_error x cluster err p w)
      | Inr report \<Rightarrow>
          (case decode_report report of
             None \<Rightarrow> Inr (p\<lparr>pg_skippedEntries := pg_skippedEntries p + 1\<rparr>, count_metric inc_DeserializeReportErrors w)
           | Some items \<Rightarrow>
               if items = [] then Inr (p\<lparr>pg_emptyEntries := pg_emptyEntries p + 1\<rparr>, w)
               else (case (if slc_Enabled (cfg_ServiceLog config)
                           then service_log_part x d config ruleContent cluster report items p w
                           else Inr (p, w)) of
                       Inl h \<Rightarrow> Inl h
                     | Inr (p1, w1) \<Rightarrow>
                         if \<not> kc_Enabled (cfg_Kafka config) then Inr (p1, w1)
                         else kafka_part x d ruleContent cluster report items p1 w1)))"

fun process_loop ::
  "'n outside \<Rightarrow> differ \<Rightarrow> ConfigStruct \<Rightarrow> RulesMap \<Rightarrow> ClusterEntry list \<Rightarrow> progress \<Rightarrow> 'n world \<Rightarrow>
   (progress \<times> 'n world) run" where
  "process_loop x d config ruleContent [] p w = Inr (p, w)"
| "process_loop x d config ruleContent (cluster # clusters) p w =
     (case process_cluster x d config ruleContent cluster p w of
        Inl h \<Rightarrow> Inl h
      | Inr (p', w') \<Rightarrow> process_loop x d config ruleContent clusters p' w')"

definition processReportsByCluster ::
  "'n outside \<Rightarrow> differ \<Rightarrow> ConfigStruct \<Rightarrow> RulesMap \<Rightarrow> ClusterEntry list \<Rightarrow> 'n world \<Rightarrow> (progress \<times> 'n world) run" where
  "processReportsByCluster x d config ruleContent clusters w =
     process_loop x d config ruleContent clusters
       \<lparr>pg_notifiedIssues = 0, pg_skippedEntries = 0, pg_emptyEntries = 0\<rparr> w"

definition ProcessClusters ::
  "'n outside \<Rightarrow> differ \<Rightarrow> ConfigStruct \<Rightarrow> RulesMap \<Rightarrow> ClusterEntry list \<Rightarrow> 'n world \<Rightarrow> 'n world run" where
  "ProcessClusters x d config ruleContent clusters w =
     (if d_NotificationType d = InstantNotif
      then map_sum id snd (processReportsByCluster x d config ruleContent clusters w)
      else Inr w)"


section \<open>Which issues are notified\<close>

text \<open>
  The specification both loops implement: an issue is worth notifying when the customer has
  not disabled its rule, it passes the event filter and the tag filter, and it is not in the
  report last sent.
\<close>

definition issue_value :: "RulesMap \<Rightarrow> EvaluatedReportItem \<Rightarrow> EventValue" where
  "issue_value rc r = (let m = rule_metadata rc (moduleToRuleName (ri_Module r)) (ri_ErrorKey r) in
     \<lparr>evv_TotalRisk = calculateTotalRisk (rm_Likelihood m) (rm_Impact m),
      evv_Likelihood = rm_Likelihood m, evv_Impact = rm_Impact m, evv_Severity = 0\<rparr>)"

definition passes_filters :: "'n outside \<Rightarrow> differ \<Rightarrow> RulesMap \<Rightarrow> EvaluatedReportItem \<Rightarrow> bool" where
  "passes_filters x d rc r \<longleftrightarrow>
     (\<exists>result > 0. evaluateFilterExpression (x_evaluator x) (d_Filter d) (d_Thresholds d) (issue_value rc r) = Some result)
     \<and> evaluateTagFilter (d_FilterByTag d) (tags_set (d_TagsSet d))
          (MakeSetOfTags (rm_Tags (rule_metadata rc (moduleToRuleName (ri_Module r)) (ri_ErrorKey r))))"

definition eligible :: "'n outside \<Rightarrow> differ \<Rightarrow> ClusterEntry \<Rightarrow> RulesMap \<Rightarrow> EvaluatedReportItem \<Rightarrow> bool" where
  "eligible x d c rc r \<longleftrightarrow>
     \<not> isRuleDisabled (d_ClusterDisabledRules d) (d_OrgDisabledRules d) c (ri_Module r) (ri_ErrorKey r)
     \<and> passes_filters x d rc r"

definition worth_notifying :: "'n outside \<Rightarrow> differ \<Rightarrow> ClusterEntry \<Rightarrow> RulesMap \<Rightarrow> EvaluatedReportItem \<Rightarrow> bool" where
  "worth_notifying x d c rc r \<longleftrightarrow> eligible x d c rc r \<and> ShouldNotify (d_PreviouslyReported d) c r = Inr True"

text \<open>The report last sent, if there is one, can be read and has no \<open>null\<close> item.\<close>

definition comparable :: "NotifiedRecordsPerCluster \<Rightarrow> ClusterEntry \<Rightarrow> bool" where
  "comparable previously c \<longleftrightarrow>
     (case previously (ce_OrgID c, ce_ClusterName c) of
        None \<Rightarrow> True
      | Some r \<Rightarrow> (case decode_report (nr_Report r) of None \<Rightarrow> False | Some items \<Rightarrow> None \<notin> set items))"

definition total_risk :: "RulesMap \<Rightarrow> EvaluatedReportItem \<Rightarrow> int" where
  "total_risk rc r = evv_TotalRisk (issue_value rc r)"

text \<open>The event of an issue.\<close>

definition issue_event :: "NotificationURLs \<Rightarrow> ClusterEntry \<Rightarrow> RulesMap \<Rightarrow> EvaluatedReportItem \<Rightarrow> Event" where
  "issue_event urls c rc r = \<lparr>ev_Payload =
     [(''rule_description'', rm_Description (rule_metadata rc (moduleToRuleName (ri_Module r)) (ri_ErrorKey r))),
      (''rule_url'', generateNotificationPayloadURL (url_RuleDetails urls) (ce_ClusterName c) (ri_Module r) (ri_ErrorKey r)),
      (''total_risk'', dec_int (total_risk rc r)),
      (''publish_date'', format_time (ce_UpdatedAt c))]\<rparr>"

definition add_high_impact :: "nat \<Rightarrow> metrics \<Rightarrow> metrics" where
  "add_high_impact n m = m\<lparr>m_ReportWithHighImpact := m_ReportWithHighImpact m + n\<rparr>"

definition add_same_state :: "nat \<Rightarrow> metrics \<Rightarrow> metrics" where
  "add_same_state n m = m\<lparr>m_NotificationNotSentSameState := m_NotificationNotSentSameState m + n\<rparr>"

lemma add_metrics [simp]:
  "count_metric (add_high_impact 0) w = w" "count_metric (add_same_state 0) w = w"
  "count_metric (add_high_impact n) (count_metric inc_ReportWithHighImpact w) = count_metric (add_high_impact (Suc n)) w"
  "count_metric (add_same_state n) (count_metric inc_NotSentSameState w) = count_metric (add_same_state (Suc n)) w"
  by (simp_all add: count_metric_def add_high_impact_def add_same_state_def inc_ReportWithHighImpact_def
      inc_NotSentSameState_def)

lemma count_metric_sel [simp]:
  "w_db (count_metric f w) = w_db w" "w_notifier (count_metric f w) = w_notifier w"
  "w_states (count_metric f w) = w_states w" "w_types (count_metric f w) = w_types w"
  "w_urls (count_metric f w) = w_urls w" "w_clock (count_metric f w) = w_clock w"
  by (simp_all add: count_metric_def)

lemma findRule_eq:
  "findRuleByNameAndErrorKey rc name key = (let m = rule_metadata rc name key in
     (rm_Likelihood m, rm_Impact m, calculateTotalRisk (rm_Likelihood m) (rm_Impact m), rm_Description m,
      MakeSetOfTags (rm_Tags m)))"
  by (simp add: findRuleByNameAndErrorKey_def Let_def)

lemma comparable_ShouldNotify: "comparable previously c \<Longrightarrow> \<exists>b. ShouldNotify previously c r = Inr b"
  by (auto simp: comparable_def ShouldNotify_def getNotificationResolution_def IssueNotInReport_iff
      split: option.splits)

text \<open>One step of each loop, in terms of the specification.\<close>

lemma kafka_events_step:
  assumes "comparable (d_PreviouslyReported d) c"
  shows "kafka_events x d c rc (Some r # rs) msg w =
    (if worth_notifying x d c rc r
     then kafka_events x d c rc rs (msg\<lparr>nm_Events := nm_Events msg @ [issue_event (w_urls w) c rc r]\<rparr>)
            (count_metric inc_ReportWithHighImpact w)
     else kafka_events x d c rc rs msg w)"
proof -
  from comparable_ShouldNotify [OF assms] obtain b where b: "ShouldNotify (d_PreviouslyReported d) c r = Inr b" by blast
  show ?thesis
    by (cases b) (auto simp: findRule_eq Let_def worth_notifying_def eligible_def passes_filters_def b
        issue_value_def issue_event_def total_risk_def appendEventToNotificationMessage_def split: option.splits)
qed

lemma getReports_step:
  assumes "comparable (d_PreviouslyReported d) c"
  shows "getReportsWithIssuesToNotify x d c rc (Some r # rs) w =
    (if worth_notifying x d c rc r
     then map_sum id (\<lambda>(sel, w'). (r\<lparr>ri_TotalRisk := total_risk rc r\<rparr> # sel, w'))
            (getReportsWithIssuesToNotify x d c rc rs w)
     else if eligible x d c rc r then getReportsWithIssuesToNotify x d c rc rs (count_metric inc_NotSentSameState w)
     else getReportsWithIssuesToNotify x d c rc rs w)"
proof -
  from comparable_ShouldNotify [OF assms] obtain b where b: "ShouldNotify (d_PreviouslyReported d) c r = Inr b" by blast
  show ?thesis
    by (cases b) (auto simp: findRule_eq Let_def worth_notifying_def eligible_def passes_filters_def b
        issue_value_def total_risk_def split: option.splits sum.splits)
qed

lemma kafka_events_eq:
  assumes "comparable (d_PreviouslyReported d) c"
  shows "kafka_events x d c rc (map Some rs) msg w =
    (let sel = filter (worth_notifying x d c rc) rs
     in Inr (msg\<lparr>nm_Events := nm_Events msg @ map (issue_event (w_urls w) c rc) sel\<rparr>,
             count_metric (add_high_impact (length sel)) w))"
  by (induction rs arbitrary: msg w)
    (simp_all add: kafka_events_step [OF assms] Let_def del: kafka_events.simps(3))

lemma getReports_eq:
  assumes "comparable (d_PreviouslyReported d) c"
  shows "getReportsWithIssuesToNotify x d c rc (map Some rs) w =
    Inr (map (\<lambda>r. r\<lparr>ri_TotalRisk := total_risk rc r\<rparr>) (filter (worth_notifying x d c rc) rs),
         count_metric (add_same_state (length (filter (\<lambda>r. eligible x d c rc r \<and> \<not> worth_notifying x d c rc r) rs))) w)"
  by (induction rs arbitrary: w)
    (auto simp add: getReports_step [OF assms] worth_notifying_def simp del: getReportsWithIssuesToNotify.simps(3))

lemma no_null_items: "None \<notin> set items \<Longrightarrow> items = map Some (map the items)"
  by (induction items) auto


text \<open>C7. The two copies of the filter agree: for the same report and the same differ, the issues
  Service Log is asked to render are, in order, the issues the Kafka message has an event
  for, namely the enabled ones that pass both filters and are not in the report last sent.\<close>

theorem same_selection:
  assumes "comparable (d_PreviouslyReported d) c" and "None \<notin> set items"
    and "getReportsWithIssuesToNotify x d c rc items w = Inr (sel, w1)"
    and "kafka_events x d c rc items msg w = Inr (msg', w2)"
  shows "nm_Events msg' = nm_Events msg @ map (issue_event (w_urls w) c rc) sel
    \<and> map (\<lambda>r. (ri_Type r, ri_Module r, ri_ErrorKey r)) sel =
       map (\<lambda>r. (ri_Type r, ri_Module r, ri_ErrorKey r)) (filter (worth_notifying x d c rc) (map the items))
    \<and> w_db w1 = w_db w \<and> w_db w2 = w_db w"
proof -
  define rs where "rs = map the items"
  with assms(2) have items: "items = map Some rs" using no_null_items by blast
  have ev: "issue_event (w_urls w) c rc (r\<lparr>ri_TotalRisk := total_risk rc r\<rparr>) = issue_event (w_urls w) c rc r" for r
    by (simp add: issue_event_def total_risk_def issue_value_def Let_def)
  from assms(3) have "sel = map (\<lambda>r. r\<lparr>ri_TotalRisk := total_risk rc r\<rparr>) (filter (worth_notifying x d c rc) rs)"
    and "w_db w1 = w_db w" by (auto simp: items getReports_eq [OF assms(1)])
  moreover from assms(4)
  have "nm_Events msg' = nm_Events msg @ map (issue_event (w_urls w) c rc) (filter (worth_notifying x d c rc) rs)"
    and "w_db w2 = w_db w" by (auto simp: items kafka_events_eq [OF assms(1)] Let_def)
  ultimately show ?thesis by (simp add: ev comp_def rs_def)
qed

definition example_outside :: "('n \<Rightarrow> producer_message \<Rightarrow> ('n \<times> send_result) option) \<Rightarrow> 'n outside" where
  "example_outside send = \<lparr>x_evaluator = (\<lambda>e env. case (env ''totalRisk'', env ''totalRiskThreshold'') of
       (Some a, Some b) \<Rightarrow> Some (if a \<ge> b then 1 else 0) | _ \<Rightarrow> None),
     x_valid_url = (\<lambda>u. True),
     x_render = (\<lambda>u rules items c. Inr [c \<mapsto> map (\<lambda>i. \<lparr>rr_RuleID = trim_suffix (ri_Module (the i)) ''.report'',
         rr_ErrorKey = ri_ErrorKey (the i), rr_Resolution = [], rr_Reason = ''reason'', rr_Description = ''text''\<rparr>) items]),
     x_produce = send, x_now = (\<lambda>n. 900 + int n)\<rparr>"

definition example_differ :: differ where
  "example_differ = \<lparr>d_Target = NotificationBackendTarget, d_NotificationType = InstantNotif,
     d_PreviouslyReported = Map.empty, d_CoolDown = ''1 day'',
     d_Thresholds = \<lparr>et_TotalRisk = 2, et_Likelihood = 0, et_Impact = 0, et_Severity = 0\<rparr>,
     d_Filter = DefaultEventFilter, d_FilterByTag = False, d_TagsSet = None, d_IgnoreDisabledRules = False,
     d_AggregatorStorage = None, d_ClusterDisabledRules = [],
     d_OrgDisabledRules = [\<lparr>ork_OrgID = org_string 1, ork_RuleID = ''rules.some_rule'', ork_ErrorKey = ''OFF''\<rparr>]\<rparr>"

definition example_rules :: RulesMap where
  "example_rules = [''some_rule'' \<mapsto> (\<lambda>key. Some \<lparr>rm_Description = ''text'', rm_Impact = 3, rm_Likelihood = 3, rm_Tags = []\<rparr>)]"

lemma example_org_string [simp]: "org_string 1 = ''1''"
  by (simp add: org_string_def dec_eval)

lemma example_worth [simp]:
  "worth_notifying (example_outside send) example_differ example_cluster example_rules (example_item key) \<longleftrightarrow> key \<noteq> ''OFF''"
proof -
  have "moduleToRuleName ''rules.some_rule.report'' = ''some_rule''"
    using moduleToRuleName_report [of "''some_rule''" "''rules''"] by simp
  moreover have "calculateTotalRisk 3 3 = 3" by (simp add: calculateTotalRisk_small)
  ultimately show ?thesis
    by (auto simp: worth_notifying_def eligible_def isRuleDisabled_iff passes_filters_def example_differ_def
        example_cluster_def example_item_def ShouldNotify_def evaluateTagFilter_def evaluateFilterExpression_def
        issue_value_def rule_metadata_def example_rules_def example_outside_def filter_values_def Let_def
        trim_suffix_def has_suffix_def ruleModuleSuffix_def)
qed

lemma example_comparable [simp]: "comparable (d_PreviouslyReported example_differ) c"
  by (simp add: comparable_def example_differ_def)

theorem same_selection_witness:
  "\<exists>sel w1 msg' w2. getReportsWithIssuesToNotify (example_outside disabled_ProduceMessage) example_differ example_cluster
       example_rules [Some (example_item ''ON''), Some (example_item ''OFF'')] (example_world (Some ()) example_db) = Inr (sel, w1)
    \<and> kafka_events (example_outside disabled_ProduceMessage) example_differ example_cluster
       example_rules [Some (example_item ''ON''), Some (example_item ''OFF'')]
       (generateInstantNotificationMessage 0 [] [] [] []) (example_world (Some ()) example_db) = Inr (msg', w2)
    \<and> length (nm_Events msg') = 1 \<and> map ri_ErrorKey sel = [''ON'']"
proof -
  let ?x = "example_outside disabled_ProduceMessage"
  let ?w = "example_world (Some ()) example_db"
  let ?rs = "[example_item ''ON'', example_item ''OFF'']"
  let ?m = "generateInstantNotificationMessage 0 [] [] [] []"
  obtain sel w1 where s: "getReportsWithIssuesToNotify ?x example_differ example_cluster example_rules (map Some ?rs) ?w
      = Inr (sel, w1)" using getReports_eq [OF example_comparable] by blast
  obtain msg' w2 where k: "kafka_events ?x example_differ example_cluster example_rules (map Some ?rs) ?m ?w
      = Inr (msg', w2)" using kafka_events_eq [OF example_comparable] by (metis (no_types, lifting))
  from same_selection [OF example_comparable _ s k]
  have "map (\<lambda>r. (ri_Type r, ri_Module r, ri_ErrorKey r)) sel = [(''rule'', ''rules.some_rule.report'', ''ON'')]"
    and "nm_Events msg' = map (issue_event (w_urls ?w) example_cluster example_rules) sel"
    by (simp_all add: example_item_def [symmetric] generateInstantNotificationMessage_def)
       (simp add: example_item_def)
  moreover from this have "length sel = 1" "map ri_ErrorKey sel = [''ON'']" by auto
  ultimately show ?thesis using s k by auto
qed

section \<open>What a cluster's turn leaves behind\<close>

definition kafka_message ::
  "'n outside \<Rightarrow> differ \<Rightarrow> ClusterEntry \<Rightarrow> RulesMap \<Rightarrow> ReportContent \<Rightarrow> 'n world \<Rightarrow> NotificationMessage" where
  "kafka_message x d c rc items w =
     (generateInstantNotificationMessage (x_now x (w_clock w)) (url_ClusterDetails (w_urls w))
        (org_string (ce_AccountNumber c)) (org_string (ce_OrgID c)) (ce_ClusterName c))
     \<lparr>nm_Events := map (issue_event (w_urls w) c rc) (filter (worth_notifying x d c rc) (map the items))\<rparr>"

text \<open>The database after the record of a cluster is written.\<close>

definition db_with_record ::
  "'n world \<Rightarrow> ClusterEntry \<Rightarrow> StateID \<Rightarrow> ClusterReport \<Rightarrow> Timestamp \<Rightarrow> string \<Rightarrow> EventTarget \<Rightarrow> database" where
  "db_with_record w c st rep t err target =
     snd (WriteNotificationRecordForCluster (w_db w) c (nts_Instant (w_types w)) st rep t err target)"

lemma update_record_sel [simp]:
  "w_notifier (updateNotificationRecordSameState w c rep t g) = w_notifier w"
  "w_notifier (updateNotificationRecordSentState w c rep t g) = w_notifier w"
  "w_notifier (updateNotificationRecordErrorState w e c rep t g) = w_notifier w"
  "w_db (updateNotificationRecordSameState w c rep t g) = db_with_record w c (sts_SameState (w_states w)) rep t [] g"
  "w_db (updateNotificationRecordSentState w c rep t g) = db_with_record w c (sts_SentState (w_states w)) rep t [] g"
  "w_db (updateNotificationRecordErrorState w e c rep t g) = db_with_record w c (sts_ErrorState (w_states w)) rep t e g"
  by (simp_all add: updateNotificationRecordSameState_def updateNotificationRecordSentState_def
      updateNotificationRecordErrorState_def write_record_def db_with_record_def Let_def)

lemma db_with_record_cong:
  "w_db w' = w_db w \<Longrightarrow> w_types w' = w_types w \<Longrightarrow> db_with_record w' = db_with_record w"
  by (intro ext) (simp add: db_with_record_def)

text \<open>C1. What a cluster's turn for Kafka leaves behind, on every branch: with no issue worth
  notifying nothing is sent and the record says \<open>same\<close>; otherwise exactly one message with an
  event for each such issue is handed to the producer, and the record says \<open>error\<close> with the
  producer's text when it fails, \<open>sent\<close> when it accepts, and no record is written when the
  offset is -1. The record always holds the report without the disabled rules.\<close>

theorem kafka_outcome:
  fixes x :: "'n outside" and w :: "'n world"
  defines "stored \<equiv> \<lambda>d c rep. filterDisabledRulesFromReport (d_ClusterDisabledRules d) (d_OrgDisabledRules d) c rep"
  assumes "comparable (d_PreviouslyReported d) c" and "None \<notin> set items"
    and "w_notifier w = Some n"
    and "x_produce x n (KafkaMessage (kafka_message x d c rc items w)) = Some (n', r)"
  shows "\<exists>k err w'. produceEntriesToKafka x d c rc items rep w = Inr (k, err, w') \<and>
    (let issues = filter (worth_notifying x d c rc) (map the items);
         written = (\<lambda>st e. db_with_record w c st (stored d c rep) (x_now x (Suc (w_clock w))) e NotificationBackendTarget)
     in if issues = []
        then k = 0 \<and> err = None \<and> w_notifier w' = Some n \<and> w_db w' = written (sts_SameState (w_states w)) []
        else w_notifier w' = Some n' \<and>
          (case r of
             SendFailed e \<Rightarrow> k = -1 \<and> err = Some e \<and> w_db w' = written (sts_ErrorState (w_states w)) e
           | Accepted part offset \<Rightarrow> err = None \<and>
               (if offset = -1 then k = 0 \<and> w_db w' = w_db w
                else k = int (length issues) \<and> w_db w' = written (sts_SentState (w_states w)) [])))"
proof -
  define rs where "rs = map the items"
  with assms(3) have items: "items = map Some rs" using no_null_items by blast
  define w2 where "w2 = w\<lparr>w_clock := Suc (Suc (w_clock w))\<rparr>"
  define sel where "sel = filter (worth_notifying x d c rc) rs"
  define w3 where "w3 = count_metric (add_high_impact (length sel)) w2"
  have msg: "kafka_events x d c rc items (generateInstantNotificationMessage (x_now x (w_clock w))
      (url_ClusterDetails (w_urls w)) (org_string (ce_AccountNumber c)) (org_string (ce_OrgID c)) (ce_ClusterName c)) w2
      = Inr (kafka_message x d c rc items w, w3)"
    using kafka_events_eq [OF assms(2), of x rc rs _ w2]
    by (simp add: items Let_def kafka_message_def generateInstantNotificationMessage_def w2_def w3_def sel_def comp_def)
  have ev: "nm_Events (kafka_message x d c rc items w) = map (issue_event (w_urls w) c rc) sel"
    by (simp add: kafka_message_def sel_def rs_def)
  have w3: "w_db w3 = w_db w" "w_types w3 = w_types w" "w_states w3 = w_states w" "w_notifier w3 = Some n"
    using assms(4) by (simp_all add: w3_def w2_def)
  have db: "db_with_record w3 = db_with_record w" "db_with_record (w3\<lparr>w_notifier := Some n'\<rparr>) = db_with_record w"
    using w3 by (auto intro: db_with_record_cong)
  show ?thesis
    using msg ev w3 assms(5)
    by (simp add: produceEntriesToKafka_def time_now_def Let_def w2_def [symmetric] notify_def db stored_def
        flip: rs_def sel_def split: send_result.split)
qed

definition example_kafka :: "bool \<Rightarrow> string + int \<times> nat \<Rightarrow> kafka_producer" where
  "example_kafka enabled answer = \<lparr>kp_Configuration = \<lparr>kc_Enabled = enabled, kc_Addresses = ''kafka:9092'',
       kc_SecurityProtocol = [], kc_CertPath = [], kc_SaslMechanism = [], kc_SaslUsername = [],
       kc_SaslPassword = [], kc_Topic = ''topic'', kc_Timeout = 0, kc_LikelihoodThreshold = 0,
       kc_ImpactThreshold = 0, kc_SeverityThreshold = 0, kc_TotalRiskThreshold = 2, kc_Cooldown = ''1 day'',
       kc_EventFilter = [], kc_TagFilterEnabled = False, kc_Tags = [], kc_TagsSet = Some []\<rparr>,
     kp_send = (\<lambda>n topic m. answer), kp_calls = 0, kp_sent = []\<rparr>"

theorem kafka_outcome_witness:
  "\<exists>w'. produceEntriesToKafka (example_outside kafka_ProduceMessage) example_differ example_cluster example_rules
      [Some (example_item ''ON''), Some (example_item ''OFF'')] (Malformed [])
      (example_world (Some (example_kafka True (Inl ''down''))) example_db) = Inr (-1, Some ''down'', w')
    \<and> map nr_StateID (db_reported (w_db w')) = [4]"
proof -
  let ?x = "example_outside kafka_ProduceMessage"
  let ?p = "example_kafka True (Inl ''down'')"
  let ?w = "example_world (Some ?p) example_db"
  have p: "w_notifier ?w = Some ?p" by (simp add: example_world_def)
  have send: "x_produce ?x ?p m = Some (?p\<lparr>kp_calls := 1\<rparr>, SendFailed ''down'')" for m
    by (simp add: example_outside_def example_kafka_def kafka_ProduceMessage_def)
  show ?thesis
    using kafka_outcome [OF example_comparable _ p send, of "[Some (example_item ''ON''), Some (example_item ''OFF'')]"
        example_cluster example_rules "Malformed []"]
    by (auto simp: Let_def db_with_record_def WriteNotificationRecordForCluster_def WriteNotificationRecordImpl_def
        example_world_def example_db_def)
qed

section \<open>The records of a run\<close>

text \<open>What happens to the database while the clusters are processed: rows are appended to
  \<open>reported\<close> and to \<open>read_errors\<close>.\<close>

definition appends :: "'n world \<Rightarrow> NotificationRecord list \<Rightarrow> read_error list \<Rightarrow> 'n world \<Rightarrow> bool" where
  "appends w rs es w' \<longleftrightarrow> w_db w' = (w_db w)\<lparr>db_reported := db_reported (w_db w) @ rs,
       db_read_errors := db_read_errors (w_db w) @ es\<rparr>
     \<and> w_states w' = w_states w \<and> w_types w' = w_types w \<and> w_urls w' = w_urls w"

text \<open>A record of this cluster's turn: it belongs to the cluster and stores its report.\<close>

definition record_of :: "differ \<Rightarrow> ClusterEntry \<Rightarrow> ClusterReport \<Rightarrow> NotificationRecord \<Rightarrow> bool" where
  "record_of d c rep r \<longleftrightarrow> nr_OrgID r = ce_OrgID c \<and> nr_AccountNumber r = ce_AccountNumber c
     \<and> nr_ClusterName r = ce_ClusterName c \<and> nr_UpdatedAt r = ce_UpdatedAt c
     \<and> nr_Report r = filterDisabledRulesFromReport (d_ClusterDisabledRules d) (d_OrgDisabledRules d) c rep"

lemma appends_none [simp]: "appends w [] [] w' \<longleftrightarrow>
    w_db w' = w_db w \<and> w_states w' = w_states w \<and> w_types w' = w_types w \<and> w_urls w' = w_urls w"
  by (auto simp: appends_def)

lemma appends_trans: "appends w rs es w1 \<Longrightarrow> appends w1 rs' es' w2 \<Longrightarrow> appends w (rs @ rs') (es @ es') w2"
  by (auto simp: appends_def)

lemma appends_from: "w_db w1 = w_db w \<Longrightarrow> w_states w1 = w_states w \<Longrightarrow> w_types w1 = w_types w \<Longrightarrow>
    w_urls w1 = w_urls w \<Longrightarrow> appends w1 rs es w' \<Longrightarrow> appends w rs es w'"
  by (auto simp: appends_def)

lemma write_record_appends:
  "\<exists>rs. appends w rs [] (write_record w c st (filterDisabledRulesFromReport (d_ClusterDisabledRules d) (d_OrgDisabledRules d) c rep) t e g)
     \<and> length rs \<le> 1 \<and> (\<forall>r \<in> set rs. record_of d c rep r \<and> nr_StateID r = st \<and> nr_EventTarget r = g)"
  (is "\<exists>rs. appends w rs [] (write_record w c st ?rep t e g) \<and> _ rs")
proof -
  let ?r = "\<lparr>nr_OrgID = ce_OrgID c, nr_AccountNumber = ce_AccountNumber c, nr_ClusterName = ce_ClusterName c,
    nr_UpdatedAt = ce_UpdatedAt c, nr_NotificationTypeID = nts_Instant (w_types w), nr_StateID = st,
    nr_Report = ?rep, nr_NotifiedAt = t, nr_ErrorLog = e, nr_EventTarget = g\<rparr>"
  let ?rs = "if db_err (w_db w) (OpWriteRecord (ce_ClusterName c)) = None then [?r] else []"
  have "appends w ?rs [] (write_record w c st ?rep t e g)"
    by (auto simp: appends_def write_record_def WriteNotificationRecordForCluster_def
        WriteNotificationRecordImpl_def split: option.split)
  then show ?thesis by (intro exI [of _ ?rs]) (simp add: record_of_def)
qed

lemma updates_append:
  assumes "stored = filterDisabledRulesFromReport (d_ClusterDisabledRules d) (d_OrgDisabledRules d) c rep"
  shows "\<exists>rs. appends w rs [] (updateNotificationRecordSameState w c stored t g) \<and> length rs \<le> 1
      \<and> (\<forall>r \<in> set rs. record_of d c rep r \<and> nr_StateID r = sts_SameState (w_states w) \<and> nr_EventTarget r = g)"
    and "\<exists>rs. appends w rs [] (updateNotificationRecordSentState w c stored t g) \<and> length rs \<le> 1
      \<and> (\<forall>r \<in> set rs. record_of d c rep r \<and> nr_StateID r = sts_SentState (w_states w) \<and> nr_EventTarget r = g)"
    and "\<exists>rs. appends w rs [] (updateNotificationRecordErrorState w e c stored t g) \<and> length rs \<le> 1
      \<and> (\<forall>r \<in> set rs. record_of d c rep r \<and> nr_StateID r = sts_ErrorState (w_states w) \<and> nr_EventTarget r = g)"
proof -
  have count: "appends (count_metric f w) rs es w' = appends w rs es w'" for f rs es w'
    by (simp add: appends_def)
  show "\<exists>rs. appends w rs [] (updateNotificationRecordSameState w c stored t g) \<and> length rs \<le> 1
      \<and> (\<forall>r \<in> set rs. record_of d c rep r \<and> nr_StateID r = sts_SameState (w_states w) \<and> nr_EventTarget r = g)"
    using write_record_appends [of "count_metric inc_NotSentSameState w"]
    by (simp add: updateNotificationRecordSameState_def assms count)
  show "\<exists>rs. appends w rs [] (updateNotificationRecordSentState w c stored t g) \<and> length rs \<le> 1
      \<and> (\<forall>r \<in> set rs. record_of d c rep r \<and> nr_StateID r = sts_SentState (w_states w) \<and> nr_EventTarget r = g)"
    using write_record_appends [of "count_metric inc_NotificationSent w"]
    by (simp add: updateNotificationRecordSentState_def assms count)
  show "\<exists>rs. appends w rs [] (updateNotificationRecordErrorState w e c stored t g) \<and> length rs \<le> 1
      \<and> (\<forall>r \<in> set rs. record_of d c rep r \<and> nr_StateID r = sts_ErrorState (w_states w) \<and> nr_EventTarget r = g)"
    using write_record_appends [of "count_metric inc_NotSentErrorState w"]
    by (simp add: updateNotificationRecordErrorState_def assms count)
qed

lemma notify_same: "notify x m w = Inr (r, w') \<Longrightarrow> appends w [] [] w'"
  by (auto simp: notify_def split: option.splits prod.splits)

text \<open>One step of each loop, without assumptions.\<close>

lemma kafka_events_cases:
  "(\<exists>h. kafka_events x d c rc (Some r # rs) msg w = Inl h)
   \<or> kafka_events x d c rc (Some r # rs) msg w = kafka_events x d c rc rs msg w
   \<or> (\<exists>msg'. kafka_events x d c rc (Some r # rs) msg w = kafka_events x d c rc rs msg' (count_metric inc_ReportWithHighImpact w))"
proof -
  have "(\<exists>h. sn = Inl h) \<or> sn = Inr True \<or> sn = Inr False" for sn :: "bool run" by (cases sn) auto
  from this [of "ShouldNotify (d_PreviouslyReported d) c r"] show ?thesis
    by (elim disjE exE) (auto simp: findRule_eq Let_def split: option.split)
qed

lemma kafka_events_same:
  "kafka_events x d c rc items msg w = Inr (msg', w') \<Longrightarrow> appends w [] [] w' \<and> w_notifier w' = w_notifier w"
proof (induction items arbitrary: msg w)
  case (Cons i items)
  then obtain r where i: "i = Some r" by (cases i) auto
  from kafka_events_cases [of x d c rc r items msg w] Cons i show ?case by force
qed simp

lemma getReports_cases:
  "(\<exists>h. getReportsWithIssuesToNotify x d c rc (Some r # rs) w = Inl h)
   \<or> getReportsWithIssuesToNotify x d c rc (Some r # rs) w = getReportsWithIssuesToNotify x d c rc rs w
   \<or> getReportsWithIssuesToNotify x d c rc (Some r # rs) w
        = getReportsWithIssuesToNotify x d c rc rs (count_metric inc_NotSentSameState w)
   \<or> (\<exists>f. getReportsWithIssuesToNotify x d c rc (Some r # rs) w
        = map_sum id (\<lambda>(sel, w'). (f sel, w')) (getReportsWithIssuesToNotify x d c rc rs w))"
proof -
  have "(\<exists>h. sn = Inl h) \<or> sn = Inr True \<or> sn = Inr False" for sn :: "bool run" by (cases sn) auto
  moreover have "\<exists>f. (case g of Inl h \<Rightarrow> Inl h | Inr (sel, w') \<Rightarrow> Inr (q # sel, w')) = map_sum id (\<lambda>(sel, w'). (f sel, w')) g"
    for q and g :: "(EvaluatedReportItem list \<times> 'a world) run"
    by (intro exI [of _ "\<lambda>sel. q # sel"]) (auto split: sum.split)
  ultimately show ?thesis
    using disjE [of "\<exists>h. ShouldNotify (d_PreviouslyReported d) c r = Inl h"]
    by (auto simp: findRule_eq Let_def split: option.split sum.split bool.split)
qed

lemma getReports_same:
  "getReportsWithIssuesToNotify x d c rc items w = Inr (sel, w') \<Longrightarrow> appends w [] [] w' \<and> w_notifier w' = w_notifier w"
proof (induction items arbitrary: w sel)
  case (Cons i items)
  then obtain r where i: "i = Some r" by (cases i) auto
  have eq: "getReportsWithIssuesToNotify x d c rc (Some r # items) w = Inr (sel, w')"
    using Cons.prems unfolding i .
  have "\<exists>w1 sel'. getReportsWithIssuesToNotify x d c rc items w1 = Inr (sel', w') \<and> appends w [] [] w1 \<and> w_notifier w1 = w_notifier w"
    using getReports_cases [of x d c rc r items w] unfolding eq
    by (elim disjE exE) (metis Inl_Inr_False, metis appends_none, metis appends_none count_metric_sel,
        auto simp: map_sum_def split: sum.splits)
  with Cons.IH show ?case by fastforce
qed simp

lemma send_entry_same: "createAndSendServiceLogEntry x cfg rr risk c w = Inr (e, w') \<Longrightarrow> appends w [] [] w'"
  by (auto simp: createAndSendServiceLogEntry_def Let_def dest: notify_same split: sum.splits send_result.splits prod.splits)

lemma send_entries_same: "send_entries x cfg c rendered rs w = Inr (n, w') \<Longrightarrow> appends w [] [] w' \<and> 0 \<le> n"
proof (induction rs arbitrary: n w w')
  case (Cons r rs)
  let ?w1 = "count_metric inc_ReportWithHighImpact w"
  show ?case
  proof (cases "findRenderedReport rendered (moduleToRuleName (ri_Module r)) (ri_ErrorKey r)")
    case None
    with Cons show ?thesis by (fastforce simp: Let_def)
  next
    case (Some rr)
    with Cons.prems obtain err w2 m where "createAndSendServiceLogEntry x cfg (addDetailedInfoURLToRenderedReport rr
        (slc_RuleDetailsURI (cfg_ServiceLog cfg))) (ri_TotalRisk r) c ?w1 = Inr (err, w2)"
      and rest: "send_entries x cfg c rendered rs w2 = Inr (m, w')" and n: "n = (if err = None then m + 1 else m)"
      by (auto simp: Let_def split: sum.splits prod.splits)
    with send_entry_same Cons.IH [OF rest] show ?thesis by fastforce
  qed
qed simp

lemma time_now_same: "time_now x w = (t, w') \<Longrightarrow> appends w [] [] w' \<and> w_notifier w' = w_notifier w"
  by (auto simp: time_now_def)

text \<open>The record of the outcome, for the target \<open>g\<close>.\<close>

definition at_most_one_record :: "differ \<Rightarrow> ClusterEntry \<Rightarrow> ClusterReport \<Rightarrow> EventTarget \<Rightarrow> 'n world \<Rightarrow> 'n world \<Rightarrow> bool" where
  "at_most_one_record d c rep g w w' \<longleftrightarrow>
     (\<exists>rs. appends w rs [] w' \<and> length rs \<le> 1 \<and> (\<forall>r \<in> set rs. record_of d c rep r \<and> nr_EventTarget r = g))"

lemma at_most_one_record_same: "appends w [] [] w' \<Longrightarrow> at_most_one_record d c rep g w w'"
  by (auto simp: at_most_one_record_def intro: exI [of _ "[]"])

lemma at_most_one_record_from:
  "appends w [] [] w1 \<Longrightarrow> at_most_one_record d c rep g w1 w' \<Longrightarrow> at_most_one_record d c rep g w w'"
  unfolding at_most_one_record_def using appends_from by fastforce

lemma at_most_one_record_updates:
  assumes "stored = filterDisabledRulesFromReport (d_ClusterDisabledRules d) (d_OrgDisabledRules d) c rep"
  shows "at_most_one_record d c rep g w (updateNotificationRecordSameState w c stored t g)"
    and "at_most_one_record d c rep g w (updateNotificationRecordSentState w c stored t g)"
    and "at_most_one_record d c rep g w (updateNotificationRecordErrorState w e c stored t g)"
    and "at_most_one_record d c rep g w (updateNotificationRecordState w c stored k t g err)"
proof -
  note upd = updates_append [OF assms, of w]
  show same: "at_most_one_record d c rep g w (updateNotificationRecordSameState w c stored t g)"
    using upd(1) unfolding at_most_one_record_def by blast
  show sent: "at_most_one_record d c rep g w (updateNotificationRecordSentState w c stored t g)"
    using upd(2) unfolding at_most_one_record_def by blast
  have err: "at_most_one_record d c rep g w (updateNotificationRecordErrorState w e c stored t g)" for e
    using upd(3) unfolding at_most_one_record_def by blast
  then show "at_most_one_record d c rep g w (updateNotificationRecordErrorState w e c stored t g)" .
  show "at_most_one_record d c rep g w (updateNotificationRecordState w c stored k t g err)"
    using same sent err by (auto simp: updateNotificationRecordState_def at_most_one_record_same split: option.split)
qed

lemma produceEntriesToKafka_record:
  assumes "produceEntriesToKafka x d c rc items rep w = Inr (n, err, w')"
  shows "at_most_one_record d c rep NotificationBackendTarget w w'"
proof -
  let ?w2 = "w\<lparr>w_clock := Suc (Suc (w_clock w))\<rparr>"
  obtain msg w3 where ev: "kafka_events x d c rc items (generateInstantNotificationMessage (x_now x (w_clock w))
      (url_ClusterDetails (w_urls w)) (org_string (ce_AccountNumber c)) (org_string (ce_OrgID c)) (ce_ClusterName c)) ?w2
      = Inr (msg, w3)"
    using assms by (auto simp: produceEntriesToKafka_def time_now_def Let_def split: sum.splits)
  then have w3: "appends w [] [] w3" using kafka_events_same [OF ev] by simp
  note upd = at_most_one_record_updates [OF refl, of d c rep NotificationBackendTarget]
  show ?thesis
  proof (cases "nm_Events msg = []")
    case True
    with assms ev upd(1) [of w3] show ?thesis
      by (auto simp: produceEntriesToKafka_def time_now_def Let_def intro: at_most_one_record_from [OF w3])
  next
    case False
    with assms ev obtain r w4 where "notify x (KafkaMessage msg) w3 = Inr (r, w4)"
      by (auto simp: produceEntriesToKafka_def time_now_def Let_def split: sum.splits)
    moreover from notify_same [OF this] w3 have w4: "appends w [] [] w4" by simp
    ultimately show ?thesis
      using assms ev False upd(2,3) [of w4] at_most_one_record_same [OF w4]
      by (auto simp: produceEntriesToKafka_def time_now_def Let_def intro: at_most_one_record_from [OF w4]
          split: send_result.splits if_splits)
  qed
qed

lemma ProduceEntriesToServiceLog_same:
  assumes "ProduceEntriesToServiceLog x d cfg c rc items w = Inr (n, err, w')"
  shows "appends w [] [] w' \<and> 0 \<le> n"
proof -
  from assms obtain sel w1 where sel: "getReportsWithIssuesToNotify x d c rc items w = Inr (sel, w1)"
    by (auto simp: ProduceEntriesToServiceLog_def split: sum.splits)
  from getReports_same [OF sel] have w1: "appends w [] [] w1" by simp
  from assms sel consider "w' = w1" "n = 0" | rendered where "send_entries x cfg c rendered sel w1 = Inr (n, w')"
    by (auto simp: ProduceEntriesToServiceLog_def split: sum.splits if_splits)
  then show ?thesis using w1 by cases (auto dest: send_entries_same)
qed

lemma report_read_error_appends:
  "report_read_error x c err p w = (p', w') \<Longrightarrow> \<exists>es. appends w [] es w' \<and> length es \<le> 1
     \<and> (\<forall>e \<in> set es. re_OrgID e = ce_OrgID c \<and> re_ClusterName e = ce_ClusterName c \<and> re_UpdatedAt e = ce_UpdatedAt c)"
  by (auto simp: report_read_error_def Let_def time_now_def WriteReadError_def appends_def
      intro: exI [of _ "[]"] split: if_splits sum.splits option.splits)

text \<open>What one cluster's turn may append.\<close>

definition targets :: "ConfigStruct \<Rightarrow> EventTarget list" where
  "targets cfg = (if slc_Enabled (cfg_ServiceLog cfg) then [ServiceLogTarget] else []) @
     (if kc_Enabled (cfg_Kafka cfg) then [NotificationBackendTarget] else [])"

definition cluster_rows ::
  "differ \<Rightarrow> ConfigStruct \<Rightarrow> database \<Rightarrow> ClusterEntry \<Rightarrow> NotificationRecord list \<Rightarrow> read_error list \<Rightarrow> bool" where
  "cluster_rows d cfg db c rs es \<longleftrightarrow>
     subseq (map nr_EventTarget rs) (targets cfg)
     \<and> (\<forall>r \<in> set rs. \<exists>rep. ReadReportForClusterAtTime db (ce_OrgID c) (ce_ClusterName c) (ce_UpdatedAt c) = Inr rep
          \<and> decode_report rep \<noteq> None \<and> record_of d c rep r)
     \<and> length es \<le> 1 \<and> (\<forall>e \<in> set es. re_OrgID e = ce_OrgID c \<and> re_ClusterName e = ce_ClusterName c
          \<and> re_UpdatedAt e = ce_UpdatedAt c)
     \<and> (es \<noteq> [] \<longrightarrow> rs = [])"

lemma at_most_one_targets:
  assumes "at_most_one_record d c rep g w w'"
  obtains rs where "appends w rs [] w'" "subseq (map nr_EventTarget rs) [g]" "\<forall>r \<in> set rs. record_of d c rep r"
proof -
  from assms obtain rs where rs: "appends w rs [] w'" "length rs \<le> 1"
      "\<forall>r \<in> set rs. record_of d c rep r \<and> nr_EventTarget r = g"
    by (auto simp: at_most_one_record_def)
  moreover have "subseq (map nr_EventTarget rs) [g]" using rs(2,3) by (cases rs) auto
  ultimately show thesis using that by blast
qed

lemma process_cluster_rows:
  assumes "process_cluster x d cfg rc c p w = Inr (p', w')"
  shows "\<exists>rs es. appends w rs es w' \<and> cluster_rows d cfg (w_db w) c rs es"
proof (cases "ReadReportForClusterAtTime (w_db w) (ce_OrgID c) (ce_ClusterName c) (ce_UpdatedAt c)")
  case (Inl err)
  with assms have "report_read_error x c err p w = (p', w')" by (simp add: process_cluster_def)
  from report_read_error_appends [OF this] obtain es where "appends w [] es w'" "cluster_rows d cfg (w_db w) c [] es"
    unfolding cluster_rows_def by auto
  then show ?thesis by blast
next
  case (Inr rep)
  have none: "cluster_rows d cfg (w_db w) c [] []" by (simp add: cluster_rows_def)
  show ?thesis
  proof (cases "decode_report rep = None \<or> decode_report rep = Some []")
    case True
    with Inr assms have "appends w [] [] w'" by (auto simp: process_cluster_def)
    with none show ?thesis by blast
  next
    case False
    then obtain items where items: "decode_report rep = Some items" "items \<noteq> []" by auto
    let ?sl = "if slc_Enabled (cfg_ServiceLog cfg) then service_log_part x d cfg rc c rep items p w else Inr (p, w)"
    from assms Inr items obtain p1 w1 where 1: "?sl = Inr (p1, w1)"
      by (auto simp: process_cluster_def split: sum.splits)
    have 2: "(if \<not> kc_Enabled (cfg_Kafka cfg) then Inr (p1, w1) else kafka_part x d rc c rep items p1 w1) = Inr (p', w')"
      using assms Inr items 1 by (simp add: process_cluster_def)
    have "\<exists>rs. appends w rs [] w1 \<and> subseq (map nr_EventTarget rs)
        (if slc_Enabled (cfg_ServiceLog cfg) then [ServiceLogTarget] else []) \<and> (\<forall>r \<in> set rs. record_of d c rep r)"
    proof (cases "slc_Enabled (cfg_ServiceLog cfg)")
      case True
      let ?w1 = "w\<lparr>w_clock := Suc (w_clock w)\<rparr>"
      from 1 True obtain k err w2 where pe: "ProduceEntriesToServiceLog x d cfg c rc items ?w1 = Inr (k, err, w2)"
        and w1: "w1 = updateNotificationRecordState w2 c (filterDisabledRulesFromReport (d_ClusterDisabledRules d)
            (d_OrgDisabledRules d) c rep) k (x_now x (w_clock w)) ServiceLogTarget err"
        by (auto simp: service_log_part_def time_now_def Let_def split: sum.splits)
      from ProduceEntriesToServiceLog_same [OF pe] have "appends w [] [] w2" by simp
      then have "at_most_one_record d c rep ServiceLogTarget w w1"
        unfolding w1 by (rule at_most_one_record_from) (rule at_most_one_record_updates(4) [OF refl])
      then show ?thesis by (rule at_most_one_targets) (auto simp: True)
    qed (use 1 in \<open>auto intro: exI [of _ "[]"]\<close>)
    then obtain rs1 where rs1: "appends w rs1 [] w1" "subseq (map nr_EventTarget rs1)
        (if slc_Enabled (cfg_ServiceLog cfg) then [ServiceLogTarget] else [])" "\<forall>r \<in> set rs1. record_of d c rep r" by blast
    have "\<exists>rs. appends w1 rs [] w' \<and> subseq (map nr_EventTarget rs)
        (if kc_Enabled (cfg_Kafka cfg) then [NotificationBackendTarget] else []) \<and> (\<forall>r \<in> set rs. record_of d c rep r)"
    proof (cases "kc_Enabled (cfg_Kafka cfg)")
      case True
      with 2 obtain k err where "produceEntriesToKafka x d c rc items rep w1 = Inr (k, err, w')"
        by (auto simp: kafka_part_def split: sum.splits option.splits prod.splits)
      from produceEntriesToKafka_record [OF this] show ?thesis by (rule at_most_one_targets) (auto simp: True)
    qed (use 2 in \<open>auto intro: exI [of _ "[]"]\<close>)
    then obtain rs2 where rs2: "appends w1 rs2 [] w'" "subseq (map nr_EventTarget rs2)
        (if kc_Enabled (cfg_Kafka cfg) then [NotificationBackendTarget] else [])" "\<forall>r \<in> set rs2. record_of d c rep r" by blast
    from appends_trans [OF rs1(1) rs2(1)] have "appends w (rs1 @ rs2) [] w'" by simp
    moreover have "subseq (map nr_EventTarget (rs1 @ rs2)) (targets cfg)"
      unfolding targets_def map_append using rs1(2) rs2(2) by (rule list_emb_append_mono)
    then have "cluster_rows d cfg (w_db w) c (rs1 @ rs2) []"
      using rs1(3) rs2(3) Inr items by (auto simp: cluster_rows_def)
    ultimately show ?thesis by blast
  qed
qed

end
