(* ===== verification/Differ_Run.thy ===== *)
theory Differ_Run
  imports Differ
begin

text \<open>
  Properties of the processing of all clusters (\<open>processReportsByCluster\<close>): which records a run
  leaves, that no cluster stops the others, and that what is recorded as sent was delivered.
\<close>

section \<open>The records of all clusters\<close>

lemma reads_unchanged:
  "appends w rs es w' \<Longrightarrow> ReadReportForClusterAtTime (w_db w') = ReadReportForClusterAtTime (w_db w)"
  by (intro ext) (simp add: appends_def ReadReportForClusterAtTime_def db_call_def)

lemma cluster_rows_unchanged:
  "appends w rs0 es0 w' \<Longrightarrow> cluster_rows d cfg (w_db w') c rs es = cluster_rows d cfg (w_db w) c rs es"
  by (simp add: cluster_rows_def reads_unchanged)

lemma process_loop_rows:
  assumes "process_loop x d cfg rc cs p w = Inr (p', w')"
  shows "\<exists>rows. length rows = length cs \<and> appends w (concat (map fst rows)) (concat (map snd rows)) w'
    \<and> (\<forall>i < length cs. cluster_rows d cfg (w_db w) (cs ! i) (fst (rows ! i)) (snd (rows ! i)))"
  using assms
proof (induction cs arbitrary: p w)
  case (Cons c cs)
  from Cons.prems obtain p1 w1 where 1: "process_cluster x d cfg rc c p w = Inr (p1, w1)"
    and 2: "process_loop x d cfg rc cs p1 w1 = Inr (p', w')" by (auto split: sum.splits)
  from process_cluster_rows [OF 1] obtain rs es where rs: "appends w rs es w1" "cluster_rows d cfg (w_db w) c rs es"
    by blast
  from Cons.IH [OF 2] obtain rows where rows: "length rows = length cs"
    "appends w1 (concat (map fst rows)) (concat (map snd rows)) w'"
    "\<forall>i < length cs. cluster_rows d cfg (w_db w1) (cs ! i) (fst (rows ! i)) (snd (rows ! i))" by blast
  have "cluster_rows d cfg (w_db w) ((c # cs) ! i) (fst (((rs, es) # rows) ! i)) (snd (((rs, es) # rows) ! i))"
    if "i < length (c # cs)" for i
    using that rs(2) rows(3) cluster_rows_unchanged [OF rs(1), of d cfg] by (cases i) auto
  with rows(1) appends_trans [OF rs(1) rows(2)] show ?case
    by (intro exI [of _ "(rs, es) # rows"]) auto
qed simp

lemma cluster_rows_single:
  "cluster_rows d cfg db c rs es \<Longrightarrow> length (targets cfg) \<le> 1 \<Longrightarrow> length rs \<le> 1"
  using list_emb_length [of "(=)" "map nr_EventTarget rs" "targets cfg"] by (simp add: cluster_rows_def)

lemma distinct_concat_single:
  "distinct (map k cs) \<Longrightarrow> length rows = length cs \<Longrightarrow>
    (\<forall>i < length cs. length (rows ! i) \<le> 1 \<and> (\<forall>r \<in> set (rows ! i). f r = k (cs ! i))) \<Longrightarrow>
    distinct (map f (concat rows))"
proof (induction cs arbitrary: rows)
  case (Cons c cs)
  then obtain r rows' where rows: "rows = r # rows'" by (cases rows) auto
  have tl: "\<forall>i < length cs. length (rows' ! i) \<le> 1 \<and> (\<forall>r \<in> set (rows' ! i). f r = k (cs ! i))"
    using Cons.prems(3) rows by fastforce
  have hd: "length r \<le> 1" "\<forall>y \<in> set r. f y = k c"
    using Cons.prems(3) rows by (auto dest: spec [of _ 0])
  have "f y \<in> k ` set cs" if "y \<in> set (concat rows')" for y
  proof -
    from that obtain l where "l \<in> set rows'" "y \<in> set l" by auto
    then obtain i where "i < length rows'" "y \<in> set (rows' ! i)" by (metis in_set_conv_nth)
    with tl Cons.prems(2) rows show ?thesis by auto
  qed
  moreover have "k c \<notin> k ` set cs" using Cons.prems(1) by auto
  ultimately have "set (map f r) \<inter> set (map f (concat rows')) = {}" using hd(2) by fastforce
  moreover have "distinct (map f r)" using hd(1) by (cases r) auto
  moreover have "distinct (map f (concat rows'))"
    using Cons.prems(1,2) rows tl by (intro Cons.IH) auto
  ultimately show ?case by (simp add: rows)
qed simp

text \<open>C4. A run with one enabled destination writes at most one record for each cluster, only for
  clusters it was given and whose report could be read and decoded, for that destination,
  holding the report without the disabled rules; the reports and every other table but
  \<open>read_errors\<close> stay as they were.\<close>

theorem one_record_per_cluster:
  assumes "processReportsByCluster x d cfg rc cs w = Inr (p, w')"
    and "length (targets cfg) \<le> 1" and "distinct (map ce_ClusterName cs)"
  shows "\<exists>rs es. w_db w' = (w_db w)\<lparr>db_reported := db_reported (w_db w) @ rs,
        db_read_errors := db_read_errors (w_db w) @ es\<rparr>
    \<and> distinct (map nr_ClusterName rs)
    \<and> (\<forall>r \<in> set rs. nr_EventTarget r \<in> set (targets cfg) \<and>
         (\<exists>c \<in> set cs. \<exists>rep.
            ReadReportForClusterAtTime (w_db w) (ce_OrgID c) (ce_ClusterName c) (ce_UpdatedAt c) = Inr rep
            \<and> decode_report rep \<noteq> None \<and> record_of d c rep r))"
proof -
  from process_loop_rows [OF assms(1) [unfolded processReportsByCluster_def]] obtain rows where
    len: "length rows = length cs" and app: "appends w (concat (map fst rows)) (concat (map snd rows)) w'"
    and each: "\<And>i. i < length cs \<Longrightarrow> cluster_rows d cfg (w_db w) (cs ! i) (fst (rows ! i)) (snd (rows ! i))"
    by blast
  let ?rs = "concat (map fst rows)"
  have "\<forall>i < length cs. length (map fst rows ! i) \<le> 1 \<and> (\<forall>r \<in> set (map fst rows ! i). nr_ClusterName r = ce_ClusterName (cs ! i))"
  proof (intro allI impI)
    fix i assume i: "i < length cs"
    from each [OF i] have "\<forall>r \<in> set (fst (rows ! i)). nr_ClusterName r = ce_ClusterName (cs ! i)"
      by (auto simp: cluster_rows_def record_of_def)
    with cluster_rows_single [OF each [OF i] assms(2)] i len
    show "length (map fst rows ! i) \<le> 1 \<and> (\<forall>r \<in> set (map fst rows ! i). nr_ClusterName r = ce_ClusterName (cs ! i))"
      by simp
  qed
  then have "distinct (map nr_ClusterName ?rs)"
    by (intro distinct_concat_single [OF assms(3)]) (simp_all add: len)
  moreover have "nr_EventTarget r \<in> set (targets cfg) \<and> (\<exists>c \<in> set cs. \<exists>rep.
            ReadReportForClusterAtTime (w_db w) (ce_OrgID c) (ce_ClusterName c) (ce_UpdatedAt c) = Inr rep
            \<and> decode_report rep \<noteq> None \<and> record_of d c rep r)" if r: "r \<in> set ?rs" for r
  proof -
    from r obtain row where "row \<in> set rows" "r \<in> set (fst row)" by auto
    then obtain i where i: "i < length cs" "r \<in> set (fst (rows ! i))" by (metis in_set_conv_nth len)
    from each [OF i(1)] i have "nr_EventTarget r \<in> set (targets cfg)"
      using list_emb_set [of "(=)" "map nr_EventTarget (fst (rows ! i))" "targets cfg" "nr_EventTarget r"]
      by (auto simp: cluster_rows_def)
    moreover have "\<exists>rep. ReadReportForClusterAtTime (w_db w) (ce_OrgID (cs ! i)) (ce_ClusterName (cs ! i)) (ce_UpdatedAt (cs ! i)) = Inr rep
            \<and> decode_report rep \<noteq> None \<and> record_of d (cs ! i) rep r"
      using each [OF i(1)] i(2) by (simp add: cluster_rows_def)
    ultimately show ?thesis using nth_mem [OF i(1)] by blast
  qed
  ultimately show ?thesis using app unfolding appends_def by blast
qed

section \<open>What is recorded as sent was delivered\<close>

definition message_cluster :: "NotificationMessage \<Rightarrow> string option" where
  "message_cluster m = map_of (nm_Context m) ''display_name''"

text \<open>The clusters whose new record says \<open>sent\<close>.\<close>

definition sent_clusters :: "'n world \<Rightarrow> NotificationRecord list \<Rightarrow> ClusterName list" where
  "sent_clusters w rs = map nr_ClusterName (filter (\<lambda>r. nr_StateID r = sts_SentState (w_states w)) rs)"

definition distinct_states :: "States \<Rightarrow> bool" where
  "distinct_states s \<longleftrightarrow> sts_SentState s \<noteq> sts_SameState s \<and> sts_SentState s \<noteq> sts_ErrorState s"

lemma kafka_events_context: "kafka_events x d c rc items msg w = Inr (msg', w') \<Longrightarrow> nm_Context msg' = nm_Context msg"
proof (induction items arbitrary: msg w)
  case (Cons i items)
  then obtain r where i: "i = Some r" by (cases i) auto
  have "(\<exists>h. sn = Inl h) \<or> sn = Inr True \<or> sn = Inr False" for sn :: "bool run" by (cases sn) auto
  from this [of "ShouldNotify (d_PreviouslyReported d) c r"] show ?case
  proof (elim disjE exE)
    assume "ShouldNotify (d_PreviouslyReported d) c r = Inr True"
    with Cons.prems show ?thesis
      by (auto simp: i findRule_eq Let_def appendEventToNotificationMessage_def dest!: Cons.IH split: if_splits option.splits)
  qed (use Cons.prems in \<open>auto simp: i findRule_eq Let_def dest!: Cons.IH split: if_splits option.splits\<close>)
qed simp

lemma subseq_single_records:
  assumes "length rs \<le> 1" and "\<forall>r \<in> set rs. record_of d c rep r"
  shows "subseq (map Some (sent_clusters w rs)) [Some (ce_ClusterName c)]"
  using assms by (cases rs) (auto simp: sent_clusters_def record_of_def)

text \<open>One turn for Kafka with any producer that honours the contract of a message sink.\<close>

context message_sink
begin

lemma notify_delivers:
  assumes "x_produce x = produce" "w_notifier w = Some q" "ready q" "notify x m w = Inr (r, w1)"
  shows "\<exists>q'. w_notifier w1 = Some q' \<and> ready q'
    \<and> delivered q' = (if counts_as_sent r then delivered q @ [m] else delivered q)"
proof -
  from assms(1,2,4) obtain q' where q': "produce q m = Some (q', r)" "w_notifier w1 = Some q'"
    by (auto simp: notify_def split: option.splits prod.splits)
  then show ?thesis using delivered_step [OF assms(3) q'(1)] produce_ready [OF assms(3) q'(1)] by blast
qed

lemma kafka_turn_delivers:
  assumes x: "x_produce x = produce" and q: "w_notifier w = Some q" "ready q" and st: "distinct_states (w_states w)"
    and run: "produceEntriesToKafka x d c rc items rep w = Inr (n, err, w')"
  shows "\<exists>q' msgs rs. w_notifier w' = Some q' \<and> ready q' \<and> delivered q' = delivered q @ map KafkaMessage msgs
    \<and> appends w rs [] w' \<and> subseq (map Some (sent_clusters w rs)) (map message_cluster msgs)"
proof -
  let ?w2 = "w\<lparr>w_clock := Suc (Suc (w_clock w))\<rparr>"
  let ?m0 = "generateInstantNotificationMessage (x_now x (w_clock w)) (url_ClusterDetails (w_urls w))
      (org_string (ce_AccountNumber c)) (org_string (ce_OrgID c)) (ce_ClusterName c)"
  obtain msg w3 where ev: "kafka_events x d c rc items ?m0 ?w2 = Inr (msg, w3)"
    using run by (auto simp: produceEntriesToKafka_def time_now_def Let_def split: sum.splits)
  then have w3: "appends w [] [] w3" "w_notifier w3 = Some q" using kafka_events_same [OF ev] q by simp_all
  have cl: "message_cluster msg = Some (ce_ClusterName c)"
    using kafka_events_context [OF ev] by (simp add: message_cluster_def generateInstantNotificationMessage_def)
  have none: "sent_clusters w rs = []" if "\<forall>r \<in> set rs. nr_StateID r \<noteq> sts_SentState (w_states w)" for rs
    using that by (auto simp: sent_clusters_def)
  show ?thesis
  proof (cases "nm_Events msg = []")
    case True
    with run ev obtain t where w': "w' = updateNotificationRecordSameState w3 c (filterDisabledRulesFromReport (d_ClusterDisabledRules d)
        (d_OrgDisabledRules d) c rep) t NotificationBackendTarget"
      by (auto simp: produceEntriesToKafka_def time_now_def Let_def)
    from updates_append(1) [OF refl, of w3 c d rep t NotificationBackendTarget] obtain rs
      where rs: "appends w3 rs [] w'" "\<forall>r \<in> set rs. nr_StateID r = sts_SameState (w_states w3)"
      unfolding w' by blast
    then have "sent_clusters w rs = []" using st w3(1) by (intro none) (simp add: distinct_states_def)
    then show ?thesis
      using w' w3 q rs(1) by (intro exI [of _ q] exI [of _ "[]"] exI [of _ rs]) (simp add: appends_def)
  next
    case False
    with run ev obtain r w4 where nt: "notify x (KafkaMessage msg) w3 = Inr (r, w4)"
      by (auto simp: produceEntriesToKafka_def time_now_def Let_def split: sum.splits)
    from notify_delivers [OF x w3(2) q(2) nt] obtain q' where q': "w_notifier w4 = Some q'" "ready q'"
      "delivered q' = (if counts_as_sent r then delivered q @ [KafkaMessage msg] else delivered q)" by blast
    have w4: "appends w [] [] w4" using notify_same [OF nt] w3(1) by simp
    define stored where "stored = filterDisabledRulesFromReport (d_ClusterDisabledRules d) (d_OrgDisabledRules d) c rep"
    define t where "t = x_now x (Suc (w_clock w))"
    from run ev False nt
    consider e where "r = SendFailed e" "w' = updateNotificationRecordErrorState w4 e c stored t NotificationBackendTarget"
      | part off where "r = Accepted part off" "off \<noteq> -1" "w' = updateNotificationRecordSentState w4 c stored t NotificationBackendTarget"
      | part where "r = Accepted part (-1)" "w' = w4"
      by (auto simp: produceEntriesToKafka_def time_now_def Let_def stored_def t_def split: send_result.splits if_splits)
    then show ?thesis
    proof cases
      case (1 e)
      from updates_append(3) [OF stored_def, of w4 e t NotificationBackendTarget] obtain rs
        where rs: "appends w4 rs [] w'" "\<forall>r \<in> set rs. nr_StateID r = sts_ErrorState (w_states w4)"
        unfolding 1(2) by blast
      then have "sent_clusters w rs = []" using st w4 by (intro none) (simp add: distinct_states_def)
      then show ?thesis using 1 q' w4 rs(1)
        by (intro exI [of _ q'] exI [of _ "[]"] exI [of _ rs]) (simp add: appends_def counts_as_sent_def)
    next
      case (2 part off)
      from updates_append(2) [OF stored_def, of w4 t NotificationBackendTarget] obtain rs
        where rs: "appends w4 rs [] w'" "length rs \<le> 1" "\<forall>r \<in> set rs. record_of d c rep r"
        unfolding 2(3) by blast
      from subseq_single_records [OF rs(2,3)] show ?thesis using 2 q' w4 rs(1) cl
        by (intro exI [of _ q'] exI [of _ "[msg]"] exI [of _ rs]) (simp add: appends_def counts_as_sent_def)
    next
      case (3 part)
      then show ?thesis using q' w4
        by (intro exI [of _ q'] exI [of _ "[]"]) (auto simp: counts_as_sent_def sent_clusters_def intro!: exI [of _ "[]"])
    qed
  qed
qed

end

context message_sink
begin

lemma kafka_run_delivers:
  assumes x: "x_produce x = produce" and cfg: "kc_Enabled (cfg_Kafka cfg)" "\<not> slc_Enabled (cfg_ServiceLog cfg)"
  shows "w_notifier w = Some q \<Longrightarrow> ready q \<Longrightarrow> distinct_states (w_states w) \<Longrightarrow>
    process_loop x d cfg rc cs p w = Inr (p', w') \<Longrightarrow>
    \<exists>q' msgs rs es. w_notifier w' = Some q' \<and> ready q' \<and> delivered q' = delivered q @ map KafkaMessage msgs
    \<and> appends w rs es w' \<and> subseq (map Some (sent_clusters w rs)) (map message_cluster msgs)"
proof (induction cs arbitrary: p w q)
  case Nil
  then show ?case
    by (intro exI [of _ q] exI [of _ "[]"]) (auto simp: sent_clusters_def intro!: exI [of _ "[]"])
next
  case (Cons c cs)
  from Cons.prems(4) obtain p1 w1 where 1: "process_cluster x d cfg rc c p w = Inr (p1, w1)"
    and 2: "process_loop x d cfg rc cs p1 w1 = Inr (p', w')" by (auto split: sum.splits)
  have "\<exists>q1 msgs rs es. w_notifier w1 = Some q1 \<and> ready q1 \<and> delivered q1 = delivered q @ map KafkaMessage msgs
    \<and> appends w rs es w1 \<and> subseq (map Some (sent_clusters w rs)) (map message_cluster msgs)"
  proof (cases "ReadReportForClusterAtTime (w_db w) (ce_OrgID c) (ce_ClusterName c) (ce_UpdatedAt c)")
    case (Inl err)
    with 1 have e: "report_read_error x c err p w = (p1, w1)" by (simp add: process_cluster_def)
    then have "w_notifier w1 = w_notifier w"
      by (auto simp: report_read_error_def Let_def time_now_def split: if_splits)
    moreover obtain es where "appends w [] es w1" using report_read_error_appends [OF e] by blast
    ultimately show ?thesis using Cons.prems(1,2)
      by (intro exI [of _ q] exI [of _ "[]"] exI [of _ "[]"] exI [of _ es]) (simp add: sent_clusters_def)
  next
    case (Inr rep)
    show ?thesis
    proof (cases "decode_report rep = None \<or> decode_report rep = Some []")
      case True
      with Inr 1 have "appends w [] [] w1" "w_notifier w1 = w_notifier w" by (auto simp: process_cluster_def)
      with Cons.prems(1,2) show ?thesis
        by (intro exI [of _ q] exI [of _ "[]"] exI [of _ "[]"] exI [of _ "[]"]) (simp add: sent_clusters_def)
    next
      case False
      then obtain items where items: "decode_report rep = Some items" "items \<noteq> []" by auto
      with 1 Inr cfg obtain n err where "produceEntriesToKafka x d c rc items rep w = Inr (n, err, w1)"
        by (auto simp: process_cluster_def kafka_part_def split: sum.splits option.splits prod.splits)
      from kafka_turn_delivers [OF x Cons.prems(1-3) this] show ?thesis by blast
    qed
  qed
  then obtain q1 msgs1 rs1 es1 where s1: "w_notifier w1 = Some q1" "ready q1"
    "delivered q1 = delivered q @ map KafkaMessage msgs1" "appends w rs1 es1 w1"
    "subseq (map Some (sent_clusters w rs1)) (map message_cluster msgs1)" by blast
  have st: "w_states w1 = w_states w" using s1(4) by (simp add: appends_def)
  from Cons.IH [OF s1(1,2) _ 2] st Cons.prems(3) obtain q' msgs2 rs2 es2 where s2: "w_notifier w' = Some q'" "ready q'"
    "delivered q' = delivered q1 @ map KafkaMessage msgs2" "appends w1 rs2 es2 w'"
    "subseq (map Some (sent_clusters w1 rs2)) (map message_cluster msgs2)" by auto
  have "sent_clusters w (rs1 @ rs2) = sent_clusters w rs1 @ sent_clusters w1 rs2"
    using st by (simp add: sent_clusters_def)
  then have "subseq (map Some (sent_clusters w (rs1 @ rs2))) (map message_cluster (msgs1 @ msgs2))"
    using list_emb_append_mono [OF s1(5) s2(5)] by simp
  then show ?case
    using s1 s2 appends_trans [OF s1(4) s2(4)]
    by (intro exI [of _ q'] exI [of _ "msgs1 @ msgs2"] exI [of _ "rs1 @ rs2"] exI [of _ "es1 @ es2"]) simp
qed

end

text \<open>C3. With Kafka as the destination, a record says \<open>sent\<close> only if a message for that cluster was
  accepted by the broker: the clusters of the new sent records are, in order, among the
  clusters of the messages accepted during the run, and nothing else was sent.\<close>

theorem sent_records_were_delivered:
  assumes "x_produce x = kafka_ProduceMessage"
    and "kc_Enabled (cfg_Kafka cfg)" and "\<not> slc_Enabled (cfg_ServiceLog cfg)"
    and "w_notifier w = Some q" and "kafka_ready q" and "distinct_states (w_states w)"
    and "processReportsByCluster x d cfg rc cs w = Inr (p, w')"
  shows "\<exists>q' msgs rs es. w_notifier w' = Some q' \<and> kp_sent q' = kp_sent q @ map KafkaMessage msgs
    \<and> w_db w' = (w_db w)\<lparr>db_reported := db_reported (w_db w) @ rs, db_read_errors := db_read_errors (w_db w) @ es\<rparr>
    \<and> subseq (map Some (sent_clusters w rs)) (map message_cluster msgs)"
  using kafka.kafka_run_delivers [OF assms(1-6) assms(7) [unfolded processReportsByCluster_def]]
  unfolding appends_def by blast

section \<open>Service Log\<close>

context acknowledging_sink
begin

lemma send_entries_delivers:
  assumes x: "x_produce x = produce"
  shows "w_notifier w = Some q \<Longrightarrow> ready q \<Longrightarrow> send_entries x cfg c rendered rs w = Inr (n, w') \<Longrightarrow>
    \<exists>q' msgs. w_notifier w' = Some q' \<and> ready q' \<and> delivered q' = delivered q @ map ServiceLogMessage msgs
      \<and> n = int (length msgs) \<and> (\<forall>m \<in> set msgs. sle_ClusterUUID m = ce_ClusterName c)"
proof (induction rs arbitrary: w q n)
  case (Cons r rs)
  let ?w1 = "count_metric inc_ReportWithHighImpact w"
  show ?case
  proof (cases "findRenderedReport rendered (moduleToRuleName (ri_Module r)) (ri_ErrorKey r)")
    case None
    with Cons.prems Cons.IH [of ?w1 q n] show ?thesis by (simp add: Let_def)
  next
    case (Some rr)
    with Cons.prems(3) obtain err w2 k where e: "createAndSendServiceLogEntry x cfg (addDetailedInfoURLToRenderedReport rr
        (slc_RuleDetailsURI (cfg_ServiceLog cfg))) (ri_TotalRisk r) c ?w1 = Inr (err, w2)"
      and rest: "send_entries x cfg c rendered rs w2 = Inr (k, w')" and n: "n = (if err = None then k + 1 else k)"
      by (auto simp: Let_def split: sum.splits prod.splits)
    define entry where "entry = createServiceLogEntry (addDetailedInfoURLToRenderedReport rr
        (slc_RuleDetailsURI (cfg_ServiceLog cfg))) c (slc_CreatedBy (cfg_ServiceLog cfg)) (slc_Username (cfg_ServiceLog cfg))
        (getServiceLogSeverity (ri_TotalRisk r))"
    from e obtain res w2' where nt: "notify x (ServiceLogMessage entry) ?w1 = Inr (res, w2')"
      and res: "err = (case res of SendFailed e \<Rightarrow> Some e | Accepted part off \<Rightarrow> None)" "w_notifier w2 = w_notifier w2'"
      by (auto simp: createAndSendServiceLogEntry_def entry_def Let_def split: sum.splits send_result.splits prod.splits)
    from nt x Cons.prems(1) obtain q1 where q1: "produce q (ServiceLogMessage entry) = Some (q1, res)" "w_notifier w2 = Some q1"
      using res(2) by (auto simp: notify_def split: option.splits prod.splits)
    from Cons.IH [OF q1(2) produce_ready [OF Cons.prems(2) q1(1)] rest] obtain q' msgs where
      q': "w_notifier w' = Some q'" "ready q'" "delivered q' = delivered q1 @ map ServiceLogMessage msgs"
      "k = int (length msgs)" "\<forall>m \<in> set msgs. sle_ClusterUUID m = ce_ClusterName c" by blast
    have en: "sle_ClusterUUID entry = ce_ClusterName c"
      by (simp add: entry_def createServiceLogEntry_def Let_def)
    show ?thesis
    proof (cases res)
      case (Accepted part off)
      with q1(1) accepted_delivered [OF Cons.prems(2)] have "delivered q1 = delivered q @ [ServiceLogMessage entry]" by blast
      with q' n res(1) Accepted en show ?thesis by (intro exI [of _ q'] exI [of _ "entry # msgs"]) simp
    next
      case (SendFailed e)
      with q1(1) failed_not_delivered [OF Cons.prems(2)] have "delivered q1 = delivered q" by blast
      with q' n res(1) SendFailed show ?thesis by (intro exI [of _ q'] exI [of _ msgs]) simp
    qed
  qed
qed simp

lemma service_log_turn:
  assumes x: "x_produce x = produce" and q: "w_notifier w = Some q" "ready q" and st: "distinct_states (w_states w)"
    and run: "service_log_part x d cfg rc c rep items p w = Inr (p', w')"
  shows "\<exists>q' msgs rs. w_notifier w' = Some q' \<and> ready q' \<and> delivered q' = delivered q @ map ServiceLogMessage msgs
    \<and> (\<forall>m \<in> set msgs. sle_ClusterUUID m = ce_ClusterName c)
    \<and> pg_notifiedIssues p' = pg_notifiedIssues p + int (length msgs) \<and> appends w rs [] w' \<and> length rs \<le> 1
    \<and> (\<forall>r \<in> set rs. record_of d c rep r \<and> (nr_StateID r = sts_SentState (w_states w) \<longleftrightarrow> msgs \<noteq> []))"
proof -
  let ?w1 = "w\<lparr>w_clock := Suc (w_clock w)\<rparr>"
  define stored where "stored = filterDisabledRulesFromReport (d_ClusterDisabledRules d) (d_OrgDisabledRules d) c rep"
  from run obtain n err w2 where pe: "ProduceEntriesToServiceLog x d cfg c rc items ?w1 = Inr (n, err, w2)"
    and w': "w' = updateNotificationRecordState w2 c stored n (x_now x (w_clock w)) ServiceLogTarget err"
    and p': "p' = p\<lparr>pg_notifiedIssues := pg_notifiedIssues p + n\<rparr>"
    by (auto simp: service_log_part_def time_now_def Let_def stored_def split: sum.splits)
  from ProduceEntriesToServiceLog_same [OF pe] have w2: "appends w [] [] w2" by simp
  from pe obtain sel w3 where sel: "getReportsWithIssuesToNotify x d c rc items ?w1 = Inr (sel, w3)"
    by (auto simp: ProduceEntriesToServiceLog_def split: sum.splits)
  from getReports_same [OF sel] q have w3: "w_notifier w3 = Some q" by simp
  have "\<exists>q' msgs. w_notifier w2 = Some q' \<and> ready q' \<and> delivered q' = delivered q @ map ServiceLogMessage msgs
      \<and> n = int (length msgs) \<and> (\<forall>m \<in> set msgs. sle_ClusterUUID m = ce_ClusterName c) \<and> (err \<noteq> None \<longrightarrow> msgs = [])"
  proof -
    from pe sel consider "w2 = w3" "n = 0"
      | rendered where "send_entries x cfg c rendered sel w3 = Inr (n, w2)" "err = None"
      by (auto simp: ProduceEntriesToServiceLog_def split: sum.splits if_splits)
    then show ?thesis
    proof cases
      case 1
      then show ?thesis using w3 q by (intro exI [of _ q] exI [of _ "[]"]) simp
    next
      case 2
      from send_entries_delivers [OF x w3 q(2) 2(1)] 2(2) show ?thesis by blast
    qed
  qed
  then obtain q' msgs where q': "w_notifier w2 = Some q'" "ready q'" "delivered q' = delivered q @ map ServiceLogMessage msgs"
      "n = int (length msgs)" "\<forall>m \<in> set msgs. sle_ClusterUUID m = ce_ClusterName c" "err \<noteq> None \<longrightarrow> msgs = []" by blast
  note upd = updates_append [OF stored_def, of w2]
  have "\<exists>rs. appends w2 rs [] w' \<and> length rs \<le> 1
    \<and> (\<forall>r \<in> set rs. record_of d c rep r \<and> (nr_StateID r = sts_SentState (w_states w) \<longleftrightarrow> msgs \<noteq> [])) \<and> w_notifier w' = w_notifier w2"
  proof (cases err)
    case (Some e)
    with upd(3) [of e] w2 st q'(6) show ?thesis
      by (simp add: w' updateNotificationRecordState_def distinct_states_def) metis
  next
    case None
    show ?thesis
    proof (cases "msgs = []")
      case True
      with None upd(1) w2 st q'(4) show ?thesis
        by (simp add: w' updateNotificationRecordState_def distinct_states_def) metis
    next
      case False
      with None upd(2) w2 st q'(4) show ?thesis
        by (simp add: w' updateNotificationRecordState_def distinct_states_def) metis
    qed
  qed
  then obtain rs where rs: "appends w2 rs [] w'" "length rs \<le> 1"
    "\<forall>r \<in> set rs. record_of d c rep r \<and> (nr_StateID r = sts_SentState (w_states w) \<longleftrightarrow> msgs \<noteq> [])"
    "w_notifier w' = w_notifier w2" by blast
  with q' p' appends_trans [OF w2 rs(1)] show ?thesis
    by (intro exI [of _ q'] exI [of _ msgs] exI [of _ rs]) simp
qed

end


section \<open>A run completes\<close>

text \<open>What a run relies on: every call of the producer returns, the URL of the renderer can be
  parsed, and no report, old or new, has a \<open>null\<close> item.\<close>

definition answers :: "'n outside \<Rightarrow> bool" where
  "answers x \<longleftrightarrow> (\<forall>n m. x_produce x n m \<noteq> None)"

definition clean_reports :: "differ \<Rightarrow> database \<Rightarrow> ClusterEntry \<Rightarrow> bool" where
  "clean_reports d db c \<longleftrightarrow> comparable (d_PreviouslyReported d) c \<and>
     (\<forall>rep items. ReadReportForClusterAtTime db (ce_OrgID c) (ce_ClusterName c) (ce_UpdatedAt c) = Inr rep \<longrightarrow>
        decode_report rep = Some items \<longrightarrow> None \<notin> set items)"

lemma notify_answers:
  assumes "answers x" "w_notifier w \<noteq> None"
  shows "\<exists>r w'. notify x m w = Inr (r, w') \<and> w_notifier w' \<noteq> None"
proof -
  obtain n where n: "w_notifier w = Some n" using assms(2) by blast
  have "x_produce x n m \<noteq> None" using assms(1) by (simp add: answers_def)
  then obtain y where "x_produce x n m = Some y" by blast
  with n show ?thesis by (cases y) (simp add: notify_def)
qed

lemma send_entry_answers:
  assumes "answers x" "w_notifier w \<noteq> None"
  shows "\<exists>e w'. createAndSendServiceLogEntry x cfg rr k c w = Inr (e, w') \<and> w_notifier w' \<noteq> None"
proof -
  define entry where "entry = createServiceLogEntry rr c (slc_CreatedBy (cfg_ServiceLog cfg))
      (slc_Username (cfg_ServiceLog cfg)) (getServiceLogSeverity k)"
  from notify_answers [OF assms] obtain r w' where "notify x (ServiceLogMessage entry) w = Inr (r, w')"
    "w_notifier w' \<noteq> None" by blast
  then show ?thesis
    by (cases r) (simp_all add: createAndSendServiceLogEntry_def entry_def Let_def)
qed

lemma send_entries_answers:
  "answers x \<Longrightarrow> w_notifier w \<noteq> None \<Longrightarrow>
    \<exists>n w'. send_entries x cfg c rendered rs w = Inr (n, w') \<and> w_notifier w' \<noteq> None"
proof (induction rs arbitrary: w)
  case (Cons r rs)
  let ?w1 = "count_metric inc_ReportWithHighImpact w"
  have w1: "w_notifier ?w1 \<noteq> None" using Cons.prems by simp
  show ?case
  proof (cases "findRenderedReport rendered (moduleToRuleName (ri_Module r)) (ri_ErrorKey r)")
    case None
    with Cons.IH [OF Cons.prems(1) w1] show ?thesis by (simp add: Let_def)
  next
    case (Some rr)
    from send_entry_answers [OF Cons.prems(1) w1] obtain e w2 where
      "createAndSendServiceLogEntry x cfg (addDetailedInfoURLToRenderedReport rr (slc_RuleDetailsURI (cfg_ServiceLog cfg)))
        (ri_TotalRisk r) c ?w1 = Inr (e, w2)" and w2: "w_notifier w2 \<noteq> None" by blast
    with Some Cons.IH [OF Cons.prems(1) w2] show ?thesis by (auto simp: Let_def)
  qed
qed simp

lemma update_state_notifier [simp]:
  "w_notifier (updateNotificationRecordState w c rep n t g err) = w_notifier w"
  by (auto simp: updateNotificationRecordState_def split: option.split)

lemma service_log_part_answers:
  assumes "answers x" "w_notifier w \<noteq> None" "x_valid_url x (dc_TemplateRendererURL (cfg_Dependencies cfg))"
    and "comparable (d_PreviouslyReported d) c" "None \<notin> set items"
  shows "\<exists>p' w'. service_log_part x d cfg rc c rep items p w = Inr (p', w') \<and> w_notifier w' \<noteq> None
    \<and> pg_skippedEntries p' = pg_skippedEntries p \<and> pg_emptyEntries p' = pg_emptyEntries p"
proof -
  let ?w1 = "w\<lparr>w_clock := Suc (w_clock w)\<rparr>"
  obtain rs where items: "items = map Some rs" using no_null_items [OF assms(5)] by blast
  from getReports_eq [OF assms(4), of x rc rs ?w1] obtain sel w2 where
    sel: "getReportsWithIssuesToNotify x d c rc items ?w1 = Inr (sel, w2)" unfolding items by blast
  from getReports_same [OF sel] assms(2) have w2: "w_notifier w2 \<noteq> None" by simp
  have "\<exists>n err w3. ProduceEntriesToServiceLog x d cfg c rc items ?w1 = Inr (n, err, w3) \<and> w_notifier w3 \<noteq> None"
  proof (cases "sel = []")
    case True
    with sel w2 show ?thesis by (simp add: ProduceEntriesToServiceLog_def)
  next
    case False
    from assms(3) obtain ren where ren: "renderReportsForCluster x (cfg_Dependencies cfg) (ce_ClusterName c) (map Some sel) rc
        = Inr ren" by (simp add: renderReportsForCluster_def)
    show ?thesis
    proof (cases ren)
      case (Inl e)
      with sel w2 False ren show ?thesis by (simp add: ProduceEntriesToServiceLog_def)
    next
      case (Inr rendered)
      from send_entries_answers [OF assms(1) w2, of cfg c rendered sel] obtain n w3 where
        "send_entries x cfg c rendered sel w2 = Inr (n, w3)" "w_notifier w3 \<noteq> None" by blast
      with sel False ren Inr show ?thesis by (simp add: ProduceEntriesToServiceLog_def)
    qed
  qed
  then obtain n err w3 where "ProduceEntriesToServiceLog x d cfg c rc items ?w1 = Inr (n, err, w3)" "w_notifier w3 \<noteq> None"
    by blast
  then show ?thesis by (simp add: service_log_part_def time_now_def Let_def)
qed

lemma kafka_part_answers:
  assumes "answers x" "w_notifier w \<noteq> None" "comparable (d_PreviouslyReported d) c" "None \<notin> set items"
  shows "\<exists>p' w'. kafka_part x d rc c rep items p w = Inr (p', w') \<and> w_notifier w' \<noteq> None
    \<and> pg_skippedEntries p' = pg_skippedEntries p \<and> pg_emptyEntries p' = pg_emptyEntries p"
proof -
  let ?w2 = "w\<lparr>w_clock := Suc (Suc (w_clock w))\<rparr>"
  let ?m0 = "generateInstantNotificationMessage (x_now x (w_clock w)) (url_ClusterDetails (w_urls w))
      (org_string (ce_AccountNumber c)) (org_string (ce_OrgID c)) (ce_ClusterName c)"
  obtain rs where items: "items = map Some rs" using no_null_items [OF assms(4)] by blast
  obtain msg w3 where ev: "kafka_events x d c rc items ?m0 ?w2 = Inr (msg, w3)"
    using kafka_events_eq [OF assms(3), of x rc rs ?m0 ?w2] unfolding items Let_def by blast
  from kafka_events_same [OF ev] assms(2) have w3: "w_notifier w3 \<noteq> None" by simp
  from notify_answers [OF assms(1) w3] obtain r w4 where nt: "notify x (KafkaMessage msg) w3 = Inr (r, w4)"
    "w_notifier w4 \<noteq> None" by blast
  have "\<exists>n err w'. produceEntriesToKafka x d c rc items rep w = Inr (n, err, w') \<and> w_notifier w' \<noteq> None"
  proof (cases "nm_Events msg = []")
    case True
    with ev w3 show ?thesis by (simp add: produceEntriesToKafka_def time_now_def Let_def)
  next
    case False
    with ev nt show ?thesis by (cases r) (simp_all add: produceEntriesToKafka_def time_now_def Let_def)
  qed
  then obtain n err w' where "produceEntriesToKafka x d c rc items rep w = Inr (n, err, w')" "w_notifier w' \<noteq> None"
    by blast
  then show ?thesis by (cases err) (simp_all add: kafka_part_def)
qed

lemma process_cluster_answers:
  assumes "answers x" "w_notifier w \<noteq> None" "x_valid_url x (dc_TemplateRendererURL (cfg_Dependencies cfg))"
    and "clean_reports d (w_db w) c"
  shows "\<exists>p' w'. process_cluster x d cfg rc c p w = Inr (p', w') \<and> w_notifier w' \<noteq> None
    \<and> pg_skippedEntries p' + pg_emptyEntries p' \<le> pg_skippedEntries p + pg_emptyEntries p + 1"
proof (cases "ReadReportForClusterAtTime (w_db w) (ce_OrgID c) (ce_ClusterName c) (ce_UpdatedAt c)")
  case (Inl err)
  with assms(2) show ?thesis
    by (auto simp: process_cluster_def report_read_error_def Let_def time_now_def)
next
  case (Inr rep)
  show ?thesis
  proof (cases "decode_report rep = None \<or> decode_report rep = Some []")
    case True
    with Inr assms(2) show ?thesis by (auto simp: process_cluster_def)
  next
    case False
    then obtain items where items: "decode_report rep = Some items" "items \<noteq> []" by auto
    with assms(4) Inr have cmp: "comparable (d_PreviouslyReported d) c" and nn: "None \<notin> set items"
      by (auto simp: clean_reports_def)
    have "\<exists>p1 w1. (if slc_Enabled (cfg_ServiceLog cfg) then service_log_part x d cfg rc c rep items p w else Inr (p, w))
        = Inr (p1, w1) \<and> w_notifier w1 \<noteq> None \<and> pg_skippedEntries p1 = pg_skippedEntries p
        \<and> pg_emptyEntries p1 = pg_emptyEntries p"
      using service_log_part_answers [OF assms(1-3) cmp nn] assms(2) by auto
    then obtain p1 w1 where 1: "(if slc_Enabled (cfg_ServiceLog cfg) then service_log_part x d cfg rc c rep items p w
        else Inr (p, w)) = Inr (p1, w1)" "w_notifier w1 \<noteq> None" "pg_skippedEntries p1 = pg_skippedEntries p"
        "pg_emptyEntries p1 = pg_emptyEntries p" by blast
    with kafka_part_answers [OF assms(1) 1(2) cmp nn, of rc rep p1] Inr items show ?thesis
      by (auto simp: process_cluster_def)
  qed
qed


section \<open>Re-enabled rules\<close>

text \<open>C2. A rule the customer disables is neither notified nor remembered: when the sent record of a
  cluster was written while some rules were disabled, then in the next run (still within the
  cool down) an issue of the same report whose rule is enabled and that passes the filters
  is notified exactly when its rule was disabled before.\<close>

theorem reenabled_rule_is_notified:
  fixes d1 :: differ and c :: ClusterEntry
  defines "disabled_before \<equiv> \<lambda>r. isRuleDisabled (d_ClusterDisabledRules d1) (d_OrgDisabledRules d1) c (ri_Module r) (ri_ErrorKey r)"
    and "stored \<equiv> \<lambda>fs. filterDisabledRulesFromReport (d_ClusterDisabledRules d1) (d_OrgDisabledRules d1) c (Document (JObj fs))"
  assumes "plain_reports fs" and "decode_report (Document (JObj fs)) = Some items" and "None \<notin> set items"
    and "sts_SentState (w_states w) = 1" and "db_err (w_db w) (OpWriteRecord (ce_ClusterName c)) = None"
    and "db_current entries cd target (w_db w) c t"
    and "ReadLastNotifiedRecordForClusterList
          (w_db (updateNotificationRecordSentState w c (stored fs) t target)) entries cd target = Inr (d_PreviouslyReported d2)"
    and "Some r \<in> set items" and "eligible x d2 c rc r"
  shows "worth_notifying x d2 c rc r \<longleftrightarrow> disabled_before r"
proof -
  let ?keep = "\<lambda>i. \<not> isRuleDisabled (d_ClusterDisabledRules d1) (d_OrgDisabledRules d1) c (ri_Module (item_or_empty i)) (ri_ErrorKey (item_or_empty i))"
  from filtered_report [OF assms(3,4)] have dec: "decode_report (stored fs) = Some (filter ?keep items)"
    unfolding stored_def by blast
  have nn: "None \<notin> set (filter ?keep items)" using assms(5) by simp
  have eq: "IssuesEqual o1 r \<Longrightarrow> disabled_before o1 = disabled_before r" for o1
    by (simp add: IssuesEqual_def disabled_before_def)
  have mem: "Some o1 \<in> set (filter ?keep items) \<longleftrightarrow> Some o1 \<in> set items \<and> \<not> disabled_before o1" for o1
    by (simp add: item_or_empty_def disabled_before_def)
  have "(\<exists>o1. Some o1 \<in> set (filter ?keep items) \<and> IssuesEqual o1 r) \<longleftrightarrow> \<not> disabled_before r"
    unfolding mem using assms(10) IssuesEqual_equiv(1) [of r] eq by blast
  then have "ShouldNotify (d_PreviouslyReported d2) c r = Inr (disabled_before r)"
    using sent_recalled [OF assms(6-8) dec nn assms(9), of r] by simp
  with assms(11) show ?thesis by (simp add: worth_notifying_def)
qed

section \<open>Examples\<close>

definition example_service_config :: "bool \<Rightarrow> ServiceLogConfiguration" where
  "example_service_config enabled = \<lparr>slc_Enabled = enabled, slc_ClientID = ''id'', slc_ClientSecret = ''secret'',
     slc_CreatedBy = ''by'', slc_Username = ''user'', slc_TokenURL = [], slc_URL = ''https://ocm'', slc_Timeout = 1,
     slc_LikelihoodThreshold = 0, slc_ImpactThreshold = 0, slc_SeverityThreshold = 0, slc_TotalRiskThreshold = 2,
     slc_Cooldown = ''1 day'', slc_EventFilter = [], slc_RuleDetailsURI = ''https://x/{module}'',
     slc_TagFilterEnabled = False, slc_Tags = [], slc_TagsSet = Some []\<rparr>"

definition example_config :: "bool \<Rightarrow> bool \<Rightarrow> ConfigStruct" where
  "example_config kafka_on service_log_on =
    (let st = \<lparr>sc_Driver = ''postgres'', sc_PGUsername = [], sc_PGPassword = [], sc_PGHost = [], sc_PGPort = 5432,
           sc_PGDBName = [], sc_PGParams = [], sc_LogSQLQueries = False\<rparr>
     in \<lparr>cfg_Storage = st, cfg_AggregatorStorage = st, cfg_Kafka = kp_Configuration (example_kafka kafka_on (Inl [])),
         cfg_ServiceLog = example_service_config service_log_on,
         cfg_Dependencies = \<lparr>dc_ContentServiceServer = [], dc_ContentServiceEndpoint = [],
           dc_TemplateRendererServer = [], dc_TemplateRendererEndpoint = [], dc_TemplateRendererURL = ''http://r''\<rparr>,
         cfg_Notifications = \<lparr>nc_InsightsAdvisorURL = [], nc_ClusterDetailsURI = ''{cluster_id}'', nc_RuleDetailsURI = ''{module}''\<rparr>,
         cfg_Metrics = \<lparr>mc_Job = [], mc_Namespace = [], mc_Subsystem = [], mc_GatewayURL = [], mc_GatewayAuthToken = [],
           mc_Retries = 0, mc_RetryAfter = 0, mc_GatewayTimeBetweenPush = 0\<rparr>,
         cfg_CleanerMaxAge = ''90 days'',
         cfg_Processing = \<lparr>pc_FilterAllowedClusters = False, pc_AllowedClusters = [],
           pc_FilterBlockedClusters = False, pc_BlockedClusters = []\<rparr>\<rparr>)"

lemma example_config_sel [simp]:
  "kc_Enabled (cfg_Kafka (example_config k s)) = k" "slc_Enabled (cfg_ServiceLog (example_config k s)) = s"
  by (simp_all add: example_config_def example_kafka_def example_service_config_def Let_def)

definition example_report :: ClusterReport where
  "example_report = Document (JObj [(''reports'', JArr (map example_hit [''ON'', ''OFF'']))])"

definition example_full_db :: database where
  "example_full_db = example_db\<lparr>db_new_reports :=
     [\<lparr>new_OrgID = 1, new_AccountNumber = 1, new_ClusterName = ''c1'', new_Report = example_report,
         new_UpdatedAt = 300, new_KafkaOffset = 2\<rparr>]\<rparr>"

lemma example_report_decodes: "decode_report example_report = Some [Some (example_item ''ON''), Some (example_item ''OFF'')]"
  using decode_example_report [of "[''ON'', ''OFF'']"] by (simp add: example_report_def)

lemma example_read: "ReadReportForClusterAtTime example_full_db 1 ''c1'' 300 = Inr example_report"
  by (simp add: ReadReportForClusterAtTime_def db_call_def query_row_def example_full_db_def example_db_def)

lemma example_clean: "\<forall>c \<in> set [example_cluster]. clean_reports example_differ (w_db (example_world n example_full_db)) c"
  by (simp add: clean_reports_def example_cluster_def example_world_def example_read example_report_decodes)

lemma example_kafka_answers: "answers (example_outside kafka_ProduceMessage)"
  by (auto simp: answers_def example_outside_def kafka_ProduceMessage_def Let_def split: sum.split)

abbreviation "example_kafka_world \<equiv> example_world (Some (example_kafka True (Inr (0, 7)))) example_full_db"

lemma example_kafka_sel: "w_notifier example_kafka_world = Some (example_kafka True (Inr (0, 7)))"
    "distinct_states (w_states example_kafka_world)" "kafka_ready (example_kafka True a)"
    "x_produce (example_outside kafka_ProduceMessage) = kafka_ProduceMessage"
    "x_valid_url (example_outside kafka_ProduceMessage) u"
  by (simp_all add: example_world_def distinct_states_def kafka_ready_def example_kafka_def example_outside_def)


lemma example_run:
  obtains p w' where "processReportsByCluster (example_outside kafka_ProduceMessage) example_differ (example_config True False)
     example_rules [example_cluster] example_kafka_world = Inr (p, w')"
    and "map nr_ClusterName (db_reported (w_db w')) = [''c1'']" "map nr_StateID (db_reported (w_db w')) = [1]"
proof -
  let ?x = "example_outside kafka_ProduceMessage"
  let ?items = "map Some [example_item ''ON'', example_item ''OFF'']"
  let ?p0 = "\<lparr>pg_notifiedIssues = 0, pg_skippedEntries = 0, pg_emptyEntries = 0\<rparr>"
  have ev: "kafka_events ?x example_differ example_cluster example_rules ?items m w
      = Inr (m\<lparr>nm_Events := nm_Events m @ [issue_event (w_urls w) example_cluster example_rules (example_item ''ON'')]\<rparr>,
          count_metric (add_high_impact 1) w)" for m and w :: "kafka_producer world"
    unfolding kafka_events_eq [OF example_comparable] by (simp add: Let_def)
  have rd: "ReadReportForClusterAtTime (w_db example_kafka_world) (ce_OrgID example_cluster) (ce_ClusterName example_cluster)
      (ce_UpdatedAt example_cluster) = Inr example_report"
    using example_read by (simp add: example_world_def example_cluster_def)
  have "\<exists>n w'. produceEntriesToKafka ?x example_differ example_cluster example_rules ?items example_report example_kafka_world
      = Inr (n, None, w') \<and> map nr_ClusterName (db_reported (w_db w')) = [''c1''] \<and> map nr_StateID (db_reported (w_db w')) = [1]"
    using ev unfolding produceEntriesToKafka_def Let_def time_now_def
    by (simp add: notify_def example_outside_def kafka_ProduceMessage_def example_kafka_def example_world_def
        db_with_record_def WriteNotificationRecordForCluster_def WriteNotificationRecordImpl_def example_full_db_def
        example_db_def example_cluster_def Let_def)
  then obtain n w' where pr: "produceEntriesToKafka ?x example_differ example_cluster example_rules ?items example_report example_kafka_world
      = Inr (n, None, w')" and w': "map nr_ClusterName (db_reported (w_db w')) = [''c1'']" "map nr_StateID (db_reported (w_db w')) = [1]"
    by (elim exE conjE) (rule that)
  have "kafka_part ?x example_differ example_rules example_cluster example_report ?items ?p0 example_kafka_world
      = Inr (?p0\<lparr>pg_notifiedIssues := n\<rparr>, w')"
    unfolding kafka_part_def pr by simp
  then have "process_cluster ?x example_differ (example_config True False) example_rules example_cluster ?p0 example_kafka_world
      = Inr (?p0\<lparr>pg_notifiedIssues := n\<rparr>, w')"
    unfolding process_cluster_def rd sum.case example_report_decodes option.case list.map by simp
  then have "processReportsByCluster ?x example_differ (example_config True False) example_rules [example_cluster] example_kafka_world
      = Inr (?p0\<lparr>pg_notifiedIssues := n\<rparr>, w')"
    unfolding processReportsByCluster_def process_loop.simps by (simp only: sum.case prod.case)
  then show thesis using w' by (rule that)
qed

theorem one_record_per_cluster_witness:
  "\<exists>p w' rs. processReportsByCluster (example_outside kafka_ProduceMessage) example_differ (example_config True False)
     example_rules [example_cluster] example_kafka_world = Inr (p, w')
   \<and> db_reported (w_db w') = rs \<and> map nr_ClusterName rs = [''c1'']
   \<and> (\<forall>r \<in> set rs. nr_EventTarget r = NotificationBackendTarget)"
proof -
  obtain p w' where run: "processReportsByCluster (example_outside kafka_ProduceMessage) example_differ (example_config True False)
     example_rules [example_cluster] example_kafka_world = Inr (p, w')"
    and cl: "map nr_ClusterName (db_reported (w_db w')) = [''c1'']" by (rule example_run)
  have tgs: "\<forall>r \<in> set (db_reported (w_db w')). nr_EventTarget r = NotificationBackendTarget"
  proof -
    have one: "length (targets (example_config True False)) \<le> 1" "distinct (map ce_ClusterName [example_cluster])"
      by (simp_all add: targets_def)
    from one_record_per_cluster [OF run one] obtain rs es where
      "w_db w' = (w_db example_kafka_world)\<lparr>db_reported := db_reported (w_db example_kafka_world) @ rs,
          db_read_errors := db_read_errors (w_db example_kafka_world) @ es\<rparr>"
      and tg: "\<forall>r \<in> set rs. nr_EventTarget r \<in> set (targets (example_config True False))" by blast
    then have "db_reported (w_db w') = rs" by (simp add: example_world_def example_full_db_def example_db_def)
    with tg show ?thesis by (simp add: targets_def)
  qed
  show ?thesis
    by (intro exI conjI) (rule run, rule refl, rule cl, rule tgs)
qed

theorem sent_records_were_delivered_witness:
  "\<exists>p w' q' m. processReportsByCluster (example_outside kafka_ProduceMessage) example_differ (example_config True False)
     example_rules [example_cluster] example_kafka_world = Inr (p, w')
   \<and> w_notifier w' = Some q' \<and> m \<in> set (kp_sent q')
   \<and> (\<exists>n. m = KafkaMessage n \<and> message_cluster n = Some ''c1'')"
proof -
  obtain p w' where run: "processReportsByCluster (example_outside kafka_ProduceMessage) example_differ (example_config True False)
     example_rules [example_cluster] example_kafka_world = Inr (p, w')"
    and cl: "map nr_ClusterName (db_reported (w_db w')) = [''c1'']" and st: "map nr_StateID (db_reported (w_db w')) = [1]"
    by (rule example_run)
  from sent_records_were_delivered [OF example_kafka_sel(4) _ _ example_kafka_sel(1,3,2) run] obtain q' msgs rs es where
    q': "w_notifier w' = Some q'" "kp_sent q' = kp_sent (example_kafka True (Inr (0, 7))) @ map KafkaMessage msgs"
    and db: "w_db w' = (w_db example_kafka_world)\<lparr>db_reported := db_reported (w_db example_kafka_world) @ rs,
        db_read_errors := db_read_errors (w_db example_kafka_world) @ es\<rparr>"
    and sub: "subseq (map Some (sent_clusters example_kafka_world rs)) (map message_cluster msgs)" by auto
  have rs: "db_reported (w_db w') = rs"
    using db by (simp add: example_world_def example_full_db_def example_db_def)
  from cl st rs have "sent_clusters example_kafka_world rs = [''c1'']"
    by (cases rs) (auto simp: sent_clusters_def example_world_def)
  with sub have "Some ''c1'' \<in> set (map message_cluster msgs)" by (simp add: subseq_singleton_left)
  then obtain n where n: "n \<in> set msgs" "message_cluster n = Some ''c1''" by auto
  then have "KafkaMessage n \<in> set (kp_sent q')" by (simp add: q'(2))
  with n show ?thesis
    by (intro exI conjI) (rule run, rule q', assumption, rule refl, assumption)
qed


abbreviation "accepting_service_log \<equiv> example_service_log (\<lambda>n. Response 201 ''201 Created'') (\<lambda>n. Inr ''token'')"

lemma example_item_sel [simp]: "ri_Module (example_item k) = ''rules.some_rule.report''" "ri_ErrorKey (example_item k) = k"
  by (simp_all add: example_item_def)

lemma accepting_produce: "\<exists>q'. service_log_ProduceMessage accepting_service_log m = Some (q', Accepted 0 0)"
  by (subst service_log_ProduceMessage.simps)
    (simp add: example_service_log_def service_log_New_def refreshToken_def Let_def)


lemma example_eligible:
  "eligible (example_outside send) (example_differ\<lparr>d_OrgDisabledRules := [], d_PreviouslyReported := m\<rparr>)
     example_cluster example_rules (example_item key)"
proof -
  have "moduleToRuleName ''rules.some_rule.report'' = ''some_rule''"
    using moduleToRuleName_report [of "''some_rule''" "''rules''"] by simp
  moreover have "calculateTotalRisk 3 3 = 3" by (simp add: calculateTotalRisk_small)
  ultimately show ?thesis
    by (auto simp: eligible_def isRuleDisabled_iff passes_filters_def example_differ_def
        example_cluster_def evaluateTagFilter_def evaluateFilterExpression_def
        issue_value_def rule_metadata_def example_rules_def example_outside_def filter_values_def Let_def)
qed

theorem reenabled_rule_is_notified_witness:
  "\<exists>m. worth_notifying (example_outside disabled_ProduceMessage) (example_differ\<lparr>d_OrgDisabledRules := [], d_PreviouslyReported := m\<rparr>)
        example_cluster example_rules (example_item ''OFF'')
    \<and> \<not> worth_notifying (example_outside disabled_ProduceMessage) (example_differ\<lparr>d_OrgDisabledRules := [], d_PreviouslyReported := m\<rparr>)
        example_cluster example_rules (example_item ''ON'')"
proof -
  let ?fs = "[(''reports'', JArr (map example_hit [''ON'', ''OFF'']))]"
  let ?x = "example_outside disabled_ProduceMessage"
  let ?w = "example_world (None :: unit option) example_db"
  let ?d = "\<lambda>m. example_differ\<lparr>d_OrgDisabledRules := [], d_PreviouslyReported := m\<rparr>"
  let ?stored = "filterDisabledRulesFromReport (d_ClusterDisabledRules example_differ) (d_OrgDisabledRules example_differ)
      example_cluster (Document (JObj ?fs))"
  let ?db = "w_db (updateNotificationRecordSentState ?w example_cluster ?stored 900 NotificationBackendTarget)"
  have plain: "plain_reports ?fs" by (simp add: plain_reports_def)
  have dec: "decode_report (Document (JObj ?fs)) = Some [Some (example_item ''ON''), Some (example_item ''OFF'')]"
    using example_report_decodes by (simp only: example_report_def)
  have st: "sts_SentState (w_states ?w) = 1" "db_err (w_db ?w) (OpWriteRecord (ce_ClusterName example_cluster)) = None"
    by (simp_all add: example_world_def example_db_def)
  have "\<not> no_cooldown ''1 day''" by (simp add: no_cooldown_def is_space_def)
  then have cur: "db_current [example_cluster] ''1 day'' NotificationBackendTarget (w_db ?w) example_cluster 900"
    by (simp add: db_current_def example_world_def example_db_def)
  have "db_recall [example_cluster] ''1 day'' NotificationBackendTarget ?db example_cluster = Some ?stored"
    by (rule recorded.recall_written [OF cur sent_state_write [OF st]])
  then obtain m where m: "ReadLastNotifiedRecordForClusterList ?db [example_cluster] ''1 day'' NotificationBackendTarget = Inr m"
    by (auto simp: db_recall_def split: sum.splits)
  have m2: "ReadLastNotifiedRecordForClusterList ?db [example_cluster] ''1 day'' NotificationBackendTarget
      = Inr (d_PreviouslyReported (?d m))" using m by simp
  have iff: "worth_notifying ?x (?d m) example_cluster example_rules (example_item k)
      \<longleftrightarrow> isRuleDisabled (d_ClusterDisabledRules example_differ) (d_OrgDisabledRules example_differ) example_cluster
            ''rules.some_rule.report'' k" if "k = ''ON'' \<or> k = ''OFF''" for k
    using that reenabled_rule_is_notified [OF plain dec _ st cur m2, of "example_item k" ?x example_rules]
      example_eligible [of disabled_ProduceMessage m k] by auto
  have "isRuleDisabled (d_ClusterDisabledRules example_differ) (d_OrgDisabledRules example_differ) example_cluster
            ''rules.some_rule.report'' k \<longleftrightarrow> k = ''OFF''" for k
    by (auto simp: isRuleDisabled_iff example_differ_def example_cluster_def trim_suffix_def has_suffix_def ruleModuleSuffix_def)
  then show ?thesis using iff [of "''ON''"] iff [of "''OFF''"] by (intro exI [of _ m]) simp
qed

end
