(* ===== verification/Service.thy ===== *)
theory Service
  imports Differ_Run
begin

text \<open>
  Setting up, running and ending the service: \<open>New\<close>, \<open>start\<close> and \<open>Run\<close> of \<open>differ/differ.go\<close>,
  \<open>differ/cleaner.go\<close>, \<open>differ/cli.go\<close>, \<open>differ/errors.go\<close>, and \<open>main\<close> and \<open>checkArgs\<close> of
  \<open>cmd/ccx-notification-service\<close>. The record \<open>environment\<close> holds what answers from outside: the
  database engine, the content service, the Kafka and OCM libraries, the HTTP server, the
  clock and the push gateway. The background loop that pushes metrics sends copies of the
  counters only and is not represented.
\<close>

section \<open>Errors and exit codes\<close>

datatype differ_error =
  FetchStatusContentError
| StatusStorageError
| KafkaBrokerError
| ServiceLogError string
| StatusMetricsError
| StatusConfiguration
| StatusEventFilterError string
| AggregatorStorageError
| OtherError string

fun selectError :: "differ_error option \<Rightarrow> int" where
  "selectError None = 0"
| "selectError (Some FetchStatusContentError) = 4"
| "selectError (Some StatusStorageError) = 3"
| "selectError (Some KafkaBrokerError) = 5"
| "selectError (Some (ServiceLogError m)) = 11"
| "selectError (Some StatusMetricsError) = 9"
| "selectError (Some StatusConfiguration) = 1"
| "selectError (Some (StatusEventFilterError m)) = 10"
| "selectError (Some AggregatorStorageError) = 12"
| "selectError (Some (OtherError t)) = 0"

section \<open>The environment\<close>

text \<open>The value behind the \<open>Producer\<close> interface.\<close>

datatype producer = KafkaProducer kafka_producer | ServiceLogProducer service_log_producer

fun producer_ProduceMessage :: "producer \<Rightarrow> producer_message \<Rightarrow> (producer \<times> send_result) option" where
  "producer_ProduceMessage (KafkaProducer p) m = map_option (map_prod KafkaProducer id) (kafka_ProduceMessage p m)"
| "producer_ProduceMessage (ServiceLogProducer p) m =
     map_option (map_prod ServiceLogProducer id) (service_log_ProduceMessage p m)"

record environment =
  n_evaluator :: evaluator
  n_valid_url :: "string \<Rightarrow> bool"
  n_render :: "string \<Rightarrow> RulesMap \<Rightarrow> ReportContent \<Rightarrow> ClusterName \<Rightarrow> string + (ClusterName \<rightharpoonup> RenderedReport list)"
  n_now :: "nat \<Rightarrow> Timestamp"
  n_content :: "DependenciesConfiguration \<Rightarrow> string + RulesMap"
  n_open :: "string \<Rightarrow> string \<Rightarrow> string + database"
  n_sarama_default :: SaramaConfig
  n_tls :: "string \<Rightarrow> string + string"
  n_kafka_start :: "string list \<Rightarrow> SaramaConfig option \<Rightarrow>
     string + (nat \<Rightarrow> string \<Rightarrow> producer_message \<Rightarrow> string + int \<times> nat)"
  n_kafka_close :: "kafka_producer \<Rightarrow> string option"
  n_ocm_build :: "string \<Rightarrow> string option \<Rightarrow> string \<Rightarrow> string \<Rightarrow> string + (nat \<Rightarrow> string + string)"
  n_http :: "nat \<Rightarrow> http_outcome"
  n_push :: "nat \<Rightarrow> string option"

definition outside_of :: "environment \<Rightarrow> producer outside" where
  "outside_of n = \<lparr>x_evaluator = n_evaluator n, x_valid_url = n_valid_url n, x_render = n_render n,
     x_produce = producer_ProduceMessage, x_now = n_now n\<rparr>"

fun producer_Close :: "environment \<Rightarrow> producer \<Rightarrow> string option" where
  "producer_Close n (KafkaProducer p) = n_kafka_close n p"
| "producer_Close n (ServiceLogProducer p) = None"

section \<open>Setting up\<close>

definition assertNotificationDestination :: "ConfigStruct \<Rightarrow> differ_error option" where
  "assertNotificationDestination config =
     (if \<not> kc_Enabled (cfg_Kafka config) \<and> \<not> slc_Enabled (cfg_ServiceLog config) then Some StatusConfiguration
      else if kc_Enabled (cfg_Kafka config) \<and> slc_Enabled (cfg_ServiceLog config) then Some StatusConfiguration
      else None)"

definition inc_ProducerSetupErrors :: "metrics \<Rightarrow> metrics" where
  "inc_ProducerSetupErrors m = m\<lparr>m_ProducerSetupErrors := Suc (m_ProducerSetupErrors m)\<rparr>"

definition set_status :: "nat \<Rightarrow> metrics \<Rightarrow> metrics" where
  "set_status s m = m\<lparr>m_ServiceStatus := s\<rparr>"

definition SetupKafkaProducer ::
  "environment \<Rightarrow> ConfigStruct \<Rightarrow> producer world \<Rightarrow> differ_error option \<times> producer world" where
  "SetupKafkaProducer n config w =
     (case kafka_New (n_sarama_default n) (n_tls n) (n_kafka_start n) config of
        Inl e \<Rightarrow> (Some KafkaBrokerError, count_metric inc_ProducerSetupErrors w)
      | Inr p \<Rightarrow> (None, w\<lparr>w_notifier := Some (KafkaProducer p)\<rparr>))"

text \<open>A failing OCM client is logged and no error is returned: the notifier stays nil.\<close>

definition setupServiceLogProducer ::
  "environment \<Rightarrow> ConfigStruct \<Rightarrow> producer world \<Rightarrow> differ_error option \<times> producer world" where
  "setupServiceLogProducer n config w =
     (let c = cfg_ServiceLog config
      in case NewOCMClient (n_ocm_build n) (slc_ClientID c) (slc_ClientSecret c) (slc_URL c) (slc_TokenURL c) of
           Inl e \<Rightarrow> (None, w)
         | Inr tokens \<Rightarrow>
             (case service_log_New c (n_http n) tokens of
                (Some e, p) \<Rightarrow> (Some (ServiceLogError e), count_metric inc_ProducerSetupErrors w)
              | (None, p) \<Rightarrow> (None, w\<lparr>w_notifier := Some (ServiceLogProducer p)\<rparr>)))"

definition configurationProblem :: string where
  "configurationProblem = ''Configuration problem''"

definition SetupFiltersAndThresholds :: "ConfigStruct \<Rightarrow> differ \<Rightarrow> differ_error option \<times> differ" where
  "SetupFiltersAndThresholds config d =
     (let k = cfg_Kafka config; s = cfg_ServiceLog config
      in if kc_Enabled k then
           (let d' = d\<lparr>d_Thresholds := \<lparr>et_TotalRisk = kc_TotalRiskThreshold k, et_Likelihood = kc_LikelihoodThreshold k,
                         et_Impact = kc_ImpactThreshold k, et_Severity = kc_SeverityThreshold k\<rparr>,
                       d_Filter := (if kc_EventFilter k = [] then DefaultEventFilter else kc_EventFilter k),
                       d_FilterByTag := kc_TagFilterEnabled k, d_TagsSet := kc_TagsSet k\<rparr>
            in if d_FilterByTag d' \<and> d_TagsSet d' = None then (Some (StatusEventFilterError configurationProblem), d')
               else (None, d'))
         else if slc_Enabled s then
           (let d' = d\<lparr>d_Thresholds := \<lparr>et_TotalRisk = slc_TotalRiskThreshold s, et_Likelihood = slc_LikelihoodThreshold s,
                         et_Impact = slc_ImpactThreshold s, et_Severity = slc_SeverityThreshold s\<rparr>,
                       d_Filter := (if slc_EventFilter s = [] then DefaultEventFilter else slc_EventFilter s),
                       d_FilterByTag := slc_TagFilterEnabled s, d_TagsSet := slc_TagsSet s\<rparr>
            in if d_FilterByTag d' \<and> d_TagsSet d' = None then (Some (StatusEventFilterError configurationProblem), d')
               else (None, d'))
         else (None, d))"

definition initial_differ :: differ where
  "initial_differ = \<lparr>d_Target = NotificationBackendTarget, d_NotificationType = InstantNotif,
     d_PreviouslyReported = Map.empty, d_CoolDown = [],
     d_Thresholds = \<lparr>et_TotalRisk = 0, et_Likelihood = 0, et_Impact = 0, et_Severity = 0\<rparr>,
     d_Filter = [], d_FilterByTag = False, d_TagsSet = None, d_IgnoreDisabledRules = False,
     d_AggregatorStorage = None, d_ClusterDisabledRules = [], d_OrgDisabledRules = []\<rparr>"

definition New :: "environment \<Rightarrow> ConfigStruct \<Rightarrow> producer world \<Rightarrow> (differ_error + differ) \<times> producer world" where
  "New n config w =
     (case assertNotificationDestination config of
        Some e \<Rightarrow> (Inl e, w)
      | None \<Rightarrow>
          (let d = initial_differ;
               (err, d1, w1) =
                 (if kc_Enabled (cfg_Kafka config) then
                    (let d0 = d\<lparr>d_Target := NotificationBackendTarget\<rparr>; (e, w') = SetupKafkaProducer n config w
                     in (e, d0\<lparr>d_CoolDown := kc_Cooldown (cfg_Kafka config)\<rparr>, w'))
                  else if slc_Enabled (cfg_ServiceLog config) then
                    (let d0 = d\<lparr>d_Target := ServiceLogTarget\<rparr>; (e, w') = setupServiceLogProducer n config w
                     in (e, d0\<lparr>d_CoolDown := slc_Cooldown (cfg_ServiceLog config)\<rparr>, w'))
                  else (None, d, w))
           in case err of
                Some e \<Rightarrow> (Inl e, w1)
              | None \<Rightarrow> (case SetupFiltersAndThresholds config d1 of
                    (Some e, d2) \<Rightarrow> (Inl e, w1)
                  | (None, d2) \<Rightarrow> (Inr d2, w1))))"

section \<open>Disabled rules\<close>

definition loadDisabledRules :: "differ \<Rightarrow> (differ_error option \<times> differ) run" where
  "loadDisabledRules d =
     (case d_AggregatorStorage d of
        None \<Rightarrow> Inl Panic
      | Some db \<Rightarrow> Inr (case ReadClusterRuleToggles db of
            Inl e \<Rightarrow> (Some AggregatorStorageError, d)
          | Inr clusterDisabled \<Rightarrow>
              (let d1 = d\<lparr>d_ClusterDisabledRules := clusterDisabled\<rparr>
               in case ReadOrgRuleDisables db of
                    Inl e \<Rightarrow> (Some AggregatorStorageError, d1)
                  | Inr orgDisabled \<Rightarrow> (None, d1\<lparr>d_OrgDisabledRules := orgDisabled\<rparr>))))"

definition fetchDisabledRulesFromAggregatorDB ::
  "environment \<Rightarrow> ConfigStruct \<Rightarrow> differ \<Rightarrow> (differ_error option \<times> differ) run" where
  "fetchDisabledRulesFromAggregatorDB n config d =
     (case NewStorage (n_open n) (cfg_AggregatorStorage config) of
        Inl e \<Rightarrow> Inr (Some AggregatorStorageError, d)
      | Inr aggregator \<Rightarrow>
          (case loadDisabledRules (d\<lparr>d_AggregatorStorage := Some aggregator\<rparr>) of
             Inl h \<Rightarrow> Inl h
           | Inr (Some e, d1) \<Rightarrow> Inr (Some e, d1\<lparr>d_AggregatorStorage := None\<rparr>)
           | Inr (None, d1) \<Rightarrow>
               Inr (case storage_Close aggregator of
                      Inl e \<Rightarrow> (Some AggregatorStorageError, d1\<lparr>d_AggregatorStorage := None\<rparr>)
                    | Inr u \<Rightarrow> (None, d1\<lparr>d_AggregatorStorage := None\<rparr>))))"

section \<open>Starting\<close>

definition setupNotificationStates :: "producer world \<Rightarrow> differ_error option \<times> producer world" where
  "setupNotificationStates w =
     (case getStates w of (None, w') \<Rightarrow> (None, w') | (Some e, w') \<Rightarrow> (Some StatusStorageError, w'))"

definition setupNotificationTypes :: "producer world \<Rightarrow> differ_error option \<times> producer world" where
  "setupNotificationTypes w =
     (case getNotificationTypes w of (None, w') \<Rightarrow> (None, w') | (Some e, w') \<Rightarrow> (Some StatusStorageError, w'))"

definition RetrievePreviouslyReportedForEventTarget ::
  "string \<Rightarrow> EventTarget \<Rightarrow> ClusterEntry list \<Rightarrow> differ \<Rightarrow> producer world \<Rightarrow> differ_error option \<times> differ \<times> producer world" where
  "RetrievePreviouslyReportedForEventTarget cooldown target clusters d w =
     (case ReadLastNotifiedRecordForClusterList (w_db w) clusters cooldown target of
        Inl e \<Rightarrow> (Some StatusStorageError, d\<lparr>d_PreviouslyReported := Map.empty\<rparr>, count_metric inc_ReadReportedErrors w)
      | Inr m \<Rightarrow> (None, d\<lparr>d_PreviouslyReported := m\<rparr>, w))"

fun errorForTarget :: "EventTarget \<Rightarrow> differ_error" where
  "errorForTarget NotificationBackendTarget = KafkaBrokerError"
| "errorForTarget ServiceLogTarget = ServiceLogError []"

text \<open>An error of the notifier wins over one of the storage.\<close>

definition differ_close :: "environment \<Rightarrow> differ \<Rightarrow> producer world \<Rightarrow> (differ_error option) run" where
  "differ_close n d w =
     (let err = (case storage_Close (w_db w) of Inl e \<Rightarrow> Some StatusStorageError | Inr u \<Rightarrow> None)
      in case w_notifier w of
           None \<Rightarrow> Inl Panic
         | Some p \<Rightarrow> (case producer_Close n p of
               Some e \<Rightarrow> Inr (Some (errorForTarget (d_Target d)))
             | None \<Rightarrow> Inr err))"

text \<open>The pushes that \<open>pushMetrics\<close> makes: the first, and after a failure up to \<open>Retries\<close> more. The
  function itself never returns an error.\<close>

fun push_retries :: "(nat \<Rightarrow> string option) \<Rightarrow> nat \<Rightarrow> nat \<Rightarrow> nat" where
  "push_retries push k 0 = k"
| "push_retries push k (Suc i) = (if push k = None then Suc k else push_retries push (Suc k) i)"

definition pushMetrics :: "(nat \<Rightarrow> string option) \<Rightarrow> MetricsConfiguration \<Rightarrow> differ_error option \<times> nat" where
  "pushMetrics push c =
     (if mc_Namespace c = [] \<or> mc_GatewayAuthToken c = [] then (None, 0)
      else case push 0 of
        None \<Rightarrow> (None, 1)
      | Some e \<Rightarrow> if mc_RetryAfter c = 0 \<or> mc_Retries c = 0 then (None, 1)
                  else (None, push_retries push 1 (nat (mc_Retries c))))"

text \<open>\<open>start\<close> from the reading of the cluster list on, and the whole of it.\<close>

definition start_clusters ::
  "environment \<Rightarrow> ConfigStruct \<Rightarrow> differ \<Rightarrow> RulesMap \<Rightarrow> producer world \<Rightarrow> (differ_error option \<times> producer world) run" where
  "start_clusters n config d ruleContent w =
     (case ReadClusterList (w_db w) of
        Inl e \<Rightarrow> Inr (Some StatusStorageError, count_metric inc_ReadClusterListErrors w)
      | Inr all \<Rightarrow>
          (let clusters = fst (filterClusterList all (cfg_Processing config))
           in if clusters = [] then Inr (None, w)
              else let w1 = count_metric (set_status 4) w
                   in case RetrievePreviouslyReportedForEventTarget (d_CoolDown d) (d_Target d) clusters d w1 of
                        (Some e, d1, w2) \<Rightarrow> Inr (Some e, w2)
                      | (None, d1, w2) \<Rightarrow>
                          (case ProcessClusters (outside_of n) d1 config ruleContent clusters (count_metric (set_status 5) w2) of
                             Inl h \<Rightarrow> Inl h
                           | Inr w3 \<Rightarrow>
                               (case differ_close n d1 w3 of
                                  Inl h \<Rightarrow> Inl h
                                | Inr (Some e) \<Rightarrow> Inr (Some e, w3)
                                | Inr None \<Rightarrow> Inr (fst (pushMetrics (n_push n) (cfg_Metrics config)), w3)))))"

definition start_body ::
  "environment \<Rightarrow> ConfigStruct \<Rightarrow> differ \<Rightarrow> producer world \<Rightarrow> (differ_error option \<times> producer world) run" where
  "start_body n config d w =
     (case (if d_IgnoreDisabledRules d then Inr (None, d) else fetchDisabledRulesFromAggregatorDB n config d) of
        Inl h \<Rightarrow> Inl h
      | Inr (Some e, d1) \<Rightarrow> Inr (Some e, w)
      | Inr (None, d1) \<Rightarrow>
          (let w1 = count_metric (set_status 2) w
           in case n_content n (cfg_Dependencies config) of
                Inl e \<Rightarrow> Inr (Some FetchStatusContentError, count_metric inc_FetchContentErrors w1)
              | Inr ruleContent \<Rightarrow>
                  (let w2 = w1\<lparr>w_urls := setupNotificationURLs (cfg_Notifications config)\<rparr>
                   in case setupNotificationStates w2 of
                        (Some e, w3) \<Rightarrow> Inr (Some e, w3)
                      | (None, w3) \<Rightarrow>
                          (case setupNotificationTypes w3 of
                             (Some e, w4) \<Rightarrow> Inr (Some e, w4)
                           | (None, w4) \<Rightarrow> start_clusters n config d1 ruleContent (count_metric (set_status 3) w4)))))"

definition start ::
  "environment \<Rightarrow> ConfigStruct \<Rightarrow> differ \<Rightarrow> producer world \<Rightarrow> (differ_error option \<times> producer world) run" where
  "start n config d w =
     (case start_body n config d (count_metric (set_status 1) w) of
        Inl h \<Rightarrow> Inl h
      | Inr (err, w') \<Rightarrow> Inr (err, count_metric (set_status 0) w'))"

section \<open>Cleaning\<close>

definition deleteOperationSpecified :: "CliFlags \<Rightarrow> bool" where
  "deleteOperationSpecified f \<longleftrightarrow> cli_PrintNewReportsForCleanup f \<or> cli_PerformNewReportsCleanup f
     \<or> cli_PrintOldReportsForCleanup f \<or> cli_PerformOldReportsCleanup f"

definition printNewReportsForCleanup :: "Timestamp \<Rightarrow> database \<Rightarrow> CliFlags \<Rightarrow> db_error option" where
  "printNewReportsForCleanup now db f =
     (case PrintNewReportsForCleanup db now (cli_MaxAge f) of Inl e \<Rightarrow> Some e | Inr lines \<Rightarrow> None)"

definition printOldReportsForCleanup :: "Timestamp \<Rightarrow> database \<Rightarrow> CliFlags \<Rightarrow> db_error option" where
  "printOldReportsForCleanup now db f =
     (case PrintOldReportsForCleanup db now (cli_MaxAge f) of Inl e \<Rightarrow> Some e | Inr lines \<Rightarrow> None)"

definition performNewReportsCleanup :: "database \<Rightarrow> CliFlags \<Rightarrow> db_error option \<times> database" where
  "performNewReportsCleanup db f =
     (case CleanupNewReports db (cli_MaxAge f) of Inl e \<Rightarrow> (Some e, db) | Inr (db', affected) \<Rightarrow> (None, db'))"

definition performOldReportsCleanup :: "database \<Rightarrow> CliFlags \<Rightarrow> db_error option \<times> database" where
  "performOldReportsCleanup db f =
     (case CleanupOldReports db (cli_MaxAge f) of Inl e \<Rightarrow> (Some e, db) | Inr (db', affected) \<Rightarrow> (None, db'))"

definition PerformCleanupOperation :: "Timestamp \<Rightarrow> database \<Rightarrow> CliFlags \<Rightarrow> db_error option \<times> database" where
  "PerformCleanupOperation now db f =
     (if cli_PrintNewReportsForCleanup f then (printNewReportsForCleanup now db f, db)
      else if cli_PerformNewReportsCleanup f then performNewReportsCleanup db f
      else if cli_PrintOldReportsForCleanup f then (printOldReportsForCleanup now db f, db)
      else if cli_PerformOldReportsCleanup f then performOldReportsCleanup db f
      else (Some (DBError ''unknown operation selected''), db))"

definition PerformCleanupOnStartup :: "database \<Rightarrow> CliFlags \<Rightarrow> db_error option \<times> database" where
  "PerformCleanupOnStartup db f =
     (case performNewReportsCleanup db f of
        (Some e, db1) \<Rightarrow> (Some e, db1)
      | (None, db1) \<Rightarrow> performOldReportsCleanup db1 f)"

section \<open>Running\<close>

definition initial_world :: "database \<Rightarrow> producer world" where
  "initial_world db = \<lparr>w_db = db, w_notifier = None,
     w_metrics = \<lparr>m_FetchContentErrors = 0, m_ReadClusterListErrors = 0, m_ReadReportedErrors = 0,
       m_ProducerSetupErrors = 0, m_StorageSetupErrors = 0, m_ReadReportForClusterErrors = 0,
       m_DeserializeReportErrors = 0, m_ReportWithHighImpact = 0, m_NotificationNotSentSameState = 0,
       m_NotificationNotSentErrorState = 0, m_NotificationSent = 0, m_ServiceStatus = 0\<rparr>,
     w_states = \<lparr>sts_SameState = 0, sts_SentState = 0, sts_LowerIssueState = 0, sts_ErrorState = 0\<rparr>,
     w_types = \<lparr>nts_Instant = 0, nts_Weekly = 0\<rparr>,
     w_urls = \<lparr>url_ClusterDetails = [], url_RuleDetails = [], url_InsightsAdvisor = []\<rparr>, w_clock = 0\<rparr>"

text \<open>The exit code, with the final state once there is one.\<close>

definition Run :: "environment \<Rightarrow> ConfigStruct \<Rightarrow> CliFlags \<Rightarrow> (int \<times> producer world option) run" where
  "Run n config f =
     (case NewStorage (n_open n) (cfg_Storage config) of
        Inl e \<Rightarrow> Inr (3, None)
      | Inr db \<Rightarrow>
          if deleteOperationSpecified f
          then (case PerformCleanupOperation (n_now n 0) db f of
                  (err, db') \<Rightarrow> Inr (if err = None then 0 else 8, Some (initial_world db')))
          else (case (if cli_CleanupOnStartup f then PerformCleanupOnStartup db f else (None, db)) of
                  (Some e, db') \<Rightarrow> Inr (8, Some (initial_world db'))
                | (None, db') \<Rightarrow>
                    (case New n config (initial_world db') of
                       (Inl e, w) \<Rightarrow> Inr (selectError (Some e), Some w)
                     | (Inr d, w) \<Rightarrow>
                         (case start n config (d\<lparr>d_IgnoreDisabledRules := cli_IgnoreDisabledRules f\<rparr>) w of
                            Inl h \<Rightarrow> Inl h
                          | Inr (err, w') \<Rightarrow> Inr (selectError err, Some w')))))"

section \<open>The command line\<close>

text \<open>\<open>Some\<close> is the code of \<open>os.Exit\<close>, \<open>None\<close> lets the service go on.\<close>

definition checkArgs :: "CliFlags \<Rightarrow> int option" where
  "checkArgs args =
     (if cli_ShowVersion args then Some 0
      else if cli_ShowAuthors args then Some 0
      else if cli_ShowConfiguration args then None
      else if cli_PrintNewReportsForCleanup args \<or> cli_PerformNewReportsCleanup args
              \<or> cli_PrintOldReportsForCleanup args \<or> cli_PerformOldReportsCleanup args then None
      else if \<not> cli_InstantReports args then Some 1
      else None)"

datatype log_level = DebugLevel | InfoLevel | WarnLevel | ErrorLevel | FatalLevel

text \<open>The number of bytes of a white space character the string starts with, as
  \<open>unicode.IsSpace\<close> has them.\<close>

definition space_bytes :: "string \<Rightarrow> nat" where
  "space_bytes s =
     (case s of
        [] \<Rightarrow> 0
      | c # cs \<Rightarrow>
          if c \<in> {CHR 0x20, CHR 0x09, CHR 0x0A, CHR 0x0B, CHR 0x0C, CHR 0x0D} then 1
          else if c = CHR 0xC2 \<and> take 1 cs \<in> {[CHR 0x85], [CHR 0xA0]} then 2
          else if c = CHR 0xE1 \<and> take 2 cs = [CHR 0x9A, CHR 0x80] then 3
          else if c = CHR 0xE3 \<and> take 2 cs = [CHR 0x80, CHR 0x80] then 3
          else if c = CHR 0xE2 \<and> take 1 cs = [CHR 0x80] \<and> cs ! 1 \<in> {CHR 0x80, CHR 0x81, CHR 0x82, CHR 0x83, CHR 0x84,
                    CHR 0x85, CHR 0x86, CHR 0x87, CHR 0x88, CHR 0x89, CHR 0x8A, CHR 0xA8, CHR 0xA9, CHR 0xAF} \<and> 2 \<le> length cs then 3
          else if c = CHR 0xE2 \<and> take 2 cs = [CHR 0x81, CHR 0x9F] then 3
          else 0)"

function trim_left :: "string \<Rightarrow> string" where
  "trim_left s = (if s = [] \<or> space_bytes s = 0 then s else trim_left (drop (space_bytes s) s))"
  by pat_completeness auto
termination
  by (relation "measure length") auto

declare trim_left.simps [simp del]

text \<open>Only white space is left: the text up to there is what trimming on the right keeps.\<close>

fun trim_right :: "string \<Rightarrow> string" where
  "trim_right [] = []"
| "trim_right (c # cs) = (if trim_left (c # cs) = [] then [] else c # trim_right cs)"

text \<open>\<open>strings.ToLower\<close> as far as ASCII results go: besides the upper case ASCII letters the dotted
  capital I and the Kelvin sign have an ASCII letter as their lower case.\<close>

function to_lower :: "string \<Rightarrow> string" where
  "to_lower [] = []"
| "to_lower (c # cs) =
     (if c = CHR 0xC4 \<and> take 1 cs = [CHR 0xB0] then CHR ''i'' # to_lower (drop 1 cs)
      else if c = CHR 0xE2 \<and> take 2 cs = [CHR 0x84, CHR 0xAA] then CHR ''k'' # to_lower (drop 2 cs)
      else fold_byte c # to_lower cs)"
  by pat_completeness auto
termination
  by (relation "measure length") auto

definition convertLogLevel :: "string \<Rightarrow> log_level" where
  "convertLogLevel level =
     (let l = to_lower (trim_right (trim_left level))
      in if l = ''debug'' then DebugLevel
         else if l = ''info'' then InfoLevel
         else if l = ''warn'' \<or> l = ''warning'' then WarnLevel
         else if l = ''error'' then ErrorLevel
         else if l = ''fatal'' then FatalLevel
         else DebugLevel)"

text \<open>\<open>main\<close>: \<open>load\<close> is the result of \<open>LoadConfiguration\<close> (\<open>None\<close>: a panic), \<open>logging\<close> the error of
  \<open>logger.InitZerolog\<close>.\<close>

definition service_main ::
  "environment \<Rightarrow> CliFlags \<Rightarrow> (load_error + ConfigStruct) option \<Rightarrow> string option \<Rightarrow> (int \<times> producer world option) run" where
  "service_main n cliFlags load logging =
     (case checkArgs cliFlags of
        Some code \<Rightarrow> Inr (code, None)
      | None \<Rightarrow>
          (case load of
             None \<Rightarrow> Inl Panic
           | Some (Inl e) \<Rightarrow> Inr (1, None)
           | Some (Inr config) \<Rightarrow>
               if logging \<noteq> None then Inr (1, None)
               else if cli_ShowConfiguration cliFlags then Inr (0, None)
               else Run n config (if cli_MaxAge cliFlags = [] then cliFlags\<lparr>cli_MaxAge := cfg_CleanerMaxAge config\<rparr>
                                  else cliFlags)))"

section \<open>The destination\<close>


definition example_env :: environment where
  "example_env = \<lparr>n_evaluator = x_evaluator (example_outside disabled_ProduceMessage), n_valid_url = (\<lambda>u. True),
     n_render = x_render (example_outside disabled_ProduceMessage), n_now = (\<lambda>k. 900 + int k),
     n_content = (\<lambda>c. Inr example_rules), n_open = (\<lambda>driver source. Inr example_full_db),
     n_sarama_default = \<lparr>sar_TLS_Enable = False, sar_TLS_Config = None, sar_SASL_Enable = False, sar_SASL_User = [],
       sar_SASL_Password = [], sar_SASL_Mechanism = [], sar_SASL_Handshake = False, sar_SASL_Scram512 = False,
       sar_ReturnSuccesses = False\<rparr>,
     n_tls = (\<lambda>p. Inl ''no file''), n_kafka_start = (\<lambda>a c. Inr (\<lambda>k topic m. Inr (0, k))),
     n_kafka_close = (\<lambda>p. None), n_ocm_build = (\<lambda>u t i s. Inl ''no connection''), n_http = (\<lambda>k. Response 201 ''201''),
     n_push = (\<lambda>k. Some ''down'')\<rparr>"


section \<open>Failing fast\<close>

lemma fetch_outcome:
  "fetchDisabledRulesFromAggregatorDB n config d = Inr (err, d') \<Longrightarrow>
    err \<in> {None, Some AggregatorStorageError} \<and> (d_AggregatorStorage d = None \<longrightarrow> d_AggregatorStorage d' = None)"
  by (auto simp: fetchDisabledRulesFromAggregatorDB_def loadDisabledRules_def Let_def split: sum.splits option.splits)

lemma fetch_no_panic: "\<exists>r. fetchDisabledRulesFromAggregatorDB n config d = Inr r"
  by (auto simp: fetchDisabledRulesFromAggregatorDB_def loadDisabledRules_def Let_def split: sum.split option.split)

lemma count_count [simp]: "count_metric f (count_metric g w) = count_metric (f \<circ> g) w"
  by (simp add: count_metric_def)

text \<open>C14. When the disabled rules cannot be read (no connection, a query that fails, or the closing
  that fails) and they are not to be ignored, the run ends at once with that error: nothing
  is sent, no table changes, no connection to the aggregator is kept, and the exit code is 12.\<close>

theorem aggregator_fail_fast:
  assumes "fetchDisabledRulesFromAggregatorDB n config d = Inr (Some e, d')" and "\<not> d_IgnoreDisabledRules d"
  shows "\<exists>w'. start n config d w = Inr (Some e, w') \<and> w_db w' = w_db w \<and> w_notifier w' = w_notifier w
    \<and> m_ServiceStatus (w_metrics w') = 0 \<and> selectError (Some e) = 12
    \<and> (d_AggregatorStorage d = None \<longrightarrow> d_AggregatorStorage d' = None)"
  using assms fetch_outcome [OF assms(1)]
  by (auto simp: start_def start_body_def set_status_def count_metric_def)

theorem aggregator_fail_fast_witness:
  "\<exists>w'. start (example_env\<lparr>n_open := \<lambda>driver source. Inl ''refused''\<rparr>) (example_config True False) example_differ
      (initial_world example_full_db) = Inr (Some AggregatorStorageError, w') \<and> w_db w' = example_full_db"
proof -
  have "fetchDisabledRulesFromAggregatorDB (example_env\<lparr>n_open := \<lambda>driver source. Inl ''refused''\<rparr>) (example_config True False)
      example_differ = Inr (Some AggregatorStorageError, example_differ)"
    by (simp add: fetchDisabledRulesFromAggregatorDB_def NewStorage_def example_config_def initAndGetDriver_def Let_def)
  from aggregator_fail_fast [OF this, of "initial_world example_full_db"] show ?thesis
    by (auto simp: example_differ_def initial_world_def)
qed

text \<open>C10. The disabled rules of a run are exactly the rows of the aggregator's two tables: a rule hit is
  skipped for a cluster if and only if \<open>cluster_rule_toggle\<close> has a row with \<open>disabled\<close> = 1 for its
  organization, cluster, full module and error key, or \<open>rule_disable\<close> has one for its
  organization, module without the suffix and error key.\<close>

theorem loaded_rules_decide:
  assumes "fetchDisabledRulesFromAggregatorDB n config d = Inr (None, d')"
  shows "\<exists>db. NewStorage (n_open n) (cfg_AggregatorStorage config) = Inr db \<and>
    (isRuleDisabled (d_ClusterDisabledRules d') (d_OrgDisabledRules d') c m key \<longleftrightarrow>
       (\<exists>r \<in> set (db_toggles db). crt_Disabled r = 1 \<and> crt_OrgID r = org_string (ce_OrgID c)
            \<and> crt_ClusterID r = ce_ClusterName c \<and> crt_RuleID r = m \<and> crt_ErrorKey r = key)
       \<or> (\<exists>r \<in> set (db_disables db). ork_OrgID r = org_string (ce_OrgID c)
            \<and> ork_RuleID r = trim_suffix m ruleModuleSuffix \<and> ork_ErrorKey r = key))"
proof -
  from assms obtain db where db: "NewStorage (n_open n) (cfg_AggregatorStorage config) = Inr db"
    by (auto simp: fetchDisabledRulesFromAggregatorDB_def split: sum.splits)
  with assms obtain cr orgr where cr: "ReadClusterRuleToggles db = Inr cr" "ReadOrgRuleDisables db = Inr orgr"
    and d': "d_ClusterDisabledRules d' = cr" "d_OrgDisabledRules d' = orgr"
    by (auto simp: fetchDisabledRulesFromAggregatorDB_def loadDisabledRules_def Let_def split: sum.splits option.splits)
  have set_cr: "k \<in> set cr \<longleftrightarrow> (\<exists>r \<in> set (db_toggles db). crt_Disabled r = 1 \<and> k = \<lparr>crk_OrgID = crt_OrgID r,
      crk_ClusterID = crt_ClusterID r, crk_RuleID = crt_RuleID r, crk_ErrorKey = crt_ErrorKey r\<rparr>)" for k
    using cr(1) by (auto simp: ReadClusterRuleToggles_def db_call_def split: option.splits)
  have set_or: "set orgr = set (db_disables db)"
    using cr(2) by (auto simp: ReadOrgRuleDisables_def db_call_def split: option.splits)
  have "\<lparr>ork_OrgID = a, ork_RuleID = b, ork_ErrorKey = k\<rparr> \<in> S \<longleftrightarrow>
      (\<exists>r \<in> S. ork_OrgID r = a \<and> ork_RuleID r = b \<and> ork_ErrorKey r = k)" for a b k and S :: "OrgRuleKey set"
  proof -
    show ?thesis
    proof
      assume "\<lparr>ork_OrgID = a, ork_RuleID = b, ork_ErrorKey = k\<rparr> \<in> S"
      then show "\<exists>r \<in> S. ork_OrgID r = a \<and> ork_RuleID r = b \<and> ork_ErrorKey r = k"
        by (intro bexI) simp_all
    next
      assume "\<exists>r \<in> S. ork_OrgID r = a \<and> ork_RuleID r = b \<and> ork_ErrorKey r = k"
      then obtain r where "r \<in> S" "ork_OrgID r = a" "ork_RuleID r = b" "ork_ErrorKey r = k" by blast
      then show "\<lparr>ork_OrgID = a, ork_RuleID = b, ork_ErrorKey = k\<rparr> \<in> S"
        by (cases r) simp
    qed
  qed
  then show ?thesis
    using db by (auto simp: isRuleDisabled_iff d' set_cr set_or)
qed

theorem loaded_rules_decide_witness:
  "\<exists>d'. fetchDisabledRulesFromAggregatorDB (example_env\<lparr>n_open := \<lambda>driver source. Inr (example_full_db\<lparr>db_toggles :=
       [\<lparr>crt_OrgID = ''1'', crt_ClusterID = ''c1'', crt_RuleID = ''rules.some_rule.report'', crt_ErrorKey = ''K'', crt_Disabled = 1\<rparr>]\<rparr>)\<rparr>)
      (example_config True False) initial_differ = Inr (None, d')
    \<and> isRuleDisabled (d_ClusterDisabledRules d') (d_OrgDisabledRules d') example_cluster ''rules.some_rule.report'' ''K''"
proof -
  let ?db = "example_full_db\<lparr>db_toggles :=
       [\<lparr>crt_OrgID = ''1'', crt_ClusterID = ''c1'', crt_RuleID = ''rules.some_rule.report'', crt_ErrorKey = ''K'', crt_Disabled = 1\<rparr>]\<rparr>"
  let ?n = "example_env\<lparr>n_open := \<lambda>driver source. Inr ?db\<rparr>"
  have ns: "NewStorage (n_open ?n) (cfg_AggregatorStorage (example_config True False)) = Inr (?db\<lparr>db_driver := DBDriverPostgres\<rparr>)"
    by (simp add: NewStorage_def example_config_def initAndGetDriver_def Let_def)
  have "\<exists>d'. fetchDisabledRulesFromAggregatorDB ?n (example_config True False) initial_differ = Inr (None, d')"
    unfolding fetchDisabledRulesFromAggregatorDB_def ns
    by (simp add: loadDisabledRules_def ReadClusterRuleToggles_def ReadOrgRuleDisables_def db_call_def storage_Close_def
        example_full_db_def example_db_def Let_def)
  then obtain d' where d': "fetchDisabledRulesFromAggregatorDB ?n (example_config True False) initial_differ = Inr (None, d')" by blast
  from loaded_rules_decide [OF d', of example_cluster "''rules.some_rule.report''" "''K''"] ns
  have "isRuleDisabled (d_ClusterDisabledRules d') (d_OrgDisabledRules d') example_cluster ''rules.some_rule.report'' ''K''"
    by (auto simp: example_cluster_def)
  with d' show ?thesis by blast
qed

section \<open>Exit codes\<close>

lemma setup_errors:
  "setupNotificationStates w = (e, w') \<Longrightarrow> e \<in> {None, Some StatusStorageError}"
  "setupNotificationTypes w = (e, w') \<Longrightarrow> e \<in> {None, Some StatusStorageError}"
  "RetrievePreviouslyReportedForEventTarget cd g cs d w = (e, d', w') \<Longrightarrow> e \<in> {None, Some StatusStorageError}"
  by (auto simp: setupNotificationStates_def setupNotificationTypes_def RetrievePreviouslyReportedForEventTarget_def
      split: option.splits prod.splits sum.splits)

lemma pushMetrics_no_error: "fst (pushMetrics push c) = None"
  by (auto simp: pushMetrics_def split: option.split)

definition start_errors :: "differ_error option set" where
  "start_errors = {None, Some FetchStatusContentError, Some StatusStorageError, Some KafkaBrokerError,
     Some (ServiceLogError []), Some AggregatorStorageError}"

lemma close_errors: "differ_close n d w = Inr e \<Longrightarrow> e \<in> start_errors"
  by (cases "d_Target d") (auto simp: differ_close_def start_errors_def Let_def split: option.splits sum.splits)

lemma start_clusters_errors: "start_clusters n config d rc w = Inr (e, w') \<Longrightarrow> e \<in> start_errors"
proof -
  assume st: "start_clusters n config d rc w = Inr (e, w')"
  show ?thesis
  proof (cases "ReadClusterList (w_db w)")
    case (Inl a)
    with st show ?thesis by (simp add: start_clusters_def start_errors_def)
  next
    case (Inr all)
    let ?cs = "fst (filterClusterList all (cfg_Processing config))"
    obtain e1 d1 w1 where r: "RetrievePreviouslyReportedForEventTarget (d_CoolDown d) (d_Target d) ?cs d (count_metric (set_status 4) w) = (e1, d1, w1)"
      using prod_cases3 by blast
    from setup_errors(3) [OF r] have e1: "e1 \<in> {None, Some StatusStorageError}" .
    show ?thesis
    proof (cases e1)
      case None
      show ?thesis
        using st Inr r None close_errors
        by (cases "?cs = []") (auto simp: start_clusters_def Let_def pushMetrics_no_error start_errors_def
            split: sum.splits option.splits)
    next
      case (Some a)
      with st Inr r e1 show ?thesis
        by (cases "?cs = []") (auto simp: start_clusters_def Let_def start_errors_def)
    qed
  qed
qed

lemma start_error_cases:
  assumes "start n config d w = Inr (e, w')"
  shows "e \<in> start_errors"
proof -
  from assms obtain w1 where b: "start_body n config d (count_metric (set_status 1) w) = Inr (e, w1)"
    by (auto simp: start_def split: sum.splits)
  define w0 where "w0 = count_metric (set_status 1) w"
  obtain e1 d1 where f: "(if d_IgnoreDisabledRules d then Inr (None, d) else fetchDisabledRulesFromAggregatorDB n config d) = Inr (e1, d1)"
    using fetch_no_panic by (metis surj_pair)
  have e1: "e1 \<in> {None, Some AggregatorStorageError}"
    using f fetch_outcome by (auto split: if_splits)
  show ?thesis
  proof (cases "e1 = None \<and> (\<exists>rc. n_content n (cfg_Dependencies config) = Inr rc)")
    case False
    with b f e1 show ?thesis
      by (cases "n_content n (cfg_Dependencies config)")
        (auto simp: start_body_def start_errors_def Let_def split: option.splits)
  next
    case True
    then obtain rc where rc: "n_content n (cfg_Dependencies config) = Inr rc" by blast
    obtain e2 w2 where s: "setupNotificationStates (count_metric (set_status 2) w0\<lparr>w_urls := setupNotificationURLs (cfg_Notifications config)\<rparr>) = (e2, w2)"
      by fastforce
    obtain e3 w3 where t: "setupNotificationTypes w2 = (e3, w3)" by fastforce
    show ?thesis
    proof (cases "e2 = None \<and> e3 = None")
      case True
      with b \<open>e1 = None \<and> _\<close> f rc s t have "start_clusters n config d1 rc (count_metric (set_status 3) w3) = Inr (e, w1)"
        by (simp add: start_body_def Let_def w0_def)
      then show ?thesis by (rule start_clusters_errors)
    next
      case False
      with setup_errors(1) [OF s] setup_errors(2) [OF t] b \<open>e1 = None \<and> _\<close> f rc s t show ?thesis
        by (cases e2; cases e3) (auto simp: start_body_def start_errors_def Let_def w0_def)
    qed
  qed
qed



lemma push_retries_spec:
  "push_retries push k i = m \<Longrightarrow> k \<le> m \<and> m \<le> k + i \<and> (\<forall>j. k \<le> j \<and> j + 1 < m \<longrightarrow> push j \<noteq> None)
     \<and> (m < k + i \<longrightarrow> k < m \<and> push (m - 1) = None)"
proof (induction push k i rule: push_retries.induct)
  case (2 push k i)
  show ?case
  proof (cases "push k = None")
    case False
    with 2 have ih: "Suc k \<le> m \<and> m \<le> Suc k + i \<and> (\<forall>j. Suc k \<le> j \<and> j + 1 < m \<longrightarrow> push j \<noteq> None)
       \<and> (m < Suc k + i \<longrightarrow> Suc k < m \<and> push (m - 1) = None)" by simp
    have "push j \<noteq> None" if "k \<le> j" "j + 1 < m" for j
      using that ih False by (cases "j = k") auto
    with ih show ?thesis by auto
  next
    case True
    with 2 have "m = Suc k" by simp
    with True show ?thesis by auto
  qed
qed auto

text \<open>Pushing the metrics at the end makes at most one attempt and \<open>Retries\<close> more, stops with the
  first success, goes on after a failure as long as retries are left, and its failure never
  becomes an error of the run.\<close>

theorem push_metrics_bounded:
  assumes "mc_Namespace c \<noteq> []" and "mc_GatewayAuthToken c \<noteq> []" and "mc_RetryAfter c \<noteq> 0" and "0 \<le> mc_Retries c"
  shows "\<exists>k. pushMetrics push c = (None, k) \<and> 1 \<le> k \<and> k \<le> 1 + nat (mc_Retries c)
    \<and> (\<forall>j. j + 1 < k \<longrightarrow> push j \<noteq> None)
    \<and> (k < 1 + nat (mc_Retries c) \<longrightarrow> push (k - 1) = None)"
proof (cases "push 0 = None \<or> mc_Retries c = 0")
  case True
  with assms show ?thesis by (auto simp: pushMetrics_def split: option.split)
next
  case False
  define k where "k = push_retries push 1 (nat (mc_Retries c))"
  from push_retries_spec [OF k_def [symmetric]] have k: "1 \<le> k" "k \<le> 1 + nat (mc_Retries c)"
    "\<forall>j. 1 \<le> j \<and> j + 1 < k \<longrightarrow> push j \<noteq> None" "k < 1 + nat (mc_Retries c) \<longrightarrow> push (k - 1) = None" by auto
  have "push j \<noteq> None" if "j + 1 < k" for j
    using that k(3) False by (cases "j = 0") auto
  moreover have "pushMetrics push c = (None, k)"
    using False assms by (auto simp: pushMetrics_def k_def)
  ultimately show ?thesis using k by blast
qed

theorem push_metrics_bounded_witness:
  "\<exists>k. pushMetrics (\<lambda>j. if j = 2 then None else Some ''down'')
     \<lparr>mc_Job = [], mc_Namespace = ''ns'', mc_Subsystem = [], mc_GatewayURL = [], mc_GatewayAuthToken = ''token'',
      mc_Retries = 5, mc_RetryAfter = 1, mc_GatewayTimeBetweenPush = 0\<rparr> = (None, k) \<and> 1 \<le> k \<and> k \<le> 6"
  using push_metrics_bounded [of "\<lparr>mc_Job = [], mc_Namespace = ''ns'', mc_Subsystem = [], mc_GatewayURL = [], mc_GatewayAuthToken = ''token'',
      mc_Retries = 5, mc_RetryAfter = 1, mc_GatewayTimeBetweenPush = 0\<rparr>" "\<lambda>j. if j = 2 then None else Some ''down''"]
  by auto

section \<open>Cleaning and the command line\<close>

text \<open>Cleaning up on startup either fails and changes nothing, or deletes from both tables exactly
  the rows that are older than the age given, keeps the others in their order, and touches
  no other table.\<close>

theorem startup_cleanup_exact:
  assumes "PerformCleanupOnStartup db f = (err, db')"
  shows "(err \<noteq> None \<longrightarrow> db' = db) \<and> (err = None \<longrightarrow> (\<exists>age. db_interval db (cli_MaxAge f) = Some age \<and>
     db' = db\<lparr>db_new_reports := filter (\<lambda>r. db_now db - age \<le> new_UpdatedAt r) (db_new_reports db),
              db_reported := filter (\<lambda>r. db_now db - age \<le> nr_UpdatedAt r) (db_reported db)\<rparr>))"
proof -
  have neg: "(\<lambda>r. \<not> f r < a) = (\<lambda>r. a \<le> f r)" for f :: "'r \<Rightarrow> int" and a by auto
  show ?thesis
    using assms
    by (cases "db_err db OpCleanup"; cases "db_interval db (cli_MaxAge f)")
      (auto simp: PerformCleanupOnStartup_def performNewReportsCleanup_def performOldReportsCleanup_def
        CleanupNewReports_def CleanupOldReports_def db_call_def delete_rows_def neg)
qed

definition example_flags :: "bool \<Rightarrow> CliFlags" where
  "example_flags instant = \<lparr>cli_InstantReports = instant, cli_WeeklyReports = False, cli_ShowVersion = False,
     cli_ShowAuthors = False, cli_ShowConfiguration = False, cli_PrintNewReportsForCleanup = False,
     cli_PerformNewReportsCleanup = False, cli_PrintOldReportsForCleanup = False, cli_PerformOldReportsCleanup = False,
     cli_CleanupOnStartup = False, cli_Verbose = False, cli_IgnoreDisabledRules = False, cli_MaxAge = ''90 days''\<rparr>"

theorem startup_cleanup_exact_witness:
  "\<exists>db'. PerformCleanupOnStartup example_db (example_flags True) = (None, db') \<and> db_new_reports db' = []"
proof -
  obtain err db' where r: "PerformCleanupOnStartup example_db (example_flags True) = (err, db')" by fastforce
  moreover from r have "err = None"
    by (auto simp: PerformCleanupOnStartup_def performNewReportsCleanup_def performOldReportsCleanup_def
        CleanupNewReports_def CleanupOldReports_def db_call_def delete_rows_def example_db_def)
  ultimately show ?thesis
    using startup_cleanup_exact [OF r] by (auto simp: example_db_def)
qed

lemma New_db: "New n config w = (r, w') \<Longrightarrow> w_db w' = w_db w"
  by (auto simp: New_def Let_def SetupKafkaProducer_def setupServiceLogProducer_def
      split: option.splits if_splits sum.splits prod.splits)

text \<open>The storage is only opened for a clear order: when \<open>main\<close> gets as far as a state of the storage,
  neither version, authors nor configuration were asked for, and the flags name a cleanup
  operation or instant reports; a cleanup operation sends nothing and leaves the tables it
  does not name alone.\<close>

theorem main_obeys_flags:
  assumes "service_main n f load logging = Inr (code, Some w)"
  shows "\<not> cli_ShowVersion f \<and> \<not> cli_ShowAuthors f \<and> \<not> cli_ShowConfiguration f
    \<and> (deleteOperationSpecified f \<or> cli_InstantReports f)
    \<and> (deleteOperationSpecified f \<longrightarrow> w_notifier w = None \<and> code \<in> {0, 8} \<and>
        (\<exists>config db. load = Some (Inr config) \<and> NewStorage (n_open n) (cfg_Storage config) = Inr db
           \<and> (\<not> cli_PerformOldReportsCleanup f \<longrightarrow> db_reported (w_db w) = db_reported db)
           \<and> (\<not> cli_PerformNewReportsCleanup f \<longrightarrow> db_new_reports (w_db w) = db_new_reports db)))"
proof -
  from assms obtain config where load: "load = Some (Inr config)" and ca: "checkArgs f = None"
    and nl: "logging = None" "\<not> cli_ShowConfiguration f"
    by (auto simp: service_main_def split: option.splits sum.splits if_splits)
  define f' where "f' = (if cli_MaxAge f = [] then f\<lparr>cli_MaxAge := cfg_CleanerMaxAge config\<rparr> else f)"
  have same: "deleteOperationSpecified f' = deleteOperationSpecified f"
    "cli_PerformOldReportsCleanup f' = cli_PerformOldReportsCleanup f" "cli_PerformNewReportsCleanup f' = cli_PerformNewReportsCleanup f"
    by (simp_all add: f'_def deleteOperationSpecified_def)
  from assms load ca nl have run: "Run n config f' = Inr (code, Some w)" by (simp add: service_main_def f'_def)
  have flags: "\<not> cli_ShowVersion f \<and> \<not> cli_ShowAuthors f \<and> (deleteOperationSpecified f \<or> cli_InstantReports f)"
    using ca nl(2) by (auto simp: checkArgs_def deleteOperationSpecified_def split: if_splits)
  from run obtain db where db: "NewStorage (n_open n) (cfg_Storage config) = Inr db"
    by (auto simp: Run_def split: sum.splits)
  have "w_notifier w = None \<and> code \<in> {0, 8} \<and> (\<not> cli_PerformOldReportsCleanup f \<longrightarrow> db_reported (w_db w) = db_reported db)
           \<and> (\<not> cli_PerformNewReportsCleanup f \<longrightarrow> db_new_reports (w_db w) = db_new_reports db)"
    if del: "deleteOperationSpecified f"
  proof -
    obtain err db' where p: "PerformCleanupOperation (n_now n 0) db f' = (err, db')" by fastforce
    have w: "w = initial_world db'" "code = (if err = None then 0 else 8)"
      using run db del p same(1) by (simp_all add: Run_def)
    have "(\<not> cli_PerformOldReportsCleanup f' \<longrightarrow> db_reported db' = db_reported db)
           \<and> (\<not> cli_PerformNewReportsCleanup f' \<longrightarrow> db_new_reports db' = db_new_reports db)"
      using p by (auto simp: PerformCleanupOperation_def performNewReportsCleanup_def performOldReportsCleanup_def
          CleanupNewReports_def CleanupOldReports_def db_call_def delete_rows_def split: if_splits option.splits sum.splits)
    with w same show ?thesis by (simp add: initial_world_def)
  qed
  with flags nl load db show ?thesis by auto
qed

theorem main_obeys_flags_witness:
  "\<exists>w. service_main example_env ((example_flags False)\<lparr>cli_PerformNewReportsCleanup := True\<rparr>)
      (Some (Inr (example_config True False))) None = Inr (0, Some w) \<and> db_reported (w_db w) = []"
proof -
  let ?f = "(example_flags False)\<lparr>cli_PerformNewReportsCleanup := True\<rparr>"
  have "\<exists>w. service_main example_env ?f (Some (Inr (example_config True False))) None = Inr (0, Some w)"
    by (simp add: service_main_def checkArgs_def example_flags_def Run_def deleteOperationSpecified_def NewStorage_def
        initAndGetDriver_def example_config_def Let_def example_env_def PerformCleanupOperation_def
        performNewReportsCleanup_def CleanupNewReports_def db_call_def example_full_db_def example_db_def delete_rows_def)
  then obtain w where w: "service_main example_env ?f (Some (Inr (example_config True False))) None = Inr (0, Some w)" by blast
  have ns: "NewStorage (n_open example_env) (cfg_Storage (example_config True False)) = Inr db \<Longrightarrow> db_reported db = []" for db
    by (auto simp: NewStorage_def initAndGetDriver_def example_config_def Let_def example_env_def example_full_db_def example_db_def)
  from main_obeys_flags [OF w] ns have "db_reported (w_db w) = []"
    by (auto simp: example_flags_def deleteOperationSpecified_def)
  with w show ?thesis by blast
qed

end
