(* ===== verification/Event_Filter.thy ===== *)
theory Event_Filter
  imports Prelude
begin

text \<open>
  The event filter language of \<open>docs/demos/dsl-events-filtering\<close>: \<open>token.go\<close>, \<open>stack.go\<close>,
  \<open>shunting_yard.go\<close> and \<open>evaluator.go\<close>. The scanner is Go's: \<open>toRPN\<close> takes the list of the
  tokens with their literals that its calls of \<open>Scan\<close> return before the end of the text. Both
  stacks have their top at the head of the list. A run time panic is \<open>None\<close>.
\<close>

section \<open>Tokens\<close>

datatype token = tINT | tIDENT | tLPAREN | tRPAREN
  | tADD | tSUB | tMUL | tQUO | tREM | tEQL | tLSS | tGTR | tNEQ | tLEQ | tGEQ | tLAND | tLOR
  | OtherToken string

record TokenWithValue =
  tv_Token :: token
  tv_Value :: int
  tv_Identifier :: string

definition ValueToken :: "token \<Rightarrow> int \<Rightarrow> TokenWithValue" where
  "ValueToken tok v = \<lparr>tv_Token = tok, tv_Value = v, tv_Identifier = []\<rparr>"

definition OperatorToken :: "token \<Rightarrow> TokenWithValue" where
  "OperatorToken tok = \<lparr>tv_Token = tok, tv_Value = 0, tv_Identifier = []\<rparr>"

definition IdentifierToken :: "token \<Rightarrow> string \<Rightarrow> TokenWithValue" where
  "IdentifierToken tok i = \<lparr>tv_Token = tok, tv_Value = 0, tv_Identifier = i\<rparr>"

text \<open>\<open>strconv.Atoi\<close> of a literal, its error dropped: too large a number is clamped, other
  syntax (hexadecimal, underscores) gives 0.\<close>

definition atoi :: "string \<Rightarrow> int" where
  "atoi s = (if s \<noteq> [] \<and> (\<forall>c \<in> set s. of_char c \<in> {48..57 :: nat})
     then min (int (parse_dec s)) (2 ^ 63 - 1) else 0)"

section \<open>The shunting yard\<close>

text \<open>The map of the priorities: a token that is no key reads as 0.\<close>

fun priority :: "token \<Rightarrow> nat" where
  "priority tMUL = 5" | "priority tQUO = 5" | "priority tREM = 5"
| "priority tADD = 4" | "priority tSUB = 4"
| "priority tEQL = 3" | "priority tLSS = 3" | "priority tGTR = 3"
| "priority tNEQ = 3" | "priority tLEQ = 3" | "priority tGEQ = 3"
| "priority tLAND = 2" | "priority tLOR = 1"
| "priority tINT = 0" | "priority tIDENT = 0" | "priority tLPAREN = 0" | "priority tRPAREN = 0"
| "priority (OtherToken s) = 0"

definition isOperator :: "token \<Rightarrow> bool" where
  "isOperator tok \<longleftrightarrow> tok \<in> {tMUL, tQUO, tREM, tADD, tSUB, tEQL, tLSS, tGTR, tNEQ, tLEQ, tGEQ, tLAND, tLOR}"

text \<open>Popping up to the left parenthesis: popping the empty stack panics.\<close>

fun pop_paren :: "token list \<Rightarrow> TokenWithValue list \<Rightarrow> (token list \<times> TokenWithValue list) option" where
  "pop_paren [] out = None"
| "pop_paren (tok # stack) out =
     (if tok = tLPAREN then Some (stack, out) else pop_paren stack (out @ [OperatorToken tok]))"

text \<open>Popping the operators whose priority is not below that of the operator read.\<close>

fun pop_operators :: "nat \<Rightarrow> token list \<Rightarrow> TokenWithValue list \<Rightarrow> token list \<times> TokenWithValue list" where
  "pop_operators p1 [] out = ([], out)"
| "pop_operators p1 (tok # stack) out =
     (if p1 > priority tok then (tok # stack, out)
      else pop_operators p1 stack (out @ [OperatorToken tok]))"

fun rpn_loop :: "(token \<times> string) list \<Rightarrow> token list \<Rightarrow> TokenWithValue list \<Rightarrow> TokenWithValue list option" where
  "rpn_loop [] stack out = Some (out @ map OperatorToken stack)"
| "rpn_loop ((tok, lit) # toks) stack out =
     (if tok = tINT then rpn_loop toks stack (out @ [ValueToken tok (atoi lit)])
      else if tok = tIDENT then rpn_loop toks stack (out @ [IdentifierToken tok lit])
      else if tok = tLPAREN then rpn_loop toks (tok # stack) out
      else if tok = tRPAREN then
        (case pop_paren stack out of None \<Rightarrow> None | Some (stack', out') \<Rightarrow> rpn_loop toks stack' out')
      else if isOperator tok then
        (case pop_operators (priority tok) stack out of (stack', out') \<Rightarrow> rpn_loop toks (tok # stack') out')
      else rpn_loop toks stack out)"

definition toRPN :: "(token \<times> string) list \<Rightarrow> TokenWithValue list option" where
  "toRPN toks = rpn_loop toks [] []"

section \<open>Evaluation\<close>

definition toint :: "bool \<Rightarrow> int" where
  "toint x = (if x then 1 else 0)"

definition tobool :: "int \<Rightarrow> bool" where
  "tobool x \<longleftrightarrow> x \<noteq> 0"

text \<open>The operators: the outer \<open>None\<close> when the token is none, the inner one a division by zero.\<close>

fun operators :: "token \<Rightarrow> (int \<Rightarrow> int \<Rightarrow> int option) option" where
  "operators tADD = Some (\<lambda>x y. Some (go_add x y))"
| "operators tSUB = Some (\<lambda>x y. Some (go_sub x y))"
| "operators tMUL = Some (\<lambda>x y. Some (go_mul x y))"
| "operators tQUO = Some (\<lambda>x y. go_div x y)"
| "operators tREM = Some (\<lambda>x y. go_rem x y)"
| "operators tEQL = Some (\<lambda>x y. Some (toint (x = y)))"
| "operators tLSS = Some (\<lambda>x y. Some (toint (x < y)))"
| "operators tGTR = Some (\<lambda>x y. Some (toint (x > y)))"
| "operators tNEQ = Some (\<lambda>x y. Some (toint (x \<noteq> y)))"
| "operators tLEQ = Some (\<lambda>x y. Some (toint (x \<le> y)))"
| "operators tGEQ = Some (\<lambda>x y. Some (toint (x \<ge> y)))"
| "operators tLAND = Some (\<lambda>x y. Some (toint (tobool x \<and> tobool y)))"
| "operators tLOR = Some (\<lambda>x y. Some (toint (tobool x \<or> tobool y)))"
| "operators tok = None"

datatype eval_error = EmptyStack | UnknownIdentifier string | IncorrectToken token

fun stack_Pop :: "int list \<Rightarrow> (eval_error + int) \<times> int list" where
  "stack_Pop [] = (Inl EmptyStack, [])"
| "stack_Pop (v # vs) = (Inr v, vs)"

definition stack_Push :: "int list \<Rightarrow> int \<Rightarrow> int list" where
  "stack_Push vs v = v # vs"

definition performArithmeticOperation ::
  "int list \<Rightarrow> (int \<Rightarrow> int \<Rightarrow> int option) \<Rightarrow> (eval_error option \<times> int list) option" where
  "performArithmeticOperation stack operator =
     (case stack_Pop stack of
        (Inl e, s1) \<Rightarrow> Some (Some e, s1)
      | (Inr y, s1) \<Rightarrow>
          (case stack_Pop s1 of
             (Inl e, s2) \<Rightarrow> Some (Some e, s2)
           | (Inr x, s2) \<Rightarrow>
               (case operator x y of None \<Rightarrow> None | Some result \<Rightarrow> Some (None, stack_Push s2 result))))"

fun evaluate_loop ::
  "TokenWithValue list \<Rightarrow> (string \<rightharpoonup> int) \<Rightarrow> int list \<Rightarrow> (eval_error option \<times> int list) option" where
  "evaluate_loop [] values stack = Some (None, stack)"
| "evaluate_loop (tok # toks) values stack =
     (case operators (tv_Token tok) of
        Some operator \<Rightarrow>
          (case performArithmeticOperation stack operator of
             None \<Rightarrow> None
           | Some (Some e, stack') \<Rightarrow> Some (Some e, stack')
           | Some (None, stack') \<Rightarrow> evaluate_loop toks values stack')
      | None \<Rightarrow>
          if tv_Token tok = tINT then evaluate_loop toks values (stack_Push stack (tv_Value tok))
          else if tv_Token tok = tIDENT then
            (case values (tv_Identifier tok) of
               None \<Rightarrow> Some (Some (UnknownIdentifier (tv_Identifier tok)), stack)
             | Some v \<Rightarrow> evaluate_loop toks values (stack_Push stack v))
          else Some (Some (IncorrectToken (tv_Token tok)), stack))"

definition evaluate :: "TokenWithValue list \<Rightarrow> (string \<rightharpoonup> int) \<Rightarrow> (eval_error option \<times> int list) option" where
  "evaluate expr values = evaluate_loop expr values []"

section \<open>The reference semantics\<close>

text \<open>Expressions, their value, and how they are written with the parentheses they need.\<close>

datatype expr = Num string | Var string | Bin token expr expr

fun well_formed :: "expr \<Rightarrow> bool" where
  "well_formed (Num s) = True"
| "well_formed (Var x) = True"
| "well_formed (Bin op l r) = (isOperator op \<and> well_formed l \<and> well_formed r)"

datatype outcome = Value int | Error eval_error | Panics

fun eval_expr :: "(string \<rightharpoonup> int) \<Rightarrow> expr \<Rightarrow> outcome" where
  "eval_expr values (Num s) = Value (atoi s)"
| "eval_expr values (Var x) = (case values x of None \<Rightarrow> Error (UnknownIdentifier x) | Some v \<Rightarrow> Value v)"
| "eval_expr values (Bin op l r) =
     (case eval_expr values l of
        Value x \<Rightarrow>
          (case eval_expr values r of
             Value y \<Rightarrow> (case operators op of None \<Rightarrow> Panics
                         | Some f \<Rightarrow> (case f x y of None \<Rightarrow> Panics | Some v \<Rightarrow> Value v))
           | bad \<Rightarrow> bad)
      | bad \<Rightarrow> bad)"

text \<open>All operators associate to the left, so the right operand needs parentheses from the
  operator's own priority on.\<close>

fun show_expr :: "nat \<Rightarrow> expr \<Rightarrow> (token \<times> string) list" where
  "show_expr p (Num s) = [(tINT, s)]"
| "show_expr p (Var x) = [(tIDENT, x)]"
| "show_expr p (Bin op l r) =
     (let body = show_expr (priority op) l @ [(op, [])] @ show_expr (Suc (priority op)) r
      in if priority op < p then [(tLPAREN, [])] @ body @ [(tRPAREN, [])] else body)"

fun postfix :: "expr \<Rightarrow> TokenWithValue list" where
  "postfix (Num s) = [ValueToken tINT (atoi s)]"
| "postfix (Var x) = [IdentifierToken tIDENT x]"
| "postfix (Bin op l r) = postfix l @ postfix r @ [OperatorToken op]"

lemma isOperator_priority: "isOperator op \<Longrightarrow> 0 < priority op \<and> op \<notin> {tINT, tIDENT, tLPAREN, tRPAREN}"
  by (auto simp: isOperator_def)

lemma operators_isOperator: "(operators op \<noteq> None) = isOperator op"
  by (cases op) (auto simp: isOperator_def)

text \<open>Popping operators that are all above a bound, or all operators down to a parenthesis.\<close>

lemma pop_operators_all:
  "\<forall>t \<in> set ps. p \<le> priority t \<Longrightarrow> stack = [] \<or> priority (hd stack) < p \<Longrightarrow>
    pop_operators p (ps @ stack) out = (stack, out @ map OperatorToken ps)"
  by (induction ps arbitrary: out) (auto, cases stack, auto)

lemma pop_paren_all:
  "tLPAREN \<notin> set ps \<Longrightarrow> pop_paren (ps @ tLPAREN # stack) out = Some (stack, out @ map OperatorToken ps)"
  by (induction ps arbitrary: out) auto

text \<open>Reading an expression leaves its last operators pending on the stack.\<close>

lemma rpn_loop_show:
  "well_formed e \<Longrightarrow> 0 < p \<Longrightarrow> stack = [] \<or> priority (hd stack) < p \<Longrightarrow>
    \<exists>written pending. written @ map OperatorToken pending = postfix e
      \<and> (\<forall>t \<in> set pending. isOperator t \<and> p \<le> priority t)
      \<and> rpn_loop (show_expr p e @ rest) stack out = rpn_loop rest (pending @ stack) (out @ written)"
proof (induction p e arbitrary: stack out rest rule: show_expr.induct)
  case (3 p op l r)
  let ?q = "priority op"
  let ?body = "show_expr ?q l @ [(op, [])] @ show_expr (Suc ?q) r"
  have op: "isOperator op" "0 < ?q" "op \<notin> {tINT, tIDENT, tLPAREN, tRPAREN}"
    using "3.prems"(1) isOperator_priority [of op] by auto
  have body: "\<exists>written pending. written @ map OperatorToken pending = postfix (Bin op l r)
      \<and> (\<forall>t \<in> set pending. isOperator t \<and> ?q \<le> priority t)
      \<and> rpn_loop (?body @ rest') stack' out' = rpn_loop rest' (pending @ stack') (out' @ written)"
    if stk: "stack' = [] \<or> priority (hd stack') < ?q" for stack' out' rest'
  proof -
    from "3.IH"(1) [of stack' "[(op, [])] @ show_expr (Suc ?q) r @ rest'" out'] "3.prems"(1) op stk
    obtain w1 p1 where l: "w1 @ map OperatorToken p1 = postfix l" "\<forall>t \<in> set p1. isOperator t \<and> ?q \<le> priority t"
      "rpn_loop (show_expr ?q l @ [(op, [])] @ show_expr (Suc ?q) r @ rest') stack' out'
        = rpn_loop ([(op, [])] @ show_expr (Suc ?q) r @ rest') (p1 @ stack') (out' @ w1)" by auto
    from pop_operators_all [of p1 ?q stack' "out' @ w1"] l stk
    have po: "pop_operators ?q (p1 @ stack') (out' @ w1) = (stack', out' @ postfix l)" by auto
    from "3.IH"(2) [of "op # stack'" rest' "out' @ postfix l"] "3.prems"(1)
    obtain w2 p2 where r: "w2 @ map OperatorToken p2 = postfix r" "\<forall>t \<in> set p2. isOperator t \<and> Suc ?q \<le> priority t"
      "rpn_loop (show_expr (Suc ?q) r @ rest') (op # stack') (out' @ postfix l)
        = rpn_loop rest' (p2 @ op # stack') ((out' @ postfix l) @ w2)" by auto
    have "rpn_loop (?body @ rest') stack' out' = rpn_loop rest' ((p2 @ [op]) @ stack') (out' @ (postfix l @ w2))"
      using l(3) op po r(3) by simp
    with r op show ?thesis
      by (intro exI [of _ "postfix l @ w2"] exI [of _ "p2 @ [op]"]) auto
  qed
  show ?case
  proof (cases "?q < p")
    case False
    from body [of stack rest out] "3.prems"(3) False obtain w pd where
      b: "w @ map OperatorToken pd = postfix (Bin op l r)" "\<forall>t \<in> set pd. isOperator t \<and> ?q \<le> priority t"
      "rpn_loop (?body @ rest) stack out = rpn_loop rest (pd @ stack) (out @ w)" by auto
    with False show ?thesis
      by (intro exI [of _ w] exI [of _ pd]) (auto simp: Let_def)
  next
    case True
    from body [of "tLPAREN # stack" "(tRPAREN, []) # rest" out] op obtain w pd where
      b: "w @ map OperatorToken pd = postfix (Bin op l r)" "\<forall>t \<in> set pd. isOperator t \<and> ?q \<le> priority t"
      "rpn_loop (?body @ (tRPAREN, []) # rest) (tLPAREN # stack) out
         = rpn_loop ((tRPAREN, []) # rest) (pd @ tLPAREN # stack) (out @ w)" by auto
    have "tLPAREN \<notin> set pd" using b(2) isOperator_priority by blast
    from pop_paren_all [OF this, of stack "out @ w"] b(1)
    have "rpn_loop ((tRPAREN, []) # rest) (pd @ tLPAREN # stack) (out @ w) = rpn_loop rest stack (out @ postfix (Bin op l r))"
      by (simp flip: b(1))
    with True b(3) show ?thesis
      by (intro exI [of _ "postfix (Bin op l r)"] exI [of _ "[]"]) (simp add: Let_def)
  qed
next
  case (1 p s)
  show ?case by (intro exI [of _ "[ValueToken tINT (atoi s)]"] exI [of _ "[]"]) simp
next
  case (2 p x)
  show ?case by (intro exI [of _ "[IdentifierToken tIDENT x]"] exI [of _ "[]"]) simp
qed

text \<open>Evaluating the postfix form runs the reference semantics on the stack. On an error the rest
  is not looked at.\<close>

lemma evaluate_postfix:
  "well_formed e \<Longrightarrow>
     (case eval_expr values e of
        Value v \<Rightarrow> evaluate_loop (postfix e @ rest) values stack = evaluate_loop rest values (v # stack)
      | Error err \<Rightarrow> \<exists>stack'. evaluate_loop (postfix e @ rest) values stack = Some (Some err, stack')
      | Panics \<Rightarrow> evaluate_loop (postfix e @ rest) values stack = None)"
proof (induction e arbitrary: rest stack)
  case (Bin op l r)
  have op: "operators op \<noteq> None" using Bin.prems operators_isOperator by simp
  then obtain f where f: "operators op = Some f" by blast
  note l = Bin.IH(1) [of "postfix r @ [OperatorToken op] @ rest" stack]
  show ?case
  proof (cases "eval_expr values l")
    case (Value x)
    note r = Bin.IH(2) [of "[OperatorToken op] @ rest" "x # stack"]
    show ?thesis
    proof (cases "eval_expr values r")
      case (Value y)
      with \<open>eval_expr values l = Value x\<close> l r Bin.prems f show ?thesis
        by (cases "f x y") (simp_all add: OperatorToken_def performArithmeticOperation_def stack_Push_def)
    qed (use \<open>eval_expr values l = Value x\<close> l r Bin.prems in simp_all)
  qed (use l Bin.prems in simp_all)
qed (auto simp: ValueToken_def IdentifierToken_def stack_Push_def split: option.split)

text \<open>C16. The filter language means what it says: for every expression, written with the parentheses
  its structure needs under the priorities and left associativity, the shunting yard gives
  its postfix form, and evaluating that form gives the value of the expression on the 64
  bit integers, or stops with the error or the division by zero the evaluation meets first.\<close>

theorem filter_expression_evaluates:
  assumes "well_formed e"
  shows "toRPN (show_expr 1 e) = Some (postfix e) \<and>
    (case eval_expr values e of
       Value v \<Rightarrow> evaluate (postfix e) values = Some (None, [v])
     | Error err \<Rightarrow> \<exists>stack. evaluate (postfix e) values = Some (Some err, stack)
     | Panics \<Rightarrow> evaluate (postfix e) values = None)"
proof -
  from rpn_loop_show [OF assms, of 1 "[]" "[]" "[]"] have "toRPN (show_expr 1 e) = Some (postfix e)"
    by (auto simp: toRPN_def)
  with evaluate_postfix [OF assms, of "[]" "values" "[]"] show ?thesis
    by (auto simp: evaluate_def split: outcome.splits)
qed

text \<open>The expression of the demonstration.\<close>

definition demo_expr :: expr where
  "demo_expr = Bin tLAND (Bin tLAND (Bin tGTR (Var ''confidence'') (Num ''1''))
       (Bin tGEQ (Bin tSUB (Var ''severity'') (Num ''1'')) (Num ''2'')))
     (Bin tLSS (Var ''priority'') (Bin tSUB (Bin tMUL (Var ''severity'') (Num ''2'')) (Num ''1'')))"

theorem filter_expression_evaluates_witness:
  "evaluate (postfix demo_expr) [''confidence'' \<mapsto> 2, ''severity'' \<mapsto> 3, ''priority'' \<mapsto> 1] = Some (None, [1])
   \<and> toRPN (show_expr 1 demo_expr) = Some (postfix demo_expr)"
proof -
  have wf: "well_formed demo_expr" by (simp add: demo_expr_def isOperator_def)
  have "atoi ''1'' = 1" "atoi ''2'' = 2" by (simp_all add: atoi_def parse_dec_def)
  then have "eval_expr [''confidence'' \<mapsto> 2, ''severity'' \<mapsto> 3, ''priority'' \<mapsto> 1] demo_expr = Value 1"
    by (simp add: demo_expr_def toint_def tobool_def go_sub_def go_mul_def go_int_def)
  with filter_expression_evaluates [OF wf, of "[''confidence'' \<mapsto> 2, ''severity'' \<mapsto> 3, ''priority'' \<mapsto> 1]"]
  show ?thesis by simp
qed

end
