(* ===== verification/Schema_Pages.thy ===== *)
theory Schema_Pages
  imports Prelude
begin

text \<open>
  The scripts of the generated database documentation under \<open>docs/db-description\<close>: the type
  filters with their buttons (\<open>main.js\<close>, \<open>column.js\<close>, \<open>routines.js\<close>), the cells of the column
  page, the table pages (\<open>tables/table.js\<close>), and the navigation and export buttons of
  \<open>schemaSpy.js\<close>, \<open>relationships.js\<close>, \<open>constraint.js\<close> and \<open>routines/routine.js\<close>. Texts are UTF-8
  byte lists. DataTables is a library: a table is represented by its rows and by what the
  scripts use of it, the list of the search functions (a row is shown when all of them accept
  it) and the rows shown by the last drawing. Buttons are identified by their text.
\<close>

section \<open>Filters and buttons\<close>

type_synonym row = "string list"

datatype button = AllButton | FirstButton | SecondButton

record page =
  pg_rows :: "row list"
  pg_search :: "(row \<Rightarrow> bool) list"
  pg_active :: "button \<Rightarrow> bool"
  pg_activeObject :: "button option"
  pg_shown :: "row list"

text \<open>An element that is out of range is \<open>undefined\<close>, which equals no string.\<close>

definition cell :: "row \<Rightarrow> nat \<Rightarrow> string option" where
  "cell r i = (if i < length r then Some (r ! i) else None)"

definition draw :: "page \<Rightarrow> page" where
  "draw p = p\<lparr>pg_shown := filter (\<lambda>r. list_all (\<lambda>f. f r) (pg_search p)) (pg_rows p)\<rparr>"

text \<open>\<open>toUpperCase\<close> as far as ASCII results go: the dotless i and the long s have an ASCII letter as
  their upper case.\<close>

function js_upper :: "string \<Rightarrow> string" where
  "js_upper [] = []"
| "js_upper (c # cs) =
     (if c = CHR 0xC4 \<and> take 1 cs = [CHR 0xB1] then CHR ''I'' # js_upper (drop 1 cs)
      else if c = CHR 0xC5 \<and> take 1 cs = [CHR 0xBF] then CHR ''S'' # js_upper (drop 1 cs)
      else (let n = of_char c :: nat in if 97 \<le> n \<and> n \<le> 122 then char_of (n - 32) else c) # js_upper cs)"
  by pat_completeness auto
termination
  by (relation "measure length") auto

declare js_upper.simps [simp del]

text \<open>The three \<open>filterBy\<close>: the search functions are replaced by one.\<close>

definition main_filter :: "string \<Rightarrow> row \<Rightarrow> bool" where
  "main_filter tableType data \<longleftrightarrow>
     (let type = (if 2 \<le> length data then cell data (length data - 2) else None)
      in type = Some tableType \<or> tableType = ''All'')"

definition main_filterBy :: "string \<Rightarrow> page \<Rightarrow> page" where
  "main_filterBy tableType p = p\<lparr>pg_search := [main_filter tableType]\<rparr>"

definition column_filter :: "string \<Rightarrow> row \<Rightarrow> bool" where
  "column_filter tableType data \<longleftrightarrow> (let type = cell data 1 in type = Some tableType \<or> tableType = ''All'')"

definition column_filterBy :: "string \<Rightarrow> page \<Rightarrow> page" where
  "column_filterBy tableType p = p\<lparr>pg_search := [column_filter tableType]\<rparr>"

text \<open>Every row of the routines has a type column, so \<open>toUpperCase\<close> is never called on
  \<open>undefined\<close>; a row without one would end the drawing with an exception, here it is
  accepted by no filter.\<close>

definition routines_filter :: "string \<Rightarrow> row \<Rightarrow> bool" where
  "routines_filter functionType data \<longleftrightarrow>
     (case cell data 1 of
        None \<Rightarrow> False
      | Some type \<Rightarrow> js_upper type = functionType \<or> functionType = ''All'')"

definition routines_filterBy :: "string \<Rightarrow> page \<Rightarrow> page" where
  "routines_filterBy functionType p = p\<lparr>pg_search := [routines_filter functionType]\<rparr>"

definition set_active :: "button \<Rightarrow> bool \<Rightarrow> page \<Rightarrow> page" where
  "set_active b v p = p\<lparr>pg_active := (pg_active p)(b := v)\<rparr>"

definition deactivate_previous :: "page \<Rightarrow> page" where
  "deactivate_previous p = (case pg_activeObject p of None \<Rightarrow> p | Some b \<Rightarrow> set_active b False p)"

text \<open>The actions: the button \<open>All\<close>, and one of the other two. \<open>filterBy\<close> is the page's own.\<close>

definition all_action :: "(string \<Rightarrow> page \<Rightarrow> page) \<Rightarrow> page \<Rightarrow> page" where
  "all_action filterBy p = draw (deactivate_previous (filterBy ''All'' p))"

definition type_action :: "(string \<Rightarrow> page \<Rightarrow> page) \<Rightarrow> string \<Rightarrow> button \<Rightarrow> page \<Rightarrow> page" where
  "type_action filterBy type this p =
     (let p1 = deactivate_previous (filterBy type p);
          p2 = set_active this (\<not> pg_active p1 this) p1
      in draw (p2\<lparr>pg_activeObject := Some this\<rparr>))"

fun main_press :: "button \<Rightarrow> page \<Rightarrow> page" where
  "main_press AllButton p = all_action main_filterBy p"
| "main_press FirstButton p = type_action main_filterBy ''Table'' FirstButton p"
| "main_press SecondButton p = type_action main_filterBy ''View'' SecondButton p"

fun column_press :: "button \<Rightarrow> page \<Rightarrow> page" where
  "column_press AllButton p = all_action column_filterBy p"
| "column_press FirstButton p = type_action column_filterBy ''Table'' FirstButton p"
| "column_press SecondButton p = type_action column_filterBy ''View'' SecondButton p"

fun routines_press :: "button \<Rightarrow> page \<Rightarrow> page" where
  "routines_press AllButton p = all_action routines_filterBy p"
| "routines_press FirstButton p = type_action routines_filterBy ''FUNCTION'' FirstButton p"
| "routines_press SecondButton p = type_action routines_filterBy ''PROCEDURE'' SecondButton p"

definition initial_page :: "row list \<Rightarrow> page" where
  "initial_page rows = \<lparr>pg_rows = rows, pg_search = [], pg_active = (\<lambda>b. False), pg_activeObject = None, pg_shown = rows\<rparr>"

section \<open>The column page\<close>

record column_row =
  cr_keyTitle :: string
  cr_keyClass :: string

record td =
  td_title :: "string option"
  td_classes :: "string list"

definition column_link :: "string \<Rightarrow> string" where
  "column_link data = ''<a href=\"tables/'' @ data @ ''.html\" target=\"_top\">'' @ data @ ''</a>''"

definition check_mark :: string where
  "check_mark = [CHR 0xE2, CHR 0x88, CHR 0x9A]"

text \<open>The three \<open>createdCell\<close> callbacks, by the column they belong to.\<close>

definition column_createdCell :: "nat \<Rightarrow> string \<Rightarrow> column_row \<Rightarrow> td \<Rightarrow> td" where
  "column_createdCell target cellData rowData t =
     (if target = 2 then
        (let t1 = (if cr_keyTitle rowData \<noteq> [] then t\<lparr>td_title := Some (cr_keyTitle rowData)\<rparr> else t)
         in if cr_keyClass rowData \<noteq> [] then t1\<lparr>td_classes := td_classes t1 @ [cr_keyClass rowData]\<rparr> else t1)
      else if target = 5 then (if cellData = check_mark then t\<lparr>td_title := Some ''nullable''\<rparr> else t)
      else if target = 6 then
        (if cellData = check_mark then t\<lparr>td_title := Some ''Automatically updated by the database''\<rparr> else t)
      else t)"

section \<open>The table pages\<close>

text \<open>The buttons that show and hide the related columns and the constraints.\<close>

record table_page =
  tp_relatedKey_visible :: bool
  tp_constraint_visible :: bool
  tp_related_active :: bool
  tp_constraint_active :: bool
  tp_draws :: nat

definition related_action :: "table_page \<Rightarrow> table_page" where
  "related_action p = p\<lparr>tp_relatedKey_visible := \<not> tp_relatedKey_visible p,
     tp_related_active := \<not> tp_related_active p, tp_draws := Suc (tp_draws p)\<rparr>"

definition constraint_action :: "table_page \<Rightarrow> table_page" where
  "constraint_action p = p\<lparr>tp_constraint_visible := \<not> tp_constraint_visible p,
     tp_constraint_active := \<not> tp_constraint_active p, tp_draws := Suc (tp_draws p)\<rparr>"

definition is_digit :: "char \<Rightarrow> bool" where
  "is_digit c \<longleftrightarrow> of_char c \<in> {48..57 :: nat}"

text \<open>\<open>replace(/(\d)(?=(\d\d\d)+(?!\d))/g, "1 ")\<close>: a digit matches when the run of digits that
  follows it is not empty and its length is a multiple of three; what it is replaced with is
  the text \<open>1\<close> and a space.\<close>

definition digit_matches :: "char \<Rightarrow> string \<Rightarrow> bool" where
  "digit_matches c rest \<longleftrightarrow> is_digit c \<and>
     (let run = length (takeWhile is_digit rest) in 0 < run \<and> run mod 3 = 0)"

fun replace_digits :: "string \<Rightarrow> string \<Rightarrow> string" where
  "replace_digits replacement [] = []"
| "replace_digits replacement (c # cs) =
     (if digit_matches c cs then replacement @ replace_digits replacement cs
      else c # replace_digits replacement cs)"

definition digits :: "string \<Rightarrow> string" where
  "digits text = replace_digits ''1 '' text"

section \<open>Navigation and export buttons\<close>

text \<open>The entries of the navigation bar that are marked active, for the address of the page.\<close>

definition nav_active :: "string \<Rightarrow> string list \<Rightarrow> bool list" where
  "nav_active href links =
     (let pgurl = after_last href (CHR ''/'') in map (\<lambda>l. l = pgurl \<or> l = []) links)"

definition export_buttons :: "(string \<times> string \<times> string) list" where
  "export_buttons =
     [(''copyHtml5'', ''<i class=\"fa fa-files-o\"></i>'', ''Copy''),
      (''excelHtml5'', ''<i class=\"fa fa-file-excel-o\"></i>'', ''Excel''),
      (''csvHtml5'', ''<i class=\"fa fa-file-text-o\"></i>'', ''CSV''),
      (''pdfHtml5'', ''<i class=\"fa fa-file-pdf-o\"></i>'', ''PDF'')]"

record table_container =
  tc_id :: string
  tc_rows :: nat
  tc_group_one :: "string list"
  tc_group_two :: "(string \<times> string \<times> string) list"

text \<open>The row with the two groups is put in front, the table's own buttons go into the first
  group and the export buttons into the second.\<close>

definition dataTableExportButtons :: "string list \<Rightarrow> table_container \<Rightarrow> table_container" where
  "dataTableExportButtons own_buttons c =
     c\<lparr>tc_rows := Suc (tc_rows c), tc_group_one := own_buttons, tc_group_two := export_buttons\<rparr>"

record editor_options =
  eo_lineNumbers :: bool
  eo_mode :: string
  eo_indentWithTabs :: bool
  eo_smartIndent :: bool
  eo_matchBrackets :: bool
  eo_autofocus :: bool
  eo_readOnly :: bool

text \<open>The editor of the SQL text, when the page has one.\<close>

definition sql_editor :: "bool \<Rightarrow> editor_options option" where
  "sql_editor has_code_element =
     (if has_code_element
      then Some \<lparr>eo_lineNumbers = True, eo_mode = ''text/x-sql'', eo_indentWithTabs = True, eo_smartIndent = True,
                 eo_matchBrackets = True, eo_autofocus = True, eo_readOnly = True\<rparr>
      else None)"

section \<open>One filter at a time\<close>

text \<open>What a page shows and marks after its last button. \<open>accepts\<close> is the page's filter for the
  button.\<close>

definition page_ok :: "(button \<Rightarrow> row \<Rightarrow> bool) \<Rightarrow> button \<Rightarrow> page \<Rightarrow> bool" where
  "page_ok accepts b p \<longleftrightarrow> pg_shown p = filter (accepts b) (pg_rows p)
     \<and> (\<forall>b'. pg_active p b' \<longleftrightarrow> b' = b \<and> b \<noteq> AllButton)
     \<and> (b \<noteq> AllButton \<longrightarrow> pg_activeObject p = Some b)"

text \<open>The invariant between presses: whatever is active is the active object.\<close>

definition one_active :: "page \<Rightarrow> bool" where
  "one_active p \<longleftrightarrow> (\<forall>b. pg_active p b \<longrightarrow> pg_activeObject p = Some b)"

text \<open>The contract of a page with such buttons: how \<open>filterBy\<close> replaces the search functions.\<close>

locale filter_page =
  fixes filterBy :: "string \<Rightarrow> page \<Rightarrow> page" and accepts :: "string \<Rightarrow> row \<Rightarrow> bool"
  assumes filterBy_search: "filterBy t p = p\<lparr>pg_search := [accepts t]\<rparr>"
begin

lemma deactivated:
  "one_active p \<Longrightarrow> pg_active (deactivate_previous (filterBy t p)) = (\<lambda>b. False)"
  by (auto simp: filterBy_search deactivate_previous_def one_active_def set_active_def fun_eq_iff split: option.split)

lemma deactivate_sel [simp]:
  "pg_search (deactivate_previous p) = pg_search p" "pg_rows (deactivate_previous p) = pg_rows p"
  "pg_activeObject (deactivate_previous p) = pg_activeObject p"
  by (auto simp: deactivate_previous_def set_active_def split: option.split)

lemma all_shows:
  "one_active p \<Longrightarrow> one_active (all_action filterBy p) \<and> pg_rows (all_action filterBy p) = pg_rows p
     \<and> pg_shown (all_action filterBy p) = filter (accepts ''All'') (pg_rows p)
     \<and> pg_active (all_action filterBy p) = (\<lambda>b. False)"
  using deactivated [of p "''All''"]
  by (simp add: all_action_def draw_def one_active_def filterBy_search)

lemma type_shows:
  "one_active p \<Longrightarrow> one_active (type_action filterBy t b p) \<and> pg_rows (type_action filterBy t b p) = pg_rows p
     \<and> pg_shown (type_action filterBy t b p) = filter (accepts t) (pg_rows p)
     \<and> pg_active (type_action filterBy t b p) = (\<lambda>b'. b' = b)
     \<and> pg_activeObject (type_action filterBy t b p) = Some b"
  using deactivated [of p t]
  by (auto simp: type_action_def draw_def one_active_def set_active_def Let_def filterBy_search fun_eq_iff)

end

interpretation main_page: filter_page main_filterBy main_filter
  by unfold_locales (simp add: main_filterBy_def)

interpretation column_page: filter_page column_filterBy column_filter
  by unfold_locales (simp add: column_filterBy_def)

interpretation routines_page: filter_page routines_filterBy routines_filter
  by unfold_locales (simp add: routines_filterBy_def)

fun main_accepts :: "button \<Rightarrow> row \<Rightarrow> bool" where
  "main_accepts AllButton = main_filter ''All''"
| "main_accepts FirstButton = main_filter ''Table''"
| "main_accepts SecondButton = main_filter ''View''"

fun column_accepts :: "button \<Rightarrow> row \<Rightarrow> bool" where
  "column_accepts AllButton = column_filter ''All''"
| "column_accepts FirstButton = column_filter ''Table''"
| "column_accepts SecondButton = column_filter ''View''"

fun routines_accepts :: "button \<Rightarrow> row \<Rightarrow> bool" where
  "routines_accepts AllButton = routines_filter ''All''"
| "routines_accepts FirstButton = routines_filter ''FUNCTION''"
| "routines_accepts SecondButton = routines_filter ''PROCEDURE''"

lemma presses_ok:
  assumes "\<And>b p. one_active p \<Longrightarrow> one_active (press b p) \<and> pg_rows (press b p) = pg_rows p \<and> page_ok accepts b (press b p)"
  shows "one_active p \<Longrightarrow> one_active (fold press bs p) \<and> pg_rows (fold press bs p) = pg_rows p
    \<and> (bs \<noteq> [] \<longrightarrow> page_ok accepts (last bs) (fold press bs p))"
proof (induction bs rule: rev_induct)
  case (snoc b bs)
  with assms [of "fold press bs p" b] show ?case by simp
qed simp

lemma initial_one_active: "one_active (initial_page rows)"
  by (simp add: one_active_def initial_page_def)

lemma main_press_ok:
  "one_active p \<Longrightarrow> one_active (main_press b p) \<and> pg_rows (main_press b p) = pg_rows p \<and> page_ok main_accepts b (main_press b p)"
  using main_page.all_shows [of p] main_page.type_shows [of p] by (cases b) (auto simp: page_ok_def)

lemma column_press_ok:
  "one_active p \<Longrightarrow> one_active (column_press b p) \<and> pg_rows (column_press b p) = pg_rows p \<and> page_ok column_accepts b (column_press b p)"
  using column_page.all_shows [of p] column_page.type_shows [of p] by (cases b) (auto simp: page_ok_def)

lemma routines_press_ok:
  "one_active p \<Longrightarrow> one_active (routines_press b p) \<and> pg_rows (routines_press b p) = pg_rows p \<and> page_ok routines_accepts b (routines_press b p)"
  using routines_page.all_shows [of p] routines_page.type_shows [of p] by (cases b) (auto simp: page_ok_def)

text \<open>C12. However the buttons of the three pages are pressed, afterwards the rows shown are exactly
  those of the type of the last button pressed (pressing it twice does not switch the
  filter off), and the only button marked active is that one, none after \<open>All\<close>.\<close>

theorem buttons_show_last_type:
  assumes "bs \<noteq> []"
  shows "page_ok main_accepts (last bs) (fold main_press bs (initial_page rows))
    \<and> page_ok column_accepts (last bs) (fold column_press bs (initial_page rows))
    \<and> page_ok routines_accepts (last bs) (fold routines_press bs (initial_page rows))"
  using presses_ok [OF main_press_ok initial_one_active, of bs] presses_ok [OF column_press_ok initial_one_active, of bs]
    presses_ok [OF routines_press_ok initial_one_active, of bs] assms by blast

theorem buttons_show_last_type_witness:
  "pg_shown (fold main_press [SecondButton, FirstButton, FirstButton]
     (initial_page [[''reported'', ''Table'', ''x''], [''v'', ''View'', ''x'']])) = [[''reported'', ''Table'', ''x'']]
   \<and> page_ok main_accepts FirstButton (fold main_press [SecondButton, FirstButton, FirstButton]
     (initial_page [[''reported'', ''Table'', ''x''], [''v'', ''View'', ''x'']]))"
proof -
  let ?p = "fold main_press [SecondButton, FirstButton, FirstButton]
     (initial_page [[''reported'', ''Table'', ''x''], [''v'', ''View'', ''x'']])"
  have ok: "page_ok main_accepts FirstButton ?p"
    using buttons_show_last_type [of "[SecondButton, FirstButton, FirstButton]"] by fastforce
  have rows: "pg_rows ?p = [[''reported'', ''Table'', ''x''], [''v'', ''View'', ''x'']]"
    using presses_ok [OF main_press_ok initial_one_active, of "[SecondButton, FirstButton, FirstButton]"]
    by (simp add: initial_page_def)
  have "pg_shown ?p = filter (main_accepts FirstButton) (pg_rows ?p)"
    using ok unfolding page_ok_def by blast
  then have "pg_shown ?p = [[''reported'', ''Table'', ''x'']]"
    unfolding rows by (simp add: main_filter_def cell_def)
  with ok show ?thesis by (rule conjI [rotated])
qed

section \<open>Grouping digits\<close>

text \<open>What the function is for: a space after each digit that matches, the digit kept.\<close>

fun group_digits :: "string \<Rightarrow> string" where
  "group_digits [] = []"
| "group_digits (c # cs) = (if digit_matches c cs then c # CHR '' '' # group_digits cs else c # group_digits cs)"

lemma digits_Cons: "digits (c # cs) = (if digit_matches c cs then ''1 '' @ digits cs else c # digits cs)"
  by (simp add: digits_def)

lemma digits_Nil [simp]: "digits [] = []"
  by (simp add: digits_def)

text \<open>Grouping the digits of the record number loses digits: the text has a space where it
  should, but the digit in front of every space is replaced by 1, so the number stays
  right exactly when all those digits are 1 already.\<close>

theorem digits_overwrites:
  "length (digits str) = length (group_digits str)
   \<and> (digits str = group_digits str \<longleftrightarrow>
        (\<forall>i < length str. digit_matches (str ! i) (drop (Suc i) str) \<longrightarrow> str ! i = CHR ''1''))"
proof (induction str)
  case (Cons c cs)
  have "(\<forall>i < length (c # cs). digit_matches ((c # cs) ! i) (drop (Suc i) (c # cs)) \<longrightarrow> (c # cs) ! i = CHR ''1'')
      \<longleftrightarrow> (digit_matches c cs \<longrightarrow> c = CHR ''1'')
        \<and> (\<forall>i < length cs. digit_matches (cs ! i) (drop (Suc i) cs) \<longrightarrow> cs ! i = CHR ''1'')"
    by (auto simp: nth_Cons split: nat.splits)
  with Cons show ?case by (auto simp: digits_Cons)
qed simp

theorem digits_overwrites_witness:
  "digits ''9234567'' = ''1 231 567'' \<and> group_digits ''9234567'' = ''9 234 567'' \<and> digits ''9234567'' \<noteq> group_digits ''9234567''"
proof -
  have d: "digits ''9234567'' = ''1 231 567''" by code_simp
  have "digit_matches (''9234567'' ! 0) (drop (Suc 0) ''9234567'')" by code_simp
  moreover have "''9234567'' ! 0 \<noteq> CHR ''1''" by simp
  ultimately have "digits ''9234567'' \<noteq> group_digits ''9234567''"
    using digits_overwrites [of "''9234567''"] by (metis length_pos_if_in_set list.set_intros(1))
  moreover have "group_digits ''9234567'' = ''9 234 567''" by code_simp
  ultimately show ?thesis using d by blast
qed

end
