(* ===== verification/Web_Base.thy ===== *)
theory Web_Base
  imports Prelude
begin

text \<open>
  What the scripts of the documentation viewer use of JavaScript's strings and of the document
  object model. Strings are byte lists; the functions below are exact for the ASCII patterns
  the scripts search for. Elements are identified by numbers.
\<close>

section \<open>Strings\<close>

text \<open>\<open>s.indexOf(p)\<close>: the first position of \<open>p\<close>, -1 when it does not occur.\<close>

fun index_from :: "int \<Rightarrow> string \<Rightarrow> string \<Rightarrow> int" where
  "index_from i p [] = (if p = [] then i else -1)"
| "index_from i p (c # cs) = (if has_prefix (c # cs) p then i else index_from (i + 1) p cs)"

definition index_of :: "string \<Rightarrow> string \<Rightarrow> int" where
  "index_of s p = index_from 0 p s"

definition js_contains :: "string \<Rightarrow> string \<Rightarrow> bool" where
  "js_contains s p \<longleftrightarrow> index_of s p \<ge> 0"

lemma index_from_ge: "0 \<le> i \<Longrightarrow> index_from i p s = -1 \<or> i \<le> index_from i p s"
proof (induction s arbitrary: i)
  case (Cons c cs)
  from Cons.IH [of "i + 1"] Cons.prems
  have "index_from (i + 1) p cs = -1 \<or> i + 1 \<le> index_from (i + 1) p cs" by simp
  then show ?case by auto
qed simp

lemma index_from_iff: "0 \<le> i \<Longrightarrow> 0 \<le> index_from i p s \<longleftrightarrow> (\<exists>a b. s = a @ p @ b)"
proof (induction s arbitrary: i)
  case (Cons c cs)
  have "(\<exists>a b. c # cs = a @ p @ b) \<longleftrightarrow> has_prefix (c # cs) p \<or> (\<exists>a b. cs = a @ p @ b)"
    unfolding has_prefix_iff by (metis append_Cons append_Nil list.exhaust list.inject)
  then show ?case using Cons by simp
qed simp

lemma js_contains_iff: "js_contains s p \<longleftrightarrow> (\<exists>a b. s = a @ p @ b)"
  by (simp add: js_contains_def index_of_def index_from_iff)

text \<open>\<open>toLowerCase\<close> as far as ASCII results of ASCII letters go.\<close>

definition lower_char :: "char \<Rightarrow> char" where
  "lower_char c = (let n = of_char c :: nat in if 65 \<le> n \<and> n \<le> 90 then char_of (n + 32) else c)"

definition lower :: "string \<Rightarrow> string" where
  "lower s = map lower_char s"

definition is_digit :: "char \<Rightarrow> bool" where
  "is_digit c \<longleftrightarrow> (let n = of_char c :: nat in 48 \<le> n \<and> n \<le> 57)"

definition is_alpha :: "char \<Rightarrow> bool" where
  "is_alpha c \<longleftrightarrow> (let n = of_char c :: nat in 65 \<le> n \<and> n \<le> 90 \<or> 97 \<le> n \<and> n \<le> 122)"

text \<open>The class \<open>\w\<close> of regular expressions.\<close>

definition word_char :: "char \<Rightarrow> bool" where
  "word_char c \<longleftrightarrow> is_digit c \<or> is_alpha c \<or> c = CHR ''_''"

text \<open>A search for a whole word, as \<open>/\bw\b/\<close> does it for a word \<open>w\<close> of word characters; \<open>b\<close> says
  whether the character before is one.\<close>

fun word_from :: "bool \<Rightarrow> string \<Rightarrow> string \<Rightarrow> bool" where
  "word_from b w [] \<longleftrightarrow> False"
| "word_from b w (c # cs) \<longleftrightarrow>
     (\<not> b \<and> has_prefix (c # cs) w \<and> (case drop (length w) (c # cs) of [] \<Rightarrow> True | d # ds \<Rightarrow> \<not> word_char d))
     \<or> word_from (word_char c) w cs"

definition has_word :: "string \<Rightarrow> string \<Rightarrow> bool" where
  "has_word w s \<longleftrightarrow> word_from False w s"

text \<open>The leading digits of a string, and the number after the first occurrence of a prefix that is
  followed by one: \<open>/p([0-9]+)/\<close>, 0 when there is none.\<close>

definition leading_digits :: "string \<Rightarrow> string" where
  "leading_digits s = takeWhile is_digit s"

fun version_after :: "string \<Rightarrow> string \<Rightarrow> nat" where
  "version_after p [] = 0"
| "version_after p (c # cs) =
     (if has_prefix (c # cs) p \<and> leading_digits (drop (length p) (c # cs)) \<noteq> []
      then parse_dec (leading_digits (drop (length p) (c # cs))) else version_after p cs)"

text \<open>Some suffix of a string satisfies a condition: a search with a regular expression.\<close>

fun some_suffix :: "(string \<Rightarrow> bool) \<Rightarrow> string \<Rightarrow> bool" where
  "some_suffix P [] \<longleftrightarrow> P []"
| "some_suffix P (c # cs) \<longleftrightarrow> P (c # cs) \<or> some_suffix P cs"

definition or_default :: "'a \<Rightarrow> 'a option \<Rightarrow> 'a" where
  "or_default d x = (case x of Some v \<Rightarrow> v | None \<Rightarrow> d)"

lemma or_default_simps [simp]: "or_default d None = d" "or_default d (Some v) = v"
  by (simp_all add: or_default_def)

section \<open>Outcomes of a handler\<close>

text \<open>A handler returns a value or throws; what it did before it threw stays done.\<close>

datatype 'a outcome = Return 'a | Throw

text \<open>A loop that may throw, and may not end.\<close>

partial_function (option) loop :: "('a \<Rightarrow> bool) \<Rightarrow> ('a \<Rightarrow> 'a outcome option) \<Rightarrow> 'a \<Rightarrow> 'a outcome option" where
  [code]: "loop c f x =
     (if c x then (case f x of None \<Rightarrow> None | Some r \<Rightarrow> (case r of Throw \<Rightarrow> Some Throw | Return y \<Rightarrow> loop c f y))
      else Some (Return x))"

lemma loop_ends:
  assumes step: "\<And>x. I x \<Longrightarrow> c x \<Longrightarrow> \<exists>y. f x = Some (Return y) \<and> I y \<and> (m y :: nat) < m x"
    and "I x"
  shows "\<exists>y. loop c f x = Some (Return y) \<and> I y \<and> \<not> c y"
  using assms(2)
proof (induction "m x" arbitrary: x rule: less_induct)
  case less
  show ?case
  proof (cases "c x")
    case True
    with step [OF less.prems] obtain y where y: "f x = Some (Return y)" "I y" "m y < m x" by blast
    with less.hyps [of y] True show ?thesis by (subst loop.simps) simp
  next
    case False
    with less.prems show ?thesis by (subst loop.simps) simp
  qed
qed

end
