(* ===== verification/Fast_Click.thy ===== *)
theory Fast_Click
  imports Web_Base
begin

text \<open>
  The removal of click delays on touch screens,
  \<open>docs/db-description/bower/admin-lte/plugins/fastclick/fastclick.js\<close>: a state machine that
  listens to touch, mouse and click events of a layer. The state is the fields of a
  \<open>FastClick\<close> object with the two properties it puts on elements; what a handler does to the
  event and the page is appended to a list of effects. The page a handler looks at, which
  the browser changes between events, is an argument. Times (milliseconds) and coordinates
  (pixels) are whole numbers. The Touch Events standard guarantees that a touchstart has a
  target touch and every touch event a changed touch. Listeners of the page other than the
  object's own, which a dispatched event or a change of the focus could run, are left out.
\<close>

section \<open>Pages and events\<close>

record element =
  el_isText :: bool
  el_parentNode :: "nat option"
  el_tagName :: string
  el_type :: string
  el_disabled :: bool
  el_readOnly :: bool
  el_className :: string
  el_setSelectionRange :: bool
  el_value_length :: nat
  el_control :: "nat option option"
  el_htmlFor :: string
  el_labelable :: "nat option"
  el_path :: "nat list"
  el_scrollHeight :: int
  el_offsetHeight :: int
  el_scrollTop :: int

text \<open>\<open>el_control\<close> is \<open>None\<close> where the property is \<open>undefined\<close>; \<open>el_labelable\<close> is what the query
  for a labellable descendant finds; \<open>el_path\<close> is the element followed by its parents.
  \<open>pg_active\<close> is the active element, given the element that the handler focused.\<close>

record web_page =
  wp_element :: "nat \<Rightarrow> element"
  wp_byId :: "string \<Rightarrow> nat option"
  wp_atPoint :: "int \<Rightarrow> int \<Rightarrow> nat option"
  wp_pageXOffset :: int
  wp_pageYOffset :: int
  wp_framed :: bool
  wp_selection :: bool
  wp_active :: "nat option \<Rightarrow> nat option"

record touch =
  tc_identifier :: int
  tc_pageX :: int
  tc_pageY :: int
  tc_screenX :: int
  tc_screenY :: int
  tc_clientX :: int
  tc_clientY :: int

record touch_event =
  te_target :: nat
  te_multiple :: bool
  te_targetTouch :: touch
  te_changedTouch :: touch
  te_timeStamp :: int

record mouse_event =
  me_target :: nat
  me_forwarded :: bool
  me_cancelable :: bool
  me_detail :: int
  me_hasStopImmediate :: bool

datatype click_effect =
    Blur nat
  | Focus nat
  | SetSelectionRange nat nat nat
  | Dispatch nat string touch
  | PreventDefault
  | StopPropagation
  | StopImmediatePropagation
  | PropagationStopped

section \<open>Devices\<close>

record device =
  deviceIsWindowsPhone :: bool
  deviceIsAndroid :: bool
  deviceIsIOS :: bool
  deviceIsIOS4 :: bool
  deviceIsIOSWithBadTarget :: bool
  deviceIsBlackBerry10 :: bool

definition os_version :: "char list \<Rightarrow> string \<Rightarrow> bool" where
  "os_version majors ua \<longleftrightarrow>
     some_suffix (\<lambda>s. has_prefix s ''OS '' \<and>
       (case drop 3 s of m # u # d # _ \<Rightarrow> m \<in> set majors \<and> u = CHR ''_'' \<and> is_digit d | _ \<Rightarrow> False)) ua"

definition device_of :: "string \<Rightarrow> device" where
  "device_of ua =
     (let wp = index_of ua ''Windows Phone'' \<ge> 0;
          ios = (js_contains ua ''iPad'' \<or> js_contains ua ''iPhone'' \<or> js_contains ua ''iPod'') \<and> \<not> wp
      in \<lparr>deviceIsWindowsPhone = wp,
          deviceIsAndroid = (index_of ua ''Android'' > 0 \<and> \<not> wp),
          deviceIsIOS = ios,
          deviceIsIOS4 = (ios \<and> os_version ''4'' ua),
          deviceIsIOSWithBadTarget = (ios \<and> os_version ''67'' ua),
          deviceIsBlackBerry10 = (index_of ua ''BB10'' > 0)\<rparr>)"

section \<open>The object\<close>

record fastclick =
  fc_trackingClick :: bool
  fc_trackingClickStart :: int
  fc_targetElement :: "nat option"
  fc_touchStartX :: int
  fc_touchStartY :: int
  fc_lastTouchIdentifier :: int
  fc_touchBoundary :: int
  fc_tapDelay :: int
  fc_tapTimeout :: int
  fc_lastClickTime :: "int option"
  fc_cancelNextClick :: bool
  fc_scrollParent :: "nat \<Rightarrow> nat option"
  fc_lastScrollTop :: "nat \<Rightarrow> int option"
  fc_effects :: "click_effect list"

definition effect :: "click_effect \<Rightarrow> fastclick \<Rightarrow> fastclick" where
  "effect e s = s\<lparr>fc_effects := fc_effects s @ [e]\<rparr>"

definition needsClick :: "device \<Rightarrow> element \<Rightarrow> bool" where
  "needsClick dv e =
     (let tag = lower (el_tagName e); marked = has_word ''needsclick'' (el_className e)
      in if tag \<in> {''button'', ''select'', ''textarea''} then el_disabled e \<or> marked
         else if tag = ''input'' then (deviceIsIOS dv \<and> el_type e = ''file'') \<or> el_disabled e \<or> marked
         else if tag \<in> {''label'', ''iframe'', ''video''} then True
         else marked)"

definition needsFocus :: "device \<Rightarrow> element \<Rightarrow> bool" where
  "needsFocus dv e =
     (let tag = lower (el_tagName e)
      in if tag = ''textarea'' then True
         else if tag = ''select'' then \<not> deviceIsAndroid dv
         else if tag = ''input''
         then (if el_type e \<in> {''button'', ''checkbox'', ''file'', ''image'', ''radio'', ''submit''} then False
               else \<not> el_disabled e \<and> \<not> el_readOnly e)
         else has_word ''needsfocus'' (el_className e))"

definition determineEventType :: "device \<Rightarrow> element \<Rightarrow> string" where
  "determineEventType dv e =
     (if deviceIsAndroid dv \<and> lower (el_tagName e) = ''select'' then ''mousedown'' else ''click'')"

definition fc_focus :: "device \<Rightarrow> web_page \<Rightarrow> nat \<Rightarrow> fastclick \<Rightarrow> fastclick" where
  "fc_focus dv pg t s =
     (let e = wp_element pg t
      in if deviceIsIOS dv \<and> el_setSelectionRange e \<and> index_of (el_type e) ''date'' \<noteq> 0
           \<and> el_type e \<noteq> ''time'' \<and> el_type e \<noteq> ''month''
         then effect (SetSelectionRange t (el_value_length e) (el_value_length e)) s
         else effect (Focus t) s)"

text \<open>The search for a scrollable layer; a parent noted before stays when none is found.\<close>

definition updateScrollParent :: "web_page \<Rightarrow> nat \<Rightarrow> fastclick \<Rightarrow> fastclick" where
  "updateScrollParent pg t s =
     (let scrollParent = fc_scrollParent s t;
          path = el_path (wp_element pg t);
          (scrollParent, s) =
            (if (case scrollParent of None \<Rightarrow> True | Some p \<Rightarrow> p \<notin> set path)
             then (case find (\<lambda>p. el_scrollHeight (wp_element pg p) > el_offsetHeight (wp_element pg p)) path of
                     Some p \<Rightarrow> (Some p, s\<lparr>fc_scrollParent := (fc_scrollParent s)(t := Some p)\<rparr>)
                   | None \<Rightarrow> (scrollParent, s))
             else (scrollParent, s))
      in case scrollParent of
           Some p \<Rightarrow> s\<lparr>fc_lastScrollTop := (fc_lastScrollTop s)(p := Some (el_scrollTop (wp_element pg p)))\<rparr>
         | None \<Rightarrow> s)"

definition getTargetElementFromEventTarget :: "web_page \<Rightarrow> nat \<Rightarrow> nat option" where
  "getTargetElementFromEventTarget pg t =
     (if el_isText (wp_element pg t) then el_parentNode (wp_element pg t) else Some t)"

definition findControl :: "web_page \<Rightarrow> nat \<Rightarrow> nat option" where
  "findControl pg t =
     (let e = wp_element pg t
      in case el_control e of
           Some c \<Rightarrow> c
         | None \<Rightarrow> if el_htmlFor e \<noteq> [] then wp_byId pg (el_htmlFor e) else el_labelable e)"

section \<open>Mouse events and clicks\<close>

definition onMouse :: "device \<Rightarrow> web_page \<Rightarrow> mouse_event \<Rightarrow> fastclick \<Rightarrow> bool \<times> fastclick" where
  "onMouse dv pg event s =
     (case fc_targetElement s of
        None \<Rightarrow> (True, s)
      | Some t \<Rightarrow>
          if me_forwarded event then (True, s)
          else if \<not> me_cancelable event then (True, s)
          else if \<not> needsClick dv (wp_element pg t) \<or> fc_cancelNextClick s
          then (False, effect PreventDefault (effect StopPropagation
                 (effect (if me_hasStopImmediate event then StopImmediatePropagation else PropagationStopped) s)))
          else (True, s))"

definition onClick :: "device \<Rightarrow> web_page \<Rightarrow> mouse_event \<Rightarrow> fastclick \<Rightarrow> bool \<times> fastclick" where
  "onClick dv pg event s =
     (if fc_trackingClick s then (True, s\<lparr>fc_targetElement := None, fc_trackingClick := False\<rparr>)
      else if el_type (wp_element pg (me_target event)) = ''submit'' \<and> me_detail event = 0 then (True, s)
      else case onMouse dv pg event s of
             (permitted, s') \<Rightarrow> (permitted, if \<not> permitted then s'\<lparr>fc_targetElement := None\<rparr> else s'))"

text \<open>The synthetic event goes through the capturing listeners of the object itself.\<close>

definition sendClick :: "device \<Rightarrow> web_page \<Rightarrow> nat option \<Rightarrow> nat \<Rightarrow> touch_event \<Rightarrow> fastclick \<Rightarrow> fastclick" where
  "sendClick dv pg focused t event s =
     (let s1 = (case wp_active pg focused of
                  Some a \<Rightarrow> if a \<noteq> t then effect (Blur a) s else s
                | None \<Rightarrow> s);
          type = determineEventType dv (wp_element pg t);
          clickEvent = \<lparr>me_target = t, me_forwarded = True, me_cancelable = True, me_detail = 1, me_hasStopImmediate = True\<rparr>;
          s2 = effect (Dispatch t type (te_changedTouch event)) s1
      in snd (if type = ''mousedown'' then onMouse dv pg clickEvent s2 else onClick dv pg clickEvent s2))"

section \<open>Touches\<close>

definition recent_click :: "int \<Rightarrow> fastclick \<Rightarrow> bool" where
  "recent_click now s = (case fc_lastClickTime s of None \<Rightarrow> False | Some l \<Rightarrow> now - l < fc_tapDelay s)"

definition start_tracking :: "touch_event \<Rightarrow> nat option \<Rightarrow> fastclick \<Rightarrow> fastclick" where
  "start_tracking event t s =
     (let s1 = s\<lparr>fc_trackingClick := True, fc_trackingClickStart := te_timeStamp event, fc_targetElement := t,
                 fc_touchStartX := tc_pageX (te_targetTouch event), fc_touchStartY := tc_pageY (te_targetTouch event)\<rparr>
      in if recent_click (te_timeStamp event) s1 then effect PreventDefault s1 else s1)"

definition onTouchStart :: "device \<Rightarrow> web_page \<Rightarrow> touch_event \<Rightarrow> fastclick \<Rightarrow> bool outcome \<times> fastclick" where
  "onTouchStart dv pg event s =
     (if te_multiple event then (Return True, s)
      else let t = getTargetElementFromEventTarget pg (te_target event); identifier = tc_identifier (te_targetTouch event)
      in if deviceIsIOS dv
         then (if wp_selection pg then (Return True, s)
               else if \<not> deviceIsIOS4 dv
               then (if identifier \<noteq> 0 \<and> identifier = fc_lastTouchIdentifier s
                     then (Return False, effect PreventDefault s)
                     else let s1 = s\<lparr>fc_lastTouchIdentifier := identifier\<rparr>
                          in case t of
                               None \<Rightarrow> (Throw, s1)
                             | Some e \<Rightarrow> (Return True, start_tracking event t (updateScrollParent pg e s1)))
               else (Return True, start_tracking event t s))
         else (Return True, start_tracking event t s))"

definition touchHasMoved :: "touch_event \<Rightarrow> fastclick \<Rightarrow> bool" where
  "touchHasMoved event s \<longleftrightarrow>
     \<bar>tc_pageX (te_changedTouch event) - fc_touchStartX s\<bar> > fc_touchBoundary s
     \<or> \<bar>tc_pageY (te_changedTouch event) - fc_touchStartY s\<bar> > fc_touchBoundary s"

definition onTouchMove :: "web_page \<Rightarrow> touch_event \<Rightarrow> fastclick \<Rightarrow> bool \<times> fastclick" where
  "onTouchMove pg event s =
     (if \<not> fc_trackingClick s then (True, s)
      else if fc_targetElement s \<noteq> getTargetElementFromEventTarget pg (te_target event) \<or> touchHasMoved event s
      then (True, s\<lparr>fc_trackingClick := False, fc_targetElement := None\<rparr>)
      else (True, s))"

definition onTouchCancel :: "fastclick \<Rightarrow> fastclick" where
  "onTouchCancel s = s\<lparr>fc_trackingClick := False, fc_targetElement := None\<rparr>"

text \<open>The last part of \<open>onTouchEnd\<close>: the scrolled layers, and the click unless a native one is needed.\<close>

definition end_send :: "device \<Rightarrow> web_page \<Rightarrow> touch_event \<Rightarrow> nat option \<Rightarrow> nat \<Rightarrow> fastclick \<Rightarrow> bool outcome \<times> fastclick" where
  "end_send dv pg event focused t s =
     (if deviceIsIOS dv \<and> \<not> deviceIsIOS4 dv
         \<and> (case fc_scrollParent s t of
              None \<Rightarrow> False
            | Some p \<Rightarrow> fc_lastScrollTop s p \<noteq> Some (el_scrollTop (wp_element pg p)))
      then (Return True, s)
      else if \<not> needsClick dv (wp_element pg t)
      then (Return False, sendClick dv pg focused t event (effect PreventDefault s))
      else (Return False, s))"

definition end_on :: "device \<Rightarrow> web_page \<Rightarrow> touch_event \<Rightarrow> int \<Rightarrow> nat \<Rightarrow> fastclick \<Rightarrow> bool outcome \<times> fastclick" where
  "end_on dv pg event started t s =
     (let tag = lower (el_tagName (wp_element pg t))
      in if tag = ''label''
         then (case findControl pg t of
                 None \<Rightarrow> end_send dv pg event None t s
               | Some forElement \<Rightarrow>
                   let s1 = fc_focus dv pg t s
                   in if deviceIsAndroid dv then (Return False, s1) else end_send dv pg event (Some t) forElement s1)
         else if needsFocus dv (wp_element pg t)
         then (if te_timeStamp event - started > 100 \<or> (deviceIsIOS dv \<and> wp_framed pg \<and> tag = ''input'')
               then (Return False, s\<lparr>fc_targetElement := None\<rparr>)
               else let s1 = sendClick dv pg (Some t) t event (fc_focus dv pg t s)
                    in (Return False,
                        if \<not> deviceIsIOS dv \<or> tag \<noteq> ''select''
                        then effect PreventDefault (s1\<lparr>fc_targetElement := None\<rparr>) else s1))
         else end_send dv pg event None t s)"

definition onTouchEnd :: "device \<Rightarrow> web_page \<Rightarrow> touch_event \<Rightarrow> fastclick \<Rightarrow> bool outcome \<times> fastclick" where
  "onTouchEnd dv pg event s =
     (if \<not> fc_trackingClick s then (Return True, s)
      else if recent_click (te_timeStamp event) s then (Return True, s\<lparr>fc_cancelNextClick := True\<rparr>)
      else if te_timeStamp event - fc_trackingClickStart s > fc_tapTimeout s then (Return True, s)
      else let started = fc_trackingClickStart s;
               s1 = s\<lparr>fc_cancelNextClick := False, fc_lastClickTime := Some (te_timeStamp event),
                      fc_trackingClick := False, fc_trackingClickStart := 0\<rparr>
           in if deviceIsIOSWithBadTarget dv
              then (let touch = te_changedTouch event;
                        found = wp_atPoint pg (tc_pageX touch - wp_pageXOffset pg) (tc_pageY touch - wp_pageYOffset pg)
                    in case ((case found of Some e \<Rightarrow> Some e | None \<Rightarrow> fc_targetElement s), fc_targetElement s) of
                         (Some e, Some t) \<Rightarrow>
                           end_on dv pg event started e
                             (s1\<lparr>fc_scrollParent := (fc_scrollParent s1)(e := fc_scrollParent s1 t)\<rparr>)
                       | _ \<Rightarrow> (Throw, s1))
              else case fc_targetElement s of
                     None \<Rightarrow> (Throw, s1)
                   | Some t \<Rightarrow> end_on dv pg event started t s1)"

datatype web_event =
    TouchStart touch_event
  | TouchMove touch_event
  | TouchEnd touch_event
  | TouchCancel
  | MouseEvent mouse_event
  | ClickEvent mouse_event

text \<open>One event, with the page as it is then; the mouse listeners exist on Android only.\<close>

fun fc_step :: "device \<Rightarrow> web_page \<times> web_event \<Rightarrow> fastclick \<Rightarrow> fastclick" where
  "fc_step dv (pg, TouchStart e) s = snd (onTouchStart dv pg e s)"
| "fc_step dv (pg, TouchMove e) s = snd (onTouchMove pg e s)"
| "fc_step dv (pg, TouchEnd e) s = snd (onTouchEnd dv pg e s)"
| "fc_step dv (pg, TouchCancel) s = onTouchCancel s"
| "fc_step dv (pg, MouseEvent e) s = (if deviceIsAndroid dv then snd (onMouse dv pg e s) else s)"
| "fc_step dv (pg, ClickEvent e) s = snd (onClick dv pg e s)"

section \<open>Set up and tear down\<close>

record browser =
  br_userAgent :: string
  br_ontouchstart :: bool
  br_viewport :: "string option"
  br_scrollWidth :: int
  br_outerWidth :: int
  br_stopImmediatePropagation :: bool

datatype handler = OnMouse | OnClick | OnTouchStart | OnTouchMove | OnTouchEnd | OnTouchCancel | OldOnClick | UserHandler nat

record listener =
  ls_type :: string
  ls_handler :: handler
  ls_capture :: bool
  ls_hijacked :: bool

record layer =
  ly_msTouchAction :: string
  ly_touchAction :: string
  ly_onclick :: bool
  ly_listeners :: "listener list"
  ly_wraps :: bool
  ly_hijacked :: "handler list"

text \<open>The methods of nodes; after the hack for old browsers those of the layer wrap click
  callbacks. A listener that is already there is not added again.\<close>

definition addEventListener :: "string \<Rightarrow> handler \<Rightarrow> bool \<Rightarrow> layer \<Rightarrow> layer" where
  "addEventListener type h capture l =
     (let new = \<lparr>ls_type = type, ls_handler = h, ls_capture = capture, ls_hijacked = (ly_wraps l \<and> type = ''click'')\<rparr>
      in (if new \<in> set (ly_listeners l) then l else l\<lparr>ly_listeners := ly_listeners l @ [new]\<rparr>)
           \<lparr>ly_hijacked := (if ly_wraps l \<and> type = ''click'' then h # ly_hijacked l else ly_hijacked l)\<rparr>)"

text \<open>The wrapping method removes the wrapped callback, if the callback ever got a wrapper.\<close>

definition removeEventListener :: "string \<Rightarrow> handler \<Rightarrow> bool \<Rightarrow> layer \<Rightarrow> layer" where
  "removeEventListener type h capture l =
     (let wrapped = (ly_wraps l \<and> type = ''click'' \<and> h \<in> set (ly_hijacked l))
      in l\<lparr>ly_listeners := filter (\<lambda>x. \<not> (ls_type x = type \<and> ls_handler x = h \<and> ls_capture x = capture
              \<and> ls_hijacked x = wrapped)) (ly_listeners l)\<rparr>)"

fun blackberryVersion :: "string \<Rightarrow> (nat \<times> nat) option" where
  "blackberryVersion [] = None"
| "blackberryVersion (c # cs) =
     (let s = drop 8 (c # cs); rest = drop (length (leading_digits s)) s
      in if has_prefix (c # cs) ''Version/'' \<and> has_prefix rest ''.''
         then Some (parse_dec (leading_digits s), parse_dec (leading_digits (drop 1 rest)))
         else blackberryVersion cs)"

definition unscalable :: "browser \<Rightarrow> bool" where
  "unscalable br = (case br_viewport br of None \<Rightarrow> False | Some c \<Rightarrow> index_of c ''user-scalable=no'' \<noteq> -1)"

definition device_width :: "browser \<Rightarrow> bool" where
  "device_width br = (br_viewport br \<noteq> None \<and> br_scrollWidth br \<le> br_outerWidth br)"

definition notNeeded :: "browser \<Rightarrow> layer \<Rightarrow> bool outcome" where
  "notNeeded br l =
     (let ua = br_userAgent br; dv = device_of ua;
          chromeVersion = version_after ''Chrome/'' ua;
          firefoxVersion = version_after ''Firefox/'' ua;
          style = (ly_msTouchAction l = ''none'' \<or> ly_touchAction l = ''manipulation''
             \<or> (firefoxVersion \<ge> 27 \<and> (unscalable br \<or> device_width br))
             \<or> ly_touchAction l = ''none'')
      in if \<not> br_ontouchstart br then Return True
         else if chromeVersion \<noteq> 0 \<and> (if deviceIsAndroid dv then unscalable br \<or> (chromeVersion > 31 \<and> device_width br) else True)
         then Return True
         else if deviceIsBlackBerry10 dv
         then (case blackberryVersion ua of
                 None \<Rightarrow> Throw
               | Some (major, minor) \<Rightarrow>
                   if major \<ge> 10 \<and> minor \<ge> 3 \<and> (unscalable br \<or> device_width br) then Return True else Return style)
         else Return style)"

text \<open>The constructor. An option that is missing or 0 gets its default.\<close>

record fc_options =
  op_touchBoundary :: "int option"
  op_tapDelay :: "int option"
  op_tapTimeout :: "int option"

definition or_default :: "int option \<Rightarrow> int \<Rightarrow> int" where
  "or_default v d = (case v of None \<Rightarrow> d | Some x \<Rightarrow> if x = 0 then d else x)"

definition new_object :: "fc_options \<Rightarrow> fastclick" where
  "new_object options = \<lparr>fc_trackingClick = False, fc_trackingClickStart = 0, fc_targetElement = None,
     fc_touchStartX = 0, fc_touchStartY = 0, fc_lastTouchIdentifier = 0,
     fc_touchBoundary = or_default (op_touchBoundary options) 10,
     fc_tapDelay = or_default (op_tapDelay options) 200,
     fc_tapTimeout = or_default (op_tapTimeout options) 700,
     fc_lastClickTime = None, fc_cancelNextClick = False,
     fc_scrollParent = (\<lambda>e. None), fc_lastScrollTop = (\<lambda>e. None), fc_effects = []\<rparr>"

definition mouse_types :: "string list" where
  "mouse_types = [''mouseover'', ''mousedown'', ''mouseup'']"

definition touch_listeners :: "(string \<times> handler \<times> bool) list" where
  "touch_listeners = [(''click'', OnClick, True), (''touchstart'', OnTouchStart, False),
     (''touchmove'', OnTouchMove, False), (''touchend'', OnTouchEnd, False), (''touchcancel'', OnTouchCancel, False)]"

definition own_listeners :: "device \<Rightarrow> (string \<times> handler \<times> bool) list" where
  "own_listeners dv = (if deviceIsAndroid dv then map (\<lambda>t. (t, OnMouse, True)) mouse_types else []) @ touch_listeners"

definition FastClick :: "browser \<Rightarrow> fc_options \<Rightarrow> layer \<Rightarrow> unit outcome \<times> fastclick \<times> layer" where
  "FastClick br options l =
     (let s = new_object options
      in case notNeeded br l of
           Throw \<Rightarrow> (Throw, s, l)
         | Return True \<Rightarrow> (Return (), s, l)
         | Return False \<Rightarrow>
             let l1 = foldl (\<lambda>l (t, h, c). addEventListener t h c l) l (own_listeners (device_of (br_userAgent br)));
                 l2 = (if \<not> br_stopImmediatePropagation br then l1\<lparr>ly_wraps := True\<rparr> else l1);
                 l3 = (if ly_onclick l2 then (addEventListener ''click'' OldOnClick False l2)\<lparr>ly_onclick := False\<rparr> else l2)
             in (Return (), s, l3))"

definition destroy :: "device \<Rightarrow> layer \<Rightarrow> layer" where
  "destroy dv l = foldl (\<lambda>l (t, h, c). removeEventListener t h c l) l (own_listeners dv)"


section \<open>One tap, one click\<close>

text \<open>What a handler added to the effects, and the synthetic clicks among it.\<close>

fun dispatched :: "click_effect list \<Rightarrow> nat list" where
  "dispatched [] = []"
| "dispatched (Dispatch t type touch # es) = t # dispatched es"
| "dispatched (_ # es) = dispatched es"

lemma dispatched_append [simp]: "dispatched (xs @ ys) = dispatched xs @ dispatched ys"
  by (induction xs rule: dispatched.induct) auto

definition added :: "fastclick \<Rightarrow> fastclick \<Rightarrow> click_effect list" where
  "added s s' = drop (length (fc_effects s)) (fc_effects s')"

lemma effect_simps [simp]:
  "fc_effects (effect e s) = fc_effects s @ [e]" "fc_trackingClick (effect e s) = fc_trackingClick s"
  "fc_targetElement (effect e s) = fc_targetElement s" "fc_cancelNextClick (effect e s) = fc_cancelNextClick s"
  "fc_lastClickTime (effect e s) = fc_lastClickTime s" "fc_tapDelay (effect e s) = fc_tapDelay s"
  "fc_tapTimeout (effect e s) = fc_tapTimeout s" "fc_touchBoundary (effect e s) = fc_touchBoundary s"
  "fc_touchStartX (effect e s) = fc_touchStartX s" "fc_touchStartY (effect e s) = fc_touchStartY s"
  "fc_trackingClickStart (effect e s) = fc_trackingClickStart s"
  by (simp_all add: effect_def)

lemma onClick_synthetic:
  assumes "\<not> fc_trackingClick s" and "me_forwarded ev" and "me_detail ev \<noteq> 0"
  shows "onClick dv pg ev s = (True, s)" and "onMouse dv pg ev s = (True, s)"
  using assms by (auto simp: onClick_def onMouse_def split: option.split)

definition blurred :: "web_page \<Rightarrow> nat option \<Rightarrow> nat \<Rightarrow> click_effect list" where
  "blurred pg focused t = (case wp_active pg focused of None \<Rightarrow> [] | Some a \<Rightarrow> if a \<noteq> t then [Blur a] else [])"

lemma sendClick_eq:
  assumes "\<not> fc_trackingClick s"
  shows "sendClick dv pg focused t ev s = s\<lparr>fc_effects := fc_effects s @ blurred pg focused t
           @ [Dispatch t (determineEventType dv (wp_element pg t)) (te_changedTouch ev)]\<rparr>"
  using assms by (auto simp: sendClick_def Let_def onClick_synthetic blurred_def effect_def split: option.split)

lemma dispatched_blurred [simp]: "dispatched (blurred pg focused t) = []"
  by (simp add: blurred_def split: option.split)

lemma blurred_no_prevent [simp]: "PreventDefault \<notin> set (blurred pg focused t)"
  by (simp add: blurred_def split: option.split)

text \<open>Tracking goes on exactly while the touch stays on the target and within the boundary.\<close>

definition stays :: "nat \<Rightarrow> int \<Rightarrow> int \<Rightarrow> int \<Rightarrow> web_page \<times> touch_event \<Rightarrow> bool" where
  "stays t x y bound m \<longleftrightarrow> getTargetElementFromEventTarget (fst m) (te_target (snd m)) = Some t
     \<and> \<bar>tc_pageX (te_changedTouch (snd m)) - x\<bar> \<le> bound \<and> \<bar>tc_pageY (te_changedTouch (snd m)) - y\<bar> \<le> bound"

definition moves :: "device \<Rightarrow> (web_page \<times> touch_event) list \<Rightarrow> fastclick \<Rightarrow> fastclick" where
  "moves dv ms s = fold (fc_step dv) (map (\<lambda>(pg, e). (pg, TouchMove e)) ms) s"

lemma moves_tracked:
  assumes "fc_trackingClick s" and "fc_targetElement s = Some t"
  shows "moves dv ms s =
    (if list_all (stays t (fc_touchStartX s) (fc_touchStartY s) (fc_touchBoundary s)) ms then s
     else s\<lparr>fc_trackingClick := False, fc_targetElement := None\<rparr>)"
  using assms
proof (induction ms)
  case (Cons m ms)
  have untracked: "moves dv ns u = u" if "\<not> fc_trackingClick u" for ns u
    using that by (induction ns) (auto simp: moves_def onTouchMove_def)
  obtain pg e where m: "m = (pg, e)" by (cases m)
  show ?case
  proof (cases "stays t (fc_touchStartX s) (fc_touchStartY s) (fc_touchBoundary s) m")
    case True
    then have "fc_step dv (pg, TouchMove e) s = s"
      using Cons.prems by (auto simp: onTouchMove_def stays_def touchHasMoved_def m)
    with Cons True show ?thesis by (simp add: moves_def m)
  next
    case False
    then have "fc_step dv (pg, TouchMove e) s = s\<lparr>fc_trackingClick := False, fc_targetElement := None\<rparr>"
      using Cons.prems by (auto simp: onTouchMove_def stays_def touchHasMoved_def m)
    then show ?thesis
      using False untracked [of "s\<lparr>fc_trackingClick := False, fc_targetElement := None\<rparr>" ms]
      by (simp add: moves_def m)
  qed
qed (simp add: moves_def)


lemma touch_start_tracks:
  assumes "\<not> deviceIsIOS dv" and "\<not> te_multiple e" and "getTargetElementFromEventTarget pg (te_target e) = Some t"
  shows "fc_step dv (pg, TouchStart e) s = start_tracking e (Some t) s"
  using assms by (simp add: onTouchStart_def Let_def)

lemma start_tracking_simps [simp]:
  "fc_trackingClick (start_tracking e t s)" "fc_targetElement (start_tracking e t s) = t"
  "fc_touchStartX (start_tracking e t s) = tc_pageX (te_targetTouch e)"
  "fc_touchStartY (start_tracking e t s) = tc_pageY (te_targetTouch e)"
  "fc_trackingClickStart (start_tracking e t s) = te_timeStamp e"
  "fc_touchBoundary (start_tracking e t s) = fc_touchBoundary s" "fc_tapTimeout (start_tracking e t s) = fc_tapTimeout s"
  "recent_click now (start_tracking e t s) = recent_click now s"
  by (auto simp: start_tracking_def Let_def recent_click_def split: option.splits)

lemma bad_target_is_ios: "\<not> deviceIsIOS (device_of ua) \<Longrightarrow> \<not> deviceIsIOSWithBadTarget (device_of ua)"
  by (auto simp: device_of_def Let_def)

definition tap_sends :: "device \<Rightarrow> element \<Rightarrow> int \<Rightarrow> int \<Rightarrow> bool" where
  "tap_sends dv e elapsed timeout \<longleftrightarrow>
     elapsed \<le> timeout \<and> (if needsFocus dv e then elapsed \<le> 100 else \<not> needsClick dv e)"

lemma tap_end:
  fixes s :: fastclick
  assumes "\<not> deviceIsIOS dv" and "\<not> deviceIsIOSWithBadTarget dv" and "fc_trackingClick s" and "fc_targetElement s = Some t"
    and "lower (el_tagName (wp_element pg t)) \<noteq> ''label''" and "\<not> recent_click (te_timeStamp e) s"
  defines "elapsed \<equiv> te_timeStamp e - fc_trackingClickStart s"
    and "s' \<equiv> fc_step dv (pg, TouchEnd e) s"
  shows "if tap_sends dv (wp_element pg t) elapsed (fc_tapTimeout s)
     then dispatched (added s s') = [t] \<and> PreventDefault \<in> set (added s s') \<and> \<not> fc_trackingClick s'
       \<and> fc_targetElement s' = (if needsFocus dv (wp_element pg t) then None else Some t)
     else dispatched (added s s') = [] \<and> PreventDefault \<notin> set (added s s')
       \<and> (fc_trackingClick s' \<or> fc_targetElement s' = None
          \<or> fc_targetElement s' = Some t \<and> needsClick dv (wp_element pg t) \<and> \<not> fc_cancelNextClick s')"
proof (cases "elapsed > fc_tapTimeout s")
  case True
  with assms(3,6) show ?thesis
    by (simp add: s'_def onTouchEnd_def elapsed_def tap_sends_def added_def)
next
  case False
  let ?s1 = "s\<lparr>fc_cancelNextClick := False, fc_lastClickTime := Some (te_timeStamp e),
                      fc_trackingClick := False, fc_trackingClickStart := 0\<rparr>"
  have s': "s' = snd (end_on dv pg e (fc_trackingClickStart s) t ?s1)"
    using assms False by (simp add: s'_def onTouchEnd_def elapsed_def Let_def)
  show ?thesis
  proof (cases "needsFocus dv (wp_element pg t)")
    case True
    then show ?thesis
      using False assms(1,5) by (simp add: s' end_on_def Let_def elapsed_def tap_sends_def added_def fc_focus_def sendClick_eq)
  next
    case nf: False
    then show ?thesis
      using False assms(1,4,5) by (simp add: s' end_on_def end_send_def Let_def elapsed_def tap_sends_def added_def sendClick_eq)
  qed
qed

lemma native_click:
  assumes "\<not> me_forwarded c" and "me_cancelable c" and "me_detail c \<noteq> 0"
  shows "fst (onClick dv pg c s) \<longleftrightarrow> fc_trackingClick s \<or> (case fc_targetElement s of None \<Rightarrow> True
      | Some t \<Rightarrow> needsClick dv (wp_element pg t) \<and> \<not> fc_cancelNextClick s)"
    and "\<not> fst (onClick dv pg c s) \<Longrightarrow> fc_targetElement (snd (onClick dv pg c s)) = None"
proof -
  show "fst (onClick dv pg c s) \<longleftrightarrow> fc_trackingClick s \<or> (case fc_targetElement s of None \<Rightarrow> True
      | Some t \<Rightarrow> needsClick dv (wp_element pg t) \<and> \<not> fc_cancelNextClick s)"
    using assms by (cases "fc_trackingClick s"; cases "fc_targetElement s"; force simp: onClick_def onMouse_def)
  show "\<not> fst (onClick dv pg c s) \<Longrightarrow> fc_targetElement (snd (onClick dv pg c s)) = None"
    by (auto simp: onClick_def split: prod.splits if_splits)
qed



definition example_node :: "string \<Rightarrow> string \<Rightarrow> element" where
  "example_node tag className = \<lparr>el_isText = False, el_parentNode = None, el_tagName = tag, el_type = [], el_disabled = False,
     el_readOnly = False, el_className = className, el_setSelectionRange = False, el_value_length = 0, el_control = None,
     el_htmlFor = [], el_labelable = None, el_path = [], el_scrollHeight = 0, el_offsetHeight = 0, el_scrollTop = 0\<rparr>"

definition example_page :: web_page where
  "example_page = \<lparr>wp_element = (\<lambda>n. if n = 1 then example_node ''DIV'' ''box needsclick'' else example_node ''A'' ''link''),
     wp_byId = (\<lambda>i. None), wp_atPoint = (\<lambda>x y. None), wp_pageXOffset = 0, wp_pageYOffset = 0,
     wp_framed = False, wp_selection = False, wp_active = (\<lambda>f. Some 9)\<rparr>"

definition example_touch :: "nat \<Rightarrow> int \<Rightarrow> int \<Rightarrow> touch_event" where
  "example_touch t x time = (let p = \<lparr>tc_identifier = 7, tc_pageX = x, tc_pageY = 40, tc_screenX = x, tc_screenY = 40,
       tc_clientX = x, tc_clientY = 40\<rparr>
     in \<lparr>te_target = t, te_multiple = False, te_targetTouch = p, te_changedTouch = p, te_timeStamp = time\<rparr>)"

definition example_click :: "nat \<Rightarrow> mouse_event" where
  "example_click t = \<lparr>me_target = t, me_forwarded = False, me_cancelable = True, me_detail = 1, me_hasStopImmediate = True\<rparr>"

definition no_options :: fc_options where
  "no_options = \<lparr>op_touchBoundary = None, op_tapDelay = None, op_tapTimeout = None\<rparr>"


section \<open>Listeners come and go\<close>

definition page_listener :: "listener \<Rightarrow> bool" where
  "page_listener x \<longleftrightarrow> (case ls_handler x of UserHandler n \<Rightarrow> True | _ \<Rightarrow> False)"

lemma add_listeners:
  assumes "\<not> ly_wraps l" and "distinct ts"
    and "\<forall>(t, h, c) \<in> set ts. \<forall>x \<in> set (ly_listeners l). ls_handler x \<noteq> h \<or> ls_type x \<noteq> t"
  shows "foldl (\<lambda>l (t, h, c). addEventListener t h c l) l ts = l\<lparr>ly_listeners := ly_listeners l
      @ map (\<lambda>(t, h, c). \<lparr>ls_type = t, ls_handler = h, ls_capture = c, ls_hijacked = False\<rparr>) ts\<rparr>"
  using assms(2,3)
proof (induction ts rule: rev_induct)
  case (snoc k ts)
  obtain t h c where k: "k = (t, h, c)" by (cases k)
  have new: "\<lparr>ls_type = t, ls_handler = h, ls_capture = c, ls_hijacked = False\<rparr> \<notin> set (ly_listeners l)"
    using snoc.prems(2) by (auto simp: k)
  have "\<lparr>ls_type = t, ls_handler = h, ls_capture = c, ls_hijacked = False\<rparr>
      \<notin> (\<lambda>(t, h, c). \<lparr>ls_type = t, ls_handler = h, ls_capture = c, ls_hijacked = False\<rparr>) ` set ts"
    using snoc.prems(1) by (auto simp: k)
  with new snoc assms(1) show ?case by (simp add: k addEventListener_def)
qed simp

lemma remove_listeners:
  assumes "\<forall>(t, h, c) \<in> set ts. h \<notin> set (ly_hijacked l)"
  shows "foldl (\<lambda>l (t, h, c). removeEventListener t h c l) l ts = l\<lparr>ly_listeners :=
      filter (\<lambda>x. (ls_type x, ls_handler x, ls_capture x) \<notin> set ts \<or> ls_hijacked x) (ly_listeners l)\<rparr>"
  using assms
proof (induction ts rule: rev_induct)
  case (snoc k ts)
  obtain t h c where k: "k = (t, h, c)" by (cases k)
  have "filter (\<lambda>x. \<not> (ls_type x = t \<and> ls_handler x = h \<and> ls_capture x = c \<and> \<not> ls_hijacked x))
      (filter (\<lambda>x. (ls_type x, ls_handler x, ls_capture x) \<notin> set ts \<or> ls_hijacked x) (ly_listeners l))
    = filter (\<lambda>x. (ls_type x, ls_handler x, ls_capture x) \<notin> set (ts @ [k]) \<or> ls_hijacked x) (ly_listeners l)"
    unfolding filter_filter by (rule filter_cong) (auto simp: k)
  with snoc show ?case by (simp add: k removeEventListener_def Let_def)
qed simp

lemma own_listeners_handlers:
  "(t, h, c) \<in> set (own_listeners dv) \<Longrightarrow> h \<in> {OnMouse, OnClick, OnTouchStart, OnTouchMove, OnTouchEnd, OnTouchCancel}"
  by (auto simp: own_listeners_def mouse_types_def touch_listeners_def split: if_splits)

lemma distinct_own_listeners: "distinct (own_listeners dv)"
  by (simp add: own_listeners_def mouse_types_def touch_listeners_def)

text \<open>An object that is destroyed leaves no listener behind: after the constructor and \<open>destroy\<close>
  the layer has the listeners it had before, in their order, followed only by the layer's old
  \<open>onclick\<close> callback, which the constructor turned into a listener, if the object was needed
  and there was one; this holds with and without the wrapping for old browsers.\<close>

theorem destroy_removes_listeners:
  assumes "FastClick br options l = (Return (), s, l')"
    and "\<forall>x \<in> set (ly_listeners l). page_listener x" and "\<not> ly_wraps l" and "ly_hijacked l = []"
  shows "ly_listeners (destroy (device_of (br_userAgent br)) l') = ly_listeners l
      @ (if notNeeded br l = Return False \<and> ly_onclick l
         then [\<lparr>ls_type = ''click'', ls_handler = OldOnClick, ls_capture = False,
                ls_hijacked = (\<not> br_stopImmediatePropagation br)\<rparr>] else [])"
proof -
  let ?own = "own_listeners (device_of (br_userAgent br))"
  let ?mk = "\<lambda>(t, h, c). \<lparr>ls_type = t, ls_handler = h, ls_capture = c, ls_hijacked = False\<rparr>"
  have other: "page_listener x \<or> ls_handler x = OldOnClick \<Longrightarrow> (ls_type x, ls_handler x, ls_capture x) \<notin> set ?own" for x
    by (auto dest!: own_listeners_handlers simp: page_listener_def)
  have onclick: "(''click'', OldOnClick, False) \<notin> set ?own" by (auto dest!: own_listeners_handlers)
  have keep: "filter (\<lambda>x. (ls_type x, ls_handler x, ls_capture x) \<notin> set ?own \<or> ls_hijacked x) (ly_listeners l)
      = ly_listeners l"
    using assms(2) other by (auto simp: filter_id_conv)
  have drop: "filter (\<lambda>x. (ls_type x, ls_handler x, ls_capture x) \<notin> set ?own \<or> ls_hijacked x) (map ?mk ?own) = []"
    by (auto simp: filter_empty_conv)
  show ?thesis
  proof (cases "notNeeded br l = Return False")
    case False
    with assms(1) have "l' = l"
      by (cases "notNeeded br l") (auto simp: FastClick_def Let_def split: bool.splits)
    then show ?thesis using False keep remove_listeners [of ?own l] assms(4) by (simp add: destroy_def)
  next
    case True
    let ?l1 = "l\<lparr>ly_listeners := ly_listeners l @ map ?mk ?own\<rparr>"
    have new: "\<forall>(t, h, c) \<in> set ?own. \<forall>x \<in> set (ly_listeners l). ls_handler x \<noteq> h \<or> ls_type x \<noteq> t"
      using assms(2) by (fastforce dest!: own_listeners_handlers simp: page_listener_def)
    note l1 = add_listeners [OF assms(3) distinct_own_listeners new]
    define w where "w = (\<not> br_stopImmediatePropagation br)"
    have old: "\<lparr>ls_type = ''click'', ls_handler = OldOnClick, ls_capture = False, ls_hijacked = w\<rparr> \<notin> set (ly_listeners ?l1)"
      using assms(2) by (auto dest!: own_listeners_handlers simp: page_listener_def)
    have l'_eq: "l' = (if ly_onclick l then (addEventListener ''click'' OldOnClick False (?l1\<lparr>ly_wraps := w\<rparr>))\<lparr>ly_onclick := False\<rparr>
        else ?l1\<lparr>ly_wraps := w\<rparr>)"
    proof -
      have same: "?l1\<lparr>ly_wraps := False\<rparr> = ?l1" using assms(3) by (cases l) simp
      show ?thesis
        using assms(1) True by (cases w) (auto simp: FastClick_def l1 Let_def w_def same)
    qed
    have l': "ly_listeners l' = ly_listeners ?l1 @ (if ly_onclick l
          then [\<lparr>ls_type = ''click'', ls_handler = OldOnClick, ls_capture = False, ls_hijacked = w\<rparr>] else [])"
      and hj: "ly_hijacked l' = (if ly_onclick l \<and> w then [OldOnClick] else [])"
      using assms(3,4) old unfolding l'_eq by (auto simp: addEventListener_def)
    have "\<forall>(t, h, c) \<in> set ?own. h \<notin> set (ly_hijacked l')"
      by (auto dest!: own_listeners_handlers simp: hj)
    from remove_listeners [OF this] show ?thesis
      using True keep drop onclick by (simp add: destroy_def l' w_def)
  qed
qed

definition example_browser :: browser where
  "example_browser = \<lparr>br_userAgent = ''Mozilla Android'', br_ontouchstart = True, br_viewport = None,
     br_scrollWidth = 980, br_outerWidth = 360, br_stopImmediatePropagation = False\<rparr>"

definition example_layer :: layer where
  "example_layer = \<lparr>ly_msTouchAction = [], ly_touchAction = [], ly_onclick = True,
     ly_listeners = [\<lparr>ls_type = ''click'', ls_handler = UserHandler 1, ls_capture = False, ls_hijacked = False\<rparr>],
     ly_wraps = False, ly_hijacked = []\<rparr>"

theorem destroy_removes_listeners_witness:
  "\<exists>s l'. FastClick example_browser no_options example_layer = (Return (), s, l')
     \<and> map ls_handler (ly_listeners (destroy (device_of (br_userAgent example_browser)) l')) = [UserHandler 1, OldOnClick]"
proof -
  have need: "notNeeded example_browser example_layer = Return False" by code_simp
  obtain s l' where run: "FastClick example_browser no_options example_layer = (Return (), s, l')"
    by (simp add: FastClick_def need Let_def)
  have "\<forall>x \<in> set (ly_listeners example_layer). page_listener x" "\<not> ly_wraps example_layer" "ly_hijacked example_layer = []"
    by (simp_all add: example_layer_def page_listener_def)
  from destroy_removes_listeners [OF run this] have listeners:
    "map ls_handler (ly_listeners (destroy (device_of (br_userAgent example_browser)) l')) = [UserHandler 1, OldOnClick]"
    by (simp add: need) (simp add: example_layer_def)
  show ?thesis by (intro exI conjI) (rule run, rule listeners)
qed

end
