(* ===== verification/Cm_Text.thy ===== *)
theory Cm_Text
  imports Web_Base
begin

text \<open>
  The text utilities of the editor on the documentation pages,
  \<open>docs/db-description/bower/codemirror/codemirror.js\<close>: columns with tabs, binary search, sorted
  insertion, and positions. A text is a list of UTF-16 code units, as JavaScript's strings
  are; indices into it are numbers from 0. A tab size is positive.
\<close>

type_synonym code_unit = "16 word"
type_synonym js_text = "code_unit list"

definition tab :: code_unit where "tab = 9"
definition newline :: code_unit where "newline = 10"
definition carriage_return :: code_unit where "carriage_return = 13"

section \<open>Columns\<close>

text \<open>The white space \<open>\s\<close> of regular expressions, which has the no-break space.\<close>

definition js_space :: "code_unit \<Rightarrow> bool" where
  "js_space c \<longleftrightarrow> (let n = unat c in (9 \<le> n \<and> n \<le> 13) \<or> n \<in> {32, 0xA0, 0x1680, 0x2028, 0x2029, 0x202F, 0x205F, 0x3000, 0xFEFF}
     \<or> (0x2000 \<le> n \<and> n \<le> 0x200A))"

definition next_tab :: "js_text \<Rightarrow> nat \<Rightarrow> nat option" where
  "next_tab s i = find (\<lambda>j. s ! j = tab) [i..<length s]"

lemma next_tab_SomeD: "next_tab s i = Some t \<Longrightarrow> i \<le> t \<and> t < length s \<and> s ! t = tab \<and> tab \<notin> set (take (t - i) (drop i s))"
proof -
  assume "next_tab s i = Some t"
  then obtain k where k: "k < length [i..<length s]" "s ! ([i..<length s] ! k) = tab" "t = [i..<length s] ! k"
    "\<forall>j<k. s ! ([i..<length s] ! j) \<noteq> tab"
    unfolding next_tab_def find_Some_iff by blast
  then have t: "t = i + k" "t < length s" "s ! t = tab" by auto
  have "tab \<notin> set (take k (drop i s))"
    using k(1,4) by (auto simp: in_set_conv_nth)
  with t show ?thesis by simp
qed

lemma next_tab_bounds: "next_tab s i = Some t \<Longrightarrow> i \<le> t \<and> t < length s"
  using next_tab_SomeD by blast

lemma next_tab_NoneD: "next_tab s i = None \<Longrightarrow> tab \<notin> set (drop i s)"
  by (force simp: next_tab_def find_None_iff in_set_conv_nth)

function countColumn_loop :: "js_text \<Rightarrow> nat \<Rightarrow> nat \<Rightarrow> nat \<Rightarrow> nat \<Rightarrow> int" where
  "countColumn_loop s stop tabSize i n =
     (case next_tab s i of
        None \<Rightarrow> int n + (int stop - int i)
      | Some nextTab \<Rightarrow>
          if nextTab \<ge> stop then int n + (int stop - int i)
          else (let n = n + (nextTab - i) in countColumn_loop s stop tabSize (nextTab + 1) (n + (tabSize - n mod tabSize))))"
  by pat_completeness auto
termination
  by (relation "measure (\<lambda>(s, stop, tabSize, i, n). length s - i)") (auto dest: next_tab_bounds)

declare countColumn_loop.simps [simp del]

definition countColumn :: "js_text \<Rightarrow> nat option \<Rightarrow> nat \<Rightarrow> nat \<Rightarrow> nat \<Rightarrow> int" where
  "countColumn s stop tabSize startIndex startValue =
     (let stop = (case stop of Some e \<Rightarrow> e
                 | None \<Rightarrow> length (takeWhile js_space s))
      in countColumn_loop s stop tabSize startIndex startValue)"

function findColumn_loop :: "js_text \<Rightarrow> nat \<Rightarrow> nat \<Rightarrow> nat \<Rightarrow> nat \<Rightarrow> nat" where
  "findColumn_loop s goal tabSize pos col =
     (case next_tab s pos of
        None \<Rightarrow> pos + min (length s - pos) (goal - col)
      | Some nextTab \<Rightarrow>
          let skipped = nextTab - pos
          in if col + skipped \<ge> goal then pos + min skipped (goal - col)
             else (let col = col + skipped; col = col + (tabSize - col mod tabSize)
                   in if col \<ge> goal then nextTab + 1 else findColumn_loop s goal tabSize (nextTab + 1) col))"
  by pat_completeness auto
termination
  by (relation "measure (\<lambda>(s, goal, tabSize, pos, col). length s - pos)") (auto dest: next_tab_bounds)

declare findColumn_loop.simps [simp del]

definition findColumn :: "js_text \<Rightarrow> nat \<Rightarrow> nat \<Rightarrow> nat" where
  "findColumn s goal tabSize = findColumn_loop s goal tabSize 0 0"

text \<open>The specification: the column after each character, one by one.\<close>

definition column_step :: "nat \<Rightarrow> nat \<Rightarrow> code_unit \<Rightarrow> nat" where
  "column_step tabSize col c = (if c = tab then col + (tabSize - col mod tabSize) else col + 1)"

definition column_of :: "nat \<Rightarrow> nat \<Rightarrow> js_text \<Rightarrow> nat" where
  "column_of tabSize n s = foldl (column_step tabSize) n s"

lemma column_of_no_tab: "tab \<notin> set s \<Longrightarrow> column_of tabSize n s = n + length s"
  by (induction s arbitrary: n) (auto simp: column_of_def column_step_def)

lemma column_of_append: "column_of tabSize n (s @ u) = column_of tabSize (column_of tabSize n s) u"
  by (simp add: column_of_def)

lemma column_of_grows: "0 < tabSize \<Longrightarrow> n + length s \<le> column_of tabSize n s"
proof (induction s arbitrary: n)
  case (Cons c s)
  have "n mod tabSize < tabSize" using Cons.prems by simp
  then have "n + 1 \<le> column_step tabSize n c" by (auto simp: column_step_def)
  with Cons.IH [OF Cons.prems, of "column_step tabSize n c"] show ?case
    by (simp add: column_of_def)
qed (simp add: column_of_def)

lemma countColumn_loop_eq:
  "i \<le> stop \<Longrightarrow> stop \<le> length s \<Longrightarrow>
     countColumn_loop s stop tabSize i n = int (column_of tabSize n (take (stop - i) (drop i s)))"
proof (induction s stop tabSize i n rule: countColumn_loop.induct)
  case (1 s stop tabSize i n)
  show ?case
  proof (cases "next_tab s i")
    case None
    have "tab \<notin> set (take (stop - i) (drop i s))"
      using next_tab_NoneD [OF None] by (auto dest: in_set_takeD)
    then show ?thesis
      using 1(2,3) None by (subst countColumn_loop.simps) (simp add: column_of_no_tab)
  next
    case (Some t)
    note t = next_tab_SomeD [OF Some]
    show ?thesis
    proof (cases "t \<ge> stop")
      case True
      have "take (stop - i) (take (t - i) (drop i s)) = take (stop - i) (drop i s)"
        using True by (simp add: min_def)
      then have "tab \<notin> set (take (stop - i) (drop i s))"
        using t by (metis in_set_takeD)
      then show ?thesis
        using 1(2,3) Some True by (subst countColumn_loop.simps) (simp add: column_of_no_tab)
    next
      case False
      let ?m = "n + (t - i)"
      have split: "take (stop - i) (drop i s) = take (t - i) (drop i s) @ tab # take (stop - (t + 1)) (drop (t + 1) s)"
      proof -
        have "drop i s = take (t - i) (drop i s) @ drop (t - i) (drop i s)" by (rule append_take_drop_id [symmetric])
        also have "drop (t - i) (drop i s) = tab # drop (t + 1) s"
          using t Cons_nth_drop_Suc [of t s] by simp
        finally have "take (stop - i) (drop i s) = take (stop - i) (take (t - i) (drop i s) @ tab # drop (t + 1) s)" by simp
        then show ?thesis
          using t False 1(3) by (simp add: take_Cons')
      qed
      have "column_of tabSize n (take (t - i) (drop i s)) = ?m"
        using t by (subst column_of_no_tab) auto
      then show ?thesis
        using 1(1) [OF Some] 1(2,3) t False Some
        by (subst countColumn_loop.simps)
          (simp add: split column_of_append Let_def, simp add: column_of_def column_step_def)
    qed
  qed
qed

lemma countColumn_eq:
  "p \<le> length s \<Longrightarrow> countColumn s (Some p) tabSize 0 n = int (column_of tabSize n (take p s))"
  by (simp add: countColumn_def countColumn_loop_eq)

text \<open>Finding a column character by character.\<close>

fun find_col :: "nat \<Rightarrow> nat \<Rightarrow> nat \<Rightarrow> js_text \<Rightarrow> nat" where
  "find_col tabSize goal col [] = 0"
| "find_col tabSize goal col (c # cs) =
     (if goal \<le> col then 0 else Suc (find_col tabSize goal (column_step tabSize col c) cs))"

lemma find_col_no_tab:
  "tab \<notin> set u \<Longrightarrow> find_col tabSize goal col (u @ v) =
     (if goal \<le> col + length u then goal - col else length u + find_col tabSize goal (col + length u) v)"
proof (induction u arbitrary: col)
  case Nil
  show ?case by (cases v) auto
next
  case (Cons c u)
  then show ?case by (auto simp: column_step_def)
qed

lemma findColumn_loop_eq:
  "pos \<le> length s \<Longrightarrow> findColumn_loop s goal tabSize pos col = pos + find_col tabSize goal col (drop pos s)"
proof (induction s goal tabSize pos col rule: findColumn_loop.induct)
  case (1 s goal tabSize pos col)
  show ?case
  proof (cases "next_tab s pos")
    case None
    with find_col_no_tab [OF next_tab_NoneD [OF None], of tabSize goal col "[]"] show ?thesis
      using 1(2) by (subst findColumn_loop.simps) (auto simp: min_def)
  next
    case (Some t)
    note t = next_tab_SomeD [OF Some]
    obtain u where u: "drop pos s = u @ tab # drop (t + 1) s" "length u = t - pos" "tab \<notin> set u"
    proof (rule that)
      show "drop pos s = take (t - pos) (drop pos s) @ tab # drop (t + 1) s"
        using t Cons_nth_drop_Suc [of t s] append_take_drop_id [of "t - pos" "drop pos s"] by simp
      show "length (take (t - pos) (drop pos s)) = t - pos" using t by (auto simp: min_def)
      show "tab \<notin> set (take (t - pos) (drop pos s))" using t by blast
    qed
    let ?col = "col + (t - pos)"
    let ?next = "?col + (tabSize - ?col mod tabSize)"
    have find: "find_col tabSize goal col (drop pos s) =
        (if goal \<le> ?col then goal - col else (t - pos) + find_col tabSize goal ?col (tab # drop (t + 1) s))"
      using find_col_no_tab [OF u(3), of tabSize goal col "tab # drop (t + 1) s"] unfolding u(1,2) .
    have zero: "goal \<le> ?next \<Longrightarrow> find_col tabSize goal ?next u = 0" for u by (cases u) auto
    show ?thesis
    proof (cases "goal \<le> ?col \<or> goal \<le> ?next")
      case True
      then show ?thesis
        using t Some zero by (subst findColumn_loop.simps) (auto simp: find Let_def column_step_def)
    next
      case False
      then show ?thesis
        using t Some 1(1) [OF Some refl _ refl refl]
        by (subst findColumn_loop.simps) (auto simp: find Let_def column_step_def)
    qed
  qed
qed

lemma findColumn_eq: "findColumn s goal tabSize = find_col tabSize goal 0 s"
  by (simp add: findColumn_def findColumn_loop_eq)

lemma find_col_column:
  "0 < tabSize \<Longrightarrow> p \<le> length s \<Longrightarrow> find_col tabSize (column_of tabSize n (take p s)) n s = p"
proof (induction s arbitrary: p n)
  case (Cons c s)
  show ?case
  proof (cases p)
    case (Suc q)
    have "n mod tabSize < tabSize" using Cons.prems by simp
    then have "n < column_step tabSize n c" by (auto simp: column_step_def)
    moreover have "column_step tabSize n c \<le> column_of tabSize (column_step tabSize n c) (take q s)"
      using column_of_grows [OF Cons.prems(1), of "column_step tabSize n c" "take q s"] by simp
    ultimately show ?thesis
      using Cons.IH [of q "column_step tabSize n c"] Cons.prems Suc by (simp add: column_of_def)
  qed (simp add: column_of_def)
qed (simp add: column_of_def)

lemma find_col_least:
  "q < find_col tabSize goal n s \<Longrightarrow> column_of tabSize n (take q s) < goal"
proof (induction s arbitrary: q n)
  case (Cons c s)
  then show ?case by (cases q) (auto simp: column_of_def split: if_splits)
qed simp

lemma find_col_bound: "find_col tabSize goal n s \<le> length s"
  by (induction s arbitrary: n) auto

lemma find_col_reaches:
  "find_col tabSize goal n s = length s \<or> goal \<le> column_of tabSize n (take (find_col tabSize goal n s) s)"
  by (induction s arbitrary: n) (auto simp: column_of_def)

text \<open>Columns and offsets correspond: \<open>countColumn\<close>, which jumps from tab to tab, gives the column
  one gets by advancing character by character, and \<open>findColumn\<close> undoes it; for a column inside
  a tab or past the end of the text \<open>findColumn\<close> gives the first offset whose column is not
  less, or the end of the text.\<close>

theorem columns_roundtrip:
  assumes "0 < tabSize" and "p \<le> length s"
  shows "countColumn s (Some p) tabSize 0 0 = int (column_of tabSize 0 (take p s))
    \<and> findColumn s (nat (countColumn s (Some p) tabSize 0 0)) tabSize = p
    \<and> (let q = findColumn s goal tabSize
       in q \<le> length s \<and> (\<forall>r < q. countColumn s (Some r) tabSize 0 0 < int goal)
        \<and> (q < length s \<longrightarrow> int goal \<le> countColumn s (Some q) tabSize 0 0))"
proof -
  have "countColumn s (Some r) tabSize 0 0 < int goal" if "r < find_col tabSize goal 0 s" for r
  proof -
    have "r \<le> length s" using that find_col_bound [of tabSize goal 0 s] by linarith
    then show ?thesis using find_col_least [OF that] by (simp add: countColumn_eq)
  qed
  moreover have "find_col tabSize goal 0 s \<le> length s" by (rule find_col_bound)
  moreover have "int goal \<le> countColumn s (Some (find_col tabSize goal 0 s)) tabSize 0 0"
    if "find_col tabSize goal 0 s < length s"
    using find_col_reaches [of tabSize goal 0 s] that by (simp add: countColumn_eq)
  ultimately show ?thesis
    using assms by (simp add: countColumn_eq findColumn_eq find_col_column Let_def)
qed

theorem columns_roundtrip_witness:
  "findColumn [tab, 97, tab, 98] (nat (countColumn [tab, 97, tab, 98] (Some 3) 4 0 0)) 4 = 3"
proof -
  have "0 < (4 :: nat)" "3 \<le> length [tab, 97, tab, 98]" by simp_all
  from columns_roundtrip [OF this, of 0] show ?thesis by blast
qed

section \<open>Searching and inserting\<close>

text \<open>The binary search goes from \<open>from\<close> towards \<open>to\<close>, whichever is larger.\<close>

function findFirst :: "(int \<Rightarrow> bool) \<Rightarrow> int \<Rightarrow> int \<Rightarrow> int" where
  "findFirst pred low high =
     (if \<bar>low - high\<bar> \<le> 1 then (if pred low then low else high)
      else let mid = (low + high) div 2 in if pred mid then findFirst pred low mid else findFirst pred mid high)"
  by pat_completeness auto
termination
  by (relation "measure (\<lambda>(pred, low, high). nat \<bar>low - high\<bar>)") auto

declare findFirst.simps [simp del]

fun insertSorted :: "('a \<Rightarrow> int) \<Rightarrow> 'a list \<Rightarrow> 'a \<Rightarrow> 'a list" where
  "insertSorted score [] value = [value]"
| "insertSorted score (x # xs) value = (if score x \<le> score value then x # insertSorted score xs value else value # x # xs)"

lemma insertSorted_eq:
  "insertSorted score xs v = takeWhile (\<lambda>x. score x \<le> score v) xs @ v # dropWhile (\<lambda>x. score x \<le> score v) xs"
  by (induction xs) auto

text \<open>Between the two ends the predicate changes once.\<close>

definition switches :: "(int \<Rightarrow> bool) \<Rightarrow> int \<Rightarrow> int \<Rightarrow> bool" where
  "switches pred low high \<longleftrightarrow> pred high \<and>
     (\<forall>a b. (low \<le> a \<and> a \<le> b \<and> b \<le> high \<or> high \<le> b \<and> b \<le> a \<and> a \<le> low) \<longrightarrow> pred a \<longrightarrow> pred b)"

text \<open>The binary search terminates with a position between its ends that satisfies the predicate;
  when the predicate, once true on the way from the first end to the second, stays true, every
  position on the way before the result fails it, so the result is the closest one.\<close>

theorem findFirst_closest:
  fixes pred :: "int \<Rightarrow> bool" and low high :: int
  assumes "pred high"
  defines "r \<equiv> findFirst pred low high"
  shows "pred r \<and> min low high \<le> r \<and> r \<le> max low high
    \<and> (switches pred low high \<longrightarrow> (\<forall>k. (low \<le> k \<and> k < r \<or> r < k \<and> k \<le> low) \<longrightarrow> \<not> pred k))"
  unfolding r_def using assms(1)
proof (induction pred low high rule: findFirst.induct)
  case (1 pred low high)
  show ?case
  proof (cases "\<bar>low - high\<bar> \<le> 1")
    case True
    then have eq: "findFirst pred low high = (if pred low then low else high)" by (subst findFirst.simps) simp
    have "low = high \<or> low = high + 1 \<or> high = low + 1" using True by arith
    then consider "low = high" | "low = high + 1" | "high = low + 1" by blast
    then have only: "low \<le> k \<and> k < high \<or> high < k \<and> k \<le> low \<Longrightarrow> k = low" for k by cases auto
    show ?thesis
    proof (cases "pred low")
      case True
      then show ?thesis unfolding eq by auto
    next
      case False
      with only 1(3) have "\<forall>k. low \<le> k \<and> k < high \<or> high < k \<and> k \<le> low \<longrightarrow> \<not> pred k" by blast
      with False 1(3) show ?thesis unfolding eq by simp
    qed
  next
    case False
    define m where "m = (low + high) div 2"
    have "low < m \<and> m < high \<or> high < m \<and> m < low" unfolding m_def using False by arith
    then consider (up) "low < m" "m < high" | (down) "high < m" "m < low" by blast
    note m = this
    show ?thesis
    proof (cases "pred m")
      case True
      have eq: "findFirst pred low high = findFirst pred low m"
        using False True by (subst findFirst.simps) (simp add: Let_def m_def)
      define r where "r = findFirst pred low m"
      have IH: "pred r \<and> min low m \<le> r \<and> r \<le> max low m
          \<and> (switches pred low m \<longrightarrow> (\<forall>k. (low \<le> k \<and> k < r \<or> r < k \<and> k \<le> low) \<longrightarrow> \<not> pred k))"
        unfolding r_def by (rule 1(1) [OF False m_def True True])
      have sw: "switches pred low high \<Longrightarrow> switches pred low m"
        using True m unfolding switches_def by (meson order.trans less_imp_le)
      from m have "min low high \<le> r \<and> r \<le> max low high" using IH by cases auto
      then show ?thesis unfolding eq r_def [symmetric] using IH sw by blast
    next
      case mid_false: False
      have eq: "findFirst pred low high = findFirst pred m high"
        using False mid_false by (subst findFirst.simps) (simp add: Let_def m_def)
      define r where "r = findFirst pred m high"
      have IH: "pred r \<and> min m high \<le> r \<and> r \<le> max m high
          \<and> (switches pred m high \<longrightarrow> (\<forall>k. (m \<le> k \<and> k < r \<or> r < k \<and> k \<le> m) \<longrightarrow> \<not> pred k))"
        unfolding r_def by (rule 1(2) [OF False m_def mid_false 1(3)])
      from m have bounds: "min low high \<le> r \<and> r \<le> max low high" using IH by cases auto
      have "\<not> pred k" if s: "switches pred low high" and k: "low \<le> k \<and> k < r \<or> r < k \<and> k \<le> low" for k
      proof -
        have "switches pred m high"
          using s m unfolding switches_def by (meson order.trans less_imp_le)
        with IH have rest: "\<And>k. (m \<le> k \<and> k < r \<or> r < k \<and> k \<le> m) \<Longrightarrow> \<not> pred k" by blast
        have first: "low \<le> k \<and> k \<le> m \<and> m \<le> high \<or> high \<le> m \<and> m \<le> k \<and> k \<le> low \<Longrightarrow> \<not> pred k" for k
          using s mid_false unfolding switches_def by blast
        from m show ?thesis
        proof cases
          case up
          with IH k have "low \<le> k \<and> k < r" by auto
          then show ?thesis using rest [of k] first [of k] up by (cases "k \<le> m") auto
        next
          case down
          with IH k have "r < k \<and> k \<le> low" by auto
          then show ?thesis using rest [of k] first [of k] down by (cases "m \<le> k") auto
        qed
      qed
      with IH bounds show ?thesis unfolding eq r_def [symmetric] by blast
    qed
  qed
qed

theorem findFirst_closest_witness:
  "findFirst (\<lambda>k. 6 \<le> k) 0 10 = 6"
proof -
  define r where "r = findFirst (\<lambda>k. 6 \<le> k) 0 10"
  have "switches (\<lambda>k. 6 \<le> k) 0 10" by (auto simp: switches_def)
  with findFirst_closest [of "\<lambda>k. 6 \<le> k" 10 0] have "6 \<le> r" "\<forall>k. 0 \<le> k \<and> k < r \<longrightarrow> \<not> 6 \<le> k"
    by (auto simp: r_def)
  then have "r = 6" by (metis order.refl order.strict_iff_order not_le zero_le_numeral)
  then show ?thesis by (simp add: r_def)
qed


end
