(* ===== verification/Cm_Document.thy ===== *)
theory Cm_Document
  imports Cm_Text
begin

text \<open>
  The document of the editor (\<open>codemirror.js\<close>): lines in a tree of chunks whose nodes store the
  number and the height of the lines below them, with the search by number and by height, the
  iteration, and insertion and removal, which split and merge nodes. A tree refines the list of
  its lines; the locale \<open>line_store\<close> states what the rest of the editor uses of it. Heights
  (pixels) are whole numbers. Events of lines, and the parent links, which only spell out where
  a node is in the tree, are left out.
\<close>

section \<open>Lines and chunks\<close>

record marked_span =
  sp_marker :: nat
  sp_from :: "int option"
  sp_to :: "int option"

record line =
  ln_text :: js_text
  ln_spans :: "marked_span list"
  ln_height :: int

text \<open>A leaf has its lines and their height; a branch its children, and the size and the height
  of what is below it. Both constructors of the code compute these numbers.\<close>

datatype chunk = Leaf "line list" int | Branch "chunk list" nat int

definition lines_height :: "line list \<Rightarrow> int" where
  "lines_height ls = sum_list (map ln_height ls)"

lemma lines_height_simps [simp]:
  "lines_height [] = 0" "lines_height (l # ls) = ln_height l + lines_height ls"
  "lines_height (xs @ ys) = lines_height xs + lines_height ys"
  by (simp_all add: lines_height_def)

fun chunkSize :: "chunk \<Rightarrow> nat" where
  "chunkSize (Leaf ls h) = length ls"
| "chunkSize (Branch cs n h) = n"

fun chunk_height :: "chunk \<Rightarrow> int" where
  "chunk_height (Leaf ls h) = h"
| "chunk_height (Branch cs n h) = h"

definition LeafChunk :: "line list \<Rightarrow> chunk" where
  "LeafChunk ls = Leaf ls (lines_height ls)"

definition BranchChunk :: "chunk list \<Rightarrow> chunk" where
  "BranchChunk cs = Branch cs (sum_list (map chunkSize cs)) (sum_list (map chunk_height cs))"

text \<open>\<open>collapse\<close> collects the lines.\<close>

fun chunk_collapse :: "chunk \<Rightarrow> line list" where
  "chunk_collapse (Leaf ls h) = ls"
| "chunk_collapse (Branch cs n h) = concat (map chunk_collapse cs)"

text \<open>The invariants: the stored numbers are right and no branch is empty; no node is too
  large.\<close>

fun counted :: "chunk \<Rightarrow> bool" where
  "counted (Leaf ls h) \<longleftrightarrow> h = lines_height ls"
| "counted (Branch cs n h) \<longleftrightarrow> cs \<noteq> [] \<and> n = sum_list (map chunkSize cs) \<and> h = sum_list (map chunk_height cs) \<and> list_all counted cs"

fun bounded :: "chunk \<Rightarrow> bool" where
  "bounded (Leaf ls h) \<longleftrightarrow> length ls \<le> 50"
| "bounded (Branch cs n h) \<longleftrightarrow> length cs \<le> 10 \<and> list_all bounded cs"

lemma counted_size: "counted c \<Longrightarrow> chunkSize c = length (chunk_collapse c)"
proof (induction c)
  case (Branch cs n h)
  then have "map chunkSize cs = map (\<lambda>c. length (chunk_collapse c)) cs" by (auto simp: list_all_iff)
  with Branch.prems show ?case by (simp add: length_concat comp_def)
qed simp

lemma counted_height: "counted c \<Longrightarrow> chunk_height c = lines_height (chunk_collapse c)"
proof (induction c)
  case (Branch cs n h)
  then have "sum_list (map chunk_height cs) = sum_list (map (\<lambda>c. lines_height (chunk_collapse c)) cs)"
    by (intro arg_cong [where f = sum_list]) (auto simp: list_all_iff)
  moreover have "lines_height (concat (map chunk_collapse cs)) = sum_list (map (\<lambda>c. lines_height (chunk_collapse c)) cs)"
    by (induction cs) auto
  ultimately show ?case using Branch.prems by simp
qed simp

lemma LeafChunk_simps [simp]:
  "chunkSize (LeafChunk ls) = length ls" "chunk_height (LeafChunk ls) = lines_height ls"
  "chunk_collapse (LeafChunk ls) = ls" "counted (LeafChunk ls)" "bounded (LeafChunk ls) \<longleftrightarrow> length ls \<le> 50"
  by (simp_all add: LeafChunk_def)

lemma BranchChunk_simps [simp]:
  "chunkSize (BranchChunk cs) = sum_list (map chunkSize cs)" "chunk_height (BranchChunk cs) = sum_list (map chunk_height cs)"
  "chunk_collapse (BranchChunk cs) = concat (map chunk_collapse cs)" "counted (BranchChunk cs) \<longleftrightarrow> cs \<noteq> [] \<and> list_all counted cs"
  "bounded (BranchChunk cs) \<longleftrightarrow> length cs \<le> 10 \<and> list_all bounded cs"
  by (simp_all add: BranchChunk_def)

section \<open>Searching\<close>

text \<open>\<open>getLine\<close> walks down to the leaf.\<close>

fun getLine_chunk :: "chunk \<Rightarrow> nat \<Rightarrow> line option" and getLine_children :: "chunk list \<Rightarrow> nat \<Rightarrow> line option" where
  "getLine_chunk (Leaf ls h) n = (if n < length ls then Some (ls ! n) else None)"
| "getLine_chunk (Branch cs s h) n = getLine_children cs n"
| "getLine_children [] n = None"
| "getLine_children (c # cs) n = (if n < chunkSize c then getLine_chunk c n else getLine_children cs (n - chunkSize c))"

text \<open>The way up from a line: its index in its leaf, and for every node above the siblings that
  precede the way, from below. \<open>lineNo\<close> and \<open>heightAtLine\<close> add up what precedes.\<close>

fun way_up :: "chunk \<Rightarrow> nat \<Rightarrow> chunk list list \<Rightarrow> nat \<times> line list \<times> chunk list list"
  and way_up_children :: "chunk list \<Rightarrow> chunk list \<Rightarrow> nat \<Rightarrow> chunk list list \<Rightarrow> nat \<times> line list \<times> chunk list list" where
  "way_up (Leaf ls h) n ups = (n, ls, ups)"
| "way_up (Branch cs s h) n ups = way_up_children [] cs n ups"
| "way_up_children before [] n ups = (n, [], ups)"
| "way_up_children before (c # cs) n ups =
     (if n < chunkSize c then way_up c n (before # ups) else way_up_children (before @ [c]) cs (n - chunkSize c) ups)"

definition lines_before :: "nat \<times> line list \<times> chunk list list \<Rightarrow> nat" where
  "lines_before w = (case w of (i, ls, ups) \<Rightarrow> foldl (\<lambda>no before. no + sum_list (map chunkSize before)) i ups)"

definition lineNo :: "int \<Rightarrow> nat \<times> line list \<times> chunk list list \<Rightarrow> int" where
  "lineNo first w = int (lines_before w) + first"

definition heightAtLine :: "nat \<times> line list \<times> chunk list list \<Rightarrow> int" where
  "heightAtLine w = (case w of (i, ls, ups) \<Rightarrow>
     foldl (\<lambda>h before. h + sum_list (map chunk_height before)) (lines_height (take i ls)) ups)"

text \<open>The line at a height.\<close>

fun leafLineAtHeight :: "line list \<Rightarrow> int \<Rightarrow> nat" where
  "leafLineAtHeight [] h = 0"
| "leafLineAtHeight (l # ls) h = (if h < ln_height l then 0 else Suc (leafLineAtHeight ls (h - ln_height l)))"

fun lineAtHeight :: "chunk \<Rightarrow> int \<Rightarrow> nat \<Rightarrow> nat" and lineAtHeight_children :: "chunk list \<Rightarrow> int \<Rightarrow> nat \<Rightarrow> nat" where
  "lineAtHeight (Leaf ls height) h n = n + leafLineAtHeight ls h"
| "lineAtHeight (Branch cs sz height) h n = lineAtHeight_children cs h n"
| "lineAtHeight_children [] h n = n"
| "lineAtHeight_children (c # cs) h n =
     (if h < chunk_height c then lineAtHeight c h n else lineAtHeight_children cs (h - chunk_height c) (n + chunkSize c))"

text \<open>Iteration over \<open>n\<close> lines from offset \<open>at\<close>; the callback changes a state and stops the iteration
  by returning a true value.\<close>

fun iter_lines :: "(line \<Rightarrow> 's \<Rightarrow> bool \<times> 's) \<Rightarrow> line list \<Rightarrow> 's \<Rightarrow> bool \<times> 's" where
  "iter_lines op [] s = (False, s)"
| "iter_lines op (l # ls) s = (case op l s of (stop, s') \<Rightarrow> if stop then (True, s') else iter_lines op ls s')"

fun iterN :: "chunk \<Rightarrow> nat \<Rightarrow> nat \<Rightarrow> (line \<Rightarrow> 's \<Rightarrow> bool \<times> 's) \<Rightarrow> 's \<Rightarrow> bool \<times> 's"
  and iterN_children :: "chunk list \<Rightarrow> nat \<Rightarrow> nat \<Rightarrow> (line \<Rightarrow> 's \<Rightarrow> bool \<times> 's) \<Rightarrow> 's \<Rightarrow> bool \<times> 's" where
  "iterN (Leaf ls h) at n op s = iter_lines op (take n (drop at ls)) s"
| "iterN (Branch cs sz h) at n op s = iterN_children cs at n op s"
| "iterN_children [] at n op s = (False, s)"
| "iterN_children (c # cs) at n op s =
     (if at < chunkSize c
      then (let used = min n (chunkSize c - at)
            in case iterN c at used op s of
                 (stop, s') \<Rightarrow> if stop then (True, s') else if n - used = 0 then (False, s')
                             else iterN_children cs 0 (n - used) op s')
      else iterN_children cs (at - chunkSize c) n op s)"

section \<open>Changing lines\<close>

text \<open>A line gets another text; the difference of the heights goes up the tree (\<open>updateLineHeight\<close>).\<close>

fun updateLine_chunk :: "nat \<Rightarrow> line \<Rightarrow> chunk \<Rightarrow> chunk"
  and updateLine_children :: "nat \<Rightarrow> line \<Rightarrow> chunk list \<Rightarrow> chunk list \<times> int" where
  "updateLine_chunk n l (Leaf ls h) = Leaf (ls[n := l]) (if n < length ls then h + (ln_height l - ln_height (ls ! n)) else h)"
| "updateLine_chunk n l (Branch cs sz h) = (case updateLine_children n l cs of (cs', diff) \<Rightarrow> Branch cs' sz (h + diff))"
| "updateLine_children n l [] = ([], 0)"
| "updateLine_children n l (c # cs) =
     (if n < chunkSize c
      then (let c' = updateLine_chunk n l c in (c' # cs, chunk_height c' - chunk_height c))
      else (case updateLine_children (n - chunkSize c) l cs of (cs', diff) \<Rightarrow> (c # cs', diff)))"

text \<open>Removal. The loop over the children returns them, the height removed, and how many lines were
  not found.\<close>

fun is_leaf :: "chunk \<Rightarrow> bool" where
  "is_leaf (Leaf ls h) = True"
| "is_leaf (Branch cs n h) = False"

fun removeInner :: "nat \<Rightarrow> nat \<Rightarrow> chunk \<Rightarrow> chunk"
  and remove_children :: "nat \<Rightarrow> nat \<Rightarrow> chunk list \<Rightarrow> chunk list \<times> int \<times> nat" where
  "removeInner at n (Leaf ls h) = Leaf (take at ls @ drop (at + n) ls) (h - lines_height (take n (drop at ls)))"
| "removeInner at n (Branch cs sz h) =
     (case remove_children at n cs of (cs', removed, left) \<Rightarrow>
        let sz' = sz - n; h' = h - removed
        in if sz' - left < 25 \<and> (length cs' > 1 \<or> \<not> (case cs' of [] \<Rightarrow> False | c # _ \<Rightarrow> is_leaf c))
           then Branch [LeafChunk (concat (map chunk_collapse cs'))] sz' h'
           else Branch cs' sz' h')"
| "remove_children at n [] = ([], 0, n)"
| "remove_children at n (c # cs) =
     (if at < chunkSize c
      then (let rm = min n (chunkSize c - at); c' = removeInner at rm c; diff = chunk_height c - chunk_height c';
                kept = (if chunkSize c = rm then [] else [c'])
            in if n - rm = 0 then (kept @ cs, diff, 0)
               else (case remove_children 0 (n - rm) cs of (cs', removed, left) \<Rightarrow> (kept @ cs', diff + removed, left)))
      else (case remove_children (at - chunkSize c) n cs of (cs', removed, left) \<Rightarrow> (c # cs', removed, left)))"

text \<open>Insertion. A leaf of more than 50 lines is cut into leaves of 25, the first of 25 to 49 lines.\<close>

function slices :: "line list \<Rightarrow> chunk list" where
  "slices ls = (if ls = [] then [] else LeafChunk (take 25 ls) # slices (drop 25 ls))"
  by pat_completeness auto
termination
  by (relation "measure length") auto

declare slices.simps [simp del]

definition split_leaf :: "line list \<Rightarrow> int \<Rightarrow> chunk list" where
  "split_leaf ls h =
     (let remaining = length ls mod 25 + 25; leaves = slices (drop remaining ls)
      in Leaf (take remaining ls) (h - sum_list (map chunk_height leaves)) # leaves)"

text \<open>\<open>maybeSpill\<close> of a node with a parent: while it has more than 10 children, the last five become
  a sibling.\<close>

function spill :: "chunk list \<Rightarrow> nat \<Rightarrow> int \<Rightarrow> chunk list" where
  "spill cs sz h =
     (if length cs \<le> 10 then [Branch cs sz h]
      else let sibling = BranchChunk (drop (length cs - 5) cs)
           in spill (take (length cs - 5) cs) (sz - chunkSize sibling) (h - chunk_height sibling) @ [sibling])"
  by pat_completeness auto
termination
  by (relation "measure (\<lambda>(cs, sz, h). length cs)") auto

declare spill.simps [simp del]

text \<open>\<open>maybeSpill\<close> of the root: its children go one level down.\<close>

lemma spill_length: "length (spill cs sz h) \<le> (if length cs \<le> 10 then 1 else length cs - 5)"
proof (induction cs sz h rule: spill.induct)
  case (1 cs sz h)
  show ?case
  proof (cases "length cs \<le> 10")
    case True
    then show ?thesis by (simp add: spill.simps)
  next
    case False
    with 1 [OF False refl] show ?thesis by (subst spill.simps) (auto simp: Let_def split: if_splits, arith+)
  qed
qed

function root_spill :: "chunk list \<Rightarrow> chunk list" where
  "root_spill cs =
     (if length cs \<le> 10 then cs
      else let sibling = BranchChunk (drop (length cs - 5) cs);
               copied = BranchChunk (take (length cs - 5) cs)
           in root_spill (spill (take (length cs - 5) cs) (chunkSize copied) (chunk_height copied) @ [sibling]))"
  by pat_completeness auto
termination
proof (relation "measure length")
  fix cs :: "chunk list" and x xa
  assume "\<not> length cs \<le> 10"
  then show "(spill (take (length cs - 5) cs) (chunkSize xa) (chunk_height xa) @ [x], cs) \<in> measure length"
    using spill_length [of "take (length cs - 5) cs" "chunkSize xa" "chunk_height xa"] by (auto split: if_splits)
qed simp

declare root_spill.simps [simp del]

text \<open>The inserting loop tells whether a node was split; then the node checks its own size.\<close>

fun insertInner :: "nat \<Rightarrow> line list \<Rightarrow> int \<Rightarrow> chunk \<Rightarrow> chunk list"
  and insert_children :: "nat \<Rightarrow> line list \<Rightarrow> int \<Rightarrow> chunk list \<Rightarrow> chunk list \<times> bool" where
  "insertInner at new height (Leaf ls h) = [Leaf (take at ls @ new @ drop at ls) (h + height)]"
| "insertInner at new height (Branch cs sz h) =
     (case insert_children at new height cs of (cs', split) \<Rightarrow>
        if split then spill cs' (sz + length new) (h + height) else [Branch cs' (sz + length new) (h + height)])"
| "insert_children at new height [] = ([], False)"
| "insert_children at new height (c # cs) =
     (if at \<le> chunkSize c
      then (case insertInner at new height c of
              [Leaf ls h] \<Rightarrow> if length ls > 50 then (split_leaf ls h @ cs, True) else (Leaf ls h # cs, False)
            | parts \<Rightarrow> (parts @ cs, length parts > 1))
      else (case insert_children (at - chunkSize c) new height cs of (cs', split) \<Rightarrow> (c # cs', split)))"

section \<open>The tree refines the list of its lines\<close>

abbreviation children_lines :: "chunk list \<Rightarrow> line list" where
  "children_lines cs \<equiv> concat (map chunk_collapse cs)"

lemma counted_children_size:
  "list_all counted cs \<Longrightarrow> sum_list (map chunkSize cs) = length (children_lines cs)"
  by (induction cs) (auto simp: counted_size)

lemma counted_children_height:
  "list_all counted cs \<Longrightarrow> sum_list (map chunk_height cs) = lines_height (children_lines cs)"
  by (induction cs) (auto simp: counted_height)

lemma getLine_eq:
  "counted c \<Longrightarrow> getLine_chunk c n = (if n < length (chunk_collapse c) then Some (chunk_collapse c ! n) else None)"
  "list_all counted cs \<Longrightarrow>
     getLine_children cs n = (if n < length (children_lines cs) then Some (children_lines cs ! n) else None)"
proof (induction c n and cs n rule: getLine_chunk_getLine_children.induct)
  case (4 c cs n)
  then show ?case by (auto simp: counted_size nth_append)
qed auto

lemma lines_before_way_up:
  "counted c \<Longrightarrow> n < length (chunk_collapse c) \<Longrightarrow>
     lines_before (way_up c n ups) = foldl (\<lambda>no before. no + sum_list (map chunkSize before)) n ups"
  "list_all counted cs \<Longrightarrow> n < length (children_lines cs) \<Longrightarrow>
     lines_before (way_up_children before cs n ups)
       = foldl (\<lambda>no before. no + sum_list (map chunkSize before)) (n + sum_list (map chunkSize before)) ups"
proof (induction c n ups and before cs n ups rule: way_up_way_up_children.induct)
  case (4 before c cs n ups)
  then show ?case by (auto simp: counted_size)
qed (auto simp: lines_before_def)

lemma heightAtLine_way_up:
  "counted c \<Longrightarrow> n < length (chunk_collapse c) \<Longrightarrow>
     heightAtLine (way_up c n ups)
       = foldl (\<lambda>h before. h + sum_list (map chunk_height before)) (lines_height (take n (chunk_collapse c))) ups"
  "list_all counted cs \<Longrightarrow> n < length (children_lines cs) \<Longrightarrow>
     heightAtLine (way_up_children before cs n ups)
       = foldl (\<lambda>h before. h + sum_list (map chunk_height before))
           (lines_height (take n (children_lines cs)) + sum_list (map chunk_height before)) ups"
proof (induction c n ups and before cs n ups rule: way_up_way_up_children.induct)
  case (4 before c cs n ups)
  then show ?case by (auto simp: counted_size counted_height algebra_simps)
qed (auto simp: heightAtLine_def)

definition heights_ok :: "line list \<Rightarrow> bool" where
  "heights_ok ls \<longleftrightarrow> (\<forall>l \<in> set ls. 0 \<le> ln_height l)"

lemma heights_ok_simps [simp]:
  "heights_ok []" "heights_ok (l # ls) \<longleftrightarrow> 0 \<le> ln_height l \<and> heights_ok ls" "heights_ok (xs @ ys) \<longleftrightarrow> heights_ok xs \<and> heights_ok ys"
  by (auto simp: heights_ok_def)

lemma lines_height_nonneg: "heights_ok ls \<Longrightarrow> 0 \<le> lines_height ls"
  by (induction ls) auto

lemma leafLineAtHeight_append:
  "heights_ok xs \<Longrightarrow> heights_ok ys \<Longrightarrow> leafLineAtHeight (xs @ ys) h =
     (if h < lines_height xs then leafLineAtHeight xs h else length xs + leafLineAtHeight ys (h - lines_height xs))"
proof (induction xs arbitrary: h)
  case (Cons x xs)
  then show ?case using lines_height_nonneg [of xs] by (auto simp: algebra_simps)
next
  case Nil
  then show ?case by (cases ys) auto
qed

lemma lineAtHeight_eq:
  "counted c \<Longrightarrow> heights_ok (chunk_collapse c) \<Longrightarrow> lineAtHeight c h n = n + leafLineAtHeight (chunk_collapse c) h"
  "list_all counted cs \<Longrightarrow> heights_ok (children_lines cs) \<Longrightarrow>
     lineAtHeight_children cs h n = n + leafLineAtHeight (children_lines cs) h"
proof (induction c h n and cs h n rule: lineAtHeight_lineAtHeight_children.induct)
  case (4 c cs h n)
  then show ?case by (auto simp: counted_size counted_height leafLineAtHeight_append)
qed auto

lemma iter_lines_append:
  "iter_lines op (xs @ ys) s = (case iter_lines op xs s of (stop, s') \<Rightarrow> if stop then (True, s') else iter_lines op ys s')"
  by (induction xs arbitrary: s) (auto split: prod.splits)

lemma iterN_eq:
  "counted c \<Longrightarrow> iterN c at n op s = iter_lines op (take n (drop at (chunk_collapse c))) s"
  "list_all counted cs \<Longrightarrow> iterN_children cs at n op s = iter_lines op (take n (drop at (children_lines cs))) s"
proof (induction c at n op s and cs at n op s rule: iterN_iterN_children.induct)
  case (4 c cs at n op s)
  show ?case
  proof (cases "at < chunkSize c")
    case True
    let ?L = "drop at (chunk_collapse c)" and ?used = "min n (chunkSize c - at)"
    have len: "chunkSize c - at = length ?L" using 4(4) by (simp add: counted_size)
    have head: "iterN c at ?used op s = iter_lines op (take n ?L) s"
      using 4(1) [OF True refl] 4(4) len by (simp add: min_def)
    define rest where "rest = take (n - length ?L) (children_lines cs)"
    have tail: "iterN_children cs 0 (n - ?used) op s' = iter_lines op rest s'"
      if "iter_lines op (take n ?L) s = (False, s')" "n - ?used \<noteq> 0" for s'
    proof -
      have "iterN c at ?used op s = (False, s')" using head that by simp
      from 4(2) [OF True refl this [symmetric] _ that(2)] 4(4) have
        "iterN_children cs 0 (n - ?used) op s' = iter_lines op (take (n - ?used) (drop 0 (children_lines cs))) s'" by auto
      moreover have "n - ?used = n - length ?L" using that(2) len by (auto simp: min_def split: if_splits)
      ultimately show ?thesis by (simp add: rest_def)
    qed
    have "n - ?used = 0 \<Longrightarrow> n - length ?L = 0" using len by (auto simp: min_def split: if_splits)
    then have zero: "n - ?used = 0 \<Longrightarrow> rest = []" by (simp add: rest_def)
    have "take n (drop at (children_lines (c # cs))) = take n ?L @ rest"
      using True 4(4) by (simp add: counted_size rest_def)
    then have "iter_lines op (take n (drop at (children_lines (c # cs)))) s
        = (case iter_lines op (take n ?L) s of (stop, s') \<Rightarrow> if stop then (True, s') else iter_lines op rest s')"
      by (simp only: iter_lines_append)
    moreover obtain stop s' where it: "iter_lines op (take n ?L) s = (stop, s')" by (cases "iter_lines op (take n ?L) s")
    ultimately show ?thesis
      using True head tail zero by (cases stop; cases "n - ?used = 0") (simp_all add: Let_def)
  next
    case False
    then show ?thesis using 4(3,4) by (simp add: counted_size)
  qed
qed auto

lemma updateLine_eq:
  "counted c \<Longrightarrow> n < length (chunk_collapse c) \<Longrightarrow>
     chunk_collapse (updateLine_chunk n l c) = (chunk_collapse c)[n := l] \<and> counted (updateLine_chunk n l c)
     \<and> chunkSize (updateLine_chunk n l c) = chunkSize c"
  "list_all counted cs \<Longrightarrow> n < length (children_lines cs) \<Longrightarrow>
     children_lines (fst (updateLine_children n l cs)) = (children_lines cs)[n := l]
     \<and> list_all counted (fst (updateLine_children n l cs))
     \<and> map chunkSize (fst (updateLine_children n l cs)) = map chunkSize cs
     \<and> snd (updateLine_children n l cs) = sum_list (map chunk_height (fst (updateLine_children n l cs))) - sum_list (map chunk_height cs)"
proof (induction n l c and n l cs rule: updateLine_chunk_updateLine_children.induct)
  case (1 n l ls h)
  have "lines_height (ls[n := l]) = lines_height ls + (ln_height l - ln_height (ls ! n))" if "n < length ls"
    using that by (induction ls arbitrary: n) (auto split: nat.splits)
  with 1 show ?case by simp
next
  case (4 n l c cs)
  then show ?case by (auto simp: counted_size list_update_append Let_def split: prod.splits)
qed (auto split: prod.splits)


section \<open>Removal and insertion\<close>

lemma removeInner_correct:
  "counted c \<Longrightarrow> at + n \<le> length (chunk_collapse c) \<Longrightarrow>
     chunk_collapse (removeInner at n c) = take at (chunk_collapse c) @ drop (at + n) (chunk_collapse c)
     \<and> counted (removeInner at n c) \<and> (bounded c \<longrightarrow> bounded (removeInner at n c))"
  "list_all counted cs \<Longrightarrow> at + n \<le> length (children_lines cs) \<Longrightarrow>
     (case remove_children at n cs of (cs', removed, left) \<Rightarrow>
        children_lines cs' = take at (children_lines cs) @ drop (at + n) (children_lines cs)
        \<and> list_all counted cs' \<and> removed = sum_list (map chunk_height cs) - sum_list (map chunk_height cs') \<and> left = 0
        \<and> (list_all bounded cs \<longrightarrow> list_all bounded cs') \<and> length cs' \<le> length cs)"
proof (induction at n c and at n cs rule: removeInner_remove_children.induct)
  case (1 at n ls h)
  have "ls = take at ls @ take n (drop at ls) @ drop (at + n) ls"
    by (metis add.commute append_take_drop_id drop_drop)
  from arg_cong [OF this, of lines_height] 1 show ?case by (simp, linarith)
next
  case (2 at n cs sz h)
  obtain cs' removed left where r: "remove_children at n cs = (cs', removed, left)" by (metis prod_cases3)
  from 2 have IH: "children_lines cs' = take at (children_lines cs) @ drop (at + n) (children_lines cs)"
    "list_all counted cs'" "removed = sum_list (map chunk_height cs) - sum_list (map chunk_height cs')" "left = 0"
    "list_all bounded cs \<longrightarrow> list_all bounded cs'" "length cs' \<le> length cs"
    by (auto simp: r)
  have sz: "sz - n = length (children_lines cs')"
    using 2(2,3) IH(1) by (simp add: counted_children_size)
  define L where "L = take at (children_lines cs) @ drop (at + n) (children_lines cs)"
  have nums: "h - removed = lines_height L" "sz - n = length L" "list_all bounded cs \<longrightarrow> length cs' \<le> length cs"
    using 2(2) IH(3,6) sz by (auto simp: counted_children_height [OF IH(2)] IH(1) L_def)
  show ?case
  proof (cases cs')
    case Nil
    then have L: "L = []" using IH(1) by (simp add: L_def)
    then have "h - removed = 0" "sz - n = 0" using nums by simp_all
    then have "removeInner at n (Branch cs sz h) = Branch [LeafChunk []] 0 0"
      using Nil IH(4) by (simp add: r)
    then show ?thesis using L by (simp add: L_def del: append_is_Nil_conv take_eq_Nil drop_eq_Nil)
  next
    case (Cons d ds)
    obtain M where M: "M = children_lines cs'" "M = L" using IH(1) L_def by simp
    have eq: "removeInner at n (Branch cs sz h) =
        (if length M < 25 \<and> (length cs' > 1 \<or> \<not> is_leaf d) then Branch [LeafChunk M] (length M) (lines_height M)
         else Branch cs' (length M) (lines_height M))"
      using nums(1,2) M IH(4) Cons by (auto simp: r Let_def)
    have cs': "counted (Branch cs' (length M) (lines_height M))" "list_all bounded cs \<and> length cs \<le> 10 \<longrightarrow> bounded (Branch cs' (length M) (lines_height M))"
      "chunk_collapse (Branch cs' (length M) (lines_height M)) = M"
    proof -
      have "cs' \<noteq> []" "sum_list (map chunkSize cs') = length M" "sum_list (map chunk_height cs') = lines_height M"
        using Cons M(1) by (simp, metis IH(2) counted_children_size, metis IH(2) counted_children_height)
      then show "counted (Branch cs' (length M) (lines_height M))"
        "list_all bounded cs \<and> length cs \<le> 10 \<longrightarrow> bounded (Branch cs' (length M) (lines_height M))"
        "chunk_collapse (Branch cs' (length M) (lines_height M)) = M"
        using IH(2,5,6) M(1) by simp_all
    qed
    have leaf: "counted (Branch [LeafChunk M] (length M) (lines_height M))"
      "length M < 25 \<longrightarrow> bounded (Branch [LeafChunk M] (length M) (lines_height M))"
      "chunk_collapse (Branch [LeafChunk M] (length M) (lines_height M)) = M" by simp_all
    have bd: "bounded (Branch cs sz h) \<longleftrightarrow> length cs \<le> 10 \<and> list_all bounded cs" by simp
    have "chunk_collapse (Branch cs sz h) = children_lines cs" by simp
    then show ?thesis unfolding eq bd using cs' leaf M(2) L_def by (auto simp del: chunk_collapse.simps counted.simps bounded.simps)
  qed
next
  case (4 at n c cs)
  show ?case
  proof (cases "at < chunkSize c")
    case True
    let ?C = "chunk_collapse c" and ?rm = "min n (chunkSize c - at)"
    have sc: "chunkSize c = length ?C" using 4(4) by (simp add: counted_size)
    have rm: "at + ?rm \<le> length ?C" using True sc by auto
    from 4(1) [OF True refl] 4(4) rm have IH: "chunk_collapse (removeInner at ?rm c) = take at ?C @ drop (at + ?rm) ?C"
      "counted (removeInner at ?rm c)" "bounded c \<longrightarrow> bounded (removeInner at ?rm c)" by auto
    define kept where "kept = (if chunkSize c = ?rm then [] else [removeInner at ?rm c])"
    have "chunkSize c = ?rm \<Longrightarrow> at = 0 \<and> ?rm = length ?C" using True sc by (auto simp: min_def split: if_splits)
    then have kept: "children_lines kept = take at ?C @ drop (at + ?rm) ?C" "list_all counted kept"
      "bounded c \<longrightarrow> list_all bounded kept" "length kept \<le> 1"
      "sum_list (map chunk_height kept) = chunk_height (removeInner at ?rm c)"
      using IH by (auto simp: kept_def counted_height)
    show ?thesis
    proof (cases "n - ?rm = 0")
      case fin: True
      then have "?rm = n" using True by (auto simp: min_def split: if_splits)
      then have n: "at + n \<le> length ?C" "?rm = n" using rm by auto
      show ?thesis
        using True fin kept n 4(4) unfolding remove_children.simps if_P [OF True] Let_def kept_def [symmetric]
        by auto
    next
      case more: False
      then have at_n: "?rm = length ?C - at" "n - ?rm = n - (length ?C - at)" "length ?C - at \<le> n"
        using sc by (auto simp: min_def split: if_splits)
      obtain cs' removed left where r: "remove_children 0 (n - ?rm) cs = (cs', removed, left)" by (metis prod_cases3)
      have "0 + (n - ?rm) \<le> length (children_lines cs)" using 4(5) at_n sc True by auto
      with 4(2) [OF True refl refl refl refl more] 4(4) r have IH2: "children_lines cs' = drop (n - ?rm) (children_lines cs)"
        "list_all counted cs'" "removed = sum_list (map chunk_height cs) - sum_list (map chunk_height cs')" "left = 0"
        "list_all bounded cs \<longrightarrow> list_all bounded cs'" "length cs' \<le> length cs" by auto
      have lines: "take at ?C @ drop (at + ?rm) ?C @ drop (n - ?rm) (children_lines cs)
          = take at (?C @ children_lines cs) @ drop (at + n) (?C @ children_lines cs)"
        using at_n True sc by (simp add: add.commute)
      show ?thesis
        using True more kept IH2 lines 4(4) unfolding remove_children.simps if_P [OF True] if_not_P [OF more] Let_def kept_def [symmetric] r
        by auto
    qed
  next
    case False
    have sc: "chunkSize c = length (chunk_collapse c)" using 4(4) by (simp add: counted_size)
    obtain cs' removed left where r: "remove_children (at - chunkSize c) n cs = (cs', removed, left)" by (metis prod_cases3)
    have "at - chunkSize c + n \<le> length (children_lines cs)" using 4(5) False sc by auto
    with 4(3) [OF False] 4(4) r have IH: "children_lines cs' =
        take (at - chunkSize c) (children_lines cs) @ drop (at - chunkSize c + n) (children_lines cs)"
      "list_all counted cs'" "removed = sum_list (map chunk_height cs) - sum_list (map chunk_height cs')" "left = 0"
      "list_all bounded cs \<longrightarrow> list_all bounded cs'" "length cs' \<le> length cs" by simp_all
    have "remove_children at n (c # cs) = (c # cs', removed, left)" using False r by simp
    moreover have "at + n - length (chunk_collapse c) = at - chunkSize c + n" using False sc by simp
    ultimately show ?thesis using IH False sc 4(4) by simp
  qed
qed simp

lemma slices_correct:
  "children_lines (slices ls) = ls" "list_all counted (slices ls)" "list_all bounded (slices ls)"
proof (induction ls rule: slices.induct)
  case (1 ls)
  { case 1 then show ?case using "1.IH" by (subst slices.simps) auto }
  { case 2 then show ?case using "1.IH" by (subst slices.simps) auto }
  { case 3 then show ?case using "1.IH" by (subst slices.simps) auto }
qed

lemma split_leaf_correct:
  assumes "h = lines_height ls"
  shows "children_lines (split_leaf ls h) = ls" "list_all counted (split_leaf ls h)" "list_all bounded (split_leaf ls h)"
proof -
  let ?r = "length ls mod 25 + 25"
  have "lines_height ls = lines_height (take ?r ls) + lines_height (drop ?r ls)"
    by (metis append_take_drop_id lines_height_simps(3))
  moreover have "sum_list (map chunk_height (slices (drop ?r ls))) = lines_height (drop ?r ls)"
    using slices_correct [of "drop ?r ls"] by (simp add: counted_children_height)
  moreover have "length ls mod 25 < 25" by simp
  ultimately show "children_lines (split_leaf ls h) = ls" "list_all counted (split_leaf ls h)" "list_all bounded (split_leaf ls h)"
    using slices_correct [of "drop ?r ls"] assms by (auto simp: split_leaf_def Let_def)
qed

lemma spill_correct:
  assumes "list_all counted cs" "cs \<noteq> []" "sz = sum_list (map chunkSize cs)" "h = sum_list (map chunk_height cs)"
  shows "children_lines (spill cs sz h) = children_lines cs \<and> list_all counted (spill cs sz h)
    \<and> (list_all bounded cs \<longrightarrow> list_all bounded (spill cs sz h))"
  using assms
proof (induction cs sz h rule: spill.induct)
  case (1 cs sz h)
  show ?case
  proof (cases "length cs \<le> 10")
    case True
    then show ?thesis using 1(2-5) by (simp add: spill.simps)
  next
    case False
    let ?a = "take (length cs - 5) cs" and ?b = "drop (length cs - 5) cs"
    have parts: "list_all counted ?a" "list_all counted ?b" "list_all bounded cs \<longrightarrow> list_all bounded ?a \<and> list_all bounded ?b"
      using 1(2) by (auto simp: list_all_iff dest: in_set_takeD in_set_dropD)
    have split: "f ?a + f ?b = f cs" if "\<And>xs ys. f (xs @ ys) = f xs + f ys" for f :: "chunk list \<Rightarrow> 'a :: comm_monoid_add"
      using that [of ?a ?b] by simp
    have sizes: "sz - chunkSize (BranchChunk ?b) = sum_list (map chunkSize ?a)"
      "h - chunk_height (BranchChunk ?b) = sum_list (map chunk_height ?a)"
      using split [of "\<lambda>cs. sum_list (map chunkSize cs)"] split [of "\<lambda>cs. sum_list (map chunk_height cs)"] 1(4,5)
      by simp_all
    have lines: "children_lines ?a @ children_lines ?b = children_lines cs"
      by (metis append_take_drop_id concat_append map_append)
    have "length ?b = 5" using False by simp
    moreover have "?a \<noteq> []" "?b \<noteq> []" using False by auto
    ultimately show ?thesis
      using False 1(1) [OF False refl parts(1) _ sizes] parts lines by (subst (1 2 3) spill.simps) (simp add: Let_def)
  qed
qed

lemma root_spill_correct:
  assumes "list_all counted cs"
  shows "children_lines (root_spill cs) = children_lines cs \<and> list_all counted (root_spill cs)
    \<and> (list_all bounded cs \<longrightarrow> list_all bounded (root_spill cs) \<and> length (root_spill cs) \<le> 10)"
  using assms
proof (induction cs rule: root_spill.induct)
  case (1 cs)
  show ?case
  proof (cases "length cs \<le> 10")
    case True
    then show ?thesis using 1(2) by (simp add: root_spill.simps)
  next
    case False
    let ?a = "take (length cs - 5) cs" and ?b = "drop (length cs - 5) cs"
    let ?next = "spill ?a (chunkSize (BranchChunk ?a)) (chunk_height (BranchChunk ?a)) @ [BranchChunk ?b]"
    have parts: "list_all counted ?a" "list_all counted ?b" "list_all bounded cs \<longrightarrow> list_all bounded ?a \<and> list_all bounded ?b"
      using 1(2) by (auto simp: list_all_iff dest: in_set_takeD in_set_dropD)
    have ne: "?a \<noteq> []" "?b \<noteq> []" using False by auto
    note s = spill_correct [OF parts(1) ne(1) refl refl]
    have lines: "children_lines ?a @ children_lines ?b = children_lines cs"
      by (metis append_take_drop_id concat_append map_append)
    have "length ?b = 5" using False by simp
    then have nxt: "children_lines ?next = children_lines cs" "list_all counted ?next"
      "list_all bounded cs \<longrightarrow> list_all bounded ?next"
      using s parts lines ne by auto
    with 1(1) [OF False refl refl nxt(2)] nxt show ?thesis
      using False by (subst (1 2 3 4) root_spill.simps) (simp add: Let_def)
  qed
qed

lemma spill_branches: "spill cs sz h \<noteq> [] \<and> list_all (\<lambda>d. \<not> is_leaf d) (spill cs sz h)"
  by (induction cs sz h rule: spill.induct) (subst (1 2) spill.simps, simp add: Let_def BranchChunk_def)

lemma insertInner_nonempty: "insertInner at new height c \<noteq> []"
  using spill_branches by (cases c) (auto split: prod.split)

lemma insert_children_nonempty: "insert_children at new height cs = (cs', split) \<Longrightarrow> cs \<noteq> [] \<Longrightarrow> cs' \<noteq> []"
  using insertInner_nonempty [of at new height "hd cs"]
  by (cases cs) (auto split: if_splits list.splits chunk.splits prod.splits simp: split_leaf_def Let_def)

lemma insertInner_correct:
  assumes "height = lines_height new"
  shows "counted c \<Longrightarrow> at \<le> length (chunk_collapse c) \<Longrightarrow>
     children_lines (insertInner at new height c) = take at (chunk_collapse c) @ new @ drop at (chunk_collapse c)
     \<and> list_all counted (insertInner at new height c)
     \<and> (bounded c \<longrightarrow> \<not> is_leaf c \<longrightarrow> list_all bounded (insertInner at new height c))
     \<and> (if is_leaf c then \<exists>ls h. insertInner at new height c = [Leaf ls h]
        else insertInner at new height c \<noteq> [] \<and> list_all (\<lambda>d. \<not> is_leaf d) (insertInner at new height c))"
  "list_all counted cs \<Longrightarrow> at \<le> length (children_lines cs) \<Longrightarrow> cs \<noteq> [] \<Longrightarrow>
     (case insert_children at new height cs of (cs', split) \<Rightarrow>
        children_lines cs' = take at (children_lines cs) @ new @ drop at (children_lines cs)
        \<and> list_all counted cs' \<and> (list_all bounded cs \<longrightarrow> list_all bounded cs') \<and> (\<not> split \<longrightarrow> length cs' = length cs))"
  using assms
proof (induction at new height c and at new height cs rule: insertInner_insert_children.induct)
  case (1 at new height ls h)
  have "lines_height ls = lines_height (take at ls) + lines_height (drop at ls)"
    by (metis append_take_drop_id lines_height_simps(3))
  with 1 show ?case by auto
next
  case (2 at new height cs sz h)
  from 2(2) have ne: "cs \<noteq> []" by simp
  show ?case
  proof -
    obtain cs' split where r: "insert_children at new height cs = (cs', split)" by (metis surj_pair)
    have r': "insert_children at new (lines_height new) cs = (cs', split)" using r 2(4) by simp
    from 2 ne have IH: "children_lines cs' = take at (children_lines cs) @ new @ drop at (children_lines cs)"
      "list_all counted cs'" "list_all bounded cs \<longrightarrow> list_all bounded cs'" "\<not> split \<longrightarrow> length cs' = length cs"
      by (simp_all add: r r')
    have nums: "sz + length new = sum_list (map chunkSize cs')" "h + height = sum_list (map chunk_height cs')"
    proof -
      have "lines_height (children_lines cs) = lines_height (take at (children_lines cs)) + lines_height (drop at (children_lines cs))"
        by (metis append_take_drop_id lines_height_simps(3))
      with 2(2-4) IH(1) show "h + height = sum_list (map chunk_height cs')"
        by (simp add: counted_children_height [OF IH(2)] counted_children_height)
      from 2(2-4) IH(1) show "sz + length new = sum_list (map chunkSize cs')"
        by (simp add: counted_children_size [OF IH(2)] counted_children_size)
    qed
    note ne' = insert_children_nonempty [OF r ne]
    show ?thesis
      using 2(2) IH nums spill_correct [OF IH(2) ne' nums] ne' spill_branches by (auto simp: r)
  qed
next
  case (4 at new height c cs)
  have sc: "chunkSize c = length (chunk_collapse c)" using 4(3) by (simp add: counted_size)
  show ?case
  proof (cases "at \<le> chunkSize c")
    case True
    with 4 sc have IH: "children_lines (insertInner at new height c) = take at (chunk_collapse c) @ new @ drop at (chunk_collapse c)"
      "list_all counted (insertInner at new height c)"
      "bounded c \<longrightarrow> \<not> is_leaf c \<longrightarrow> list_all bounded (insertInner at new height c)"
      "if is_leaf c then \<exists>ls h. insertInner at new height c = [Leaf ls h]
        else insertInner at new height c \<noteq> [] \<and> list_all (\<lambda>d. \<not> is_leaf d) (insertInner at new height c)"
      by auto
    have lines: "take at (children_lines (c # cs)) @ new @ drop at (children_lines (c # cs))
        = children_lines (insertInner at new height c) @ children_lines cs"
      using True sc IH(1) by simp
    show ?thesis
    proof (cases "is_leaf c")
      case leaf: True
      then obtain ls h where l: "insertInner at new height c = [Leaf ls h]" using IH(4) by auto
      then have "h = lines_height ls" using IH(2) by simp
      with split_leaf_correct [OF this] l lines 4(3) True show ?thesis by (auto simp: leaf)
    next
      case branch: False
      then obtain d ds where d: "insertInner at new height c = d # ds" "\<not> is_leaf d"
        using IH(4) by (cases "insertInner at new height c") auto
      then obtain es k g where e: "d = Branch es k g" by (cases d) auto
      have "insert_children at new height (c # cs) = ((d # ds) @ cs, length (d # ds) > 1)"
        using True d e by (cases ds) auto
      with lines IH(2,3) d(1) branch 4(3) show ?thesis by auto
    qed
  next
    case False
    then have "cs \<noteq> []" "at - chunkSize c \<le> length (children_lines cs)" using 4(4) sc by auto
    with 4(2) [OF False] 4(3,6) False sc show ?thesis by (auto split: prod.splits)
  qed
qed auto

text \<open>The document is a branch without a parent.\<close>

definition doc_insert :: "nat \<Rightarrow> line list \<Rightarrow> chunk \<Rightarrow> chunk" where
  "doc_insert at new doc =
     (case doc of
        Branch cs sz h \<Rightarrow>
          (let height = lines_height new
           in case insert_children at new height cs of (cs', split) \<Rightarrow>
                Branch (if split then root_spill cs' else cs') (sz + length new) (h + height))
      | Leaf ls h \<Rightarrow> Leaf (take at ls @ new @ drop at ls) (h + lines_height new))"

definition doc_ok :: "chunk \<Rightarrow> bool" where
  "doc_ok doc \<longleftrightarrow> counted doc \<and> bounded doc \<and> (\<exists>cs n h. doc = Branch cs n h \<and> cs \<noteq> [])"

lemma doc_insert_correct:
  assumes "doc_ok doc" and "at \<le> length (chunk_collapse doc)"
  shows "chunk_collapse (doc_insert at new doc) = take at (chunk_collapse doc) @ new @ drop at (chunk_collapse doc)
    \<and> doc_ok (doc_insert at new doc)"
proof -
  obtain cs sz h where doc: "doc = Branch cs sz h" "cs \<noteq> []" "counted doc" "bounded doc"
    using assms(1) by (auto simp: doc_ok_def)
  obtain cs' split where r: "insert_children at new (lines_height new) cs = (cs', split)" by (metis surj_pair)
  have "list_all counted cs" "at \<le> length (children_lines cs)" using doc assms(2) by auto
  from insertInner_correct(2) [OF refl this doc(2), of new] have IH:
    "children_lines cs' = take at (children_lines cs) @ new @ drop at (children_lines cs)"
    "list_all counted cs'" "list_all bounded cs'" "\<not> split \<longrightarrow> length cs' = length cs"
    using doc by (auto simp: r)
  define ds where "ds = (if split then root_spill cs' else cs')"
  have ds: "children_lines ds = children_lines cs'" "list_all counted ds" "list_all bounded ds" "length ds \<le> 10"
    using root_spill_correct [OF IH(2)] IH doc by (auto simp: ds_def)
  have "ds \<noteq> []"
  proof (cases split)
    case False
    then show ?thesis using IH(4) doc(2) by (auto simp: ds_def)
  next
    case True
    have "root_spill xs \<noteq> []" if "xs \<noteq> []" for xs
      using that by (induction xs rule: root_spill.induct) (subst root_spill.simps, simp add: Let_def)
    moreover have "cs' \<noteq> []" by (rule insert_children_nonempty [OF r doc(2)])
    ultimately show ?thesis by (simp add: ds_def)
  qed
  moreover have "lines_height (children_lines cs) = lines_height (take at (children_lines cs)) + lines_height (drop at (children_lines cs))"
    by (metis append_take_drop_id lines_height_simps(3))
  ultimately show ?thesis
    using doc IH ds by (auto simp: doc_insert_def r Let_def doc_ok_def counted_children_size counted_children_height
        counted_children_size [OF ds(2)] counted_children_height [OF ds(2)] simp flip: ds_def)
qed

lemma doc_remove_correct:
  assumes "doc_ok doc" and "at + n \<le> length (chunk_collapse doc)"
  shows "chunk_collapse (removeInner at n doc) = take at (chunk_collapse doc) @ drop (at + n) (chunk_collapse doc)
    \<and> doc_ok (removeInner at n doc)"
proof -
  obtain cs sz h where doc: "doc = Branch cs sz h" "cs \<noteq> []" "counted doc" "bounded doc"
    using assms(1) by (auto simp: doc_ok_def)
  have "\<exists>ds k g. removeInner at n doc = Branch ds k g" by (auto simp: doc(1) Let_def split: prod.split)
  moreover have "counted (removeInner at n doc)" using removeInner_correct(1) [OF doc(3) assms(2)] by blast
  ultimately have "\<exists>ds k g. removeInner at n doc = Branch ds k g \<and> ds \<noteq> []" by auto
  with removeInner_correct(1) [OF doc(3) assms(2)] doc(4) show ?thesis by (auto simp: doc_ok_def)
qed


text \<open>What the rest of the editor uses of a document: the laws of a list.\<close>

locale line_store =
  fixes lines_of :: "'d \<Rightarrow> line list"
    and valid :: "'d \<Rightarrow> bool"
    and get :: "'d \<Rightarrow> nat \<Rightarrow> line option"
    and put :: "nat \<Rightarrow> line \<Rightarrow> 'd \<Rightarrow> 'd"
    and remove :: "nat \<Rightarrow> nat \<Rightarrow> 'd \<Rightarrow> 'd"
    and add :: "nat \<Rightarrow> line list \<Rightarrow> 'd \<Rightarrow> 'd"
  assumes get_line: "valid d \<Longrightarrow> n < length (lines_of d) \<Longrightarrow> get d n = Some (lines_of d ! n)"
    and put_line: "valid d \<Longrightarrow> n < length (lines_of d) \<Longrightarrow> lines_of (put n l d) = (lines_of d)[n := l] \<and> valid (put n l d)"
    and remove_lines: "valid d \<Longrightarrow> at + n \<le> length (lines_of d) \<Longrightarrow>
      lines_of (remove at n d) = take at (lines_of d) @ drop (at + n) (lines_of d) \<and> valid (remove at n d)"
    and add_lines: "valid d \<Longrightarrow> at \<le> length (lines_of d) \<Longrightarrow>
      lines_of (add at new d) = take at (lines_of d) @ new @ drop at (lines_of d) \<and> valid (add at new d)"
begin

lemma splice_lines:
  assumes "valid d" and "at + n \<le> length (lines_of d)"
  shows "lines_of (add at new (remove at n d)) = take at (lines_of d) @ new @ drop (at + n) (lines_of d)"
    and "valid (add at new (remove at n d))"
  using remove_lines [OF assms] add_lines [of "remove at n d" at new] assms(2) by simp_all

lemma fill_front:
  assumes "valid d" and "n + length new = length (lines_of (add 0 new d))" "n = length (lines_of d)"
  shows "lines_of (remove (length new) n (add 0 new d)) = new \<and> valid (remove (length new) n (add 0 new d))"
  using add_lines [OF assms(1), of 0 new] remove_lines [of "add 0 new d" "length new" n] assms(3) by simp

end

lemma updateLine_shape: "updateLine_children n l cs = (cs', diff) \<Longrightarrow> length cs' = length cs"
  by (induction cs arbitrary: n cs' diff) (auto simp: Let_def split: if_splits prod.splits)

lemma updateLine_bounded:
  "bounded c \<Longrightarrow> bounded (updateLine_chunk n l c)"
  "list_all bounded cs \<Longrightarrow> list_all bounded (fst (updateLine_children n l cs))"
  by (induction n l c and n l cs rule: updateLine_chunk_updateLine_children.induct)
    (auto simp: Let_def split: prod.splits dest: updateLine_shape)

interpretation tree: line_store chunk_collapse doc_ok getLine_chunk updateLine_chunk removeInner doc_insert
proof
  fix d n l at new
  assume ok: "doc_ok d"
  then have "counted d" by (simp add: doc_ok_def)
  { assume "n < length (chunk_collapse d)"
    with \<open>counted d\<close> show "getLine_chunk d n = Some (chunk_collapse d ! n)" by (simp add: getLine_eq) }
  { assume n: "n < length (chunk_collapse d)"
    obtain cs k h where d: "d = Branch cs k h" using ok by (auto simp: doc_ok_def)
    have "\<exists>ds g. updateLine_chunk n l d = Branch ds k g \<and> ds \<noteq> []"
      using ok by (auto simp: d doc_ok_def split: prod.splits dest: updateLine_shape)
    with updateLine_eq(1) [OF \<open>counted d\<close> n, of l] updateLine_bounded(1) [of d n] ok
    show "chunk_collapse (updateLine_chunk n l d) = (chunk_collapse d)[n := l] \<and> doc_ok (updateLine_chunk n l d)"
      by (auto simp: doc_ok_def) }
  { assume "at + n \<le> length (chunk_collapse d)"
    with ok show "chunk_collapse (removeInner at n d) = take at (chunk_collapse d) @ drop (at + n) (chunk_collapse d)
        \<and> doc_ok (removeInner at n d)" by (rule doc_remove_correct) }
  { assume "at \<le> length (chunk_collapse d)"
    with ok show "chunk_collapse (doc_insert at new d) = take at (chunk_collapse d) @ new @ drop at (chunk_collapse d)
        \<and> doc_ok (doc_insert at new d)" by (rule doc_insert_correct) }
qed

text \<open>C22. The tree of chunks implements the list of lines: a line is found by its number, changing a
  line, removing and inserting lines do to the flattened tree what they do to a list, iteration
  calls the callback on the lines of the range in order until it stops, and all keep the
  invariant that the stored sizes and heights are right, no leaf has more than 50 lines and no
  branch more than 10 children.\<close>

theorem document_refines_lines:
  assumes "doc_ok doc"
  shows "(n < length (chunk_collapse doc) \<longrightarrow> getLine_chunk doc n = Some (chunk_collapse doc ! n)
      \<and> chunk_collapse (updateLine_chunk n l doc) = (chunk_collapse doc)[n := l] \<and> doc_ok (updateLine_chunk n l doc))
    \<and> (at + k \<le> length (chunk_collapse doc) \<longrightarrow>
        chunk_collapse (removeInner at k doc) = take at (chunk_collapse doc) @ drop (at + k) (chunk_collapse doc)
        \<and> doc_ok (removeInner at k doc))
    \<and> (at \<le> length (chunk_collapse doc) \<longrightarrow>
        chunk_collapse (doc_insert at new doc) = take at (chunk_collapse doc) @ new @ drop at (chunk_collapse doc)
        \<and> doc_ok (doc_insert at new doc))
    \<and> iterN doc at k op s = iter_lines op (take k (drop at (chunk_collapse doc))) s
    \<and> chunkSize doc = length (chunk_collapse doc) \<and> chunk_height doc = lines_height (chunk_collapse doc)"
proof -
  have "counted doc" using assms by (simp add: doc_ok_def)
  then show ?thesis
    using tree.get_line [OF assms] tree.put_line [OF assms] tree.remove_lines [OF assms] tree.add_lines [OF assms]
    by (simp add: iterN_eq counted_size counted_height)
qed

definition example_line :: "nat \<Rightarrow> line" where
  "example_line n = \<lparr>ln_text = replicate n 97, ln_spans = [], ln_height = 10\<rparr>"

definition example_doc :: chunk where
  "example_doc = BranchChunk [LeafChunk [example_line 1, example_line 2], LeafChunk [example_line 3]]"

lemma example_doc_ok: "doc_ok example_doc" "chunk_collapse example_doc = [example_line 1, example_line 2, example_line 3]"
  by (simp_all add: doc_ok_def example_doc_def) (simp add: BranchChunk_def)

theorem document_refines_lines_witness:
  "chunk_collapse (removeInner 1 2 example_doc) = [example_line 1]
   \<and> chunk_collapse (doc_insert 2 [example_line 7] example_doc) = [example_line 1, example_line 2, example_line 7, example_line 3]"
  using document_refines_lines [OF example_doc_ok(1), of 0 undefined 1 2 "[]" "\<lambda>l s. (False, s)" "()"]
    document_refines_lines [OF example_doc_ok(1), of 0 undefined 2 1 "[example_line 7]" "\<lambda>l s. (False, s)" "()"]
  by (simp add: example_doc_ok(2))

text \<open>Numbers and heights of lines: the number computed on the way up from the \<open>n\<close>-th line is \<open>n\<close>
  (counted from the first line of the document), and the line found at the height above a line of
  positive height is this line.\<close>

theorem line_positions_roundtrip:
  assumes "doc_ok doc" and "n < length (chunk_collapse doc)"
  shows "lineNo first (way_up doc n []) = first + int n
    \<and> heightAtLine (way_up doc n []) = lines_height (take n (chunk_collapse doc))
    \<and> (heights_ok (chunk_collapse doc) \<and> 0 < ln_height (chunk_collapse doc ! n) \<longrightarrow>
        lineAtHeight doc (heightAtLine (way_up doc n [])) k = k + n)"
proof -
  have c: "counted doc" using assms(1) by (simp add: doc_ok_def)
  let ?L = "chunk_collapse doc"
  have split: "?L = take n ?L @ ?L ! n # drop (Suc n) ?L" using assms(2) by (rule id_take_nth_drop)
  have "heights_ok ?L \<Longrightarrow> 0 < ln_height (?L ! n) \<Longrightarrow> leafLineAtHeight ?L (lines_height (take n ?L)) = n"
  proof -
    assume ok: "heights_ok ?L" and pos: "0 < ln_height (?L ! n)"
    then have "heights_ok (take n ?L)" "heights_ok (?L ! n # drop (Suc n) ?L)"
      using split by (metis heights_ok_simps(3))+
    from leafLineAtHeight_append [OF this, of "lines_height (take n ?L)"] pos assms(2) show ?thesis
      unfolding split [symmetric] by simp
  qed
  then show ?thesis
    using lines_before_way_up(1) [OF c assms(2), of "[]"] heightAtLine_way_up(1) [OF c assms(2), of "[]"]
    by (simp add: lineNo_def lineAtHeight_eq(1) [OF c])
qed

theorem line_positions_roundtrip_witness:
  "lineNo 5 (way_up example_doc 2 []) = 7 \<and> lineAtHeight example_doc (heightAtLine (way_up example_doc 2 [])) 0 = 2"
proof -
  have two: "2 < length (chunk_collapse example_doc)" by (simp add: example_doc_ok(2))
  have "heights_ok (chunk_collapse example_doc)" "0 < ln_height (chunk_collapse example_doc ! 2)"
    by (simp_all add: example_doc_ok(2) example_line_def)
  with line_positions_roundtrip [OF example_doc_ok(1) two, of 5 0]
  have "lineNo 5 (way_up example_doc 2 []) = 5 + int 2 \<and> lineAtHeight example_doc (heightAtLine (way_up example_doc 2 [])) 0 = 0 + 2"
    by blast
  then show ?thesis unfolding add_0 by (simp only: of_nat_numeral) simp
qed


end
