(* ===== verification/Cm_Position.thy ===== *)
theory Cm_Position
  imports Cm_Document
begin

text \<open>
  Positions in a document of the editor (\<open>codemirror.js\<close>), comparing and clipping them, the part of
  a document between two positions, and what a change does to positions. Texts of several lines
  are lists of lines; they form a monoid whose product joins the last line of one with the first
  line of the other, and a position in a text is the same as a cut of the text into two
  factors. The laws of this monoid carry the proofs about changes.
\<close>

section \<open>Positions\<close>

datatype sticky = Before | After

record pos =
  ps_line :: int
  ps_ch :: int
  ps_sticky :: "sticky option"

definition Pos :: "int \<Rightarrow> int \<Rightarrow> pos" where
  "Pos line ch = \<lparr>ps_line = line, ps_ch = ch, ps_sticky = None\<rparr>"

definition cmp :: "pos \<Rightarrow> pos \<Rightarrow> int" where
  "cmp a b = (if ps_line a - ps_line b \<noteq> 0 then ps_line a - ps_line b else ps_ch a - ps_ch b)"

definition equalCursorPos :: "pos \<Rightarrow> pos \<Rightarrow> bool" where
  "equalCursorPos a b \<longleftrightarrow> ps_sticky a = ps_sticky b \<and> cmp a b = 0"

definition copyPos :: "pos \<Rightarrow> pos" where
  "copyPos x = Pos (ps_line x) (ps_ch x)"

definition maxPos :: "pos \<Rightarrow> pos \<Rightarrow> pos" where
  "maxPos a b = (if cmp a b < 0 then b else a)"

definition minPos :: "pos \<Rightarrow> pos \<Rightarrow> pos" where
  "minPos a b = (if cmp a b < 0 then a else b)"

lemma cmp_refl [simp]: "cmp a a = 0"
  by (simp add: cmp_def)

lemma cmp_antisym: "cmp a b = - cmp b a"
  by (auto simp: cmp_def)

lemma cmp_less_trans: "cmp a b < 0 \<Longrightarrow> cmp b c < 0 \<Longrightarrow> cmp a c < 0"
  by (auto simp: cmp_def split: if_splits)

lemma cmp_le_trans: "cmp a b \<le> 0 \<Longrightarrow> cmp b c \<le> 0 \<Longrightarrow> cmp a c \<le> 0"
  by (auto simp: cmp_def split: if_splits)

lemma cmp_zero_iff: "cmp a b = 0 \<longleftrightarrow> ps_line a = ps_line b \<and> ps_ch a = ps_ch b"
  by (auto simp: cmp_def)

lemma Pos_simps [simp]: "ps_line (Pos l c) = l" "ps_ch (Pos l c) = c" "ps_sticky (Pos l c) = None"
  by (simp_all add: Pos_def)

section \<open>Lines of a document\<close>

text \<open>A document as far as its text goes: its tree and the number of its first line. \<open>getLine\<close>
  throws an error for a line it does not have.\<close>

record text_doc =
  td_tree :: chunk
  td_first :: int

definition doc_lines :: "('a) text_doc_scheme \<Rightarrow> js_text list" where
  "doc_lines d = map ln_text (chunk_collapse (td_tree d))"

definition doc_size :: "('a) text_doc_scheme \<Rightarrow> int" where
  "doc_size d = int (chunkSize (td_tree d))"

definition doc_lastLine :: "('a) text_doc_scheme \<Rightarrow> int" where
  "doc_lastLine d = td_first d + doc_size d - 1"

definition isLine :: "('a) text_doc_scheme \<Rightarrow> int \<Rightarrow> bool" where
  "isLine d l \<longleftrightarrow> td_first d \<le> l \<and> l < td_first d + doc_size d"

definition getLine :: "('a) text_doc_scheme \<Rightarrow> int \<Rightarrow> line option" where
  "getLine d n = (let n' = n - td_first d in if n' < 0 \<or> n' \<ge> doc_size d then None else getLine_chunk (td_tree d) (nat n'))"

definition clipLine :: "('a) text_doc_scheme \<Rightarrow> int \<Rightarrow> int" where
  "clipLine d n = max (td_first d) (min n (td_first d + doc_size d - 1))"

text \<open>Clipping takes positions whose column may be missing.\<close>

record raw_pos =
  rp_line :: int
  rp_ch :: "int option"
  rp_sticky :: "sticky option"

definition raw :: "pos \<Rightarrow> raw_pos" where
  "raw p = \<lparr>rp_line = ps_line p, rp_ch = Some (ps_ch p), rp_sticky = ps_sticky p\<rparr>"

definition clipToLen :: "raw_pos \<Rightarrow> int \<Rightarrow> pos" where
  "clipToLen p linelen =
     (case rp_ch p of
        None \<Rightarrow> Pos (rp_line p) linelen
      | Some ch \<Rightarrow> if ch > linelen then Pos (rp_line p) linelen
                  else if ch < 0 then Pos (rp_line p) 0
                  else \<lparr>ps_line = rp_line p, ps_ch = ch, ps_sticky = rp_sticky p\<rparr>)"

definition clipPos :: "('a) text_doc_scheme \<Rightarrow> raw_pos \<Rightarrow> pos option" where
  "clipPos d p =
     (if rp_line p < td_first d then Some (Pos (td_first d) 0)
      else if rp_line p > doc_lastLine d
      then map_option (\<lambda>l. Pos (doc_lastLine d) (int (length (ln_text l)))) (getLine d (doc_lastLine d))
      else map_option (\<lambda>l. clipToLen p (int (length (ln_text l)))) (getLine d (rp_line p)))"

definition clipPosArray :: "('a) text_doc_scheme \<Rightarrow> raw_pos list \<Rightarrow> pos option list" where
  "clipPosArray d ps = map (clipPos d) ps"

text \<open>\<open>iter\<close> over a range of lines, as \<open>getLines\<close> and \<open>getBetween\<close> use it.\<close>

definition doc_iter :: "('a) text_doc_scheme \<Rightarrow> int \<Rightarrow> int \<Rightarrow> (line \<Rightarrow> 's \<Rightarrow> bool \<times> 's) \<Rightarrow> 's \<Rightarrow> 's" where
  "doc_iter d from_line to_line op s =
     snd (iterN (td_tree d) (nat (from_line - td_first d)) (nat (to_line - from_line)) op s)"

definition getLines :: "('a) text_doc_scheme \<Rightarrow> int \<Rightarrow> int \<Rightarrow> js_text list" where
  "getLines d from_line to_line = doc_iter d from_line to_line (\<lambda>l out. (False, out @ [ln_text l])) []"

definition getBetween :: "('a) text_doc_scheme \<Rightarrow> pos \<Rightarrow> pos \<Rightarrow> js_text list" where
  "getBetween d start stop = fst (doc_iter d (ps_line start) (ps_line stop + 1)
     (\<lambda>l (out, n). let text = ln_text l;
                      text = (if n = ps_line stop then take (nat (ps_ch stop)) text else text);
                      text = (if n = ps_line start then drop (nat (ps_ch start)) text else text)
                  in (False, out @ [text], n + 1)) ([], ps_line start))"

section \<open>Changes\<close>

record change =
  cg_from :: pos
  cg_to :: pos
  cg_text :: "js_text list"
  cg_origin :: "string option"
  cg_full :: bool

definition changeEnd :: "pos \<Rightarrow> js_text list \<Rightarrow> pos" where
  "changeEnd start text = Pos (ps_line start + int (length text) - 1)
     (int (length (last text)) + (if length text = 1 then ps_ch start else 0))"

definition adjustForChange :: "pos \<Rightarrow> change \<Rightarrow> pos" where
  "adjustForChange p c =
     (if cmp p (cg_from c) < 0 then p
      else if cmp p (cg_to c) \<le> 0 then changeEnd (cg_from c) (cg_text c)
      else (let line = ps_line p + int (length (cg_text c)) - (ps_line (cg_to c) - ps_line (cg_from c)) - 1;
                ch = (if ps_line p = ps_line (cg_to c)
                      then ps_ch p + (ps_ch (changeEnd (cg_from c) (cg_text c)) - ps_ch (cg_to c)) else ps_ch p)
            in Pos line ch))"

definition offsetPos :: "pos \<Rightarrow> pos \<Rightarrow> pos \<Rightarrow> pos" where
  "offsetPos p old new =
     (if ps_line p = ps_line old then Pos (ps_line new) (ps_ch p - ps_ch old + ps_ch new)
      else Pos (ps_line new + (ps_line p - ps_line old)) (ps_ch p))"

section \<open>The monoid of texts\<close>

fun join :: "'c list list \<Rightarrow> 'c list list \<Rightarrow> 'c list list" where
  "join [] b = b"
| "join [x] [] = [x]"
| "join [x] (y # ys) = (x @ y) # ys"
| "join (x # x' # xs) b = x # join (x' # xs) b"

lemma join_Cons [simp]: "xs \<noteq> [] \<Longrightarrow> join (x # xs) b = x # join xs b"
  by (cases xs) auto

lemma join_eq: "a \<noteq> [] \<Longrightarrow> b \<noteq> [] \<Longrightarrow> join a b = butlast a @ (last a @ hd b) # tl b"
  by (induction a b rule: join.induct) auto

lemma join_ne [simp]: "a \<noteq> [] \<Longrightarrow> join a b \<noteq> []"
  by (induction a b rule: join.induct) auto

lemma join_assoc: "a \<noteq> [] \<Longrightarrow> b \<noteq> [] \<Longrightarrow> c \<noteq> [] \<Longrightarrow> join (join a b) c = join a (join b c)"
proof (induction a b rule: join.induct)
  case (3 x y ys)
  then show ?case by (cases ys; cases c) auto
qed auto

lemma join_unit [simp]: "a \<noteq> [] \<Longrightarrow> join a [[]] = a" "a \<noteq> [] \<Longrightarrow> join [[]] a = a"
  by (simp_all add: join_eq)

lemma length_join: "a \<noteq> [] \<Longrightarrow> b \<noteq> [] \<Longrightarrow> length (join a b) = length a + length b - 1"
  by (cases a; cases b) (auto simp: join_eq)

lemma last_join: "a \<noteq> [] \<Longrightarrow> b \<noteq> [] \<Longrightarrow> last (join a b) = (if length b = 1 then last a @ last b else last b)"
  by (cases b) (auto simp: join_eq)

text \<open>The position after a text, and the two parts of a text cut at a position.\<close>

definition end_of :: "'c list list \<Rightarrow> nat \<times> nat" where
  "end_of a = (length a - 1, length (last a))"

definition valid_cut :: "'c list list \<Rightarrow> nat \<times> nat \<Rightarrow> bool" where
  "valid_cut L p \<longleftrightarrow> fst p < length L \<and> snd p \<le> length (L ! fst p)"

definition cut_before :: "'c list list \<Rightarrow> nat \<times> nat \<Rightarrow> 'c list list" where
  "cut_before L p = take (fst p) L @ [take (snd p) (L ! fst p)]"

definition cut_after :: "'c list list \<Rightarrow> nat \<times> nat \<Rightarrow> 'c list list" where
  "cut_after L p = drop (snd p) (L ! fst p) # drop (Suc (fst p)) L"

lemma cut_ne [simp]: "cut_before L p \<noteq> []" "cut_after L p \<noteq> []"
  by (simp_all add: cut_before_def cut_after_def)

lemma join_cut: "valid_cut L p \<Longrightarrow> join (cut_before L p) (cut_after L p) = L"
  by (simp add: join_eq cut_before_def cut_after_def valid_cut_def butlast_append Cons_nth_drop_Suc flip: id_take_nth_drop)

lemma end_of_cut: "valid_cut L p \<Longrightarrow> end_of (cut_before L p) = p"
  by (cases p) (auto simp: end_of_def cut_before_def valid_cut_def min_def)

lemma cut_join:
  assumes "a \<noteq> []" "b \<noteq> []"
  shows "cut_before (join a b) (end_of a) = a" "cut_after (join a b) (end_of a) = b" "valid_cut (join a b) (end_of a)"
proof -
  have L: "join a b = butlast a @ (last a @ hd b) # tl b" using assms by (simp add: join_eq)
  have n: "join a b ! (length a - 1) = last a @ hd b" by (simp add: L nth_append)
  have a: "butlast a @ [last a] = a" using assms(1) by simp
  have "take (length a - 1) (join a b) = butlast a" by (simp add: L)
  then show "cut_before (join a b) (end_of a) = a"
    using n a by (simp add: cut_before_def end_of_def)
  have "drop (Suc (length a - 1)) (join a b) = tl b" by (simp add: L)
  then show "cut_after (join a b) (end_of a) = b"
    using n assms(2) by (simp add: cut_after_def end_of_def)
  show "valid_cut (join a b) (end_of a)"
    using assms n by (cases a; cases b) (auto simp: valid_cut_def end_of_def length_join)
qed

lemma end_of_join:
  assumes "a \<noteq> []" "b \<noteq> []"
  shows "end_of (join a b) = (fst (end_of a) + (length b - 1), length (last b) + (if length b = 1 then snd (end_of a) else 0))"
  using assms by (cases a; cases b) (auto simp: end_of_def length_join last_join)

text \<open>A cut further right.\<close>

definition cut_le :: "nat \<times> nat \<Rightarrow> nat \<times> nat \<Rightarrow> bool" where
  "cut_le p q \<longleftrightarrow> fst p < fst q \<or> fst p = fst q \<and> snd p \<le> snd q"

definition cut_between :: "'c list list \<Rightarrow> nat \<times> nat \<Rightarrow> nat \<times> nat \<Rightarrow> 'c list list" where
  "cut_between L p q =
     (if fst p = fst q then [drop (snd p) (take (snd q) (L ! fst p))]
      else drop (snd p) (L ! fst p) # map (\<lambda>i. L ! i) [Suc (fst p)..<fst q] @ [take (snd q) (L ! fst q)])"

lemma cut_between_ne [simp]: "cut_between L p q \<noteq> []"
  by (simp add: cut_between_def)

lemma cut_three:
  assumes "valid_cut L p" "valid_cut L q" "cut_le p q"
  shows "L = join (cut_before L p) (join (cut_between L p q) (cut_after L q))"
    and "join (cut_before L p) (cut_between L p q) = cut_before L q"
proof -
  obtain i c where p: "p = (i, c)" by (cases p)
  obtain j e where q: "q = (j, e)" by (cases q)
  show eq: "join (cut_before L p) (cut_between L p q) = cut_before L q"
  proof (cases "i = j")
    case True
    then have "c \<le> e" using assms(3) by (simp add: cut_le_def p q)
    then have "take c (L ! j) @ drop c (take e (L ! j)) = take e (L ! j)"
      by (metis append_take_drop_id min.absorb1 take_take)
    then show ?thesis by (simp add: cut_before_def cut_between_def p q True join_eq butlast_append)
  next
    case False
    then have ij: "i < j" "j < length L" using assms by (auto simp: cut_le_def valid_cut_def p q)
    have "map (\<lambda>k. L ! k) [i..<j] = L ! i # map (\<lambda>k. L ! k) [Suc i..<j]" using ij by (simp add: upt_conv_Cons)
    moreover have "map (\<lambda>k. L ! k) [i..<j] = drop i (take j L)" using ij by (intro nth_equalityI) auto
    ultimately have mid: "drop i (take j L) = L ! i # map (\<lambda>k. L ! k) [Suc i..<j]" by simp
    have "take i L @ drop i (take j L) = take j L" using ij by (metis append_take_drop_id less_imp_le_nat min.absorb1 take_take)
    with mid have t: "take i L @ L ! i # map (\<lambda>k. L ! k) [Suc i..<j] = take j L" by simp
    have "join (cut_before L p) (cut_between L p q)
        = take i L @ (take c (L ! i) @ drop c (L ! i)) # map (\<lambda>k. L ! k) [Suc i..<j] @ [take e (L ! j)]"
      using False by (simp add: cut_before_def cut_between_def p q join_eq butlast_append)
    also have "\<dots> = take j L @ [take e (L ! j)]" using t by simp
    finally show ?thesis by (simp add: cut_before_def q)
  qed
  have "L = join (cut_before L q) (cut_after L q)" using join_cut [OF assms(2)] by simp
  also have "\<dots> = join (cut_before L p) (join (cut_between L p q) (cut_after L q))"
    unfolding eq [symmetric] by (rule join_assoc) simp_all
  finally show "L = join (cut_before L p) (join (cut_between L p q) (cut_after L q))" .
qed

section \<open>Positions are cuts\<close>

definition cut_of :: "('a) text_doc_scheme \<Rightarrow> pos \<Rightarrow> nat \<times> nat" where
  "cut_of d p = (nat (ps_line p - td_first d), nat (ps_ch p))"

definition pos_of :: "int \<Rightarrow> nat \<times> nat \<Rightarrow> pos" where
  "pos_of first c = Pos (first + int (fst c)) (int (snd c))"

definition valid_pos :: "('a) text_doc_scheme \<Rightarrow> pos \<Rightarrow> bool" where
  "valid_pos d p \<longleftrightarrow> td_first d \<le> ps_line p \<and> 0 \<le> ps_ch p \<and> valid_cut (doc_lines d) (cut_of d p)"

definition text_ok :: "('a) text_doc_scheme \<Rightarrow> bool" where
  "text_ok d \<longleftrightarrow> doc_ok (td_tree d) \<and> doc_lines d \<noteq> []"

lemma cut_of_pos_of [simp]: "cut_of d (pos_of (td_first d) c) = c"
  by (simp add: cut_of_def pos_of_def)

lemma pos_of_cut_of: "valid_pos d p \<Longrightarrow> ps_sticky p = None \<Longrightarrow> pos_of (td_first d) (cut_of d p) = p"
  by (simp add: valid_pos_def cut_of_def pos_of_def Pos_def)

lemma valid_pos_of [simp]: "valid_pos d (pos_of (td_first d) c) \<longleftrightarrow> valid_cut (doc_lines d) c"
  by (simp add: valid_pos_def) (simp add: pos_of_def)

lemma doc_size_eq: "text_ok d \<Longrightarrow> doc_size d = int (length (doc_lines d))"
  by (simp add: text_ok_def doc_ok_def doc_size_def doc_lines_def counted_size)

lemma getLine_doc:
  assumes "text_ok d" and "td_first d \<le> n" and "n < td_first d + doc_size d"
  shows "\<exists>l. getLine d n = Some l \<and> l = chunk_collapse (td_tree d) ! nat (n - td_first d)
    \<and> ln_text l = doc_lines d ! nat (n - td_first d)"
proof -
  have ok: "doc_ok (td_tree d)" using assms(1) by (simp add: text_ok_def)
  have len: "nat (n - td_first d) < length (chunk_collapse (td_tree d))"
    using assms by (simp add: doc_size_eq) (simp add: doc_lines_def)
  show ?thesis
    using assms(2,3) tree.get_line [OF ok len] len by (simp add: getLine_def doc_lines_def)
qed

text \<open>C23. Clipping gives a position of the document, whatever line and column it is given, even when the
  column is missing; a position of the document is left as it is.\<close>

theorem clipPos_correct:
  assumes "text_ok d"
  shows "\<exists>p. clipPos d rp = Some p \<and> valid_pos d p \<and> (\<forall>q. valid_pos d q \<longrightarrow> rp = raw q \<longrightarrow> p = q)"
proof -
  have size: "doc_size d = int (length (doc_lines d))" "0 < doc_size d"
    using doc_size_eq [OF assms] assms by (simp_all add: text_ok_def)
  have inside: "valid_pos d q \<Longrightarrow> td_first d \<le> ps_line q \<and> ps_line q \<le> doc_lastLine d" for q
    using size(1) by (auto simp: valid_pos_def valid_cut_def cut_of_def doc_lastLine_def)
  consider (low) "rp_line rp < td_first d" | (high) "rp_line rp > doc_lastLine d" "\<not> rp_line rp < td_first d"
    | (mid) "td_first d \<le> rp_line rp" "rp_line rp \<le> doc_lastLine d" by linarith
  then show ?thesis
  proof cases
    case low
    then have "clipPos d rp = Some (Pos (td_first d) 0)" by (simp add: clipPos_def)
    moreover have "valid_pos d (Pos (td_first d) 0)"
      using size by (simp add: valid_pos_def valid_cut_def cut_of_def)
    ultimately show ?thesis using inside low by (fastforce simp: raw_def)
  next
    case high
    have last: "td_first d \<le> doc_lastLine d" "doc_lastLine d < td_first d + doc_size d" using size by (simp_all add: doc_lastLine_def)
    from getLine_doc [OF assms last] obtain l where l: "getLine d (doc_lastLine d) = Some l"
      "ln_text l = doc_lines d ! nat (doc_lastLine d - td_first d)" by blast
    then have "clipPos d rp = Some (Pos (doc_lastLine d) (int (length (ln_text l))))" using high by (simp add: clipPos_def)
    moreover have "valid_pos d (Pos (doc_lastLine d) (int (length (ln_text l))))"
      using size l(2) by (cases "doc_lines d") (auto simp: valid_pos_def valid_cut_def cut_of_def doc_lastLine_def nat_add_distrib)
    ultimately show ?thesis using inside high by (fastforce simp: raw_def)
  next
    case mid
    then have "rp_line rp < td_first d + doc_size d" by (simp add: doc_lastLine_def)
    from getLine_doc [OF assms mid(1) this] obtain l where l: "getLine d (rp_line rp) = Some l"
      "ln_text l = doc_lines d ! nat (rp_line rp - td_first d)" by blast
    then have clip: "clipPos d rp = Some (clipToLen rp (int (length (ln_text l))))" using mid by (simp add: clipPos_def)
    have "nat (rp_line rp - td_first d) < length (doc_lines d)" using mid size(1) by (simp add: doc_lastLine_def)
    then have valid: "valid_pos d (clipToLen rp (int (length (ln_text l))))"
      using mid l(2) by (auto simp: clipToLen_def valid_pos_def valid_cut_def cut_of_def split: option.split)
    have "clipToLen (raw q) (int (length (ln_text l))) = q" if "valid_pos d q" "rp = raw q" for q
      using that l(2) by (auto simp: clipToLen_def raw_def valid_pos_def valid_cut_def cut_of_def)
    with clip valid show ?thesis by auto
  qed
qed

definition example_text :: text_doc where
  "example_text = \<lparr>td_tree = example_doc, td_first = 0\<rparr>"

lemma example_text_ok: "text_ok example_text" "doc_lines example_text = [[97], [97, 97], [97, 97, 97]]"
  by (simp_all add: text_ok_def example_text_def example_doc_ok doc_lines_def) (simp_all add: example_line_def numeral_2_eq_2 numeral_3_eq_3)

theorem clipPos_correct_witness:
  "\<exists>p. clipPos example_text \<lparr>rp_line = 1, rp_ch = None, rp_sticky = None\<rparr> = Some p \<and> valid_pos example_text p"
  using clipPos_correct [OF example_text_ok(1), of "\<lparr>rp_line = 1, rp_ch = None, rp_sticky = None\<rparr>"] by blast

lemma iter_lines_fold: "iter_lines (\<lambda>l s. (False, f l s)) ls s = (False, fold f ls s)"
  by (induction ls arbitrary: s) auto

lemma doc_iter_fold:
  assumes "text_ok d" and "td_first d \<le> a"
  shows "doc_iter d a b (\<lambda>l s. (False, f l s)) s
    = fold f (take (nat (b - a)) (drop (nat (a - td_first d)) (chunk_collapse (td_tree d)))) s"
  using assms by (simp add: doc_iter_def iterN_eq(1) text_ok_def doc_ok_def iter_lines_fold)

lemma fold_numbered:
  "fold (\<lambda>l (out, n). (out @ [h n l], n + 1)) ls (out, n :: int)
     = (out @ map (\<lambda>k. h (n + int k) (ls ! k)) [0..<length ls], n + int (length ls))"
proof (induction ls rule: rev_induct)
  case (snoc l ls)
  have "map (\<lambda>k. h (n + int k) ((ls @ [l]) ! k)) [0..<length ls] = map (\<lambda>k. h (n + int k) (ls ! k)) [0..<length ls]"
    by (simp add: nth_append)
  with snoc show ?case by simp
qed simp

lemma getBetween_eq:
  assumes "text_ok d" and "valid_pos d p" and "valid_pos d q" and "cut_le (cut_of d p) (cut_of d q)"
  shows "getBetween d p q = cut_between (doc_lines d) (cut_of d p) (cut_of d q)"
proof -
  let ?ls = "chunk_collapse (td_tree d)" and ?L = "doc_lines d"
  obtain i c where p: "cut_of d p = (i, c)" by (cases "cut_of d p")
  obtain j e where q: "cut_of d q = (j, e)" by (cases "cut_of d q")
  have line: "ps_line p = td_first d + int i" "ps_line q = td_first d + int j"
    and ch: "nat (ps_ch p) = c" "nat (ps_ch q) = e"
    using assms(2,3) p q by (auto simp: valid_pos_def cut_of_def)
  have ij: "i \<le> j" "j < length ?ls" and ce: "i = j \<Longrightarrow> c \<le> e"
    using assms(2-4) by (auto simp: valid_pos_def valid_cut_def cut_le_def p q doc_lines_def)
  define h where "h = (\<lambda>n (l :: line). let text = ln_text l; text = (if n = ps_line q then take (nat (ps_ch q)) text else text)
      in if n = ps_line p then drop (nat (ps_ch p)) text else text)"
  have first: "td_first d \<le> ps_line p" using line by simp
  define slice where "slice = take (j + 1 - i) (drop i ?ls)"
  have n: "nat (ps_line q + 1 - ps_line p) = j + 1 - i" "nat (ps_line p - td_first d) = i" using line ij(1) by auto
  have "getBetween d p q = fst (fold (\<lambda>l (out, n). (out @ [h n l], n + 1)) slice ([], ps_line p))"
    unfolding getBetween_def
    using doc_iter_fold [OF assms(1) first, of "ps_line q + 1" "\<lambda>l (out, n). (out @ [h n l], n + 1)" "([], ps_line p)"] n
    by (simp add: h_def slice_def Let_def case_prod_beta' cong: if_cong)
  also have "\<dots> = map (\<lambda>k. h (ps_line p + int k) (slice ! k)) [0..<length slice]"
    by (simp add: fold_numbered)
  finally have g: "getBetween d p q = \<dots>" .
  have len: "length slice = j + 1 - i" using ij by (simp add: slice_def)
  have nth: "k < j + 1 - i \<Longrightarrow> ln_text (slice ! k) = ?L ! (i + k)" for k
    using ij by (simp add: slice_def doc_lines_def)
  show ?thesis
  proof (cases "i = j")
    case True
    then have "[0..<length slice] = [0]" by (simp add: len)
    then show ?thesis using nth [of 0] True line ch by (simp add: g h_def cut_between_def p q Let_def)
  next
    case False
    show ?thesis
    proof (rule nth_equalityI)
      show "length (getBetween d p q) = length (cut_between ?L (cut_of d p) (cut_of d q))"
        using False ij by (simp add: g len cut_between_def p q)
      fix k
      assume "k < length (getBetween d p q)"
      then have k: "k < j + 1 - i" by (simp add: g len)
      have gk: "getBetween d p q ! k = h (ps_line p + int k) (slice ! k)" using k by (simp add: g len)
      have mid: "(?L ! i # map (\<lambda>k. ?L ! k) [Suc i..<j]) ! k = ?L ! (i + k)" if "k < j - i" for k
        using that False ij by (cases k) auto
      consider "k = 0" | "0 < k" "k < j - i" | "k = j - i" "0 < k" using k by linarith
      then show "getBetween d p q ! k = cut_between ?L (cut_of d p) (cut_of d q) ! k"
      proof cases
        case 1
        then show ?thesis using gk nth [of 0] False ij line ch by (simp add: h_def cut_between_def p q Let_def)
      next
        case 2
        then have "int i + int k \<noteq> int j" "k - Suc 0 < j - Suc i" by linarith+
        then show ?thesis
          using 2 gk nth [of k] k False ij line by (simp add: h_def cut_between_def p q Let_def nth_Cons' nth_append)
      next
        case 3
        then show ?thesis
          using gk nth [of k] k False ij line ch by (simp add: h_def cut_between_def p q Let_def nth_Cons' nth_append)
      qed
    qed
  qed
qed

lemma changeEnd_eq:
  assumes "valid_pos d p" and "t \<noteq> []"
  shows "changeEnd p t = pos_of (td_first d) (end_of (join (cut_before (doc_lines d) (cut_of d p)) t))"
proof -
  have c: "valid_cut (doc_lines d) (cut_of d p)" using assms(1) by (simp add: valid_pos_def)
  have "ps_line p = td_first d + int (fst (cut_of d p))" "ps_ch p = int (snd (cut_of d p))"
    using assms(1) by (auto simp: valid_pos_def cut_of_def)
  then show ?thesis
    using assms(2) end_of_cut [OF c] by (cases t) (auto simp: changeEnd_def pos_of_def end_of_join)
qed


lemma cmp_cut:
  assumes "valid_pos d p" and "valid_pos d q"
  shows "cmp p q \<le> 0 \<longleftrightarrow> cut_le (cut_of d p) (cut_of d q)" and "cmp p q < 0 \<longleftrightarrow> \<not> cut_le (cut_of d q) (cut_of d p)"
proof -
  have "ps_line p = td_first d + int (fst (cut_of d p))" "ps_ch p = int (snd (cut_of d p))"
    "ps_line q = td_first d + int (fst (cut_of d q))" "ps_ch q = int (snd (cut_of d q))"
    using assms by (auto simp: valid_pos_def cut_of_def)
  then show "cmp p q \<le> 0 \<longleftrightarrow> cut_le (cut_of d p) (cut_of d q)" and "cmp p q < 0 \<longleftrightarrow> \<not> cut_le (cut_of d q) (cut_of d p)"
    by (auto simp: cmp_def cut_le_def)
qed

text \<open>\<open>getBetween\<close> gives exactly the part between two positions: joined with what is before the
  first and what is after the second position it is the whole text, and the second position is
  where it ends.\<close>

theorem between_positions:
  assumes "text_ok d" and "valid_pos d p" and "valid_pos d q" and "cmp p q \<le> 0"
  shows "doc_lines d = join (cut_before (doc_lines d) (cut_of d p))
        (join (getBetween d p q) (cut_after (doc_lines d) (cut_of d q)))
    \<and> join (cut_before (doc_lines d) (cut_of d p)) (getBetween d p q) = cut_before (doc_lines d) (cut_of d q)
    \<and> getBetween d p q \<noteq> []"
proof -
  have le: "cut_le (cut_of d p) (cut_of d q)" using cmp_cut(1) [OF assms(2,3)] assms(4) by simp
  have v: "valid_cut (doc_lines d) (cut_of d p)" "valid_cut (doc_lines d) (cut_of d q)"
    using assms(2,3) by (simp_all add: valid_pos_def)
  show ?thesis
    using cut_three [OF v le] unfolding getBetween_eq [OF assms(1-3) le] by auto
qed

theorem between_positions_witness:
  "join [[97], [97]] (join (getBetween example_text (Pos 1 1) (Pos 2 2)) [[97]]) = [[97], [97, 97], [97, 97, 97]]"
proof -
  have v: "valid_pos example_text (Pos 1 1)" "valid_pos example_text (Pos 2 2)" "cmp (Pos 1 1) (Pos 2 2) \<le> 0"
    by (simp_all add: valid_pos_def valid_cut_def cut_of_def example_text_ok(2) cmp_def) (simp_all add: example_text_def)
  have c: "cut_before (doc_lines example_text) (cut_of example_text (Pos 1 1)) = [[97], [97]]"
    "cut_after (doc_lines example_text) (cut_of example_text (Pos 2 2)) = [[97]]"
    by (simp_all add: cut_before_def cut_after_def cut_of_def example_text_ok(2)) (simp_all add: example_text_def)
  show ?thesis
    using between_positions [OF example_text_ok(1) v] unfolding c by (simp add: example_text_ok(2))
qed

text \<open>The text of a document after a change.\<close>

definition changed_lines :: "('a) text_doc_scheme \<Rightarrow> change \<Rightarrow> js_text list" where
  "changed_lines d c = join (cut_before (doc_lines d) (cut_of d (cg_from c)))
     (join (cg_text c) (cut_after (doc_lines d) (cut_of d (cg_to c))))"

definition valid_change :: "('a) text_doc_scheme \<Rightarrow> change \<Rightarrow> bool" where
  "valid_change d c \<longleftrightarrow> valid_pos d (cg_from c) \<and> valid_pos d (cg_to c) \<and> cmp (cg_from c) (cg_to c) \<le> 0 \<and> cg_text c \<noteq> []"

lemma cut_after_split:
  assumes "valid_cut L p" "valid_cut L q" "cut_le p q"
  shows "cut_after L p = join (cut_between L p q) (cut_after L q)"
  using cut_join(2) [of "cut_before L p" "join (cut_between L p q) (cut_after L q)"] cut_three(1) [OF assms, symmetric]
    end_of_cut [OF assms(1)] by simp

text \<open>\<open>adjustForChange\<close> keeps a position at its text: a position before a change keeps what is
  before it, a position after the change what is after it, and a position inside goes to the end
  of the inserted text. The result is a position of the changed document.\<close>

theorem adjust_keeps_text:
  assumes "valid_change d c" and "valid_pos d q" and "doc_lines d' = changed_lines d c" and "td_first d' = td_first d"
  shows "valid_pos d' (adjustForChange q c)
    \<and> (cmp q (cg_from c) < 0 \<longrightarrow>
        cut_before (doc_lines d') (cut_of d' (adjustForChange q c)) = cut_before (doc_lines d) (cut_of d q))
    \<and> (0 \<le> cmp q (cg_from c) \<and> cmp q (cg_to c) \<le> 0 \<longrightarrow>
        cut_after (doc_lines d') (cut_of d' (adjustForChange q c)) = cut_after (doc_lines d) (cut_of d (cg_to c)))
    \<and> (0 < cmp q (cg_to c) \<longrightarrow>
        cut_after (doc_lines d') (cut_of d' (adjustForChange q c)) = cut_after (doc_lines d) (cut_of d q))"
proof -
  let ?L = "doc_lines d" and ?L' = "doc_lines d'"
  have v: "valid_pos d (cg_from c)" "valid_pos d (cg_to c)" "cg_text c \<noteq> []" and ft: "cmp (cg_from c) (cg_to c) \<le> 0"
    using assms(1) by (simp_all add: valid_change_def)
  have vc: "valid_cut ?L (cut_of d (cg_from c))" "valid_cut ?L (cut_of d (cg_to c))" "valid_cut ?L (cut_of d q)"
    using v assms(2) by (simp_all add: valid_pos_def)
  have cut_of': "cut_of d' = cut_of d" using assms(4) by (intro ext) (simp add: cut_of_def)
  have num: "ps_line x = td_first d + int (fst (cut_of d x))" "ps_ch x = int (snd (cut_of d x))" if "valid_pos d x" for x
    using that by (auto simp: valid_pos_def cut_of_def)
  define a where "a = cut_before ?L (cut_of d (cg_from c))"
  define b where "b = cut_after ?L (cut_of d (cg_to c))"
  have ne: "a \<noteq> []" "b \<noteq> []" by (simp_all add: a_def b_def)
  have L': "?L' = join (join a (cg_text c)) b"
    using assms(3) v(3) ne by (simp add: changed_lines_def a_def b_def join_assoc)
  have E: "changeEnd (cg_from c) (cg_text c) = pos_of (td_first d) (end_of (join a (cg_text c)))"
    using changeEnd_eq [OF v(1,3)] by (simp add: a_def)
  have at: "valid_pos d' p \<and> cut_before ?L' (cut_of d' p) = x \<and> cut_after ?L' (cut_of d' p) = y"
    if "?L' = join x y" "x \<noteq> []" "y \<noteq> []" "cut_of d p = end_of x" "td_first d \<le> ps_line p" "0 \<le> ps_ch p" for p x y
    using cut_join [OF that(2,3)] that by (simp add: valid_pos_def cut_of' assms(4))
  consider (before) "cmp q (cg_from c) < 0" | (inside) "0 \<le> cmp q (cg_from c)" "cmp q (cg_to c) \<le> 0"
    | (after) "0 \<le> cmp q (cg_from c)" "0 < cmp q (cg_to c)" by linarith
  then show ?thesis
  proof cases
    case before
    then have "cut_le (cut_of d q) (cut_of d (cg_from c))" using cmp_cut(1) [OF assms(2) v(1)] by simp
    from cut_three(2) [OF vc(3,1) this] have "?L' = join (cut_before ?L (cut_of d q))
        (join (cut_between ?L (cut_of d q) (cut_of d (cg_from c))) (join (cg_text c) b))"
      using ne v(3) by (simp add: L' a_def join_assoc flip: join_assoc)
    from at [OF this _ _ _ _ _, of q] before num [OF assms(2)] end_of_cut [OF vc(3)] cmp_le_trans [OF less_imp_le [OF before] ft]
    show ?thesis by (simp add: adjustForChange_def)
  next
    case inside
    then have adj: "adjustForChange q c = pos_of (td_first d) (end_of (join a (cg_text c)))"
      by (simp add: adjustForChange_def E)
    have "valid_pos d' (adjustForChange q c) \<and> cut_before ?L' (cut_of d' (adjustForChange q c)) = join a (cg_text c)
        \<and> cut_after ?L' (cut_of d' (adjustForChange q c)) = b"
      unfolding adj using ne by (intro at [OF L']) (simp_all, simp_all add: pos_of_def)
    with inside show ?thesis by (simp add: b_def)
  next
    case after
    let ?m = "cut_between ?L (cut_of d (cg_to c)) (cut_of d q)"
    have le: "cut_le (cut_of d (cg_to c)) (cut_of d q)"
      using cmp_cut(1) [OF v(2) assms(2)] after cmp_antisym [of "cg_to c" q] by simp
    have b: "b = join ?m (cut_after ?L (cut_of d q))" unfolding b_def by (rule cut_after_split [OF vc(2,3) le])
    have q: "join (cut_before ?L (cut_of d (cg_to c))) ?m = cut_before ?L (cut_of d q)" by (rule cut_three(2) [OF vc(2,3) le])
    have qe: "cut_of d q = (fst (cut_of d (cg_to c)) + (length ?m - 1),
        length (last ?m) + (if length ?m = 1 then snd (cut_of d (cg_to c)) else 0))"
      using end_of_join [of "cut_before ?L (cut_of d (cg_to c))" ?m]
      unfolding q end_of_cut [OF vc(2)] end_of_cut [OF vc(3)] by simp
    have m1: "length ?m = 1 \<longleftrightarrow> ps_line q = ps_line (cg_to c)"
      using qe num(1) [OF assms(2)] num(1) [OF v(2)] by (cases ?m) auto
    define e where "e = end_of (join (join a (cg_text c)) ?m)"
    have e: "e = (fst (end_of (join a (cg_text c))) + (length ?m - 1),
        length (last ?m) + (if length ?m = 1 then snd (end_of (join a (cg_text c))) else 0))"
      unfolding e_def using ne by (intro end_of_join) simp_all
    have Eline: "ps_line (cg_from c) + int (length (cg_text c)) - 1 = td_first d + int (fst (end_of (join a (cg_text c))))"
      and Ech: "ps_ch (changeEnd (cg_from c) (cg_text c)) = int (snd (end_of (join a (cg_text c))))"
      using arg_cong [OF E, of ps_line] arg_cong [OF E, of ps_ch] by (simp_all add: pos_of_def changeEnd_def)
    have lq: "ps_line q = ps_line (cg_to c) + int (length ?m - 1)"
      using num(1) [OF assms(2)] num(1) [OF v(2)] arg_cong [OF qe, of fst] by simp
    have cq: "ps_ch q = int (length (last ?m)) + (if length ?m = 1 then ps_ch (cg_to c) else 0)"
      using num(2) [OF assms(2)] num(2) [OF v(2)] arg_cong [OF qe, of snd] by simp
    have adj: "adjustForChange q c = pos_of (td_first d) e"
      using after Eline Ech lq cq m1 by (auto simp: adjustForChange_def Let_def e pos_of_def)
    have "?L' = join (join (join a (cg_text c)) ?m) (cut_after ?L (cut_of d q))"
      using ne by (simp add: L' b join_assoc)
    from at [OF this _ _ _ _ _, of "pos_of (td_first d) e"] ne have
      "valid_pos d' (pos_of (td_first d) e) \<and> cut_after ?L' (cut_of d' (pos_of (td_first d) e)) = cut_after ?L (cut_of d q)"
      by (simp add: e_def) (simp add: pos_of_def)
    with after adj show ?thesis by simp
  qed
qed

definition example_change :: change where
  "example_change = \<lparr>cg_from = Pos 0 1, cg_to = Pos 1 1, cg_text = [[98], [], [99]], cg_origin = None, cg_full = False\<rparr>"

lemma example_change_valid: "valid_change example_text example_change"
  by (simp add: valid_change_def valid_pos_def valid_cut_def cut_of_def example_text_ok(2) cmp_def example_change_def)
    (simp add: example_text_def)

theorem adjust_keeps_text_witness:
  "\<exists>d' :: text_doc. doc_lines d' = changed_lines example_text example_change
     \<and> cut_after (doc_lines d') (cut_of d' (adjustForChange (Pos 2 1) example_change)) = [[97, 97]]"
proof -
  define d' where "d' = \<lparr>td_tree = BranchChunk [LeafChunk (map (\<lambda>t. \<lparr>ln_text = t, ln_spans = [], ln_height = 1\<rparr>)
      (changed_lines example_text example_change))], td_first = 0\<rparr>"
  have l: "doc_lines d' = changed_lines example_text example_change" by (simp add: d'_def doc_lines_def comp_def)
  have f: "td_first d' = td_first example_text" by (simp add: d'_def example_text_def)
  have v: "valid_pos example_text (Pos 2 1)"
    by (simp add: valid_pos_def valid_cut_def cut_of_def example_text_ok(2)) (simp add: example_text_def)
  have "0 < cmp (Pos 2 1) (cg_to example_change)" by (simp add: cmp_def example_change_def)
  with adjust_keeps_text [OF example_change_valid v l f]
  have "cut_after (doc_lines d') (cut_of d' (adjustForChange (Pos 2 1) example_change))
      = cut_after (doc_lines example_text) (cut_of example_text (Pos 2 1))" by blast
  also have "\<dots> = [[97, 97]]" by (simp add: cut_after_def cut_of_def example_text_ok(2)) (simp add: example_text_def)
  finally show ?thesis using l by blast
qed


end
