(* ===== verification/Cm_Spans.thy ===== *)
theory Cm_Spans
  imports Cm_Position
begin

text \<open>
  Marked spans of the editor (\<open>codemirror.js\<close>): how the spans of a line follow a change of its text,
  how undo merges the spans it stored, and how read only spans restrict a change. A span refers to
  its marker by a number; the properties of the markers, which only their creation and clearing
  change, are an argument. A missing array of spans is the empty list.
\<close>

section \<open>Markers and spans\<close>

record marker =
  mk_bookmark :: bool
  mk_inclusiveLeft :: bool
  mk_inclusiveRight :: bool
  mk_insertLeft :: bool
  mk_clearWhenEmpty :: bool
  mk_explicitlyCleared :: bool
  mk_readOnly :: bool
  mk_collapsed :: bool
  mk_lines :: nat

type_synonym markers = "nat \<Rightarrow> marker"

definition MarkedSpan :: "nat \<Rightarrow> int option \<Rightarrow> int option \<Rightarrow> marked_span" where
  "MarkedSpan m a b = \<lparr>sp_marker = m, sp_from = a, sp_to = b\<rparr>"

lemma MarkedSpan_simps [simp]:
  "sp_marker (MarkedSpan m a b) = m" "sp_from (MarkedSpan m a b) = a" "sp_to (MarkedSpan m a b) = b"
  "MarkedSpan (sp_marker s) (sp_from s) (sp_to s) = s"
  by (simp_all add: MarkedSpan_def)

definition getMarkedSpanFor :: "marked_span list \<Rightarrow> nat \<Rightarrow> marked_span option" where
  "getMarkedSpanFor spans m = find (\<lambda>s. sp_marker s = m) spans"

definition removeMarkedSpan :: "marked_span list \<Rightarrow> marked_span \<Rightarrow> marked_span list" where
  "removeMarkedSpan spans s = filter (\<lambda>x. x \<noteq> s) spans"

text \<open>Whether a span starts before a column, or ends after it.\<close>

definition startsBefore :: "markers \<Rightarrow> marked_span \<Rightarrow> int \<Rightarrow> bool" where
  "startsBefore mk s ch = (case sp_from s of None \<Rightarrow> True | Some a \<Rightarrow> if mk_inclusiveLeft (mk (sp_marker s)) then a \<le> ch else a < ch)"

definition endsAfter :: "markers \<Rightarrow> marked_span \<Rightarrow> int \<Rightarrow> bool" where
  "endsAfter mk s ch = (case sp_to s of None \<Rightarrow> True | Some b \<Rightarrow> if mk_inclusiveRight (mk (sp_marker s)) then b \<ge> ch else b > ch)"

definition markedSpansBefore :: "markers \<Rightarrow> marked_span list \<Rightarrow> int \<Rightarrow> bool \<Rightarrow> marked_span list" where
  "markedSpansBefore mk old startCh isInsert =
     map (\<lambda>s. MarkedSpan (sp_marker s) (sp_from s) (if endsAfter mk s startCh then None else sp_to s))
       (filter (\<lambda>s. startsBefore mk s startCh
          \<or> sp_from s = Some startCh \<and> mk_bookmark (mk (sp_marker s)) \<and> (\<not> isInsert \<or> \<not> mk_insertLeft (mk (sp_marker s)))) old)"

definition markedSpansAfter :: "markers \<Rightarrow> marked_span list \<Rightarrow> int \<Rightarrow> bool \<Rightarrow> marked_span list" where
  "markedSpansAfter mk old endCh isInsert =
     map (\<lambda>s. MarkedSpan (sp_marker s) (if startsBefore mk s endCh then None else map_option (\<lambda>a. a - endCh) (sp_from s))
          (map_option (\<lambda>b. b - endCh) (sp_to s)))
       (filter (\<lambda>s. endsAfter mk s endCh
          \<or> sp_from s = Some endCh \<and> mk_bookmark (mk (sp_marker s)) \<and> (\<not> isInsert \<or> mk_insertLeft (mk (sp_marker s)))) old)"

definition clearEmptySpans :: "markers \<Rightarrow> marked_span list \<Rightarrow> marked_span list" where
  "clearEmptySpans mk spans =
     filter (\<lambda>s. \<not> (sp_from s \<noteq> None \<and> sp_from s = sp_to s \<and> mk_clearWhenEmpty (mk (sp_marker s)))) spans"

section \<open>Spans follow a change\<close>

text \<open>The ends of the first part, then the starts of the last part, which goes to the first when the
  change stays on one line.\<close>

definition fix_first :: "marked_span list \<Rightarrow> bool \<Rightarrow> int \<Rightarrow> int \<Rightarrow> marked_span list \<Rightarrow> marked_span list" where
  "fix_first last_spans sameLine startCh offset first_spans =
     map (\<lambda>s. if sp_to s = None
              then (case getMarkedSpanFor last_spans (sp_marker s) of
                      None \<Rightarrow> s\<lparr>sp_to := Some startCh\<rparr>
                    | Some found \<Rightarrow> if sameLine then s\<lparr>sp_to := map_option (\<lambda>b. b + offset) (sp_to found)\<rparr> else s)
              else s) first_spans"

fun fix_last :: "bool \<Rightarrow> int \<Rightarrow> marked_span list \<Rightarrow> marked_span list \<Rightarrow> marked_span list \<times> marked_span list" where
  "fix_last sameLine offset [] first_spans = ([], first_spans)"
| "fix_last sameLine offset (s # ss) first_spans =
     (let s1 = s\<lparr>sp_to := map_option (\<lambda>b. b + offset) (sp_to s)\<rparr>;
          (s2, push) =
            (case sp_from s1 of
               None \<Rightarrow> if getMarkedSpanFor first_spans (sp_marker s1) = None
                       then (s1\<lparr>sp_from := Some offset\<rparr>, sameLine) else (s1, False)
             | Some a \<Rightarrow> (s1\<lparr>sp_from := Some (a + offset)\<rparr>, sameLine));
          (ss', first') = fix_last sameLine offset ss (if push then first_spans @ [s2] else first_spans)
      in (s2 # ss', first'))"

definition stretchSpansOverChange ::
  "markers \<Rightarrow> ('a) text_doc_scheme \<Rightarrow> change \<Rightarrow> marked_span list list option" where
  "stretchSpansOverChange mk d c =
     (if cg_full c then None
      else let spans_of = (\<lambda>n. if isLine d n then (case getLine d n of None \<Rightarrow> [] | Some l \<Rightarrow> ln_spans l) else []);
               oldFirst = spans_of (ps_line (cg_from c)); oldLast = spans_of (ps_line (cg_to c))
      in if oldFirst = [] \<and> oldLast = [] then None
         else let startCh = ps_ch (cg_from c); endCh = ps_ch (cg_to c); isInsert = (cmp (cg_from c) (cg_to c) = 0);
                  first_spans = markedSpansBefore mk oldFirst startCh isInsert;
                  last_spans = markedSpansAfter mk oldLast endCh isInsert;
                  sameLine = (length (cg_text c) = 1);
                  offset = int (length (last (cg_text c))) + (if sameLine then startCh else 0);
                  first1 = fix_first last_spans sameLine startCh offset first_spans;
                  (last2, first2) = fix_last sameLine offset last_spans first1;
                  first3 = clearEmptySpans mk first2;
                  last3 = clearEmptySpans mk last2;
                  gap = length (cg_text c) - 2;
                  gapMarkers = map (\<lambda>s. MarkedSpan (sp_marker s) None None) (filter (\<lambda>s. sp_to s = None) first3)
              in Some (if sameLine then [first3] else [first3] @ replicate gap gapMarkers @ [last3]))"

section \<open>Spans and the history\<close>

definition removeClearedSpans :: "markers \<Rightarrow> marked_span list \<Rightarrow> marked_span list" where
  "removeClearedSpans mk spans = filter (\<lambda>s. \<not> mk_explicitlyCleared (mk (sp_marker s))) spans"

text \<open>The spans an event of the history stored, by the number of the line in it.\<close>

definition getOldSpans :: "markers \<Rightarrow> (nat \<Rightarrow> marked_span list) option \<Rightarrow> js_text list \<Rightarrow> marked_span list list option" where
  "getOldSpans mk found text = map_option (\<lambda>f. map (\<lambda>i. removeClearedSpans mk (f i)) [0..<length text]) found"

definition mergeOldSpans ::
  "markers \<Rightarrow> ('a) text_doc_scheme \<Rightarrow> (nat \<Rightarrow> marked_span list) option \<Rightarrow> change \<Rightarrow> marked_span list list option" where
  "mergeOldSpans mk d found c =
     (case (getOldSpans mk found (cg_text c), stretchSpansOverChange mk d c) of
        (None, stretched) \<Rightarrow> stretched
      | (Some old, None) \<Rightarrow> Some old
      | (Some old, Some stretched) \<Rightarrow>
          Some (map (\<lambda>i. let oldCur = old ! i; stretchCur = (if i < length stretched then stretched ! i else [])
                         in if oldCur = [] then stretchCur
                            else fold (\<lambda>s cur. if sp_marker s \<in> sp_marker ` set cur then cur else cur @ [s]) stretchCur oldCur)
                  [0..<length old]))"

section \<open>Read only spans\<close>

text \<open>A part of the changed range without the range of a marker; where a marker is comes from \<open>find\<close>.\<close>

definition cut_part :: "marker \<Rightarrow> pos \<times> pos \<Rightarrow> pos \<times> pos \<Rightarrow> (pos \<times> pos) list" where
  "cut_part mk m p =
     (if cmp (snd p) (fst m) < 0 \<or> cmp (fst p) (snd m) > 0 then [p]
      else (let dfrom = cmp (fst p) (fst m); dto = cmp (snd p) (snd m)
            in (if dfrom < 0 \<or> (\<not> mk_inclusiveLeft mk \<and> dfrom = 0) then [(fst p, fst m)] else [])
               @ (if dto > 0 \<or> (\<not> mk_inclusiveRight mk \<and> dto = 0) then [(snd m, snd p)] else [])))"

definition cut_marker :: "markers \<Rightarrow> (nat \<Rightarrow> pos \<times> pos) \<Rightarrow> nat \<Rightarrow> (pos \<times> pos) list \<Rightarrow> (pos \<times> pos) list" where
  "cut_marker mk find_marker m parts = concat (map (cut_part (mk m) (find_marker m)) parts)"

definition removeReadOnlyRanges ::
  "markers \<Rightarrow> (nat \<Rightarrow> pos \<times> pos) \<Rightarrow> ('a) text_doc_scheme \<Rightarrow> pos \<Rightarrow> pos \<Rightarrow> (pos \<times> pos) list option" where
  "removeReadOnlyRanges mk find_marker d start stop =
     (let found = doc_iter d (ps_line start) (ps_line stop + 1)
            (\<lambda>l ms. (False, fold (\<lambda>s ms. if mk_readOnly (mk (sp_marker s)) \<and> sp_marker s \<notin> set ms
                                       then ms @ [sp_marker s] else ms) (ln_spans l) ms)) []
      in if found = [] then None
         else Some (fold (cut_marker mk find_marker) found [(start, stop)]))"

section \<open>Collapsed spans\<close>

definition extraLeft :: "marker \<Rightarrow> int" where
  "extraLeft m = (if mk_inclusiveLeft m then -1 else 0)"

definition extraRight :: "marker \<Rightarrow> int" where
  "extraRight m = (if mk_inclusiveRight m then 1 else 0)"

definition js_or :: "int \<Rightarrow> int \<Rightarrow> int" where
  "js_or a b = (if a \<noteq> 0 then a else b)"

definition compareCollapsedMarkers :: "markers \<Rightarrow> (nat \<Rightarrow> pos \<times> pos) \<Rightarrow> nat \<Rightarrow> nat \<Rightarrow> int" where
  "compareCollapsedMarkers mk find_marker a b =
     (let lenDiff = int (mk_lines (mk a)) - int (mk_lines (mk b));
          fromCmp = js_or (cmp (fst (find_marker a)) (fst (find_marker b))) (extraLeft (mk a) - extraLeft (mk b));
          toCmp = js_or (cmp (snd (find_marker a)) (snd (find_marker b))) (extraRight (mk a) - extraRight (mk b))
      in if lenDiff \<noteq> 0 then lenDiff else if fromCmp \<noteq> 0 then - fromCmp else if toCmp \<noteq> 0 then toCmp else int b - int a)"

definition collapsedSpanAtSide ::
  "markers \<Rightarrow> (nat \<Rightarrow> pos \<times> pos) \<Rightarrow> marked_span list \<Rightarrow> bool \<Rightarrow> nat option" where
  "collapsedSpanAtSide mk find_marker sps start =
     fold (\<lambda>s found. if mk_collapsed (mk (sp_marker s)) \<and> (if start then sp_from s else sp_to s) = None
                        \<and> (case found of None \<Rightarrow> True | Some f \<Rightarrow> compareCollapsedMarkers mk find_marker f (sp_marker s) < 0)
                     then Some (sp_marker s) else found) sps None"

definition conflictingCollapsedRange ::
  "markers \<Rightarrow> (nat \<Rightarrow> pos \<times> pos) \<Rightarrow> marked_span list \<Rightarrow> pos \<Rightarrow> pos \<Rightarrow> nat \<Rightarrow> bool" where
  "conflictingCollapsedRange mk find_marker sps start stop m \<longleftrightarrow>
     list_ex (\<lambda>s. let k = mk (sp_marker s); found = find_marker (sp_marker s);
                      fromCmp = js_or (cmp (fst found) start) (extraLeft k - extraLeft (mk m));
                      toCmp = js_or (cmp (snd found) stop) (extraRight k - extraRight (mk m))
                  in mk_collapsed k
                     \<and> \<not> (fromCmp \<ge> 0 \<and> toCmp \<le> 0 \<or> fromCmp \<le> 0 \<and> toCmp \<ge> 0)
                     \<and> (fromCmp \<le> 0 \<and> (if mk_inclusiveRight k \<and> mk_inclusiveLeft (mk m) then cmp (snd found) start \<ge> 0
                                        else cmp (snd found) start > 0)
                        \<or> fromCmp \<ge> 0 \<and> (if mk_inclusiveRight k \<and> mk_inclusiveLeft (mk m) then cmp (fst found) stop \<le> 0
                                        else cmp (fst found) stop < 0))) sps"

section \<open>Marks follow their text\<close>

text \<open>A span span_covers the character at a column.\<close>

definition span_covers :: "marked_span \<Rightarrow> int \<Rightarrow> bool" where
  "span_covers s c \<longleftrightarrow> (case sp_from s of None \<Rightarrow> True | Some a \<Rightarrow> a \<le> c) \<and> (case sp_to s of None \<Rightarrow> True | Some b \<Rightarrow> c < b)"

definition marked :: "nat \<Rightarrow> marked_span list \<Rightarrow> int \<Rightarrow> bool" where
  "marked m spans c \<longleftrightarrow> (\<exists>s \<in> set spans. sp_marker s = m \<and> span_covers s c)"

text \<open>Spans of a line: one for each marker, and none ends before it starts.\<close>

definition spans_ok :: "marked_span list \<Rightarrow> bool" where
  "spans_ok spans \<longleftrightarrow> distinct (map sp_marker spans) \<and>
     (\<forall>s \<in> set spans. case (sp_from s, sp_to s) of (Some a, Some b) \<Rightarrow> a \<le> b | _ \<Rightarrow> True)"

text \<open>A marker with spans on two lines continues past the end of the first and from before the start of the last.\<close>

definition spans_joined :: "marked_span list \<Rightarrow> marked_span list \<Rightarrow> bool" where
  "spans_joined xs ys \<longleftrightarrow> (\<forall>x \<in> set xs. \<forall>y \<in> set ys. sp_marker x = sp_marker y \<longrightarrow> sp_to x = None \<and> sp_from y = None)"

lemma getMarkedSpanFor_Some: "getMarkedSpanFor spans m = Some s \<Longrightarrow> s \<in> set spans \<and> sp_marker s = m"
  by (auto simp: getMarkedSpanFor_def find_Some_iff)

lemma getMarkedSpanFor_None: "getMarkedSpanFor spans m = None \<longleftrightarrow> (\<forall>s \<in> set spans. sp_marker s \<noteq> m)"
  by (auto simp: getMarkedSpanFor_def find_None_iff)

lemma marked_clearEmptySpans [simp]: "marked m (clearEmptySpans mk spans) c = marked m spans c"
  by (auto simp: marked_def clearEmptySpans_def span_covers_def)

lemma covers_after_nonempty: "span_covers s c \<Longrightarrow> a \<le> c \<Longrightarrow> endsAfter mk s a"
  by (auto simp: span_covers_def endsAfter_def split: option.splits if_splits)

definition shift :: "int \<Rightarrow> int option \<Rightarrow> int option" where
  "shift n = map_option (\<lambda>a. a + n)"

lemma shift_simps [simp]: "shift n None = None" "shift n (Some a) = Some (a + n)" "map_option (\<lambda>a. a + n) = shift n"
  by (simp_all add: shift_def)

text \<open>What becomes of a span of the last line when the spans of the first line are known.\<close>

definition moved_span :: "int \<Rightarrow> marked_span list \<Rightarrow> marked_span \<Rightarrow> marked_span" where
  "moved_span offset first_spans s =
     MarkedSpan (sp_marker s)
       (case sp_from s of None \<Rightarrow> if sp_marker s \<in> sp_marker ` set first_spans then None else Some offset | Some a \<Rightarrow> Some (a + offset))
       (shift offset (sp_to s))"

definition starts_here :: "marked_span list \<Rightarrow> marked_span \<Rightarrow> bool" where
  "starts_here first_spans s \<longleftrightarrow> sp_from s \<noteq> None \<or> sp_marker s \<notin> sp_marker ` set first_spans"

lemma moved_span_more:
  "sp_marker t \<noteq> sp_marker s \<Longrightarrow> moved_span offset (fs @ [t]) s = moved_span offset fs s"
  "sp_marker t \<noteq> sp_marker s \<Longrightarrow> starts_here (fs @ [t]) s = starts_here fs s"
  by (auto simp: moved_span_def starts_here_def split: option.splits)

lemma moved_span_marker [simp]: "sp_marker (moved_span offset fs s) = sp_marker s"
  by (simp add: moved_span_def)

lemma fix_last_eq:
  "distinct (map sp_marker ss) \<Longrightarrow>
    fix_last sameLine offset ss fs =
      (map (moved_span offset fs) ss, fs @ (if sameLine then map (moved_span offset fs) (filter (starts_here fs) ss) else []))"
proof (induction ss arbitrary: fs)
  case Nil
  then show ?case by simp
next
  case (Cons s ss)
  have other: "t \<in> set ss \<Longrightarrow> sp_marker s \<noteq> sp_marker t" for t using Cons.prems by auto
  then have cong: "map (moved_span offset (fs @ [moved_span offset fs s])) ss = map (moved_span offset fs) ss"
    "filter (starts_here (fs @ [moved_span offset fs s])) ss = filter (starts_here fs) ss"
    by (auto simp: moved_span_more intro!: filter_cong)
  then have cong2: "map (moved_span offset (fs @ [moved_span offset fs s])) (filter (starts_here fs) ss) = map (moved_span offset fs) (filter (starts_here fs) ss)"
    using other by (auto simp: moved_span_more)
  have none: "getMarkedSpanFor fs (sp_marker s) = None \<longleftrightarrow> sp_marker s \<notin> sp_marker ` set fs"
    by (metis getMarkedSpanFor_None image_iff)
  have record_eq: "s\<lparr>sp_to := b, sp_from := a\<rparr> = MarkedSpan (sp_marker s) a b" "s\<lparr>sp_to := b\<rparr> = MarkedSpan (sp_marker s) (sp_from s) b"
    "(MarkedSpan m a' b)\<lparr>sp_from := a\<rparr> = MarkedSpan m a b" for a b m a'
    by (simp_all add: MarkedSpan_def)
  show ?case
  proof (cases "starts_here fs s \<and> sameLine")
    case True
    then have step: "fix_last sameLine offset (s # ss) fs =
        (let (ss', first') = fix_last sameLine offset ss (fs @ [moved_span offset fs s]) in (moved_span offset fs s # ss', first'))"
      using none by (cases "sp_from s") (auto simp: starts_here_def moved_span_def record_eq Let_def split: prod.splits)
    from Cons True show ?thesis unfolding step by (simp add: cong cong2)
  next
    case False
    then have step: "fix_last sameLine offset (s # ss) fs =
        (let (ss', first') = fix_last sameLine offset ss fs in (moved_span offset fs s # ss', first'))"
      using none by (cases "sp_from s") (auto simp: starts_here_def moved_span_def record_eq Let_def split: prod.splits)
    from Cons False show ?thesis unfolding step by auto
  qed
qed

text \<open>Facts about the two halves of the spans.\<close>

lemma before_after_markers:
  "distinct (map sp_marker old) \<Longrightarrow> distinct (map sp_marker (markedSpansAfter mk old n ins))"
  "distinct (map sp_marker old) \<Longrightarrow> distinct (map sp_marker (markedSpansBefore mk old n ins))"
  by (simp_all add: markedSpansAfter_def markedSpansBefore_def comp_def distinct_map_filter)

lemma after_nonneg:
  assumes "s \<in> set (markedSpansAfter mk old n ins)" "spans_ok old"
  shows "(case sp_from s of None \<Rightarrow> True | Some a \<Rightarrow> 0 \<le> a) \<and> (case sp_to s of None \<Rightarrow> True | Some b \<Rightarrow> 0 \<le> b)"
  using assms
  by (auto simp: markedSpansAfter_def spans_ok_def startsBefore_def endsAfter_def split: option.splits if_splits; force)

lemma shift_minus: "map_option (\<lambda>a. a - n) = shift (- n)"
  by (simp add: shift_def fun_eq_iff del: shift_simps)

text \<open>What becomes of a span of the first line.\<close>

definition kept_before :: "markers \<Rightarrow> int \<Rightarrow> bool \<Rightarrow> marked_span \<Rightarrow> bool" where
  "kept_before mk a ins s \<longleftrightarrow> startsBefore mk s a
     \<or> sp_from s = Some a \<and> mk_bookmark (mk (sp_marker s)) \<and> (\<not> ins \<or> \<not> mk_insertLeft (mk (sp_marker s)))"

definition kept_after :: "markers \<Rightarrow> int \<Rightarrow> bool \<Rightarrow> marked_span \<Rightarrow> bool" where
  "kept_after mk b ins s \<longleftrightarrow> endsAfter mk s b
     \<or> sp_from s = Some b \<and> mk_bookmark (mk (sp_marker s)) \<and> (\<not> ins \<or> mk_insertLeft (mk (sp_marker s)))"

definition first_span :: "markers \<Rightarrow> marked_span list \<Rightarrow> bool \<Rightarrow> int \<Rightarrow> int \<Rightarrow> marked_span \<Rightarrow> marked_span" where
  "first_span mk last_spans sameLine a offset s =
     MarkedSpan (sp_marker s) (sp_from s)
       (case if endsAfter mk s a then None else sp_to s of
          Some b \<Rightarrow> Some b
        | None \<Rightarrow> (case getMarkedSpanFor last_spans (sp_marker s) of
                     None \<Rightarrow> Some a
                   | Some found \<Rightarrow> if sameLine then shift offset (sp_to found) else None))"

definition last_span :: "markers \<Rightarrow> int \<Rightarrow> marked_span \<Rightarrow> marked_span" where
  "last_span mk b s =
     MarkedSpan (sp_marker s) (if startsBefore mk s b then None else shift (- b) (sp_from s)) (shift (- b) (sp_to s))"

lemma span_markers [simp]:
  "sp_marker (first_span mk ls sameLine a offset s) = sp_marker s" "sp_marker (last_span mk b s) = sp_marker s"
  by (simp_all add: first_span_def last_span_def)

lemma fix_first_eq:
  "fix_first ls sameLine a offset (markedSpansBefore mk old a ins) = map (first_span mk ls sameLine a offset) (filter (kept_before mk a ins) old)"
proof -
  have "(MarkedSpan m f b)\<lparr>sp_to := b'\<rparr> = MarkedSpan m f b'" for m f b b' by (simp add: MarkedSpan_def)
  then show ?thesis
    by (auto simp: fix_first_def markedSpansBefore_def kept_before_def first_span_def cong: filter_cong split: option.splits)
qed

lemma markedSpansAfter_eq: "markedSpansAfter mk old b ins = map (last_span mk b) (filter (kept_after mk b ins) old)"
  by (simp add: markedSpansAfter_def kept_after_def last_span_def shift_minus cong: filter_cong)

text \<open>The first half of a span span_covers what the span covered before the change, its last half what it covered after.\<close>

lemma first_span_covers:
  assumes "c < a" "sameLine \<Longrightarrow> a \<le> offset" "\<forall>s \<in> set ls. case sp_to s of None \<Rightarrow> True | Some b \<Rightarrow> 0 \<le> b"
  shows "kept_before mk a ins s \<and> span_covers (first_span mk ls sameLine a offset s) c \<longleftrightarrow> span_covers s c"
proof (cases "getMarkedSpanFor ls (sp_marker s)")
  case None
  with assms(1) show ?thesis
    by (auto simp: kept_before_def first_span_def span_covers_def startsBefore_def endsAfter_def split: option.splits if_splits)
next
  case (Some found)
  then have "case sp_to found of None \<Rightarrow> True | Some b \<Rightarrow> 0 \<le> b" using assms(3) getMarkedSpanFor_Some by blast
  with assms(1,2) Some show ?thesis
    by (auto simp: kept_before_def first_span_def span_covers_def startsBefore_def endsAfter_def split: option.splits if_splits)
qed

lemma moved_span_covers:
  assumes "b \<le> c"
  shows "kept_after mk b ins s \<and> span_covers (moved_span offset fs (last_span mk b s)) (c - b + offset) \<longleftrightarrow> span_covers s c"
  using assms
  by (auto simp: kept_after_def moved_span_def last_span_def span_covers_def startsBefore_def endsAfter_def split: option.splits if_splits)

lemma marked_Nil [simp]: "\<not> marked m [] c"
  by (simp add: marked_def)

lemma marked_append [simp]: "marked m (xs @ ys) c \<longleftrightarrow> marked m xs c \<or> marked m ys c"
  by (auto simp: marked_def)

text \<open>The characters before the change keep their marks.\<close>

lemma marked_first_part:
  assumes "c < a" "sameLine \<Longrightarrow> a \<le> offset" "spans_ok oldLast" "ls = markedSpansAfter mk oldLast b ins"
    and "fs = fix_first ls sameLine a offset (markedSpansBefore mk oldFirst a ins)"
  shows "marked m (snd (fix_last sameLine offset ls fs)) c \<longleftrightarrow> marked m oldFirst c"
proof -
  have distinct: "distinct (map sp_marker ls)" using assms(3,4) before_after_markers(1) by (auto simp: spans_ok_def)
  have nonneg: "(case sp_from s of None \<Rightarrow> True | Some x \<Rightarrow> 0 \<le> x) \<and> (case sp_to s of None \<Rightarrow> True | Some x \<Rightarrow> 0 \<le> x)" if "s \<in> set ls" for s
    using that after_nonneg assms(3,4) by blast
  have "\<not> marked m (map (moved_span offset fs) (filter (starts_here fs) ls)) c" if "sameLine"
    using that assms(1,2) nonneg
    by (fastforce simp: marked_def span_covers_def moved_span_def starts_here_def split: option.splits)
  moreover have "marked m fs c \<longleftrightarrow> marked m oldFirst c"
  proof -
    have "\<forall>s \<in> set ls. case sp_to s of None \<Rightarrow> True | Some x \<Rightarrow> 0 \<le> x" using nonneg by blast
    note one = first_span_covers [OF assms(1,2) this, where mk = mk and ins = ins]
    show ?thesis
      unfolding assms(5) fix_first_eq marked_def using one by auto
  qed
  ultimately show ?thesis by (simp add: fix_last_eq [OF distinct])
qed

lemma getMarkedSpanFor_distinct: "distinct (map sp_marker spans) \<Longrightarrow> s \<in> set spans \<Longrightarrow> getMarkedSpanFor spans (sp_marker s) = Some s"
  by (induction spans) (auto simp: getMarkedSpanFor_def rev_image_eqI)

text \<open>
  A change that puts everything on one line: the marker's span of the first line takes the end of its
  span of the last line.
\<close>

lemma joined_span_covers:
  assumes "b \<le> c" "a \<le> offset" "s0 \<in> set oldFirst" "kept_before mk a ins s0" "distinct (map sp_marker oldLast)"
    and joins: "\<And>s. s \<in> set oldLast \<Longrightarrow> sp_marker s = sp_marker s0 \<Longrightarrow>
      (s = s0 \<and> a \<le> b) \<or> (sp_to s0 = None \<and> sp_from s = None)"
  shows "span_covers (first_span mk (markedSpansAfter mk oldLast b ins) True a offset s0) (c - b + offset) \<longleftrightarrow>
    marked (sp_marker s0) oldLast c \<and> (\<exists>s \<in> set oldLast. sp_marker s = sp_marker s0 \<and> kept_after mk b ins s)"
proof (cases "\<exists>s \<in> set oldLast. sp_marker s = sp_marker s0 \<and> kept_after mk b ins s")
  case False
  then have "getMarkedSpanFor (markedSpansAfter mk oldLast b ins) (sp_marker s0) = None"
    by (auto simp: getMarkedSpanFor_None markedSpansAfter_eq)
  with assms(1,2) False show ?thesis
    by (auto simp: first_span_def span_covers_def endsAfter_def split: option.splits if_splits)
next
  case True
  then obtain s where s: "s \<in> set oldLast" "sp_marker s = sp_marker s0" "kept_after mk b ins s" by blast
  have only: "t = s" if "t \<in> set oldLast" "sp_marker t = sp_marker s0" for t
    using assms(5) s that by (metis (no_types, lifting) distinct_map inj_onD)
  have "getMarkedSpanFor (markedSpansAfter mk oldLast b ins) (sp_marker s0) = Some (last_span mk b s)"
    using getMarkedSpanFor_distinct [OF before_after_markers(1) [OF assms(5)], of "last_span mk b s" mk b ins] s
    by (auto simp: markedSpansAfter_eq)
  moreover have "marked (sp_marker s0) oldLast c \<longleftrightarrow> span_covers s c" unfolding marked_def using s(1,2) only by metis
  moreover have start: "case sp_from s0 of None \<Rightarrow> True | Some x \<Rightarrow> x \<le> a"
    using assms(4) by (auto simp: kept_before_def startsBefore_def split: option.splits if_splits)
  ultimately have covered: "?thesis \<longleftrightarrow> (span_covers (MarkedSpan (sp_marker s0) (sp_from s0)
      (if endsAfter mk s0 a then (case sp_to s of None \<Rightarrow> None | Some e \<Rightarrow> Some (e - b + offset)) else sp_to s0)) (c - b + offset) \<longleftrightarrow> span_covers s c)"
    using True by (cases "sp_to s0"; cases "sp_to s") (auto simp: first_span_def last_span_def endsAfter_def)
  from joins [OF s(1,2)] show ?thesis
  proof
    assume "s = s0 \<and> a \<le> b"
    with start assms(1,2) show ?thesis
      unfolding covered by (cases "sp_from s0"; cases "sp_to s0") (auto simp: span_covers_def endsAfter_def split: if_splits)
  next
    assume "sp_to s0 = None \<and> sp_from s = None"
    with start assms(1,2) show ?thesis
      unfolding covered by (cases "sp_from s0"; cases "sp_to s") (auto simp: span_covers_def endsAfter_def)
  qed
qed

text \<open>The characters after the change keep their marks.\<close>

lemma marked_last_part:
  assumes "b \<le> c" "sameLine \<Longrightarrow> a \<le> offset" "spans_ok oldLast" "ls = markedSpansAfter mk oldLast b ins"
    and fs: "fs = fix_first ls sameLine a offset (markedSpansBefore mk oldFirst a ins)"
    and lines: "oldFirst = oldLast \<and> a \<le> b \<or> spans_joined oldFirst oldLast"
  shows "marked m ((if sameLine then snd else fst) (fix_last sameLine offset ls fs)) (c - b + offset) \<longleftrightarrow> marked m oldLast c"
proof -
  have distinct: "distinct (map sp_marker oldLast)" using assms(3) by (simp add: spans_ok_def)
  have joins: "(s = s0 \<and> a \<le> b) \<or> (sp_to s0 = None \<and> sp_from s = None)"
    if "s0 \<in> set oldFirst" "s \<in> set oldLast" "sp_marker s = sp_marker s0" for s s0
    using lines that distinct by (metis distinct_map inj_onD spans_joined_def)
  have moved: "(\<exists>s \<in> set (filter P oldLast). kept_after mk b ins s \<and> sp_marker s = m
      \<and> span_covers (moved_span offset fs (last_span mk b s)) (c - b + offset)) \<longleftrightarrow> (\<exists>s \<in> set (filter P oldLast). sp_marker s = m \<and> span_covers s c)" for P
    using moved_span_covers [OF assms(1), where mk = mk and ins = ins and offset = offset and fs = fs] by blast
  show ?thesis
  proof (cases sameLine)
    case False
    have "fst (fix_last False offset ls fs) = map (moved_span offset fs) ls"
      using before_after_markers(1) [OF distinct] by (simp add: fix_last_eq assms(4))
    then show ?thesis
      using False moved [of "\<lambda>_. True"] by (auto simp: assms(4) markedSpansAfter_eq marked_def)
  next
    case True
    have new: "snd (fix_last True offset ls fs) = fs @ map (moved_span offset fs) (filter (starts_here fs) ls)"
      using before_after_markers(1) [OF distinct] by (simp add: fix_last_eq assms(4))
    have joined: "span_covers (first_span mk ls True a offset s0) (c - b + offset) \<longleftrightarrow>
        marked (sp_marker s0) oldLast c \<and> (\<exists>s \<in> set oldLast. sp_marker s = sp_marker s0 \<and> kept_after mk b ins s)"
      if "s0 \<in> set oldFirst" "kept_before mk a ins s0" for s0
      unfolding assms(4) using joined_span_covers [OF assms(1) assms(2) [OF True] that distinct joins] that by blast
    have fs_eq: "fs = map (first_span mk ls True a offset) (filter (kept_before mk a ins) oldFirst)"
      using fs True by (simp add: fix_first_eq)
    have "marked m (fs @ map (moved_span offset fs) (filter (starts_here fs) ls)) (c - b + offset)" if "marked m oldLast c"
    proof -
      from that obtain s where s: "s \<in> set oldLast" "sp_marker s = m" "span_covers s c" by (auto simp: marked_def)
      then have kept: "kept_after mk b ins s" "span_covers (moved_span offset fs (last_span mk b s)) (c - b + offset)"
        using moved_span_covers [OF assms(1), where mk = mk and ins = ins and offset = offset and fs = fs and s = s] by auto
      show ?thesis
      proof (cases "starts_here fs (last_span mk b s)")
        case True
        with s kept have "marked m (map (moved_span offset fs) (filter (starts_here fs) ls)) (c - b + offset)"
          unfolding marked_def
          by (intro bexI [of _ "moved_span offset fs (last_span mk b s)"]) (auto simp: assms(4) markedSpansAfter_eq)
        then show ?thesis by simp
      next
        case False
        then obtain s0 where "s0 \<in> set oldFirst" "kept_before mk a ins s0" "sp_marker s0 = m"
          using s by (auto simp: starts_here_def fs_eq)
        with joined [of s0] that s kept have "marked m fs (c - b + offset)"
          unfolding marked_def by (intro bexI [of _ "first_span mk ls True a offset s0"]) (auto simp: fs_eq)
        then show ?thesis by simp
      qed
    qed
    moreover have "marked m oldLast c" if "marked m (fs @ map (moved_span offset fs) (filter (starts_here fs) ls)) (c - b + offset)"
    proof (cases "marked m fs (c - b + offset)")
      case True
      then obtain s0 where "s0 \<in> set oldFirst" "kept_before mk a ins s0" "sp_marker s0 = m"
        "span_covers (first_span mk ls True a offset s0) (c - b + offset)" by (auto simp: marked_def fs_eq)
      with joined [of s0] show ?thesis by simp
    next
      case False
      with that have "marked m (map (moved_span offset fs) (filter (starts_here fs) ls)) (c - b + offset)" by simp
      then obtain s where s: "s \<in> set oldLast" "sp_marker s = m" "kept_after mk b ins s"
        "span_covers (moved_span offset fs (last_span mk b s)) (c - b + offset)"
        by (auto simp: marked_def assms(4) markedSpansAfter_eq)
      then have "span_covers s c"
        using moved_span_covers [OF assms(1), where mk = mk and ins = ins and offset = offset and fs = fs and s = s] by blast
      with s(1,2) show ?thesis by (auto simp: marked_def)
    qed
    ultimately show ?thesis using True new by auto
  qed
qed

definition spans_at :: "('a) text_doc_scheme \<Rightarrow> int \<Rightarrow> marked_span list" where
  "spans_at d n = (if isLine d n then (case getLine d n of None \<Rightarrow> [] | Some l \<Rightarrow> ln_spans l) else [])"

text \<open>C32. Marks stay with their text: after a change, in the spans that \<open>stretchSpansOverChange\<close> gives the new
  lines, every character before the changed range and every character behind it is covered by the
  same markers as before, wherever the change put it, and there are spans for every new line. (The
  spans of a line are those of different markers; a marker on two lines runs on between them.)\<close>

theorem marks_follow_text:
  assumes "stretchSpansOverChange mk d c = Some spans" "cg_text c \<noteq> []" "spans_ok (spans_at d (ps_line (cg_to c)))"
    and "ps_line (cg_from c) = ps_line (cg_to c) \<and> ps_ch (cg_from c) \<le> ps_ch (cg_to c)
         \<or> spans_joined (spans_at d (ps_line (cg_from c))) (spans_at d (ps_line (cg_to c)))"
  shows "length spans = length (cg_text c)
    \<and> (ch < ps_ch (cg_from c) \<longrightarrow> marked m (hd spans) ch = marked m (spans_at d (ps_line (cg_from c))) ch)
    \<and> (ps_ch (cg_to c) \<le> ch \<longrightarrow> marked m (last spans) (ch - ps_ch (cg_to c) + ps_ch (changeEnd (cg_from c) (cg_text c)))
         = marked m (spans_at d (ps_line (cg_to c))) ch)"
proof -
  let ?a = "ps_ch (cg_from c)" and ?b = "ps_ch (cg_to c)" and ?same = "length (cg_text c) = 1"
  let ?offset = "ps_ch (changeEnd (cg_from c) (cg_text c))" and ?ins = "cmp (cg_from c) (cg_to c) = 0"
  let ?F = "spans_at d (ps_line (cg_from c))" and ?L = "spans_at d (ps_line (cg_to c))"
  define ls where "ls = markedSpansAfter mk ?L ?b ?ins"
  define fs where "fs = fix_first ls ?same ?a ?offset (markedSpansBefore mk ?F ?a ?ins)"
  define r where "r = fix_last ?same ?offset ls fs"
  have offset: "?offset = int (length (last (cg_text c))) + (if ?same then ?a else 0)"
    by (simp add: changeEnd_def)
  have spans: "spans = (if ?same then [clearEmptySpans mk (snd r)]
      else [clearEmptySpans mk (snd r)]
        @ replicate (length (cg_text c) - 2) (map (\<lambda>s. MarkedSpan (sp_marker s) None None) (filter (\<lambda>s. sp_to s = None) (clearEmptySpans mk (snd r))))
        @ [clearEmptySpans mk (fst r)])"
    using assms(1) unfolding r_def fs_def ls_def offset
    by (auto simp: stretchSpansOverChange_def spans_at_def Let_def split: if_splits prod.splits)
  have le: "?same \<Longrightarrow> ?a \<le> ?offset" by (simp add: offset)
  have lines: "?F = ?L \<and> ?a \<le> ?b \<or> spans_joined ?F ?L" using assms(4) by auto
  have ends: "hd spans = clearEmptySpans mk (snd r)" "last spans = clearEmptySpans mk ((if ?same then snd else fst) r)"
    by (simp_all add: spans)
  have "marked m (hd spans) ch = marked m ?F ch" if "ch < ?a"
    using marked_first_part [OF that le assms(3) ls_def fs_def, of m] unfolding ends marked_clearEmptySpans r_def .
  moreover have "marked m (last spans) (ch - ?b + ?offset) = marked m ?L ch" if "?b \<le> ch"
    using marked_last_part [OF that le assms(3) ls_def fs_def lines, of m] unfolding ends marked_clearEmptySpans r_def .
  moreover have "length spans = length (cg_text c)"
    using assms(2) by (cases "cg_text c" rule: list.exhaust; cases "tl (cg_text c)") (auto simp: spans)
  ultimately show ?thesis by blast
qed

text \<open>A marker on two characters of a line; a line break is typed between them.\<close>

definition example_marker :: marker where
  "example_marker = \<lparr>mk_bookmark = False, mk_inclusiveLeft = False, mk_inclusiveRight = False, mk_insertLeft = False,
     mk_clearWhenEmpty = True, mk_explicitlyCleared = False, mk_readOnly = False, mk_collapsed = False, mk_lines = 1\<rparr>"

definition marked_text :: text_doc where
  "marked_text = \<lparr>td_tree = BranchChunk [LeafChunk [\<lparr>ln_text = [97, 98, 99, 100], ln_spans = [MarkedSpan 5 (Some 1) (Some 3)], ln_height = 10\<rparr>]],
     td_first = 0\<rparr>"

definition line_break :: change where
  "line_break = \<lparr>cg_from = Pos 0 2, cg_to = Pos 0 2, cg_text = [[], [120]], cg_origin = None, cg_full = False\<rparr>"

lemma line_break_spans:
  "spans_at marked_text 0 = [MarkedSpan 5 (Some 1) (Some 3)]"
  "stretchSpansOverChange (\<lambda>_. example_marker) marked_text line_break =
     Some [[MarkedSpan 5 (Some 1) None], [MarkedSpan 5 None (Some 2)]]"
  by code_simp+

theorem marks_follow_text_witness:
  "marked 5 [MarkedSpan 5 (Some 1) None] 1 \<and> marked 5 [MarkedSpan 5 None (Some 2)] 1"
  using marks_follow_text [OF line_break_spans(2), of 1 5] marks_follow_text [OF line_break_spans(2), of 2 5]
  by (simp add: line_break_def line_break_spans(1) spans_ok_def marked_def span_covers_def changeEnd_def)

end
