(* ===== verification/Cm_Update.thy ===== *)
theory Cm_Update
  imports Cm_Spans
begin

text \<open>
  \<open>updateDoc\<close> of the editor (\<open>codemirror.js\<close>): how the lines of the tree are changed so that the
  document gets its new text. The five cases of the code differ in which line objects survive, not
  in the text.
\<close>

section \<open>Lines\<close>

text \<open>A new line, and a line with new content; without an estimate the height is 1.\<close>

definition Line :: "js_text \<Rightarrow> marked_span list \<Rightarrow> (line \<Rightarrow> int) option \<Rightarrow> line" where
  "Line text spans estimateHeight =
     (let l = \<lparr>ln_text = text, ln_spans = spans, ln_height = 1\<rparr>
      in case estimateHeight of None \<Rightarrow> l | Some est \<Rightarrow> l\<lparr>ln_height := est l\<rparr>)"

definition updateLine :: "line \<Rightarrow> js_text \<Rightarrow> marked_span list \<Rightarrow> (line \<Rightarrow> int) option \<Rightarrow> line" where
  "updateLine l text spans estimateHeight =
     (let l = l\<lparr>ln_text := text, ln_spans := spans\<rparr>
      in l\<lparr>ln_height := (case estimateHeight of None \<Rightarrow> 1 | Some est \<Rightarrow> est l)\<rparr>)"

lemma Line_text [simp]: "ln_text (Line t s e) = t" "ln_text (updateLine l t s e) = t"
  by (simp_all add: Line_def updateLine_def Let_def split: option.split)

text \<open>Changing a line of a document, and \<open>insert\<close> and \<open>remove\<close> with line numbers.\<close>

definition put_line :: "int \<Rightarrow> line \<Rightarrow> ('a) text_doc_scheme \<Rightarrow> ('a) text_doc_scheme" where
  "put_line n l d = d\<lparr>td_tree := updateLine_chunk (nat (n - td_first d)) l (td_tree d)\<rparr>"

text \<open>A negative offset, which a document that does not start at line 0 can get, counts from the end
  of the first leaf, as \<open>slice\<close> does.\<close>

fun first_leaf :: "chunk \<Rightarrow> nat" and first_leaf_of :: "chunk list \<Rightarrow> nat" where
  "first_leaf (Leaf ls h) = length ls"
| "first_leaf (Branch cs n h) = first_leaf_of cs"
| "first_leaf_of [] = 0"
| "first_leaf_of (c # cs) = first_leaf c"

definition insert_lines :: "int \<Rightarrow> line list \<Rightarrow> ('a) text_doc_scheme \<Rightarrow> ('a) text_doc_scheme" where
  "insert_lines at new d =
     (let off = at - td_first d; off = (if off < 0 then int (first_leaf (td_tree d)) + off else off)
      in d\<lparr>td_tree := doc_insert (nat off) new (td_tree d)\<rparr>)"

definition remove_lines :: "int \<Rightarrow> int \<Rightarrow> ('a) text_doc_scheme \<Rightarrow> ('a) text_doc_scheme" where
  "remove_lines at n d = d\<lparr>td_tree := removeInner (nat (at - td_first d)) (nat n) (td_tree d)\<rparr>"

section \<open>Changing the document\<close>

definition isWholeLineUpdate :: "bool \<Rightarrow> change \<Rightarrow> bool" where
  "isWholeLineUpdate wholeLineUpdateBefore c \<longleftrightarrow>
     ps_ch (cg_from c) = 0 \<and> ps_ch (cg_to c) = 0 \<and> last (cg_text c) = [] \<and> wholeLineUpdateBefore"

definition linesFor :: "change \<Rightarrow> marked_span list list option \<Rightarrow> (line \<Rightarrow> int) option \<Rightarrow> nat \<Rightarrow> nat \<Rightarrow> line list" where
  "linesFor c spans est start stop =
     map (\<lambda>i. Line (cg_text c ! i) (case spans of None \<Rightarrow> [] | Some s \<Rightarrow> if i < length s then s ! i else []) est) [start..<stop]"

text \<open>Both end lines are looked up first, which fails for lines the document does not have. Removing
  lines at a negative offset fails, too.\<close>

definition updateDoc ::
  "bool \<Rightarrow> (line \<Rightarrow> int) option \<Rightarrow> change \<Rightarrow> marked_span list list option \<Rightarrow> ('a) text_doc_scheme \<Rightarrow> ('a) text_doc_scheme option" where
  "updateDoc wholeLine est c spans d =
     (case (getLine d (ps_line (cg_from c)), getLine d (ps_line (cg_to c))) of
        (Some firstLine, Some lastLine) \<Rightarrow>
          (let start = cg_from c; stop = cg_to c; text = cg_text c;
               startCh = nat (ps_ch start); stopCh = nat (ps_ch stop);
               spansFor = (\<lambda>n. case spans of None \<Rightarrow> [] | Some s \<Rightarrow> if n < length s then s ! n else []);
               lastText = last text; lastSpans = spansFor (length text - 1); nlines = ps_line stop - ps_line start
           in if cg_full c
              then (let d1 = insert_lines 0 (linesFor c spans est 0 (length text)) d
                    in if int (length text) < td_first d then None
                       else Some (remove_lines (int (length text)) (doc_size d1 - int (length text)) d1))
              else Some
             (if isWholeLineUpdate wholeLine c
              then (let added = linesFor c spans est 0 (length text - 1);
                        d1 = put_line (ps_line stop) (updateLine lastLine (ln_text lastLine) lastSpans est) d;
                        d2 = (if nlines \<noteq> 0 then remove_lines (ps_line start) nlines d1 else d1)
                    in if added \<noteq> [] then insert_lines (ps_line start) added d2 else d2)
              else if ps_line start = ps_line stop
              then (if length text = 1
                    then put_line (ps_line start)
                           (updateLine firstLine (take startCh (ln_text firstLine) @ lastText @ drop stopCh (ln_text firstLine)) lastSpans est) d
                    else (let added = linesFor c spans est 1 (length text - 1)
                                @ [Line (lastText @ drop stopCh (ln_text firstLine)) lastSpans est];
                              d1 = put_line (ps_line start)
                                (updateLine firstLine (take startCh (ln_text firstLine) @ text ! 0) (spansFor 0) est) d
                          in insert_lines (ps_line start + 1) added d1))
              else if length text = 1
              then (let d1 = put_line (ps_line start)
                       (updateLine firstLine (take startCh (ln_text firstLine) @ text ! 0 @ drop stopCh (ln_text lastLine)) (spansFor 0) est) d
                    in remove_lines (ps_line start + 1) nlines d1)
              else (let d1 = put_line (ps_line start)
                       (updateLine firstLine (take startCh (ln_text firstLine) @ text ! 0) (spansFor 0) est) d;
                        d2 = put_line (ps_line stop)
                       (updateLine lastLine (lastText @ drop stopCh (ln_text lastLine)) lastSpans est) d1;
                        added = linesFor c spans est 1 (length text - 1);
                        d3 = (if nlines > 1 then remove_lines (ps_line start + 1) (nlines - 1) d2 else d2)
                    in insert_lines (ps_line start + 1) added d3)))
      | _ \<Rightarrow> None)"

section \<open>The text after a change\<close>

lemma text_okD: "text_ok d \<Longrightarrow> doc_ok (td_tree d)" "text_ok d \<Longrightarrow> doc_lines d \<noteq> []"
  by (simp_all add: text_ok_def)

text \<open>What the three line operations do to the text.\<close>

lemma put_line_text:
  assumes "doc_ok (td_tree d)" and "td_first d \<le> n" and "nat (n - td_first d) < length (doc_lines d)"
  shows "doc_lines (put_line n l d) = (doc_lines d)[nat (n - td_first d) := ln_text l]" "doc_ok (td_tree (put_line n l d))"
    "td_first (put_line n l d) = td_first d" "text_doc.more (put_line n l d) = text_doc.more d"
  using tree.put_line [OF assms(1), of "nat (n - td_first d)" l] assms(3)
  by (simp_all add: put_line_def doc_lines_def map_update)

lemma insert_lines_text:
  assumes "doc_ok (td_tree d)" and "td_first d \<le> at" and "nat (at - td_first d) \<le> length (doc_lines d)"
  shows "doc_lines (insert_lines at new d)
      = take (nat (at - td_first d)) (doc_lines d) @ map ln_text new @ drop (nat (at - td_first d)) (doc_lines d)"
    "doc_ok (td_tree (insert_lines at new d))"
    "td_first (insert_lines at new d) = td_first d" "text_doc.more (insert_lines at new d) = text_doc.more d"
  using tree.add_lines [OF assms(1), of "nat (at - td_first d)" new] assms(2,3)
  by (simp_all add: insert_lines_def doc_lines_def take_map drop_map)

lemma remove_lines_text:
  assumes "doc_ok (td_tree d)" and "nat (at - td_first d) + nat n \<le> length (doc_lines d)"
  shows "doc_lines (remove_lines at n d)
      = take (nat (at - td_first d)) (doc_lines d) @ drop (nat (at - td_first d) + nat n) (doc_lines d)"
    "doc_ok (td_tree (remove_lines at n d))"
    "td_first (remove_lines at n d) = td_first d" "text_doc.more (remove_lines at n d) = text_doc.more d"
  using tree.remove_lines [OF assms(1), of "nat (at - td_first d)" "nat n"] assms(2)
  by (simp_all add: remove_lines_def doc_lines_def take_map drop_map)

lemma linesFor_text: "stop \<le> length (cg_text c) \<Longrightarrow> map ln_text (linesFor c spans est start stop) = drop start (take stop (cg_text c))"
  by (intro nth_equalityI) (auto simp: linesFor_def)

text \<open>The tail of a list of which two entries and what is between them are replaced.\<close>

lemma cut_after_Cons: "cut_after L (j, e) = drop e (L ! j) # drop (Suc j) L"
  by (simp add: cut_after_def)

lemma changed_lines_eq:
  assumes "cg_text c \<noteq> []" "cut_of d (cg_from c) = (i, a)" "cut_of d (cg_to c) = (j, b)"
  shows "changed_lines d c = (if length (cg_text c) = 1
      then take i (doc_lines d) @ (take a (doc_lines d ! i) @ hd (cg_text c) @ drop b (doc_lines d ! j)) # drop (Suc j) (doc_lines d)
      else take i (doc_lines d) @ (take a (doc_lines d ! i) @ hd (cg_text c)) # tl (butlast (cg_text c))
        @ (last (cg_text c) @ drop b (doc_lines d ! j)) # drop (Suc j) (doc_lines d))"
proof (cases "cg_text c")
  case (Cons t ts)
  show ?thesis
  proof (cases "ts = []")
    case True
    then show ?thesis using assms Cons by (simp add: changed_lines_def cut_before_def cut_after_def join_eq butlast_append)
  next
    case False
    then have "join (t # ts) (cut_after (doc_lines d) (j, b)) = t # butlast ts @ (last ts @ drop b (doc_lines d ! j)) # drop (Suc j) (doc_lines d)"
      by (simp add: join_eq cut_after_def)
    with False show ?thesis using assms Cons by (simp add: changed_lines_def cut_before_def join_eq butlast_append)
  qed
qed (use assms in simp)

definition full_ok :: "('a) text_doc_scheme \<Rightarrow> change \<Rightarrow> bool" where
  "full_ok d c \<longleftrightarrow> (cg_full c \<longrightarrow> td_first d = 0 \<and> cut_of d (cg_from c) = (0, 0) \<and> cut_of d (cg_to c) = end_of (doc_lines d))"

definition editable :: "('a) text_doc_scheme \<Rightarrow> change \<Rightarrow> bool" where
  "editable d c \<longleftrightarrow> text_ok d \<and> valid_change d c \<and> full_ok d c"

lemma editableD:
  assumes "editable d c" and "cut_of d (cg_from c) = (i, a)" and "cut_of d (cg_to c) = (j, b)"
  shows "i \<le> j" "j < length (doc_lines d)" "a \<le> length (doc_lines d ! i)" "b \<le> length (doc_lines d ! j)" "i = j \<Longrightarrow> a \<le> b"
    "ps_line (cg_from c) = td_first d + int i" "ps_line (cg_to c) = td_first d + int j"
    "ps_ch (cg_from c) = int a" "ps_ch (cg_to c) = int b" "cg_text c \<noteq> []" "text_ok d"
proof -
  have v: "valid_pos d (cg_from c)" "valid_pos d (cg_to c)" "cmp (cg_from c) (cg_to c) \<le> 0"
    and rest: "cg_text c \<noteq> []" "text_ok d" using assms(1) by (simp_all add: editable_def valid_change_def)
  have le: "cut_le (i, a) (j, b)" using cmp_cut(1) [OF v(1,2)] v(3) assms(2,3) by simp
  show "cg_text c \<noteq> []" "text_ok d" by (rule rest)+
  show "i \<le> j" "i = j \<Longrightarrow> a \<le> b" using le by (auto simp: cut_le_def)
  show "j < length (doc_lines d)" "a \<le> length (doc_lines d ! i)" "b \<le> length (doc_lines d ! j)"
    "ps_line (cg_from c) = td_first d + int i" "ps_line (cg_to c) = td_first d + int j"
    "ps_ch (cg_from c) = int a" "ps_ch (cg_to c) = int b"
    using v(1,2) assms(2,3) by (auto simp: valid_pos_def valid_cut_def cut_of_def)
qed

lemma getLine_at:
  assumes "text_ok d" and "i < length (doc_lines d)"
  obtains l where "getLine d (td_first d + int i) = Some l" "ln_text l = doc_lines d ! i"
  using getLine_doc [OF assms(1), of "td_first d + int i"] assms by (auto simp: doc_size_eq)

text \<open>Two entries of a list replaced, and the entries between them removed or others inserted.\<close>

lemma update_two:
  assumes "i < j" "j < length L"
  shows "take (Suc i) (L[i := x, j := y]) @ m @ drop j (L[i := x, j := y]) = take i L @ x # m @ y # drop (Suc j) L"
proof -
  have "take (Suc i) (L[i := x, j := y]) = take i L @ [x]" using assms by (simp add: take_Suc_conv_app_nth)
  moreover have "drop j (L[i := x, j := y]) = y # drop (Suc j) L" using assms by (simp flip: Cons_nth_drop_Suc)
  ultimately show ?thesis by simp
qed

lemma update_one:
  assumes "i < length L" "i \<le> j"
  shows "take (Suc i) (L[i := x]) @ m @ drop (Suc j) (L[i := x]) = take i L @ x # m @ drop (Suc j) L"
  using assms by (simp add: take_Suc_conv_app_nth)

text \<open>The case of a change of whole lines, within a line, to one line, and over several lines.\<close>

lemma linesFor_middle:
  "map ln_text (linesFor c spans est (Suc 0) (length (cg_text c) - Suc 0)) = tl (butlast (cg_text c))"
  by (simp add: linesFor_text butlast_conv_take drop_Suc)

lemma whole_lines_text:
  assumes "text_ok d" "i \<le> j" "j < length (doc_lines d)" "ln_text l = doc_lines d ! j"
    and d1: "d1 = put_line (td_first d + int j) l d"
    and d2: "d2 = (if int j - int i \<noteq> 0 then remove_lines (td_first d + int i) (int j - int i) d1 else d1)"
    and d3: "d3 = (if new \<noteq> [] then insert_lines (td_first d + int i) new d2 else d2)"
  shows "doc_lines d3 = take i (doc_lines d) @ map ln_text new @ drop j (doc_lines d) \<and> doc_ok (td_tree d3)
    \<and> td_first d3 = td_first d \<and> text_doc.more d3 = text_doc.more d"
proof -
  have 1: "doc_lines d1 = doc_lines d" "doc_ok (td_tree d1)" "td_first d1 = td_first d" "text_doc.more d1 = text_doc.more d"
    using put_line_text [OF text_okD(1) [OF assms(1)], of "td_first d + int j" l] assms(3,4)
    by (simp_all add: d1)
  have 2: "doc_lines d2 = take i (doc_lines d) @ drop j (doc_lines d)" "doc_ok (td_tree d2)" "td_first d2 = td_first d"
    "text_doc.more d2 = text_doc.more d"
    using remove_lines_text [OF 1(2), of "td_first d + int i" "int j - int i"] 1 assms(2,3) by (simp_all add: d2 flip: of_nat_diff)
  show ?thesis
    using insert_lines_text [OF 2(2), of "td_first d + int i" new] 2 assms(2,3) by (simp add: d3)
qed

lemma several_lines_text:
  assumes "text_ok d" "i < j" "j < length (doc_lines d)"
    and d1: "d1 = put_line (td_first d + int i) l d" and d2: "d2 = put_line (td_first d + int j) l' d1"
    and d3: "d3 = (if int j - int i > 1 then remove_lines (td_first d + int i + 1) (int j - int i - 1) d2 else d2)"
    and d4: "d4 = insert_lines (td_first d + int i + 1) new d3"
  shows "doc_lines d4 = take i (doc_lines d) @ ln_text l # map ln_text new @ ln_text l' # drop (Suc j) (doc_lines d)
    \<and> doc_ok (td_tree d4) \<and> td_first d4 = td_first d \<and> text_doc.more d4 = text_doc.more d"
proof -
  let ?L = "doc_lines d" and ?M = "(doc_lines d)[i := ln_text l, j := ln_text l']"
  have 1: "doc_lines d1 = ?L[i := ln_text l]" "doc_ok (td_tree d1)" "td_first d1 = td_first d" "text_doc.more d1 = text_doc.more d"
    using put_line_text [OF text_okD(1) [OF assms(1)], of "td_first d + int i" l] assms(2,3) by (simp_all add: d1)
  have 2: "doc_lines d2 = ?M" "doc_ok (td_tree d2)" "td_first d2 = td_first d" "text_doc.more d2 = text_doc.more d"
    using put_line_text [OF 1(2), of "td_first d + int j" l'] 1 assms(2,3) by (simp_all add: d2)
  have n: "nat (int i + 1) = Suc i" by simp
  have 3: "doc_lines d3 = take (Suc i) ?M @ drop j ?M" "doc_ok (td_tree d3)" "td_first d3 = td_first d"
    "text_doc.more d3 = text_doc.more d"
  proof -
    have "doc_lines d3 = take (Suc i) ?M @ drop j ?M \<and> doc_ok (td_tree d3) \<and> td_first d3 = td_first d \<and> text_doc.more d3 = text_doc.more d"
    proof (cases "Suc i = j")
      case True
      have "take (Suc i) ?M @ drop j ?M = ?M" unfolding True by (rule append_take_drop_id)
      then show ?thesis using 2 True by (simp add: d3 del: take_update_cancel)
    next
      case False
      then have j: "nat (int i + 1) + nat (int j - int i - 1) = j" "int j - int i > 1" using assms(2) by auto
      then show ?thesis
        using remove_lines_text [OF 2(2), of "td_first d + int i + 1" "int j - int i - 1"] 2 assms(3) n by (simp add: d3)
    qed
    then show "doc_lines d3 = take (Suc i) ?M @ drop j ?M" "doc_ok (td_tree d3)" "td_first d3 = td_first d"
      "text_doc.more d3 = text_doc.more d" by simp_all
  qed
  have "length (take (Suc i) ?M) = Suc i" using assms(2,3) by simp
  then have "doc_lines d4 = take (Suc i) ?M @ map ln_text new @ drop j ?M"
    using insert_lines_text [OF 3(2), of "td_first d + int i + 1" new] 3 n by (simp add: d4)
  then show ?thesis
    using insert_lines_text [OF 3(2), of "td_first d + int i + 1" new] 3 n assms(2,3) update_two [OF assms(2,3)] by (simp add: d4)
qed

lemma within_line_text:
  assumes "text_ok d" "i < length (doc_lines d)" and d1: "d1 = put_line (td_first d + int i) l d"
  shows "doc_lines d1 = take i (doc_lines d) @ ln_text l # drop (Suc i) (doc_lines d) \<and> doc_ok (td_tree d1)
    \<and> td_first d1 = td_first d \<and> text_doc.more d1 = text_doc.more d"
  using put_line_text [OF text_okD(1) [OF assms(1)], of "td_first d + int i" l] assms(2) by (simp add: d1 upd_conv_take_nth_drop)

lemma split_line_text:
  assumes "text_ok d" "i < length (doc_lines d)" and d1: "d1 = put_line (td_first d + int i) l d"
    and d2: "d2 = insert_lines (td_first d + int i + 1) new d1"
  shows "doc_lines d2 = take i (doc_lines d) @ ln_text l # map ln_text new @ drop (Suc i) (doc_lines d) \<and> doc_ok (td_tree d2)
    \<and> td_first d2 = td_first d \<and> text_doc.more d2 = text_doc.more d"
proof -
  have 1: "doc_lines d1 = (doc_lines d)[i := ln_text l]" "doc_ok (td_tree d1)" "td_first d1 = td_first d" "text_doc.more d1 = text_doc.more d"
    using put_line_text [OF text_okD(1) [OF assms(1)], of "td_first d + int i" l] assms(2) by (simp_all add: d1)
  have n: "nat (int i + 1) = Suc i" by simp
  show ?thesis
    using insert_lines_text [OF 1(2), of "td_first d + int i + 1" new] 1 n assms(2) update_one [OF assms(2), of i "ln_text l" "map ln_text new"]
    by (simp add: d2)
qed

lemma join_lines_text:
  assumes "text_ok d" "i < j" "j < length (doc_lines d)" and d1: "d1 = put_line (td_first d + int i) l d"
    and d2: "d2 = remove_lines (td_first d + int i + 1) (int j - int i) d1"
  shows "doc_lines d2 = take i (doc_lines d) @ ln_text l # drop (Suc j) (doc_lines d) \<and> doc_ok (td_tree d2)
    \<and> td_first d2 = td_first d \<and> text_doc.more d2 = text_doc.more d"
proof -
  have 1: "doc_lines d1 = (doc_lines d)[i := ln_text l]" "doc_ok (td_tree d1)" "td_first d1 = td_first d" "text_doc.more d1 = text_doc.more d"
    using put_line_text [OF text_okD(1) [OF assms(1)], of "td_first d + int i" l] assms(2,3) by (simp_all add: d1)
  have n: "nat (int i + 1) = Suc i" "Suc i + nat (int j - int i) = Suc j" using assms(2) by auto
  show ?thesis
    using remove_lines_text [OF 1(2), of "td_first d + int i + 1" "int j - int i"] 1 n assms(2,3)
      update_one [of i "doc_lines d" j "ln_text l" "[]"]
    by (simp add: d2)
qed

lemma full_text:
  assumes "text_ok d" "td_first d = 0" and d1: "d1 = insert_lines 0 new d"
    and d2: "d2 = remove_lines (int (length new)) (doc_size d1 - int (length new)) d1"
  shows "doc_lines d2 = map ln_text new \<and> doc_ok (td_tree d2) \<and> td_first d2 = td_first d \<and> text_doc.more d2 = text_doc.more d"
proof -
  have 1: "doc_lines d1 = map ln_text new @ doc_lines d" "doc_ok (td_tree d1)" "td_first d1 = 0" "text_doc.more d1 = text_doc.more d"
    using insert_lines_text [OF text_okD(1) [OF assms(1)], of 0 new] assms(2) by (simp_all add: d1)
  have "doc_size d1 = int (length (doc_lines d1))"
    using 1(2) by (simp add: doc_size_def doc_lines_def doc_ok_def counted_size)
  then show ?thesis
    using remove_lines_text [OF 1(2), of "int (length new)" "int (length (doc_lines d))"] 1 assms(2) by (simp add: d2)
qed

lemma updateDoc_text:
  assumes "editable d c"
  shows "\<exists>d'. updateDoc wholeLine est c spans d = Some d' \<and> doc_lines d' = changed_lines d c \<and> text_ok d'
    \<and> td_first d' = td_first d \<and> text_doc.more d' = text_doc.more d"
proof -
  let ?L = "doc_lines d" and ?t = "cg_text c"
  obtain i a where p: "cut_of d (cg_from c) = (i, a)" by (cases "cut_of d (cg_from c)")
  obtain j b where q: "cut_of d (cg_to c) = (j, b)" by (cases "cut_of d (cg_to c)")
  note E = editableD [OF assms p q]
  note ok = E(11) and C = changed_lines_eq [OF E(10) p q]
  have i: "i < length ?L" using E(1,2) by simp
  obtain fl where fl: "getLine d (td_first d + int i) = Some fl" "ln_text fl = ?L ! i" by (rule getLine_at [OF ok i])
  obtain ll where ll: "getLine d (td_first d + int j) = Some ll" "ln_text ll = ?L ! j" by (rule getLine_at [OF ok E(2)])
  have ff: "i = j \<Longrightarrow> fl = ll" using fl(1) ll(1) by simp
  have ne: "changed_lines d c \<noteq> []" using E(10) by (simp add: changed_lines_def)
  have hd: "?t ! 0 = hd ?t" using E(10) by (simp add: hd_conv_nth)
  have one: "length ?t = 1 \<Longrightarrow> last ?t = hd ?t" by (cases ?t) auto
  have fin: "\<exists>d'. r = Some d' \<and> doc_lines d' = changed_lines d c \<and> text_ok d' \<and> td_first d' = td_first d \<and> text_doc.more d' = text_doc.more d"
    if "r = Some d1" "doc_lines d1 = L' \<and> doc_ok (td_tree d1) \<and> td_first d1 = td_first d \<and> text_doc.more d1 = text_doc.more d"
      "changed_lines d c = L'" for r d1 L'
    using that ne by (simp add: text_ok_def)
  note red = updateDoc_def Let_def E(6-9) fl ll
  consider (full) "cg_full c" | (whole) "\<not> cg_full c" "isWholeLineUpdate wholeLine c"
    | (line1) "\<not> cg_full c" "\<not> isWholeLineUpdate wholeLine c" "i = j" "length ?t = 1"
    | (lines) "\<not> cg_full c" "\<not> isWholeLineUpdate wholeLine c" "i = j" "length ?t \<noteq> 1"
    | (glue) "\<not> cg_full c" "\<not> isWholeLineUpdate wholeLine c" "i \<noteq> j" "length ?t = 1"
    | (several) "\<not> cg_full c" "\<not> isWholeLineUpdate wholeLine c" "i \<noteq> j" "length ?t \<noteq> 1" by blast
  then show ?thesis
  proof cases
    case full
    have f: "td_first d = 0" "i = 0" "a = 0" "(j, b) = end_of ?L" using assms full p q by (auto simp: editable_def full_ok_def)
    have "?L ! (length ?L - 1) = last ?L" using E(2) by (cases ?L rule: rev_cases) auto
    then have "changed_lines d c = join [[]] (join ?t [[]])"
      using f E(2) by (simp add: changed_lines_def p q cut_before_def cut_after_def end_of_def)
    then have "changed_lines d c = ?t" using E(10) by simp
    moreover have "map ln_text (linesFor c spans est 0 (length ?t)) = ?t" by (simp add: linesFor_text)
    moreover have "length (linesFor c spans est 0 (length ?t)) = length ?t" by (simp add: linesFor_def)
    moreover have "getLine d (int i) = Some fl" "getLine d (int j) = Some ll" using fl(1) ll(1) f(1) by simp_all
    ultimately show ?thesis
      using full_text [OF ok f(1) refl refl, of "linesFor c spans est 0 (length ?t)"] full f(1) by (intro fin [OF _ _ refl]) (simp_all add: red)
  next
    case whole
    then have w: "a = 0" "b = 0" "last ?t = []" using E(8,9) by (simp_all add: isWholeLineUpdate_def)
    have "changed_lines d c = take i ?L @ butlast ?t @ drop j ?L"
      using w E(2,10) by (cases ?t) (auto simp: C Cons_nth_drop_Suc split: if_splits)
    moreover have "map ln_text (linesFor c spans est 0 (length ?t - 1)) = butlast ?t" by (simp add: linesFor_text butlast_conv_take)
    ultimately have C': "changed_lines d c = take i ?L @ map ln_text (linesFor c spans est 0 (length ?t - 1)) @ drop j ?L" by simp
    have "ln_text (updateLine ll (ln_text ll) s est) = ?L ! j" for s by (simp add: ll)
    note W = whole_lines_text [OF ok E(1,2) this refl refl refl, where new = "linesFor c spans est 0 (length ?t - 1)"]
    show ?thesis
      by (rule fin [OF _ W C'])
        (use whole fl(1) ll(1) in \<open>simp add: updateDoc_def Let_def E(6,7) cong: if_cong option.case_cong\<close>)
  next
    case line1
    then have ij: "j = i" "ll = fl" using ff by simp_all
    note W = within_line_text [OF ok i refl]
    show ?thesis
      by (rule fin [OF _ W]) (use line1(1,2,4) ij one fl in \<open>(simp add: updateDoc_def Let_def E(6-9) C)+\<close>)
  next
    case lines
    then have ij: "j = i" "ll = fl" using ff by simp_all
    note W = split_line_text [OF ok i refl refl]
    show ?thesis
      by (rule fin [OF _ W]) (use lines(1,2,4) ij hd fl in \<open>(simp add: updateDoc_def Let_def E(6-9) C linesFor_middle)+\<close>)
  next
    case glue
    then have "i < j" using E(1) by simp
    note W = join_lines_text [OF ok this E(2) refl refl]
    show ?thesis
      by (rule fin [OF _ W]) (use glue hd fl ll in \<open>(simp add: updateDoc_def Let_def E(6-9) C)+\<close>)
  next
    case several
    then have lt: "i < j" using E(1) by simp
    let ?s = "\<lambda>n. case spans of None \<Rightarrow> [] | Some s \<Rightarrow> if n < length s then s ! n else []"
    note W = several_lines_text [OF ok lt E(2) refl refl refl refl,
      where l = "updateLine fl (take a (?L ! i) @ hd ?t) (?s 0) est"
        and l' = "updateLine ll (last ?t @ drop b (?L ! j)) (?s (length ?t - 1)) est"
        and new = "linesFor c spans est 1 (length ?t - 1)"]
    show ?thesis
    proof (rule fin [OF _ W])
      show "changed_lines d c = take i ?L @ ln_text (updateLine fl (take a (?L ! i) @ hd ?t) (?s 0) est)
        # map ln_text (linesFor c spans est 1 (length ?t - 1))
        @ ln_text (updateLine ll (last ?t @ drop b (?L ! j)) (?s (length ?t - 1)) est) # drop (Suc j) ?L"
        using several(4) by (simp add: C linesFor_middle)
    qed (use several in \<open>simp add: updateDoc_def Let_def E(6-9) fl ll hd cong: if_cong option.case_cong\<close>)
  qed
qed



text \<open>A sub-document that does not start at line 0: setting its value puts the new lines before the
  last line of its first leaf and then removes them again.\<close>

theorem full_change_of_sub_document:
  "map_option doc_lines (updateDoc True None \<lparr>cg_from = Pos 1 0, cg_to = Pos 1 1, cg_text = [[98]], cg_origin = None, cg_full = True\<rparr> None
     \<lparr>td_tree = BranchChunk [LeafChunk [example_line 1]], td_first = 1\<rparr>) = Some [ln_text (example_line 1)]"
  by (simp add: updateDoc_def getLine_def doc_size_def BranchChunk_def LeafChunk_def insert_lines_def remove_lines_def
      doc_insert_def linesFor_def Line_def doc_lines_def Let_def)

end
