(* ===== verification/Cm_Selection.thy ===== *)
theory Cm_Selection
  imports Cm_Position "HOL-Library.Multiset"
begin

text \<open>
  Selections of the editor (\<open>codemirror.js\<close>): ranges, their normal form, and what a change and the
  extending of a selection make of them.
\<close>

section \<open>Ranges and selections\<close>

record sel_range =
  rg_anchor :: pos
  rg_head :: pos

definition Range :: "pos \<Rightarrow> pos \<Rightarrow> sel_range" where
  "Range anchor head = \<lparr>rg_anchor = anchor, rg_head = head\<rparr>"

definition range_from :: "sel_range \<Rightarrow> pos" where
  "range_from r = minPos (rg_anchor r) (rg_head r)"

definition range_to :: "sel_range \<Rightarrow> pos" where
  "range_to r = maxPos (rg_anchor r) (rg_head r)"

definition range_empty :: "sel_range \<Rightarrow> bool" where
  "range_empty r \<longleftrightarrow> ps_line (rg_head r) = ps_line (rg_anchor r) \<and> ps_ch (rg_head r) = ps_ch (rg_anchor r)"

record selection =
  sl_ranges :: "sel_range list"
  sl_primIndex :: nat

definition sel_primary :: "selection \<Rightarrow> sel_range" where
  "sel_primary s = sl_ranges s ! sl_primIndex s"

definition sel_equals :: "selection \<Rightarrow> selection \<Rightarrow> bool" where
  "sel_equals s other \<longleftrightarrow> sl_primIndex other = sl_primIndex s \<and>
     list_all2 (\<lambda>here there. equalCursorPos (rg_anchor here) (rg_anchor there) \<and> equalCursorPos (rg_head here) (rg_head there))
       (sl_ranges s) (sl_ranges other)"

definition sel_deepCopy :: "selection \<Rightarrow> selection" where
  "sel_deepCopy s = s\<lparr>sl_ranges := map (\<lambda>r. Range (copyPos (rg_anchor r)) (copyPos (rg_head r))) (sl_ranges s)\<rparr>"

definition somethingSelected :: "selection \<Rightarrow> bool" where
  "somethingSelected s \<longleftrightarrow> list_ex (\<lambda>r. \<not> range_empty r) (sl_ranges s)"

definition sel_contains :: "selection \<Rightarrow> pos \<Rightarrow> pos option \<Rightarrow> int" where
  "sel_contains s p stop =
     (let e = (case stop of None \<Rightarrow> p | Some e \<Rightarrow> e)
      in case find (\<lambda>i. cmp e (range_from (sl_ranges s ! i)) \<ge> 0 \<and> cmp p (range_to (sl_ranges s ! i)) \<le> 0) [0..<length (sl_ranges s)] of
           Some i \<Rightarrow> int i
         | None \<Rightarrow> -1)"

section \<open>Normal form\<close>

text \<open>The ranges are sorted by where they start; the array method is stable. Each range is tagged
  with its index, by which the primary range is found again, as the code finds the object.\<close>

fun insert_range :: "nat \<times> sel_range \<Rightarrow> (nat \<times> sel_range) list \<Rightarrow> (nat \<times> sel_range) list" where
  "insert_range x [] = [x]"
| "insert_range x (y # ys) =
     (if cmp (range_from (snd x)) (range_from (snd y)) \<le> 0 then x # y # ys else y # insert_range x ys)"

definition sort_ranges :: "(nat \<times> sel_range) list \<Rightarrow> (nat \<times> sel_range) list" where
  "sort_ranges rs = foldr insert_range rs []"

fun tag_index :: "nat \<Rightarrow> (nat \<times> sel_range) list \<Rightarrow> nat" where
  "tag_index k [] = 0"
| "tag_index k (x # xs) = (if fst x = k then 0 else Suc (tag_index k xs))"

text \<open>\<open>inv\<close>: the merged range keeps the direction of the first, or of the second if the first is
  empty. \<open>from()\<close> is the head itself unless the anchor is less.\<close>

definition head_first :: "sel_range \<Rightarrow> bool" where
  "head_first r \<longleftrightarrow> \<not> cmp (rg_anchor r) (rg_head r) < 0"

definition merge_ranges :: "sel_range \<Rightarrow> sel_range \<Rightarrow> sel_range" where
  "merge_ranges prev cur =
     (let start = minPos (range_from prev) (range_from cur); stop = maxPos (range_to prev) (range_to cur);
          inv = (if range_empty prev then head_first cur else head_first prev)
      in Range (if inv then stop else start) (if inv then start else stop))"

fun normalize_loop :: "sel_range list \<Rightarrow> sel_range list \<Rightarrow> nat \<Rightarrow> sel_range list \<times> nat" where
  "normalize_loop seen [] prim = (rev seen, prim)"
| "normalize_loop [] (cur # rest) prim = normalize_loop [cur] rest prim"
| "normalize_loop (prev # seen) (cur # rest) prim =
     (if cmp (range_to prev) (range_from cur) \<ge> 0
      then normalize_loop (merge_ranges prev cur # seen) rest (if Suc (length seen) \<le> prim then prim - 1 else prim)
      else normalize_loop (cur # prev # seen) rest prim)"

definition normalizeSelection :: "sel_range list \<Rightarrow> nat \<Rightarrow> selection" where
  "normalizeSelection ranges primIndex =
     (let sorted_ranges = sort_ranges (zip [0..<length ranges] ranges);
          prim = tag_index primIndex sorted_ranges
      in case normalize_loop [] (map snd sorted_ranges) prim of
           (ranges', prim') \<Rightarrow> \<lparr>sl_ranges = ranges', sl_primIndex = prim'\<rparr>)"

definition simpleSelection :: "pos \<Rightarrow> pos option \<Rightarrow> selection" where
  "simpleSelection anchor head =
     \<lparr>sl_ranges = [Range anchor (case head of None \<Rightarrow> anchor | Some h \<Rightarrow> h)], sl_primIndex = 0\<rparr>"

section \<open>Selections and changes\<close>

definition computeSelAfterChange :: "selection \<Rightarrow> change \<Rightarrow> selection" where
  "computeSelAfterChange sel c =
     normalizeSelection (map (\<lambda>r. Range (adjustForChange (rg_anchor r) c) (adjustForChange (rg_head r) c)) (sl_ranges sel))
       (sl_primIndex sel)"

fun replaced_ranges :: "bool \<Rightarrow> sel_range list \<Rightarrow> change list \<Rightarrow> pos \<Rightarrow> pos \<Rightarrow> sel_range list" where
  "replaced_ranges around rs [] oldPrev newPrev = []"
| "replaced_ranges around rs (c # cs) oldPrev newPrev =
     (let start = offsetPos (cg_from c) oldPrev newPrev;
          stop = offsetPos (changeEnd (cg_from c) (cg_text c)) oldPrev newPrev;
          r = (case rs of
                 r # _ \<Rightarrow>
                   if around
                   then (let inv = cmp (rg_head r) (rg_anchor r) < 0
                         in Range (if inv then stop else start) (if inv then start else stop))
                   else Range start start
               | [] \<Rightarrow> Range start start)
      in r # replaced_ranges around (tl rs) cs (cg_to c) stop)"

definition computeReplacedSel :: "int \<Rightarrow> selection \<Rightarrow> change list \<Rightarrow> string \<Rightarrow> selection" where
  "computeReplacedSel first sel changes hint =
     \<lparr>sl_ranges = replaced_ranges (hint = ''around'') (sl_ranges sel) changes (Pos first 0) (Pos first 0),
      sl_primIndex = sl_primIndex sel\<rparr>"

text \<open>Extending a range keeps its anchor, or moves it when the other end is on its other side.\<close>

definition extendRange :: "sel_range \<Rightarrow> pos \<Rightarrow> pos option \<Rightarrow> bool \<Rightarrow> sel_range" where
  "extendRange r head other ext =
     (if ext
      then (case other of
              None \<Rightarrow> Range (rg_anchor r) head
            | Some oth \<Rightarrow>
                let anchor = rg_anchor r; posBefore = cmp head anchor < 0
                in if posBefore \<noteq> (cmp oth anchor < 0) then Range head oth
                   else if posBefore \<noteq> (cmp head oth < 0) then Range anchor oth
                   else Range anchor head)
      else Range (case other of None \<Rightarrow> head | Some oth \<Rightarrow> oth) head)"

section \<open>Normal forms are disjoint and lose nothing\<close>

definition covers :: "sel_range \<Rightarrow> pos \<Rightarrow> bool" where
  "covers r p \<longleftrightarrow> cmp (range_from r) p \<le> 0 \<and> cmp p (range_to r) \<le> 0"

definition within :: "sel_range \<Rightarrow> sel_range \<Rightarrow> bool" where
  "within r r' \<longleftrightarrow> cmp (range_from r') (range_from r) \<le> 0 \<and> cmp (range_to r) (range_to r') \<le> 0"

text \<open>Comparing positions is comparing pairs of line and column, so the order facts below are
  facts on integers.\<close>

lemma range_ordered: "cmp (range_from r) (range_to r) \<le> 0"
  by (auto simp: range_from_def range_to_def minPos_def maxPos_def cmp_def split: if_splits)

lemma within_refl [simp]: "within r r"
  by (simp add: within_def)

lemma within_trans: "within a b \<Longrightarrow> within b c \<Longrightarrow> within a c"
  unfolding within_def using cmp_le_trans by blast

lemma merge_ends:
  "range_from (merge_ranges a b) = minPos (range_from a) (range_from b) \<or>
     cmp (range_from (merge_ranges a b)) (minPos (range_from a) (range_from b)) = 0"
  "cmp (range_from (merge_ranges a b)) (minPos (range_from a) (range_from b)) = 0"
  "cmp (range_to (merge_ranges a b)) (maxPos (range_to a) (range_to b)) = 0"
proof -
  have le: "cmp (minPos (range_from a) (range_from b)) (maxPos (range_to a) (range_to b)) \<le> 0"
    using range_ordered [of a] range_ordered [of b] by (auto simp: minPos_def maxPos_def cmp_def split: if_splits)
  then show "cmp (range_from (merge_ranges a b)) (minPos (range_from a) (range_from b)) = 0"
    "cmp (range_to (merge_ranges a b)) (maxPos (range_to a) (range_to b)) = 0"
    unfolding merge_ranges_def Let_def Range_def range_from_def [of "\<lparr>rg_anchor = _, rg_head = _\<rparr>"]
      range_to_def [of "\<lparr>rg_anchor = _, rg_head = _\<rparr>"]
    by (auto simp: minPos_def [of "minPos _ _"] minPos_def [of "maxPos _ _"] maxPos_def [of "minPos _ _"] maxPos_def [of "maxPos _ _"]
        cmp_def split: if_splits)
  then show "range_from (merge_ranges a b) = minPos (range_from a) (range_from b) \<or>
     cmp (range_from (merge_ranges a b)) (minPos (range_from a) (range_from b)) = 0" by simp
qed

lemma cmp_cong: "cmp x y = 0 \<Longrightarrow> cmp x p = cmp y p \<and> cmp p x = cmp p y"
  by (auto simp: cmp_def split: if_splits)

lemma cmp_total: "cmp x y \<le> 0 \<or> cmp y x \<le> 0"
  by (auto simp: cmp_def)

lemma minPos_le: "cmp (minPos x y) x \<le> 0" "cmp (minPos x y) y \<le> 0"
  "cmp p (minPos x y) \<le> 0 \<longleftrightarrow> cmp p x \<le> 0 \<and> cmp p y \<le> 0"
  by (auto simp: minPos_def cmp_def split: if_splits)

lemma maxPos_le: "cmp x (maxPos x y) \<le> 0" "cmp y (maxPos x y) \<le> 0"
  "cmp p (maxPos x y) \<le> 0 \<longleftrightarrow> cmp p x \<le> 0 \<or> cmp p y \<le> 0"
  by (auto simp: maxPos_def cmp_def split: if_splits)

lemma merge_within: "within a (merge_ranges a b)" "within b (merge_ranges a b)"
  using cmp_cong [OF merge_ends(2) [of a b]] cmp_cong [OF merge_ends(3) [of a b]]
  by (simp_all add: within_def minPos_le maxPos_le)

lemma merge_from: "cmp (range_from a) (range_from b) \<le> 0 \<Longrightarrow> cmp (range_from (merge_ranges a b)) (range_from a) = 0"
  using merge_ends(2) [of a b] by (auto simp: minPos_def cmp_def split: if_splits)

lemma merge_covers:
  assumes "cmp (range_from a) (range_from b) \<le> 0" and "cmp (range_to a) (range_from b) \<ge> 0"
  shows "covers (merge_ranges a b) p \<longleftrightarrow> covers a p \<or> covers b p"
proof
  assume "covers a p \<or> covers b p"
  then show "covers (merge_ranges a b) p"
    using merge_within [where a = a and b = b] unfolding covers_def within_def by (meson cmp_le_trans)
next
  assume c: "covers (merge_ranges a b) p"
  then have low: "cmp (range_from a) p \<le> 0"
    using merge_from [OF assms(1)] cmp_cong unfolding covers_def by metis
  have "cmp p (range_to a) \<le> 0 \<or> cmp p (range_to b) \<le> 0"
    using c merge_ends(3) [of a b] cmp_cong maxPos_le(3) unfolding covers_def by metis
  moreover have "cmp (range_from b) p \<le> 0" if "\<not> cmp p (range_to a) \<le> 0"
  proof -
    have "cmp (range_from b) (range_to a) \<le> 0" using assms(2) cmp_antisym [of "range_to a"] by simp
    moreover have "cmp (range_to a) p \<le> 0" using that cmp_total by blast
    ultimately show ?thesis by (rule cmp_le_trans)
  qed
  ultimately show "covers a p \<or> covers b p" using low unfolding covers_def by blast
qed

definition separated :: "sel_range list \<Rightarrow> bool" where
  "separated rs \<longleftrightarrow> sorted_wrt (\<lambda>a b. cmp (range_to a) (range_from b) < 0) rs"

abbreviation from_le :: "sel_range \<Rightarrow> sel_range \<Rightarrow> bool" where
  "from_le a b \<equiv> cmp (range_from a) (range_from b) \<le> 0"

lemma normalize_loop_correct:
  assumes "separated (rev seen)" and "sorted_wrt from_le rest"
    and "seen \<noteq> [] \<Longrightarrow> \<forall>r \<in> set rest. from_le (hd seen) r" and "prim < length seen + length rest"
    and "normalize_loop seen rest prim = (rs, k)"
  shows "separated rs \<and> (\<forall>p. (\<exists>r \<in> set rs. covers r p) \<longleftrightarrow> (\<exists>r \<in> set seen \<union> set rest. covers r p))
    \<and> k < length rs \<and> within ((rev seen @ rest) ! prim) (rs ! k)"
  using assms
proof (induction seen rest prim rule: normalize_loop.induct)
  case (1 seen prim)
  then show ?case by (auto simp: separated_def)
next
  case (2 cur rest prim)
  then show ?case by (auto simp: separated_def)
next
  case (3 prev seen cur rest prim)
  have fl: "from_le prev cur" "\<forall>r \<in> set rest. from_le cur r" "sorted_wrt from_le rest" using 3(4,5) by simp_all
  show ?case
  proof (cases "cmp (range_to prev) (range_from cur) \<ge> 0")
    case True
    let ?m = "merge_ranges prev cur" and ?prim = "if Suc (length seen) \<le> prim then prim - 1 else prim"
    have run: "normalize_loop (?m # seen) rest ?prim = (rs, k)" using True 3(7) by simp
    have m: "cmp (range_from ?m) (range_from prev) = 0" by (rule merge_from [OF fl(1)])
    have sep: "separated (rev (?m # seen))"
      using 3(3) cmp_cong [OF m] by (auto simp: separated_def sorted_wrt_append)
    have le: "\<forall>r \<in> set rest. from_le (hd (?m # seen)) r"
      using 3(5) cmp_cong [OF m] by simp
    have len: "?prim < length (?m # seen) + length rest" using 3(6) by auto
    from 3(1) [OF True sep fl(3) le len run]
    have IH: "separated rs" "\<forall>p. (\<exists>r \<in> set rs. covers r p) \<longleftrightarrow> (\<exists>r \<in> set (?m # seen) \<union> set rest. covers r p)"
      "k < length rs" "within ((rev (?m # seen) @ rest) ! ?prim) (rs ! k)" by blast+
    have "within ((rev (prev # seen) @ cur # rest) ! prim) ((rev (?m # seen) @ rest) ! ?prim)"
    proof -
      consider "prim < length seen" | "prim = length seen" | "prim = Suc (length seen)" | "prim > Suc (length seen)" by linarith
      then show ?thesis
      proof cases
        case 4
        then obtain j where "prim = Suc (Suc (length seen + j))" by (metis add_Suc less_imp_Suc_add)
        then show ?thesis by (simp add: nth_append)
      qed (simp_all add: nth_append merge_within)
    qed
    moreover have "(\<exists>r \<in> set (?m # seen) \<union> set rest. covers r p) \<longleftrightarrow> (\<exists>r \<in> set (prev # seen) \<union> set (cur # rest). covers r p)" for p
      using merge_covers [OF fl(1) True, of p] by auto
    ultimately show ?thesis using IH within_trans by blast
  next
    case False
    have run: "normalize_loop (cur # prev # seen) rest prim = (rs, k)" using False 3(7) by simp
    have "cmp (range_to a) (range_from cur) < 0" if "a \<in> set seen" for a
    proof -
      have "cmp (range_to a) (range_from prev) < 0" using that 3(3) by (auto simp: separated_def sorted_wrt_append)
      with fl(1) show ?thesis by (auto simp: cmp_def split: if_splits)
    qed
    then have sep: "separated (rev (cur # prev # seen))"
      using 3(3) False by (auto simp: separated_def sorted_wrt_append)
    have le: "\<forall>r \<in> set rest. from_le (hd (cur # prev # seen)) r" using fl(2) by simp
    have len: "prim < length (cur # prev # seen) + length rest" using 3(6) by simp
    from 3(2) [OF False sep fl(3) le len run] show ?thesis by auto
  qed
qed

lemma insert_range_perm: "mset (insert_range x ys) = add_mset x (mset ys)"
  by (induction ys) auto

lemma sort_ranges_perm: "mset (sort_ranges rs) = mset rs"
  by (induction rs) (auto simp: sort_ranges_def insert_range_perm)

lemma insert_range_sorted:
  "sorted_wrt (\<lambda>x y. from_le (snd x) (snd y)) ys \<Longrightarrow> sorted_wrt (\<lambda>x y. from_le (snd x) (snd y)) (insert_range x ys)"
proof (induction ys)
  case (Cons y ys)
  have set: "set (insert_range x ys) = insert x (set ys)"
    using insert_range_perm [of x ys] by (metis set_mset_add_mset_insert set_mset_mset)
  show ?case
  proof (cases "from_le (snd x) (snd y)")
    case True
    then show ?thesis using Cons.prems by (auto intro: cmp_le_trans)
  next
    case False
    then have "from_le (snd y) (snd x)" using cmp_total by blast
    then show ?thesis using Cons False by (simp add: set)
  qed
qed simp

lemma sort_ranges_sorted: "sorted_wrt (\<lambda>x y. from_le (snd x) (snd y)) (sort_ranges rs)"
  by (induction rs) (auto simp: sort_ranges_def insert_range_sorted)

lemma tag_index_nth: "k \<in> fst ` set xs \<Longrightarrow> tag_index k xs < length xs \<and> fst (xs ! tag_index k xs) = k"
  by (induction xs) auto

text \<open>C24. The normal form of a list of ranges is sorted, its ranges neither overlap nor touch, they
  cover exactly the positions the given ranges cover, and the primary range of the result
  contains the primary range it was given.\<close>

theorem normalizeSelection_correct:
  assumes "prim < length ranges"
  shows "separated (sl_ranges (normalizeSelection ranges prim))
    \<and> (\<forall>p. (\<exists>r \<in> set (sl_ranges (normalizeSelection ranges prim)). covers r p) \<longleftrightarrow> (\<exists>r \<in> set ranges. covers r p))
    \<and> sl_primIndex (normalizeSelection ranges prim) < length (sl_ranges (normalizeSelection ranges prim))
    \<and> within (ranges ! prim) (sel_primary (normalizeSelection ranges prim))"
proof -
  define sr where "sr = sort_ranges (zip [0..<length ranges] ranges)"
  define j where "j = tag_index prim sr"
  have set: "set sr = set (zip [0..<length ranges] ranges)"
    using sort_ranges_perm [of "zip [0..<length ranges] ranges"] unfolding sr_def by (metis set_mset_mset)
  have "(prim, ranges ! prim) \<in> set sr" using assms by (force simp: set set_zip)
  then have j: "j < length sr" "fst (sr ! j) = prim" using tag_index_nth [of prim sr] by (force simp: j_def)+
  then have "sr ! j \<in> set (zip [0..<length ranges] ranges)" using set nth_mem by blast
  then have rj: "map snd sr ! j = ranges ! prim" using j by (auto simp: set_zip)
  have ranges: "set (map snd sr) = set ranges" by (auto simp: set set_zip image_iff in_set_conv_nth, force?)
  have sorted: "sorted_wrt from_le (map snd sr)" using sort_ranges_sorted by (simp add: sr_def sorted_wrt_map)
  obtain rs k where run: "normalize_loop [] (map snd sr) j = (rs, k)" by (metis surj_pair)
  from normalize_loop_correct [of "[]", OF _ sorted _ _ run] j(1) have
    "separated rs \<and> (\<forall>p. (\<exists>r \<in> set rs. covers r p) \<longleftrightarrow> (\<exists>r \<in> set ranges. covers r p)) \<and> k < length rs
      \<and> within (ranges ! prim) (rs ! k)"
    using ranges rj by (simp add: separated_def del: set_map nth_map)
  moreover have "normalizeSelection ranges prim = \<lparr>sl_ranges = rs, sl_primIndex = k\<rparr>"
    using run by (simp add: normalizeSelection_def sr_def j_def Let_def)
  ultimately show ?thesis by (simp add: sel_primary_def)
qed

theorem normalizeSelection_correct_witness:
  "separated (sl_ranges (normalizeSelection [Range (Pos 3 0) (Pos 2 0), Range (Pos 0 1) (Pos 2 0), Range (Pos 5 5) (Pos 5 5)] 0))
   \<and> within (Range (Pos 3 0) (Pos 2 0))
       (sel_primary (normalizeSelection [Range (Pos 3 0) (Pos 2 0), Range (Pos 0 1) (Pos 2 0), Range (Pos 5 5) (Pos 5 5)] 0))"
proof -
  have "0 < length [Range (Pos 3 0) (Pos 2 0), Range (Pos 0 1) (Pos 2 0), Range (Pos 5 5) (Pos 5 5)]" by simp
  from normalizeSelection_correct [OF this] show ?thesis by simp
qed


end
