(* ===== verification/Cm_History.thy ===== *)
theory Cm_History
  imports Cm_Update Cm_Selection
begin

text \<open>
  The history of a document (\<open>codemirror.js\<close>): the stacks of events that were done and undone, when a
  change is merged with the last event, and how undo and redo move events between the stacks. The
  stacks are lists with the newest event first.
\<close>

section \<open>Events\<close>

text \<open>A change as the history stores it: what has to replace a range to revert it, with the spans
  of the replaced lines, numbered from 0.\<close>

record hist_change =
  hc_from :: pos
  hc_to :: pos
  hc_text :: "js_text list"
  hc_spans :: "(nat \<Rightarrow> marked_span list) option"

datatype hist_event = SelEvent selection | ChangeEvent "hist_change list" "nat option"

fun is_sel :: "hist_event \<Rightarrow> bool" where
  "is_sel (SelEvent s) = True"
| "is_sel (ChangeEvent cs g) = False"

text \<open>An operation is known by its number; outside an editor it is \<open>NaN\<close>, which is equal to
  nothing, here \<open>None\<close>, as the null the fields start with.\<close>

type_synonym operation = "nat option"

definition same_op :: "operation \<Rightarrow> operation \<Rightarrow> bool" where
  "same_op a b \<longleftrightarrow> a \<noteq> None \<and> a = b"

record history =
  hs_done :: "hist_event list"
  hs_undone :: "hist_event list"
  hs_undoDepth :: "nat option"
  hs_lastModTime :: int
  hs_lastSelTime :: int
  hs_lastOp :: operation
  hs_lastSelOp :: operation
  hs_lastOrigin :: "string option"
  hs_lastSelOrigin :: "string option"
  hs_generation :: nat
  hs_maxGeneration :: nat

definition History :: "nat \<Rightarrow> history" where
  "History startGen = \<lparr>hs_done = [], hs_undone = [], hs_undoDepth = None, hs_lastModTime = 0, hs_lastSelTime = 0,
     hs_lastOp = None, hs_lastSelOp = None, hs_lastOrigin = None, hs_lastSelOrigin = None,
     hs_generation = (if startGen = 0 then 1 else startGen), hs_maxGeneration = (if startGen = 0 then 1 else startGen)\<rparr>"

text \<open>A document with its selection and history.\<close>

record cm_doc = text_doc +
  cd_sel :: selection
  cd_hist :: history
  cd_cleanGeneration :: nat

text \<open>What an operation gets from outside the document: its number, the clock, the editor the document
  is attached to with its options, the markers, and the handlers of the events that can change or
  cancel a change or a selection. \<open>ed_newSelection\<close> also stands for the atomic spans a selection
  must not end in.\<close>

record editor =
  ed_op :: operation
  ed_time :: int
  ed_attached :: bool
  ed_delay :: int
  ed_suppressEdits :: bool
  ed_wholeLine :: bool
  ed_estimate :: "(line \<Rightarrow> int) option"
  ed_markers :: markers
  ed_find :: "nat \<Rightarrow> pos \<times> pos"
  ed_sawReadOnly :: bool
  ed_beforeChange :: "(change \<Rightarrow> change option) option"
  ed_newSelection :: "selection \<Rightarrow> selection \<Rightarrow> selection"

section \<open>Adding to the history\<close>

definition attachLocalSpans ::
  "('a) text_doc_scheme \<Rightarrow> int \<Rightarrow> int \<Rightarrow> (nat \<Rightarrow> marked_span list) option" where
  "attachLocalSpans d from_line to_line =
     (let spans = doc_iter d (max (td_first d) from_line) (min (td_first d + doc_size d) to_line)
            (\<lambda>l out. (False, out @ [ln_spans l])) []
      in if list_all (\<lambda>s. s = []) spans then None else Some (\<lambda>n. if n < length spans then spans ! n else []))"

definition historyChangeFromChange :: "('a) text_doc_scheme \<Rightarrow> change \<Rightarrow> hist_change" where
  "historyChangeFromChange d c =
     \<lparr>hc_from = copyPos (cg_from c), hc_to = changeEnd (cg_from c) (cg_text c), hc_text = getBetween d (cg_from c) (cg_to c),
      hc_spans = attachLocalSpans d (ps_line (cg_from c)) (ps_line (cg_to c) + 1)\<rparr>"

fun clearSelectionEvents :: "hist_event list \<Rightarrow> hist_event list" where
  "clearSelectionEvents [] = []"
| "clearSelectionEvents (e # es) = (if is_sel e then clearSelectionEvents es else e # es)"

text \<open>The top change event; the result is the stack with it on top, or the stack without one.\<close>

definition lastChangeEvent :: "hist_event list \<Rightarrow> bool \<Rightarrow> hist_event list \<times> (hist_change list \<times> nat option) option" where
  "lastChangeEvent events force =
     (if force
      then (let es = clearSelectionEvents events
            in (es, case es of ChangeEvent cs g # _ \<Rightarrow> Some (cs, g) | _ \<Rightarrow> None))
      else case events of
             ChangeEvent cs g # es \<Rightarrow> (events, Some (cs, g))
           | SelEvent s # ChangeEvent cs g # es \<Rightarrow> (ChangeEvent cs g # es, Some (cs, g))
           | _ \<Rightarrow> (events, None))"

definition pushSelectionToHistory :: "selection \<Rightarrow> hist_event list \<Rightarrow> hist_event list" where
  "pushSelectionToHistory sel dest =
     (case dest of SelEvent prev # _ \<Rightarrow> if sel_equals prev sel then dest else SelEvent sel # dest | _ \<Rightarrow> SelEvent sel # dest)"

definition mergeable_origin :: "editor \<Rightarrow> history \<Rightarrow> string option \<Rightarrow> bool" where
  "mergeable_origin e hist origin \<longleftrightarrow>
     hs_lastOrigin hist = origin \<and>
     (case origin of
        Some (ch # _) \<Rightarrow> ch = CHR ''+'' \<and> ed_attached e \<and> hs_lastModTime hist > ed_time e - ed_delay e \<or> ch = CHR ''*''
      | _ \<Rightarrow> False)"

text \<open>The oldest events go when there are too many.\<close>

definition shift_events :: "hist_event list \<Rightarrow> hist_event list" where
  "shift_events es =
     (let es' = butlast es in if es' \<noteq> [] \<and> \<not> is_sel (last es') then butlast es' else es')"

function trim_events :: "nat \<Rightarrow> hist_event list \<Rightarrow> hist_event list" where
  "trim_events depth es = (if length es > depth then trim_events depth (shift_events es) else es)"
  by pat_completeness auto
termination
  by (relation "measure (\<lambda>(depth, es). length es)") (auto simp: shift_events_def Let_def)

declare trim_events.simps [simp del]

text \<open>The change is merged with the last event, which fails for an insertion if that event has no
  change, or it starts a new event.\<close>

definition merge_change :: "cm_doc \<Rightarrow> change \<Rightarrow> hist_change list \<Rightarrow> hist_change list option" where
  "merge_change d c changes =
     (if cmp (cg_from c) (cg_to c) = 0
      then (if changes = [] then None
            else if cmp (cg_from c) (hc_to (last changes)) = 0
            then Some (butlast changes @ [(last changes)\<lparr>hc_to := changeEnd (cg_from c) (cg_text c)\<rparr>])
            else Some (changes @ [historyChangeFromChange d c]))
      else Some (changes @ [historyChangeFromChange d c]))"

definition new_event :: "cm_doc \<Rightarrow> change \<Rightarrow> hist_event list \<Rightarrow> hist_event list" where
  "new_event d c events =
     (let before = (case events of SelEvent s # _ \<Rightarrow> events | _ \<Rightarrow> pushSelectionToHistory (cd_sel d) events);
          pushed = ChangeEvent [historyChangeFromChange d c] (Some (hs_generation (cd_hist d))) # before
      in case hs_undoDepth (cd_hist d) of None \<Rightarrow> pushed | Some depth \<Rightarrow> trim_events depth pushed)"

definition addChangeToHistory :: "editor \<Rightarrow> change \<Rightarrow> selection \<Rightarrow> cm_doc \<Rightarrow> history option" where
  "addChangeToHistory e c selAfter d =
     (let hist = (cd_hist d)\<lparr>hs_undone := []\<rparr>;
          sameOp = same_op (hs_lastOp hist) (ed_op e);
          (events, cur) = (if sameOp \<or> mergeable_origin e hist (cg_origin c)
                           then lastChangeEvent (hs_done hist) sameOp else (hs_done hist, None));
          events' = (case cur of
               Some (changes, g) \<Rightarrow> map_option (\<lambda>cs. ChangeEvent cs g # tl events) (merge_change d c changes)
             | None \<Rightarrow> Some (new_event d c events))
      in map_option (\<lambda>events'.
           hist\<lparr>hs_done := SelEvent selAfter # events', hs_generation := hs_maxGeneration hist + 1,
                hs_maxGeneration := hs_maxGeneration hist + 1, hs_lastModTime := ed_time e, hs_lastSelTime := ed_time e,
                hs_lastOp := ed_op e, hs_lastSelOp := ed_op e, hs_lastOrigin := cg_origin c, hs_lastSelOrigin := cg_origin c\<rparr>) events')"

text \<open>A selection is merged with the one on top of the stack, or pushed. An empty stack or a change on
  top fails when the selections are to be compared.\<close>

definition selectionEventCanBeMerged :: "editor \<Rightarrow> history \<Rightarrow> string \<Rightarrow> hist_event list \<Rightarrow> selection \<Rightarrow> bool option" where
  "selectionEventCanBeMerged e hist origin events sel =
     (if origin \<noteq> [] \<and> hd origin = CHR ''*'' then Some True
      else if origin \<noteq> [] \<and> hd origin = CHR ''+''
      then (case events of
              SelEvent prev # _ \<Rightarrow>
                Some (length (sl_ranges prev) = length (sl_ranges sel) \<and> somethingSelected prev = somethingSelected sel
                  \<and> ed_time e - hs_lastSelTime hist \<le> (if ed_attached e then ed_delay e else 500))
            | _ \<Rightarrow> None)
      else Some False)"

definition replace_top :: "selection \<Rightarrow> hist_event list \<Rightarrow> hist_event list" where
  "replace_top sel events = (case events of [] \<Rightarrow> [] | _ # es \<Rightarrow> SelEvent sel # es)"

record sel_options =
  so_origin :: "string option"
  so_clearRedo :: bool

definition addSelectionToHistory :: "editor \<Rightarrow> selection \<Rightarrow> sel_options option \<Rightarrow> cm_doc \<Rightarrow> history option" where
  "addSelectionToHistory e sel options d =
     (let hist = cd_hist d; origin = (case options of None \<Rightarrow> None | Some os \<Rightarrow> so_origin os);
          merge = (if same_op (ed_op e) (hs_lastSelOp hist) then Some True
                   else case origin of
                          None \<Rightarrow> Some False
                        | Some org \<Rightarrow>
                            if org = [] \<or> hs_lastSelOrigin hist \<noteq> Some org then Some False
                            else if hs_lastModTime hist = hs_lastSelTime hist \<and> hs_lastOrigin hist = Some org then Some True
                            else selectionEventCanBeMerged e hist org (hs_done hist) sel)
      in map_option (\<lambda>merge.
           hist\<lparr>hs_done := (if merge then replace_top sel (hs_done hist) else pushSelectionToHistory sel (hs_done hist)),
                hs_lastSelTime := ed_time e, hs_lastSelOrigin := origin, hs_lastSelOp := ed_op e,
                hs_undone := (case options of
                    Some os \<Rightarrow> if so_clearRedo os then clearSelectionEvents (hs_undone hist) else hs_undone hist
                  | None \<Rightarrow> hs_undone hist)\<rparr>) merge)"

end
