(* ===== verification/Cm_Edit.thy ===== *)
theory Cm_Edit
  imports Cm_History "HOL-Library.Monad_Syntax"
begin

text \<open>
  Editing a document (\<open>codemirror.js\<close>): setting selections, making changes, undo and redo, and the
  methods of a document. An operation that fails with an error of the language is \<open>None\<close>. What an
  editor displays is left out, and so are linked documents, except that a change is clipped to the
  lines of the document.
\<close>

section \<open>Selections\<close>

definition setSelectionInner :: "selection \<Rightarrow> cm_doc \<Rightarrow> cm_doc" where
  "setSelectionInner sel d = (if sel_equals sel (cd_sel d) then d else d\<lparr>cd_sel := sel\<rparr>)"

definition setSelectionNoUndo :: "editor \<Rightarrow> selection \<Rightarrow> cm_doc \<Rightarrow> cm_doc" where
  "setSelectionNoUndo e sel d = setSelectionInner (ed_newSelection e (cd_sel d) sel) d"

definition setSelection :: "editor \<Rightarrow> selection \<Rightarrow> sel_options option \<Rightarrow> cm_doc \<Rightarrow> cm_doc option" where
  "setSelection e sel options d =
     (let d1 = setSelectionNoUndo e sel d
      in map_option (\<lambda>h. d1\<lparr>cd_hist := h\<rparr>) (addSelectionToHistory e (cd_sel d1) options d1))"

definition setSelectionReplaceHistory :: "editor \<Rightarrow> selection \<Rightarrow> sel_options option \<Rightarrow> cm_doc \<Rightarrow> cm_doc option" where
  "setSelectionReplaceHistory e sel options d =
     (case hs_done (cd_hist d) of
        SelEvent s # es \<Rightarrow> Some (setSelectionNoUndo e sel (d\<lparr>cd_hist := (cd_hist d)\<lparr>hs_done := SelEvent sel # es\<rparr>\<rparr>))
      | _ \<Rightarrow> setSelection e sel options d)"

definition extendSelection :: "editor \<Rightarrow> pos \<Rightarrow> pos option \<Rightarrow> sel_options option \<Rightarrow> bool \<Rightarrow> cm_doc \<Rightarrow> cm_doc option" where
  "extendSelection e head other options ext d =
     setSelection e \<lparr>sl_ranges = [extendRange (sel_primary (cd_sel d)) head other ext], sl_primIndex = 0\<rparr> options d"

definition extendSelections :: "editor \<Rightarrow> pos list \<Rightarrow> sel_options option \<Rightarrow> bool \<Rightarrow> cm_doc \<Rightarrow> cm_doc option" where
  "extendSelections e heads options ext d =
     setSelection e (normalizeSelection
         (map (\<lambda>i. extendRange (sl_ranges (cd_sel d) ! i) (heads ! i) None ext) [0..<length (sl_ranges (cd_sel d))])
         (sl_primIndex (cd_sel d))) options d"

definition replaceOneSelection :: "editor \<Rightarrow> nat \<Rightarrow> sel_range \<Rightarrow> sel_options option \<Rightarrow> cm_doc \<Rightarrow> cm_doc option" where
  "replaceOneSelection e i r options d =
     setSelection e (normalizeSelection ((sl_ranges (cd_sel d))[i := r]) (sl_primIndex (cd_sel d))) options d"

definition setSimpleSelection :: "editor \<Rightarrow> pos \<Rightarrow> pos option \<Rightarrow> sel_options option \<Rightarrow> cm_doc \<Rightarrow> cm_doc option" where
  "setSimpleSelection e anchor head options d = setSelection e (simpleSelection anchor head) options d"

section \<open>Changes\<close>

text \<open>A document that is a part of another one moves when lines above it come or go.\<close>

definition shiftDoc :: "int \<Rightarrow> cm_doc \<Rightarrow> cm_doc" where
  "shiftDoc distance d =
     (if distance = 0 then d
      else d\<lparr>td_first := td_first d + distance,
             cd_sel := (cd_sel d)\<lparr>sl_ranges := map (\<lambda>r. Range (Pos (ps_line (rg_anchor r) + distance) (ps_ch (rg_anchor r)))
                                                    (Pos (ps_line (rg_head r) + distance) (ps_ch (rg_head r)))) (sl_ranges (cd_sel d))\<rparr>\<rparr>)"

definition makeChangeSingleDoc ::
  "editor \<Rightarrow> change \<Rightarrow> selection option \<Rightarrow> marked_span list list option \<Rightarrow> cm_doc \<Rightarrow> cm_doc option" where
  "makeChangeSingleDoc e c selAfter spans d =
     (if ps_line (cg_to c) < td_first d
      then Some (shiftDoc (int (length (cg_text c)) - 1 - (ps_line (cg_to c) - ps_line (cg_from c))) d)
      else if ps_line (cg_from c) > doc_lastLine d then Some d
      else
        let (c1, d1) =
              (if ps_line (cg_from c) < td_first d
               then (let shift = int (length (cg_text c)) - 1 - (td_first d - ps_line (cg_from c)); d1 = shiftDoc shift d
                     in (\<lparr>cg_from = Pos (td_first d1) 0, cg_to = Pos (ps_line (cg_to c) + shift) (ps_ch (cg_to c)),
                          cg_text = [last (cg_text c)], cg_origin = cg_origin c, cg_full = False\<rparr>, d1))
               else (c, d));
            lastLine = doc_lastLine d1
        in do {
             c2 \<leftarrow> (if ps_line (cg_to c1) > lastLine
                   then map_option (\<lambda>l. \<lparr>cg_from = cg_from c1, cg_to = Pos lastLine (int (length (ln_text l))),
                          cg_text = [hd (cg_text c1)], cg_origin = cg_origin c1, cg_full = False\<rparr>) (getLine d1 lastLine)
                   else Some c1);
             let after = (case selAfter of Some s \<Rightarrow> s | None \<Rightarrow> computeSelAfterChange (cd_sel d1) c2);
             d2 \<leftarrow> updateDoc (\<not> ed_attached e \<or> ed_wholeLine e) (ed_estimate e) c2 spans d1;
             Some (setSelectionNoUndo e after d2)
           })"

definition makeChangeInner :: "editor \<Rightarrow> change \<Rightarrow> cm_doc \<Rightarrow> cm_doc option" where
  "makeChangeInner e c d =
     (if cg_text c = [[]] \<and> cmp (cg_from c) (cg_to c) = 0 then Some d
      else let selAfter = computeSelAfterChange (cd_sel d) c
           in do {
                h \<leftarrow> addChangeToHistory e c selAfter d;
                let d1 = d\<lparr>cd_hist := h\<rparr>;
                makeChangeSingleDoc e c (Some selAfter) (stretchSpansOverChange (ed_markers e) d1 c) d1
              })"

text \<open>The parts of a change without the read only ranges are made from the last to the first, which
  gets the text. Handlers can change or cancel the change, and make it an ordinary one.\<close>

fun make_parts :: "editor \<Rightarrow> js_text list \<Rightarrow> (pos \<times> pos) list \<Rightarrow> cm_doc \<Rightarrow> cm_doc option" where
  "make_parts e text [] d = Some d"
| "make_parts e text (p # ps) d =
     do {
       d1 \<leftarrow> make_parts e [[]] ps d;
       makeChangeInner e \<lparr>cg_from = fst p, cg_to = snd p, cg_text = text, cg_origin = None, cg_full = False\<rparr> d1
     }"

definition makeChange :: "editor \<Rightarrow> change \<Rightarrow> bool \<Rightarrow> cm_doc \<Rightarrow> cm_doc option" where
  "makeChange e c ignoreReadOnly d =
     (if ed_attached e \<and> ed_suppressEdits e then Some d
      else case (case ed_beforeChange e of None \<Rightarrow> Some c | Some f \<Rightarrow> map_option (\<lambda>c. c\<lparr>cg_full := False\<rparr>) (f c)) of
             None \<Rightarrow> Some d
           | Some c \<Rightarrow>
               (case (if ed_sawReadOnly e \<and> \<not> ignoreReadOnly
                      then removeReadOnlyRanges (ed_markers e) (ed_find e) d (cg_from c) (cg_to c) else None) of
                  Some parts \<Rightarrow> make_parts e (cg_text c) parts d
                | None \<Rightarrow> makeChangeInner e c d))"

definition replaceRange :: "editor \<Rightarrow> js_text list \<Rightarrow> pos \<Rightarrow> pos option \<Rightarrow> string option \<Rightarrow> cm_doc \<Rightarrow> cm_doc option" where
  "replaceRange e code start stop origin d =
     (let stop = (case stop of None \<Rightarrow> start | Some s \<Rightarrow> s);
          (a, b) = (if cmp stop start < 0 then (stop, start) else (start, stop))
      in makeChange e \<lparr>cg_from = a, cg_to = b, cg_text = code, cg_origin = origin, cg_full = False\<rparr> False d)"

section \<open>Undo and redo\<close>

definition source_of :: "bool \<Rightarrow> history \<Rightarrow> hist_event list" where
  "source_of undo h = (if undo then hs_done h else hs_undone h)"

definition put_stacks :: "bool \<Rightarrow> hist_event list \<Rightarrow> hist_event list \<Rightarrow> history \<Rightarrow> history" where
  "put_stacks undo source dest h =
     (if undo then h\<lparr>hs_done := source, hs_undone := dest\<rparr> else h\<lparr>hs_undone := source, hs_done := dest\<rparr>)"

text \<open>Popping events until a change, or until a selection that is not the current one if these are
  wanted: the result is what was found, what is left of the source, the destination and the
  selection after the change.\<close>

datatype popped = Found_Change "hist_change list" "nat option" | Found_Selection selection

fun pop_events ::
  "bool \<Rightarrow> selection \<Rightarrow> hist_event list \<Rightarrow> hist_event list \<Rightarrow> selection \<Rightarrow> (popped \<times> hist_event list \<times> hist_event list \<times> selection) option" where
  "pop_events onlySel cur [] dest selAfter = None"
| "pop_events onlySel cur (ChangeEvent cs g # source) dest selAfter = Some (Found_Change cs g, source, dest, selAfter)"
| "pop_events onlySel cur (SelEvent s # source) dest selAfter =
     (let dest = pushSelectionToHistory s dest
      in if onlySel \<and> \<not> sel_equals s cur then Some (Found_Selection s, source, dest, selAfter)
         else pop_events onlySel cur source dest s)"

definition change_of :: "string \<Rightarrow> hist_change \<Rightarrow> change" where
  "change_of origin hc = \<lparr>cg_from = hc_from hc, cg_to = hc_to hc, cg_text = hc_text hc, cg_origin = Some origin, cg_full = False\<rparr>"

text \<open>The changes of an event are reverted from the last to the first, and those that revert them
  collected. The last one sets the selection before the event, which fails if the event below is a
  change. A handler that cancels a change ends the loop.\<close>

fun revert_changes ::
  "editor \<Rightarrow> string \<Rightarrow> hist_event list \<Rightarrow> hist_change list \<Rightarrow> hist_change list \<Rightarrow> cm_doc \<Rightarrow> (cm_doc \<times> hist_change list \<times> bool) option" where
  "revert_changes e origin source [] anti d = Some (d, anti, False)"
| "revert_changes e origin source (hc # hcs) anti d =
     (let c = change_of origin hc
      in if (case ed_beforeChange e of None \<Rightarrow> False | Some f \<Rightarrow> f c = None) then Some (d, anti, True)
         else do {
           after \<leftarrow> (if hcs \<noteq> [] then Some (Some (computeSelAfterChange (cd_sel d) c))
                    else case source of [] \<Rightarrow> Some None | SelEvent s # _ \<Rightarrow> Some (Some s) | ChangeEvent _ _ # _ \<Rightarrow> None);
           d1 \<leftarrow> makeChangeSingleDoc e c after (mergeOldSpans (ed_markers e) d (hc_spans hc) c) d;
           revert_changes e origin source hcs (anti @ [historyChangeFromChange d c]) d1
         })"

definition usable :: "bool \<Rightarrow> selection \<Rightarrow> hist_event \<Rightarrow> bool" where
  "usable onlySel cur ev = (case ev of SelEvent s \<Rightarrow> onlySel \<and> \<not> sel_equals s cur | ChangeEvent cs g \<Rightarrow> \<not> onlySel)"

definition makeChangeFromHistory :: "editor \<Rightarrow> bool \<Rightarrow> bool \<Rightarrow> cm_doc \<Rightarrow> cm_doc option" where
  "makeChangeFromHistory e undo onlySel d =
     (if ed_attached e \<and> ed_suppressEdits e \<and> \<not> onlySel then Some d
      else if \<not> list_ex (usable onlySel (cd_sel d)) (source_of undo (cd_hist d)) then Some d
      else
        let h = (cd_hist d)\<lparr>hs_lastOrigin := None, hs_lastSelOrigin := None\<rparr>
        in case pop_events onlySel (cd_sel d) (source_of undo h) (source_of (\<not> undo) h) (cd_sel d) of
             None \<Rightarrow> None
           | Some (Found_Selection s, source, dest, selAfter) \<Rightarrow>
               setSelection e s (Some \<lparr>so_origin = None, so_clearRedo = False\<rparr>) (d\<lparr>cd_hist := put_stacks undo source dest h\<rparr>)
           | Some (Found_Change changes g, source, dest, selAfter) \<Rightarrow>
               (let dest = pushSelectionToHistory selAfter dest;
                    (gen, maxGen) = (case g of Some n \<Rightarrow> (n, hs_maxGeneration h) | None \<Rightarrow> (hs_maxGeneration h + 1, hs_maxGeneration h + 1))
                in do {
                     (d1, anti, cancelled) \<leftarrow> revert_changes e (if undo then ''undo'' else ''redo'') source (rev changes) [] d;
                     Some (d1\<lparr>cd_hist := (put_stacks undo (if cancelled then [] else source)
                                (ChangeEvent anti (Some (hs_generation h)) # dest) h)
                              \<lparr>hs_generation := gen, hs_maxGeneration := maxGen\<rparr>\<rparr>)
                   }))"

section \<open>Methods of a document\<close>

definition getValue :: "cm_doc \<Rightarrow> js_text list" where
  "getValue d = getLines d (td_first d) (td_first d + doc_size d)"

definition getRange :: "cm_doc \<Rightarrow> raw_pos \<Rightarrow> raw_pos \<Rightarrow> js_text list option" where
  "getRange d start stop = do { a \<leftarrow> clipPos d start; b \<leftarrow> clipPos d stop; Some (getBetween d a b) }"

definition setValue :: "editor \<Rightarrow> js_text list \<Rightarrow> cm_doc \<Rightarrow> cm_doc option" where
  "setValue e code d =
     (let start = Pos (td_first d) 0; lastLine = td_first d + doc_size d - 1
      in do {
           l \<leftarrow> getLine d lastLine;
           d1 \<leftarrow> makeChange e \<lparr>cg_from = start, cg_to = Pos lastLine (int (length (ln_text l))), cg_text = code,
                  cg_origin = Some ''setValue'', cg_full = True\<rparr> True d;
           setSelection e (simpleSelection start None) (Some \<lparr>so_origin = None, so_clearRedo = True\<rparr>) d1
         })"

definition doc_replaceRange :: "editor \<Rightarrow> js_text list \<Rightarrow> raw_pos \<Rightarrow> raw_pos option \<Rightarrow> string option \<Rightarrow> cm_doc \<Rightarrow> cm_doc option" where
  "doc_replaceRange e code start stop origin d =
     do {
       a \<leftarrow> clipPos d start;
       b \<leftarrow> (case stop of None \<Rightarrow> Some a | Some s \<Rightarrow> clipPos d s);
       replaceRange e code a (Some b) origin d
     }"

definition getCursor :: "string option \<Rightarrow> cm_doc \<Rightarrow> pos" where
  "getCursor start d =
     (let r = sel_primary (cd_sel d)
      in if start = None \<or> start = Some ''head'' then rg_head r
         else if start = Some ''anchor'' then rg_anchor r
         else if start = Some ''end'' \<or> start = Some ''to'' then range_to r
         else range_from r)"

definition doc_setSelection :: "editor \<Rightarrow> raw_pos \<Rightarrow> raw_pos option \<Rightarrow> sel_options option \<Rightarrow> cm_doc \<Rightarrow> cm_doc option" where
  "doc_setSelection e anchor head options d =
     do {
       a \<leftarrow> clipPos d anchor;
       h \<leftarrow> clipPos d (case head of None \<Rightarrow> anchor | Some h \<Rightarrow> h);
       setSimpleSelection e a (Some h) options d
     }"

fun clip_ranges :: "cm_doc \<Rightarrow> (raw_pos \<times> raw_pos) list \<Rightarrow> sel_range list option" where
  "clip_ranges d [] = Some []"
| "clip_ranges d ((a, h) # rs) = do { a \<leftarrow> clipPos d a; h \<leftarrow> clipPos d h; rest \<leftarrow> clip_ranges d rs; Some (Range a h # rest) }"

definition setSelections :: "editor \<Rightarrow> (raw_pos \<times> raw_pos) list \<Rightarrow> nat option \<Rightarrow> sel_options option \<Rightarrow> cm_doc \<Rightarrow> cm_doc option" where
  "setSelections e ranges primary options d =
     (if ranges = [] then Some d
      else do {
        out \<leftarrow> clip_ranges d ranges;
        setSelection e (normalizeSelection out (case primary of Some p \<Rightarrow> p
            | None \<Rightarrow> min (length ranges - 1) (sl_primIndex (cd_sel d)))) options d
      })"

definition addSelection :: "editor \<Rightarrow> raw_pos \<Rightarrow> raw_pos option \<Rightarrow> sel_options option \<Rightarrow> cm_doc \<Rightarrow> cm_doc option" where
  "addSelection e anchor head options d =
     do {
       out \<leftarrow> clip_ranges d [(anchor, case head of None \<Rightarrow> anchor | Some h \<Rightarrow> h)];
       setSelection e (normalizeSelection (sl_ranges (cd_sel d) @ out) (length (sl_ranges (cd_sel d)))) options d
     }"

definition getSelections :: "cm_doc \<Rightarrow> js_text list list" where
  "getSelections d = map (\<lambda>r. getBetween d (range_from r) (range_to r)) (sl_ranges (cd_sel d))"

fun make_changes :: "editor \<Rightarrow> change list \<Rightarrow> cm_doc \<Rightarrow> cm_doc option" where
  "make_changes e [] d = Some d"
| "make_changes e (c # cs) d = do { d1 \<leftarrow> make_changes e cs d; makeChange e c False d1 }"

definition replaceSelections :: "editor \<Rightarrow> js_text list list \<Rightarrow> string option \<Rightarrow> string option \<Rightarrow> cm_doc \<Rightarrow> cm_doc option" where
  "replaceSelections e code collapse origin d =
     (let changes = map (\<lambda>i. let r = sl_ranges (cd_sel d) ! i
                             in \<lparr>cg_from = range_from r, cg_to = range_to r, cg_text = code ! i, cg_origin = origin, cg_full = False\<rparr>)
                        [0..<length (sl_ranges (cd_sel d))]
      in do {
           d1 \<leftarrow> make_changes e changes d;
           case collapse of
             Some hint \<Rightarrow> if hint \<noteq> [] \<and> hint \<noteq> ''end''
                          then setSelectionReplaceHistory e (computeReplacedSel (td_first d) (cd_sel d) changes hint) None d1
                          else Some d1
           | None \<Rightarrow> Some d1
         })"

definition historySize :: "cm_doc \<Rightarrow> nat \<times> nat" where
  "historySize d = (length (filter (\<lambda>ev. \<not> is_sel ev) (hs_done (cd_hist d))), length (filter (\<lambda>ev. \<not> is_sel ev) (hs_undone (cd_hist d))))"

definition clearHistory :: "cm_doc \<Rightarrow> cm_doc" where
  "clearHistory d = d\<lparr>cd_hist := History (hs_maxGeneration (cd_hist d))\<rparr>"

definition changeGeneration :: "bool \<Rightarrow> cm_doc \<Rightarrow> nat \<times> cm_doc" where
  "changeGeneration forceSplit d =
     (hs_generation (cd_hist d),
      if forceSplit then d\<lparr>cd_hist := (cd_hist d)\<lparr>hs_lastOp := None, hs_lastSelOp := None, hs_lastOrigin := None\<rparr>\<rparr> else d)"

definition markClean :: "cm_doc \<Rightarrow> cm_doc" where
  "markClean d = (let (g, d1) = changeGeneration True d in d1\<lparr>cd_cleanGeneration := g\<rparr>)"

definition isClean :: "nat option \<Rightarrow> cm_doc \<Rightarrow> bool" where
  "isClean gen d \<longleftrightarrow> hs_generation (cd_hist d) = (case gen of Some g \<Rightarrow> if g \<noteq> 0 then g else cd_cleanGeneration d | None \<Rightarrow> cd_cleanGeneration d)"

fun copyHistoryArray :: "bool \<Rightarrow> hist_event list \<Rightarrow> hist_event list" where
  "copyHistoryArray instantiateSel [] = []"
| "copyHistoryArray instantiateSel (SelEvent s # es) =
     SelEvent (if instantiateSel then sel_deepCopy s else s) # copyHistoryArray instantiateSel es"
| "copyHistoryArray instantiateSel (ChangeEvent cs g # es) =
     ChangeEvent (map (\<lambda>c. c\<lparr>hc_spans := None\<rparr>) cs) None # copyHistoryArray instantiateSel es"

definition getHistory :: "cm_doc \<Rightarrow> hist_event list \<times> hist_event list" where
  "getHistory d = (copyHistoryArray False (hs_done (cd_hist d)), copyHistoryArray False (hs_undone (cd_hist d)))"

definition setHistory :: "hist_event list \<times> hist_event list \<Rightarrow> cm_doc \<Rightarrow> cm_doc" where
  "setHistory data d =
     d\<lparr>cd_hist := (History (hs_maxGeneration (cd_hist d)))
         \<lparr>hs_done := copyHistoryArray True (fst data), hs_undone := copyHistoryArray True (snd data)\<rparr>\<rparr>"

text \<open>Offsets in the text of the document, with separators of a given length. The form of \<open>iter\<close> with
  only a callback starts at the offset of the first line's number.\<close>

definition doc_iter_all :: "('a) text_doc_scheme \<Rightarrow> (line \<Rightarrow> 's \<Rightarrow> bool \<times> 's) \<Rightarrow> 's \<Rightarrow> 's" where
  "doc_iter_all d op s = snd (iterN (td_tree d) (nat (td_first d)) (nat (td_first d + doc_size d)) op s)"

definition posFromIndex :: "nat \<Rightarrow> int \<Rightarrow> cm_doc \<Rightarrow> pos option" where
  "posFromIndex sepSize off d =
     (case doc_iter_all d
        (\<lambda>l (off, no, ch). let sz = int (length (ln_text l) + sepSize)
             in if sz > off then (True, (off, no, Some off)) else (False, (off - sz, no + 1, ch)))
        (off, td_first d, None) of
        (off, no, ch) \<Rightarrow> clipPos d \<lparr>rp_line = no, rp_ch = ch, rp_sticky = None\<rparr>)"

definition indexFromPos :: "nat \<Rightarrow> raw_pos \<Rightarrow> cm_doc \<Rightarrow> int option" where
  "indexFromPos sepSize coords d =
     do {
       p \<leftarrow> clipPos d coords;
       if ps_line p < td_first d \<or> ps_ch p < 0 then Some 0
       else Some (doc_iter d (td_first d) (ps_line p) (\<lambda>l index. (False, index + int (length (ln_text l) + sepSize))) (ps_ch p))
     }"

end
