(* ===== verification/Cm_Undo.thy ===== *)
theory Cm_Undo
  imports Cm_Edit
begin

text \<open>
  What the history promises: undo gives back the text before the last event, redo the text after it,
  and a document whose generation is the one it was marked clean at has the text it had then. The
  invariant says that the stored changes, applied from the newest to the oldest, are changes of the
  texts they meet, and that each generation belongs to one text.
\<close>

section \<open>Reverting changes of a text\<close>

definition hcut :: "int \<Rightarrow> pos \<Rightarrow> nat \<times> nat" where
  "hcut first p = (nat (ps_line p - first), nat (ps_ch p))"

definition valid_at :: "int \<Rightarrow> js_text list \<Rightarrow> pos \<Rightarrow> bool" where
  "valid_at first L p \<longleftrightarrow> first \<le> ps_line p \<and> 0 \<le> ps_ch p \<and> valid_cut L (hcut first p)"

definition valid_hc :: "int \<Rightarrow> js_text list \<Rightarrow> hist_change \<Rightarrow> bool" where
  "valid_hc first L hc \<longleftrightarrow> valid_at first L (hc_from hc) \<and> valid_at first L (hc_to hc)
     \<and> cut_le (hcut first (hc_from hc)) (hcut first (hc_to hc)) \<and> hc_text hc \<noteq> []"

definition apply_hc :: "int \<Rightarrow> js_text list \<Rightarrow> hist_change \<Rightarrow> js_text list" where
  "apply_hc first L hc = join (cut_before L (hcut first (hc_from hc))) (join (hc_text hc) (cut_after L (hcut first (hc_to hc))))"

fun run_back :: "int \<Rightarrow> hist_change list \<Rightarrow> js_text list \<Rightarrow> js_text list option" where
  "run_back first [] L = Some L"
| "run_back first (hc # hcs) L = (if valid_hc first L hc then run_back first hcs (apply_hc first L hc) else None)"

lemma run_back_append: "run_back first (xs @ ys) L = Option.bind (run_back first xs L) (run_back first ys)"
  by (induction xs arbitrary: L) auto

lemma valid_pos_at: "valid_pos d p \<longleftrightarrow> valid_at (td_first d) (doc_lines d) p"
  by (simp add: valid_pos_def valid_at_def cut_of_def hcut_def)

lemma cut_of_hcut: "cut_of d p = hcut (td_first d) p"
  by (simp add: cut_of_def hcut_def)

lemma hcut_pos_of [simp]: "hcut first (pos_of first c) = c"
  by (simp add: hcut_def pos_of_def)

lemma valid_at_pos_of [simp]: "valid_at first L (pos_of first c) \<longleftrightarrow> valid_cut L c"
  by (simp add: valid_at_def) (simp add: pos_of_def)

lemma hcut_copyPos [simp]: "hcut first (copyPos p) = hcut first p" "valid_at first L (copyPos p) = valid_at first L p"
  by (simp_all add: hcut_def copyPos_def valid_at_def)

lemma changeEnd_at:
  assumes "valid_at first L p" and "t \<noteq> []"
  shows "changeEnd p t = pos_of first (end_of (join (cut_before L (hcut first p)) t))"
proof -
  have c: "valid_cut L (hcut first p)" using assms(1) by (simp add: valid_at_def)
  have "ps_line p = first + int (fst (hcut first p))" "ps_ch p = int (snd (hcut first p))"
    using assms(1) by (auto simp: valid_at_def hcut_def)
  then show ?thesis
    using assms(2) end_of_cut [OF c] by (cases t) (auto simp: changeEnd_def pos_of_def end_of_join)
qed

lemma cut_le_refl [simp]: "cut_le c c"
  by (simp add: cut_le_def)

lemma cut_le_join: "a \<noteq> [] \<Longrightarrow> b \<noteq> [] \<Longrightarrow> cut_le (end_of a) (end_of (join a b))"
  by (cases "length b = 1") (auto simp: cut_le_def end_of_join length_greater_0_conv [symmetric] simp del: length_greater_0_conv)

lemma cut_le_trans: "cut_le a b \<Longrightarrow> cut_le b c \<Longrightarrow> cut_le a c"
  by (auto simp: cut_le_def)

text \<open>The stored change reverts the change it was made from.\<close>

lemma history_change_reverts:
  assumes "editable d c"
  defines "h \<equiv> historyChangeFromChange d c"
  shows "valid_hc (td_first d) (changed_lines d c) h \<and> apply_hc (td_first d) (changed_lines d c) h = doc_lines d"
proof -
  let ?L = "doc_lines d" and ?f = "hcut (td_first d) (cg_from c)" and ?t = "hcut (td_first d) (cg_to c)"
  have v: "valid_pos d (cg_from c)" "valid_pos d (cg_to c)" "cg_text c \<noteq> []" "cmp (cg_from c) (cg_to c) \<le> 0" "text_ok d"
    using assms(1) by (simp_all add: editable_def valid_change_def)
  have vf: "valid_at (td_first d) ?L (cg_from c)" and c: "valid_cut ?L ?f" "valid_cut ?L ?t" and le: "cut_le ?f ?t"
    using v cmp_cut(1) [OF v(1,2)] by (simp_all add: valid_pos_at cut_of_hcut) (simp_all add: valid_at_def)
  define A where "A = cut_before ?L ?f"
  define B where "B = cut_after ?L ?t"
  have ne: "A \<noteq> []" "B \<noteq> []" by (simp_all add: A_def B_def)
  have L': "changed_lines d c = join (join A (cg_text c)) B" "changed_lines d c = join A (join (cg_text c) B)"
    using v(3) ne by (simp_all add: changed_lines_def A_def B_def cut_of_hcut join_assoc)
  have f: "?f = end_of A" using end_of_cut [OF c(1)] by (simp add: A_def)
  have h: "hc_from h = copyPos (cg_from c)" "hc_to h = pos_of (td_first d) (end_of (join A (cg_text c)))"
    "hc_text h = cut_between ?L ?f ?t"
    using v(3) le getBetween_eq [OF v(5,1,2)] by (simp_all add: h_def historyChangeFromChange_def changeEnd_at [OF vf] A_def cut_of_hcut)
  have from_cut: "cut_before (changed_lines d c) ?f = A" "valid_cut (changed_lines d c) ?f"
    using cut_join(1,3) [of A "join (cg_text c) B"] v(3) ne by (simp_all add: L'(2) f)
  have to_cut: "cut_after (changed_lines d c) (end_of (join A (cg_text c))) = B" "valid_cut (changed_lines d c) (end_of (join A (cg_text c)))"
    using cut_join(2,3) [of "join A (cg_text c)" B] ne by (simp_all add: L'(1))
  have "valid_hc (td_first d) (changed_lines d c) h"
    using from_cut to_cut vf v(3) ne cut_le_join [of A "cg_text c"] by (simp add: valid_hc_def h f) (simp add: valid_at_def f)
  moreover have "apply_hc (td_first d) (changed_lines d c) h = ?L"
    using cut_three(1) [OF c le] by (simp add: apply_hc_def h from_cut to_cut) (simp add: A_def B_def)
  ultimately show ?thesis by simp
qed

text \<open>Extending the stored change over an insertion at its end reverts both.\<close>

lemma merged_change_reverts:
  assumes "editable d c" and "cut_of d (cg_from c) = cut_of d (cg_to c)"
    and h: "valid_hc (td_first d) (doc_lines d) h" and at: "cmp (cg_from c) (hc_to h) = 0"
  defines "h' \<equiv> h\<lparr>hc_to := changeEnd (cg_from c) (cg_text c)\<rparr>"
  shows "valid_hc (td_first d) (changed_lines d c) h'
    \<and> apply_hc (td_first d) (changed_lines d c) h' = apply_hc (td_first d) (doc_lines d) h"
proof -
  let ?L = "doc_lines d" and ?f = "hcut (td_first d) (hc_from h)" and ?t = "hcut (td_first d) (hc_to h)"
  have v: "valid_pos d (cg_from c)" "cg_text c \<noteq> []" using assms(1) by (simp_all add: editable_def valid_change_def)
  then have vc: "valid_at (td_first d) ?L (cg_from c)" by (simp add: valid_pos_at)
  have t: "cut_of d (cg_from c) = ?t" using at by (simp add: cmp_zero_iff cut_of_def hcut_def)
  have vh: "valid_at (td_first d) ?L (hc_from h)" "valid_cut ?L ?f" "valid_cut ?L ?t" "cut_le ?f ?t" "hc_text h \<noteq> []"
    using h by (simp_all add: valid_hc_def valid_at_def)
  define X where "X = cut_before ?L ?t"
  define Y where "Y = cut_after ?L ?t"
  have ne: "X \<noteq> []" "Y \<noteq> []" by (simp_all add: X_def Y_def)
  have L': "changed_lines d c = join (join X (cg_text c)) Y"
    using v(2) ne assms(2) by (simp add: changed_lines_def X_def Y_def t [symmetric] join_assoc)
  have X: "X = join (cut_before ?L ?f) (cut_between ?L ?f ?t)" "end_of X = ?t"
    using cut_three(2) [OF vh(2-4)] end_of_cut [OF vh(3)] by (simp_all add: X_def)
  have E: "changeEnd (cg_from c) (cg_text c) = pos_of (td_first d) (end_of (join X (cg_text c)))"
    using changeEnd_at [OF vc v(2)] by (simp add: X_def t [unfolded cut_of_hcut])
  have "changed_lines d c = join (cut_before ?L ?f) (join (join (cut_between ?L ?f ?t) (cg_text c)) Y)"
    using ne v(2) by (simp add: L' X(1) join_assoc)
  then have from_cut: "cut_before (changed_lines d c) ?f = cut_before ?L ?f" "valid_cut (changed_lines d c) ?f"
    using cut_join(1,3) [of "cut_before ?L ?f" "join (join (cut_between ?L ?f ?t) (cg_text c)) Y"] end_of_cut [OF vh(2)] by simp_all
  have to_cut: "cut_after (changed_lines d c) (end_of (join X (cg_text c))) = Y" "valid_cut (changed_lines d c) (end_of (join X (cg_text c)))"
    using cut_join(2,3) [of "join X (cg_text c)" Y] ne by (simp_all add: L')
  have le: "cut_le ?f (end_of (join X (cg_text c)))"
    using cut_le_trans [OF vh(4)] cut_le_join [of X "cg_text c"] X(2) ne v(2) by simp
  have h': "hc_from h' = hc_from h" "hc_text h' = hc_text h" "hc_to h' = pos_of (td_first d) (end_of (join X (cg_text c)))"
    by (simp_all add: h'_def E)
  have "valid_at (td_first d) (changed_lines d c) (hc_from h)" using vh(1) from_cut(2) by (simp add: valid_at_def)
  then show ?thesis using vh(5) from_cut(1) to_cut le by (simp add: valid_hc_def apply_hc_def h' Y_def)
qed

text \<open>Making a stored change.\<close>

lemma changed_lines_change_of: "changed_lines d (change_of origin hc) = apply_hc (td_first d) (doc_lines d) hc"
  by (simp add: changed_lines_def apply_hc_def change_of_def cut_of_hcut)

lemma editable_change_of: "text_ok d \<Longrightarrow> valid_hc (td_first d) (doc_lines d) hc \<Longrightarrow> editable d (change_of origin hc)"
  using cmp_cut(1) [of d "hc_from hc" "hc_to hc"]
  by (auto simp: editable_def valid_change_def full_ok_def change_of_def valid_hc_def valid_pos_at cut_of_hcut)

lemma setSelectionInner_simps [simp]:
  "td_tree (setSelectionInner s d) = td_tree d" "td_first (setSelectionInner s d) = td_first d"
  "cd_hist (setSelectionInner s d) = cd_hist d" "cd_cleanGeneration (setSelectionInner s d) = cd_cleanGeneration d"
  by (simp_all add: setSelectionInner_def)

lemma setSelectionNoUndo_simps [simp]:
  "doc_lines (setSelectionNoUndo e s d) = doc_lines d" "text_ok (setSelectionNoUndo e s d) = text_ok d"
  "td_first (setSelectionNoUndo e s d) = td_first d"
  "cd_hist (setSelectionNoUndo e s d) = cd_hist d" "cd_cleanGeneration (setSelectionNoUndo e s d) = cd_cleanGeneration d"
  by (simp_all add: setSelectionNoUndo_def doc_lines_def text_ok_def)

lemma hist_update_simps [simp]:
  "doc_lines (d\<lparr>cd_hist := h\<rparr>) = doc_lines d" "text_ok (d\<lparr>cd_hist := h\<rparr>) = text_ok d" "editable (d\<lparr>cd_hist := h\<rparr>) c = editable d c"
  "doc_lines (d\<lparr>cd_cleanGeneration := g\<rparr>) = doc_lines d" "text_ok (d\<lparr>cd_cleanGeneration := g\<rparr>) = text_ok d"
  "changed_lines (d\<lparr>cd_hist := h\<rparr>) c = changed_lines d c"
  by (simp_all add: doc_lines_def text_ok_def editable_def valid_change_def full_ok_def valid_pos_def cut_of_def changed_lines_def)

lemma more_eqD: "text_doc.more d = text_doc.more d' \<Longrightarrow> cd_hist d = cd_hist d' \<and> cd_cleanGeneration d = cd_cleanGeneration d' \<and> cd_sel d = cd_sel d'"
  for d d' :: cm_doc
  by (cases d; cases d') simp

lemma makeChangeSingleDoc_text:
  assumes "editable d c"
  shows "\<exists>d'. makeChangeSingleDoc e c selAfter spans d = Some d' \<and> doc_lines d' = changed_lines d c \<and> text_ok d'
    \<and> td_first d' = td_first d \<and> cd_hist d' = cd_hist d \<and> cd_cleanGeneration d' = cd_cleanGeneration d"
proof -
  obtain i a where p: "cut_of d (cg_from c) = (i, a)" by (cases "cut_of d (cg_from c)")
  obtain j b where q: "cut_of d (cg_to c) = (j, b)" by (cases "cut_of d (cg_to c)")
  note E = editableD [OF assms p q]
  have r: "\<not> ps_line (cg_to c) < td_first d" "\<not> ps_line (cg_from c) > doc_lastLine d" "\<not> ps_line (cg_from c) < td_first d"
    "\<not> ps_line (cg_to c) > doc_lastLine d"
    using E(1,2,6,7) doc_size_eq [OF E(11)] by (simp_all add: doc_lastLine_def)
  obtain d2 where d2: "updateDoc (\<not> ed_attached e \<or> ed_wholeLine e) (ed_estimate e) c spans d = Some d2"
    "doc_lines d2 = changed_lines d c" "text_ok d2" "td_first d2 = td_first d" "text_doc.more d2 = text_doc.more d"
    using updateDoc_text [OF assms, of "\<not> ed_attached e \<or> ed_wholeLine e" "ed_estimate e" spans] by blast
  show ?thesis using d2 more_eqD [OF d2(5)] by (simp add: makeChangeSingleDoc_def r Let_def)
qed

section \<open>The invariant of the history\<close>

definition top_sel :: "hist_event list \<Rightarrow> bool" where
  "top_sel es \<longleftrightarrow> es = [] \<or> is_sel (hd es)"

fun stack_ok :: "int \<Rightarrow> (nat \<Rightarrow> js_text list) \<Rightarrow> js_text list \<Rightarrow> hist_event list \<Rightarrow> bool" where
  "stack_ok first G L [] = True"
| "stack_ok first G L (SelEvent s # es) = stack_ok first G L es"
| "stack_ok first G L (ChangeEvent cs g # es) \<longleftrightarrow> cs \<noteq> [] \<and> es \<noteq> [] \<and> is_sel (hd es)
     \<and> (case run_back first (rev cs) L of None \<Rightarrow> False
        | Some L' \<Rightarrow> (case g of None \<Rightarrow> True | Some n \<Rightarrow> G n = L') \<and> stack_ok first G L' es)"

text \<open>The text at the bottom of a stack, and the generations in it.\<close>

fun bottom :: "int \<Rightarrow> js_text list \<Rightarrow> hist_event list \<Rightarrow> js_text list option" where
  "bottom first L [] = Some L"
| "bottom first L (SelEvent s # es) = bottom first L es"
| "bottom first L (ChangeEvent cs g # es) = Option.bind (run_back first (rev cs) L) (\<lambda>L'. bottom first L' es)"

fun generations :: "hist_event list \<Rightarrow> nat list" where
  "generations [] = []"
| "generations (SelEvent s # es) = generations es"
| "generations (ChangeEvent cs g # es) = (case g of None \<Rightarrow> [] | Some n \<Rightarrow> [n]) @ generations es"

definition hist_ok :: "int \<Rightarrow> (nat \<Rightarrow> js_text list) \<Rightarrow> js_text list \<Rightarrow> history \<Rightarrow> bool" where
  "hist_ok first G L h \<longleftrightarrow> stack_ok first G L (hs_done h) \<and> stack_ok first G L (hs_undone h) \<and> G (hs_generation h) = L
     \<and> hs_generation h \<le> hs_maxGeneration h
     \<and> (\<forall>g \<in> set (generations (hs_done h)) \<union> set (generations (hs_undone h)). g \<le> hs_maxGeneration h)
     \<and> (hs_lastSelOrigin h \<noteq> None \<longrightarrow> top_sel (hs_done h))"

definition doc_inv :: "(nat \<Rightarrow> js_text list) \<Rightarrow> cm_doc \<Rightarrow> bool" where
  "doc_inv G d \<longleftrightarrow> text_ok d \<and> hist_ok (td_first d) G (doc_lines d) (cd_hist d)"

lemma stack_ok_mono: "n \<notin> set (generations es) \<Longrightarrow> stack_ok first (G(n := x)) L es = stack_ok first G L es"
  by (induction first G L es rule: stack_ok.induct) (auto split: option.splits)

lemma stack_ok_prefix: "stack_ok first G L (xs @ ys) \<Longrightarrow> xs = [] \<or> is_sel (last xs) \<Longrightarrow> stack_ok first G L xs"
proof (induction first G L xs rule: stack_ok.induct)
  case (3 first G L cs g es)
  then have "es \<noteq> []" "is_sel (last es)" by (auto split: if_splits)
  with 3 show ?case by (auto split: option.splits)
qed (auto split: if_splits)

lemma stack_ok_no_two: "stack_ok first G L (xs @ ChangeEvent cs g # ys) \<Longrightarrow> xs = [] \<or> is_sel (last xs)"
proof (induction first G L xs rule: stack_ok.induct)
  case (3 first G L cs' g' es)
  then show ?case by (cases "es = []") (auto split: option.splits)
qed auto

lemma generations_append [simp]: "generations (xs @ ys) = generations xs @ generations ys"
  by (induction xs rule: generations.induct) auto

text \<open>Trimming keeps a prefix that ends with a selection.\<close>

lemma shift_events_ok:
  assumes "stack_ok first G L es"
  shows "stack_ok first G L (shift_events es) \<and> set (generations (shift_events es)) \<subseteq> set (generations es)"
proof (cases es rule: rev_cases)
  case (snoc xs x)
  show ?thesis
  proof (cases xs rule: rev_cases)
    case Nil
    then show ?thesis by (simp add: shift_events_def snoc Let_def)
  next
    case ys: (snoc ys y)
    show ?thesis
    proof (cases y)
      case (SelEvent s)
      then have "shift_events es = ys @ [y]" by (simp add: shift_events_def snoc ys Let_def butlast_append)
      moreover have "stack_ok first G L ((ys @ [y]) @ [x])" using assms by (simp add: snoc ys)
      ultimately show ?thesis using stack_ok_prefix [of first G L "ys @ [y]" "[x]"] SelEvent by (simp add: snoc ys)
    next
      case (ChangeEvent cs g)
      then have s: "shift_events es = ys" by (simp add: shift_events_def snoc ys Let_def butlast_append)
      have ok: "stack_ok first G L (ys @ ChangeEvent cs g # [x])" using assms by (simp add: snoc ys ChangeEvent)
      show ?thesis using stack_ok_prefix [OF ok stack_ok_no_two [OF ok]] unfolding s by (simp add: snoc ys)
    qed
  qed
qed (simp add: shift_events_def)

lemma trim_events_ok:
  "stack_ok first G L es \<Longrightarrow> stack_ok first G L (trim_events n es) \<and> set (generations (trim_events n es)) \<subseteq> set (generations es)"
proof (induction n es rule: trim_events.induct)
  case (1 n es)
  then show ?case
    using shift_events_ok [OF 1(2)] by (subst (1 2) trim_events.simps) auto
qed

text \<open>Selections do not matter.\<close>

lemma push_ok [simp]:
  "stack_ok first G L (pushSelectionToHistory s es) = stack_ok first G L es" "generations (pushSelectionToHistory s es) = generations es"
  "bottom first L (pushSelectionToHistory s es) = bottom first L es" "pushSelectionToHistory s es \<noteq> []"
  "is_sel (hd (pushSelectionToHistory s es))"
  by (auto simp: pushSelectionToHistory_def split: list.splits hist_event.splits)

lemma clear_ok [simp]:
  "stack_ok first G L (clearSelectionEvents es) = stack_ok first G L es" "generations (clearSelectionEvents es) = generations es"
  "bottom first L (clearSelectionEvents es) = bottom first L es"
  by (induction es rule: generations.induct) auto

lemma lastChangeEvent_ok:
  assumes "lastChangeEvent es force = (es', cur)"
  shows "stack_ok first G L es' = stack_ok first G L es \<and> generations es' = generations es \<and> bottom first L es' = bottom first L es
    \<and> (case cur of None \<Rightarrow> True | Some (cs, g) \<Rightarrow> \<exists>tl. es' = ChangeEvent cs g # tl)"
proof (cases force)
  case True
  then have "es' = clearSelectionEvents es" "cur = (case es' of ChangeEvent cs g # _ \<Rightarrow> Some (cs, g) | _ \<Rightarrow> None)"
    using assms by (auto simp: lastChangeEvent_def Let_def)
  then show ?thesis by (auto split: list.splits hist_event.splits)
next
  case False
  then show ?thesis using assms by (auto simp: lastChangeEvent_def split: list.splits hist_event.splits)
qed

section \<open>Changes keep the invariant\<close>

lemma merge_change_ok:
  assumes "editable d c" and "cs \<noteq> []" and "run_back (td_first d) (rev cs) (doc_lines d) = Some L0"
  obtains cs' where "merge_change d c cs = Some cs'" "cs' \<noteq> []" "run_back (td_first d) (rev cs') (changed_lines d c) = Some L0"
proof -
  have split: "cs = butlast cs @ [last cs]" using assms(2) by simp
  have rev: "rev cs = last cs # rev (butlast cs)" by (subst split) simp
  have run: "valid_hc (td_first d) (doc_lines d) (last cs)"
    "run_back (td_first d) (rev (butlast cs)) (apply_hc (td_first d) (doc_lines d) (last cs)) = Some L0"
    using assms(3) unfolding rev by (auto split: if_splits)
  show thesis
  proof (cases "cmp (cg_from c) (cg_to c) = 0 \<and> cmp (cg_from c) (hc_to (last cs)) = 0")
    case True
    then have "cut_of d (cg_from c) = cut_of d (cg_to c)" by (simp add: cmp_zero_iff cut_of_def)
    from merged_change_reverts [OF assms(1) this run(1)] True run(2) assms(2) that
    show ?thesis by (simp add: merge_change_def)
  next
    case False
    then have "merge_change d c cs = Some (cs @ [historyChangeFromChange d c])" using assms(2) by (auto simp: merge_change_def)
    then show ?thesis using history_change_reverts [OF assms(1)] assms(3) that by simp
  qed
qed

lemma new_event_ok:
  assumes "editable d c" and "stack_ok (td_first d) G (doc_lines d) es" and "G (hs_generation (cd_hist d)) = doc_lines d"
  shows "stack_ok (td_first d) G (changed_lines d c) (new_event d c es)"
    and "set (generations (new_event d c es)) \<subseteq> insert (hs_generation (cd_hist d)) (set (generations es))"
    and "hs_undoDepth (cd_hist d) = None \<Longrightarrow> bottom (td_first d) (changed_lines d c) (new_event d c es) = bottom (td_first d) (doc_lines d) es"
proof -
  define before where "before = (case es of SelEvent s # _ \<Rightarrow> es | _ \<Rightarrow> pushSelectionToHistory (cd_sel d) es)"
  define pushed where "pushed = ChangeEvent [historyChangeFromChange d c] (Some (hs_generation (cd_hist d))) # before"
  have b: "before \<noteq> []" "is_sel (hd before)" "generations before = generations es"
    "stack_ok first G L before = stack_ok first G L es" "bottom first L before = bottom first L es" for first G L
    by (auto simp: before_def split: list.splits hist_event.splits)
  have run: "run_back (td_first d) (rev [historyChangeFromChange d c]) (changed_lines d c) = Some (doc_lines d)"
    using history_change_reverts [OF assms(1)] by simp
  have ok: "stack_ok (td_first d) G (changed_lines d c) pushed"
    unfolding pushed_def stack_ok.simps(3) run using assms(2,3) b by simp
  have new: "new_event d c es = (case hs_undoDepth (cd_hist d) of None \<Rightarrow> pushed | Some depth \<Rightarrow> trim_events depth pushed)"
    unfolding new_event_def pushed_def before_def Let_def by (rule refl)
  show "stack_ok (td_first d) G (changed_lines d c) (new_event d c es)"
    "set (generations (new_event d c es)) \<subseteq> insert (hs_generation (cd_hist d)) (set (generations es))"
    using ok trim_events_ok [OF ok] b(3) by (auto simp: new pushed_def split: option.splits)
  show "hs_undoDepth (cd_hist d) = None \<Longrightarrow> bottom (td_first d) (changed_lines d c) (new_event d c es) = bottom (td_first d) (doc_lines d) es"
    using run b(5) by (simp add: new pushed_def)
qed

lemma addChange_ok:
  assumes e: "editable d c" and inv: "hist_ok (td_first d) G (doc_lines d) (cd_hist d)"
  defines "n \<equiv> hs_maxGeneration (cd_hist d) + 1"
  obtains h where "addChangeToHistory e c s d = Some h" "hist_ok (td_first d) (G(n := changed_lines d c)) (changed_lines d c) h"
    "hs_generation h = n" "hs_maxGeneration h = n" "hs_undone h = []" "hs_undoDepth h = hs_undoDepth (cd_hist d)"
    "hs_undoDepth (cd_hist d) = None \<longrightarrow>
      bottom (td_first d) (changed_lines d c) (hs_done h) = bottom (td_first d) (doc_lines d) (hs_done (cd_hist d))"
proof -
  let ?f = "td_first d" and ?L = "doc_lines d" and ?L' = "changed_lines d c" and ?h = "cd_hist d"
  have I: "stack_ok ?f G ?L (hs_done ?h)" "G (hs_generation ?h) = ?L" "hs_generation ?h \<le> hs_maxGeneration ?h"
    "\<forall>g \<in> set (generations (hs_done ?h)). g \<le> hs_maxGeneration ?h"
    using inv by (simp_all add: hist_ok_def)
  define sameOp where "sameOp = same_op (hs_lastOp ?h) (ed_op e)"
  obtain events cur where ev: "(if sameOp \<or> mergeable_origin e (?h\<lparr>hs_undone := []\<rparr>) (cg_origin c)
      then lastChangeEvent (hs_done ?h) sameOp else (hs_done ?h, None)) = (events, cur)" by fastforce
  then have E: "stack_ok ?f G ?L events" "generations events = generations (hs_done ?h)"
    "bottom ?f ?L events = bottom ?f ?L (hs_done ?h)" "case cur of None \<Rightarrow> True | Some (cs, g) \<Rightarrow> \<exists>tl. events = ChangeEvent cs g # tl"
    using I(1) lastChangeEvent_ok [of "hs_done ?h" sameOp events cur ?f G ?L] by (auto split: if_splits)
  have "\<exists>events'. (case cur of Some (changes, g) \<Rightarrow> map_option (\<lambda>cs. ChangeEvent cs g # tl events) (merge_change d c changes)
             | None \<Rightarrow> Some (new_event d c events)) = Some events' \<and> stack_ok ?f G ?L' events'
      \<and> set (generations events') \<subseteq> insert (hs_generation ?h) (set (generations events))
      \<and> (hs_undoDepth ?h = None \<longrightarrow> bottom ?f ?L' events' = bottom ?f ?L events)"
  proof (cases cur)
    case None
    then show ?thesis using new_event_ok [OF e E(1) I(2)] by simp
  next
    case (Some p)
    obtain cs g es where p: "p = (cs, g)" "events = ChangeEvent cs g # es" using E(4) Some by auto
    from E(1) obtain L0 where L0: "cs \<noteq> []" "run_back ?f (rev cs) ?L = Some L0" by (auto simp: p split: option.splits)
    obtain cs' where "merge_change d c cs = Some cs'" "cs' \<noteq> []" "run_back ?f (rev cs') ?L' = Some L0"
      by (rule merge_change_ok [OF e L0])
    then show ?thesis using E(1) L0 by (auto simp: Some p)
  qed
  then obtain events' where N: "(case cur of Some (changes, g) \<Rightarrow> map_option (\<lambda>cs. ChangeEvent cs g # tl events) (merge_change d c changes)
             | None \<Rightarrow> Some (new_event d c events)) = Some events'" "stack_ok ?f G ?L' events'"
      "set (generations events') \<subseteq> insert (hs_generation ?h) (set (generations (hs_done ?h)))"
      "hs_undoDepth ?h = None \<longrightarrow> bottom ?f ?L' events' = bottom ?f ?L (hs_done ?h)"
    using E(2,3) by auto
  have le: "\<forall>g \<in> set (generations events'). g \<le> hs_maxGeneration ?h" using N(3) I(3,4) by auto
  then have "n \<notin> set (generations events')" by (auto simp: n_def)
  then have ok: "stack_ok ?f (G(n := ?L')) ?L' events'" using N(2) by (simp add: stack_ok_mono)
  define h where "h = ?h\<lparr>hs_undone := [], hs_done := SelEvent s # events', hs_generation := n, hs_maxGeneration := n,
      hs_lastModTime := ed_time e, hs_lastSelTime := ed_time e, hs_lastOp := ed_op e, hs_lastSelOp := ed_op e,
      hs_lastOrigin := cg_origin c, hs_lastSelOrigin := cg_origin c\<rparr>"
  have sel: "hs_done (?h\<lparr>hs_undone := []\<rparr>) = hs_done ?h" "hs_lastOp (?h\<lparr>hs_undone := []\<rparr>) = hs_lastOp ?h" by simp_all
  have "addChangeToHistory e c s d = Some h"
    unfolding addChangeToHistory_def Let_def sel ev [unfolded sameOp_def] prod.case N(1) by (simp add: h_def n_def)
  moreover have "hist_ok ?f (G(n := ?L')) ?L' h" using ok le by (force simp: hist_ok_def h_def top_sel_def n_def)
  ultimately show thesis using N(4) that by (simp add: h_def)
qed

text \<open>The number of the first line, the clean generation and the depth of the history stay.\<close>

definition same_frame :: "cm_doc \<Rightarrow> cm_doc \<Rightarrow> bool" where
  "same_frame d d' \<longleftrightarrow> td_first d' = td_first d \<and> cd_cleanGeneration d' = cd_cleanGeneration d
     \<and> hs_undoDepth (cd_hist d') = hs_undoDepth (cd_hist d) \<and> hs_maxGeneration (cd_hist d) \<le> hs_maxGeneration (cd_hist d')"

lemma makeChangeInner_ok:
  assumes "editable d c" and "doc_inv G d" and "\<not> (cg_text c = [[]] \<and> cmp (cg_from c) (cg_to c) = 0)"
  obtains d' where "makeChangeInner e c d = Some d'" "doc_lines d' = changed_lines d c" "same_frame d d'"
    "doc_inv (G(hs_maxGeneration (cd_hist d) + 1 := changed_lines d c)) d'"
    "hs_generation (cd_hist d') = hs_maxGeneration (cd_hist d) + 1"
    "hs_undoDepth (cd_hist d) = None \<longrightarrow>
      bottom (td_first d') (doc_lines d') (hs_done (cd_hist d')) = bottom (td_first d) (doc_lines d) (hs_done (cd_hist d))"
proof -
  let ?s = "computeSelAfterChange (cd_sel d) c"
  have inv: "hist_ok (td_first d) G (doc_lines d) (cd_hist d)" using assms(2) by (simp add: doc_inv_def)
  obtain h where h: "addChangeToHistory e c ?s d = Some h"
    "hist_ok (td_first d) (G(hs_maxGeneration (cd_hist d) + 1 := changed_lines d c)) (changed_lines d c) h"
    "hs_generation h = hs_maxGeneration (cd_hist d) + 1" "hs_maxGeneration h = hs_maxGeneration (cd_hist d) + 1"
    "hs_undone h = []" "hs_undoDepth h = hs_undoDepth (cd_hist d)"
    "hs_undoDepth (cd_hist d) = None \<longrightarrow>
      bottom (td_first d) (changed_lines d c) (hs_done h) = bottom (td_first d) (doc_lines d) (hs_done (cd_hist d))"
    by (rule addChange_ok [OF assms(1) inv, of e ?s])
  have ed: "editable (d\<lparr>cd_hist := h\<rparr>) c" using assms(1) by simp
  from makeChangeSingleDoc_text [OF ed, of e "Some ?s" "stretchSpansOverChange (ed_markers e) (d\<lparr>cd_hist := h\<rparr>) c"] obtain d' where
    d': "makeChangeSingleDoc e c (Some ?s) (stretchSpansOverChange (ed_markers e) (d\<lparr>cd_hist := h\<rparr>) c) (d\<lparr>cd_hist := h\<rparr>) = Some d'"
    "doc_lines d' = changed_lines d c" "text_ok d'" "td_first d' = td_first d" "cd_hist d' = h"
    "cd_cleanGeneration d' = cd_cleanGeneration d" by auto
  have "makeChangeInner e c d = Some d'" using d'(1) h(1) by (simp only: makeChangeInner_def if_not_P [OF assms(3)] Let_def bind.bind_lunit)
  with h d' that show thesis by (simp add: doc_inv_def same_frame_def)
qed

section \<open>Undo and redo keep the invariant\<close>

definition no_cancel :: "editor \<Rightarrow> bool" where
  "no_cancel e \<longleftrightarrow> (case ed_beforeChange e of None \<Rightarrow> True | Some f \<Rightarrow> \<forall>c. f c \<noteq> None)"

definition has_change :: "hist_event list \<Rightarrow> bool" where
  "has_change es \<longleftrightarrow> list_ex (\<lambda>ev. \<not> is_sel ev) es"

definition changes_in :: "hist_event list \<Rightarrow> nat" where
  "changes_in es = length (filter (\<lambda>ev. \<not> is_sel ev) es)"

lemma changes_in_simps [simp]:
  "changes_in [] = 0" "changes_in (SelEvent s # es) = changes_in es" "changes_in (ChangeEvent cs g # es) = changes_in es + 1"
  "changes_in (pushSelectionToHistory s es) = changes_in es" "changes_in (clearSelectionEvents es) = changes_in es"
proof -
  show "changes_in (clearSelectionEvents es) = changes_in es" by (induction es) (auto simp: changes_in_def)
qed (auto simp: changes_in_def pushSelectionToHistory_def split: list.split hist_event.split)

lemma usable_False: "usable False s ev = (\<not> is_sel ev)"
  by (cases ev) (simp_all add: usable_def)

text \<open>Popping for a change drops the selections above it, which go to the other stack.\<close>

lemma pop_events_ok:
  "has_change es \<Longrightarrow> \<exists>cs g source dest' sa'. pop_events False cur es dest sa = Some (Found_Change cs g, source, dest', sa')
     \<and> clearSelectionEvents es = ChangeEvent cs g # source
     \<and> (\<forall>first G L. stack_ok first G L dest' = stack_ok first G L dest) \<and> generations dest' = generations dest
     \<and> (\<forall>first L. bottom first L dest' = bottom first L dest) \<and> changes_in dest' = changes_in dest"
proof (induction False cur es dest sa rule: pop_events.induct)
  case (3 cur s source dest sa)
  then show ?case by (simp add: has_change_def Let_def)
qed (simp_all add: has_change_def)

lemma clear_stack: "clearSelectionEvents es = es' \<Longrightarrow>
    stack_ok first G L es = stack_ok first G L es' \<and> generations es = generations es' \<and> bottom first L es = bottom first L es'"
  by auto

lemma revert_changes_ok:
  assumes "no_cancel e" and "top_sel source"
  shows "text_ok d \<Longrightarrow> run_back (td_first d) hcs (doc_lines d) = Some L' \<Longrightarrow>
    \<exists>d' anti'. revert_changes e origin source hcs anti d = Some (d', anti @ anti', False) \<and> doc_lines d' = L' \<and> text_ok d'
      \<and> td_first d' = td_first d \<and> cd_hist d' = cd_hist d \<and> cd_cleanGeneration d' = cd_cleanGeneration d
      \<and> run_back (td_first d) (rev anti') L' = Some (doc_lines d) \<and> (hcs \<noteq> [] \<longrightarrow> anti' \<noteq> [])"
proof (induction hcs arbitrary: anti d)
  case (Cons hc hcs)
  let ?c = "change_of origin hc"
  have hc: "valid_hc (td_first d) (doc_lines d) hc" "run_back (td_first d) hcs (apply_hc (td_first d) (doc_lines d) hc) = Some L'"
    using Cons.prems(2) by (auto split: if_splits)
  have ed: "editable d ?c" by (rule editable_change_of [OF Cons.prems(1) hc(1)])
  have h: "valid_hc (td_first d) (changed_lines d ?c) (historyChangeFromChange d ?c)"
    "apply_hc (td_first d) (changed_lines d ?c) (historyChangeFromChange d ?c) = doc_lines d"
    using history_change_reverts [OF ed] by simp_all
  have "\<exists>after. (if hcs \<noteq> [] then Some (Some (computeSelAfterChange (cd_sel d) ?c))
      else case source of [] \<Rightarrow> Some None | SelEvent s # _ \<Rightarrow> Some (Some s) | ChangeEvent _ _ # _ \<Rightarrow> None) = Some after"
    using assms(2) by (cases source) (auto simp: top_sel_def split: hist_event.splits)
  then obtain after where after: "(if hcs \<noteq> [] then Some (Some (computeSelAfterChange (cd_sel d) ?c))
      else case source of [] \<Rightarrow> Some None | SelEvent s # _ \<Rightarrow> Some (Some s) | ChangeEvent _ _ # _ \<Rightarrow> None) = Some after" ..
  obtain d1 where d1: "makeChangeSingleDoc e ?c after (mergeOldSpans (ed_markers e) d (hc_spans hc) ?c) d = Some d1"
    "doc_lines d1 = changed_lines d ?c" "text_ok d1" "td_first d1 = td_first d" "cd_hist d1 = cd_hist d"
    "cd_cleanGeneration d1 = cd_cleanGeneration d"
    using makeChangeSingleDoc_text [OF ed] by blast
  have "run_back (td_first d1) hcs (doc_lines d1) = Some L'" using hc(2) d1 by (simp add: changed_lines_change_of)
  from Cons.IH [OF d1(3) this, of "anti @ [historyChangeFromChange d ?c]"] obtain d' anti' where
    d': "revert_changes e origin source hcs (anti @ [historyChangeFromChange d ?c]) d1
        = Some (d', (anti @ [historyChangeFromChange d ?c]) @ anti', False)"
    "doc_lines d' = L'" "text_ok d'" "td_first d' = td_first d1" "cd_hist d' = cd_hist d1" "cd_cleanGeneration d' = cd_cleanGeneration d1"
    "run_back (td_first d1) (rev anti') L' = Some (doc_lines d1)" by blast
  have cancel: "\<not> (case ed_beforeChange e of None \<Rightarrow> False | Some f \<Rightarrow> f ?c = None)"
    using assms(1) by (simp add: no_cancel_def split: option.splits)
  have "revert_changes e origin source (hc # hcs) anti d = Some (d', anti @ (historyChangeFromChange d ?c # anti'), False)"
    using d'(1) unfolding revert_changes.simps Let_def if_not_P [OF cancel] after bind.bind_lunit d1(1) by simp
  moreover have "run_back (td_first d) (rev (historyChangeFromChange d ?c # anti')) L' = Some (doc_lines d)"
    using d'(7) d1 h by (simp add: run_back_append)
  ultimately show ?case using d' d1 by (intro exI [of _ d'] exI [of _ "historyChangeFromChange d ?c # anti'"]) simp
qed simp

text \<open>Generations up to the largest one keep their text.\<close>

definition extends :: "cm_doc \<Rightarrow> (nat \<Rightarrow> js_text list) \<Rightarrow> (nat \<Rightarrow> js_text list) \<Rightarrow> bool" where
  "extends d G G' \<longleftrightarrow> (\<forall>n \<le> hs_maxGeneration (cd_hist d). G' n = G n)"

lemma stacks_simps [simp]:
  "source_of undo (put_stacks undo a b h) = a" "source_of (\<not> undo) (put_stacks undo a b h) = b"
  "hs_undoDepth (put_stacks undo a b h) = hs_undoDepth h" "hs_maxGeneration (put_stacks undo a b h) = hs_maxGeneration h"
  "hs_lastSelOrigin (put_stacks undo a b h) = hs_lastSelOrigin h" "hs_lastSelOp (put_stacks undo a b h) = hs_lastSelOp h" "hs_generation (put_stacks undo a b h) = hs_generation h"
  "source_of undo (h\<lparr>hs_lastOrigin := x\<rparr>) = source_of undo h" "source_of undo (h\<lparr>hs_lastSelOrigin := x\<rparr>) = source_of undo h"
  "source_of undo (h\<lparr>hs_generation := k\<rparr>) = source_of undo h" "source_of undo (h\<lparr>hs_maxGeneration := k\<rparr>) = source_of undo h"
  by (simp_all add: source_of_def put_stacks_def)

lemma hist_ok_sources:
  "hist_ok first G L h \<longleftrightarrow> stack_ok first G L (source_of undo h) \<and> stack_ok first G L (source_of (\<not> undo) h) \<and> G (hs_generation h) = L
     \<and> hs_generation h \<le> hs_maxGeneration h
     \<and> (\<forall>g \<in> set (generations (source_of undo h)) \<union> set (generations (source_of (\<not> undo) h)). g \<le> hs_maxGeneration h)
     \<and> (hs_lastSelOrigin h \<noteq> None \<longrightarrow> top_sel (hs_done h))"
  by (cases undo) (auto simp: hist_ok_def source_of_def)

lemma from_history_ok:
  assumes inv: "doc_inv G d" and e: "no_cancel e" "\<not> (ed_attached e \<and> ed_suppressEdits e)"
    and has: "has_change (source_of undo (cd_hist d))"
  obtains cs g source d' anti rest where "clearSelectionEvents (source_of undo (cd_hist d)) = ChangeEvent cs g # source"
    "makeChangeFromHistory e undo False d = Some d'" "run_back (td_first d) (rev cs) (doc_lines d) = Some (doc_lines d')"
    "same_frame d d'" "\<exists>G'. extends d G G' \<and> doc_inv G' d'"
    "hs_generation (cd_hist d') = (case g of Some n \<Rightarrow> n | None \<Rightarrow> hs_maxGeneration (cd_hist d) + 1)"
    "source_of undo (cd_hist d') = source"
    "source_of (\<not> undo) (cd_hist d') = ChangeEvent anti (Some (hs_generation (cd_hist d))) # rest"
    "run_back (td_first d) (rev anti) (doc_lines d') = Some (doc_lines d)"
    "\<forall>L. bottom (td_first d) L rest = bottom (td_first d) L (source_of (\<not> undo) (cd_hist d))"
    "changes_in rest = changes_in (source_of (\<not> undo) (cd_hist d))" "hs_lastSelOp (cd_hist d') = hs_lastSelOp (cd_hist d)"
proof -
  let ?f = "td_first d" and ?L = "doc_lines d" and ?h = "(cd_hist d)\<lparr>hs_lastOrigin := None, hs_lastSelOrigin := None\<rparr>"
  let ?src = "source_of undo (cd_hist d)" and ?dst = "source_of (\<not> undo) (cd_hist d)"
  have H: "stack_ok ?f G ?L ?src" "stack_ok ?f G ?L ?dst" "G (hs_generation (cd_hist d)) = ?L" "text_ok d"
    "hs_generation (cd_hist d) \<le> hs_maxGeneration (cd_hist d)"
    "\<forall>g \<in> set (generations ?src) \<union> set (generations ?dst). g \<le> hs_maxGeneration (cd_hist d)"
    using inv by (simp_all add: doc_inv_def hist_ok_sources [of _ _ _ _ undo])
  obtain cs g source dest' sa' where pop: "pop_events False (cd_sel d) ?src ?dst (cd_sel d) = Some (Found_Change cs g, source, dest', sa')"
    and P: "clearSelectionEvents ?src = ChangeEvent cs g # source" "\<forall>first G L. stack_ok first G L dest' = stack_ok first G L ?dst"
      "generations dest' = generations ?dst" "\<forall>first L. bottom first L dest' = bottom first L ?dst"
      "changes_in dest' = changes_in ?dst"
    using pop_events_ok [OF has] by blast
  note C = clear_stack [OF P(1)]
  have "stack_ok ?f G ?L (ChangeEvent cs g # source)" using C H(1) by blast
  then obtain L' where L': "run_back ?f (rev cs) ?L = Some L'" "cs \<noteq> []" "source \<noteq> []" "is_sel (hd source)"
    "case g of None \<Rightarrow> True | Some n \<Rightarrow> G n = L'" "stack_ok ?f G L' source" by (auto split: option.splits)
  then have "top_sel source" by (simp add: top_sel_def)
  from revert_changes_ok [OF e(1) this H(4) L'(1), of "if undo then ''undo'' else ''redo''" "[]"] L'(2) obtain d1 anti where
    d1: "revert_changes e (if undo then ''undo'' else ''redo'') source (rev cs) [] d = Some (d1, anti, False)"
    "doc_lines d1 = L'" "text_ok d1" "td_first d1 = td_first d" "cd_hist d1 = cd_hist d" "cd_cleanGeneration d1 = cd_cleanGeneration d"
    "run_back ?f (rev anti) L' = Some ?L" "anti \<noteq> []" by auto
  define gen where "gen = (case g of Some n \<Rightarrow> n | None \<Rightarrow> hs_maxGeneration (cd_hist d) + 1)"
  define maxGen where "maxGen = (case g of Some n \<Rightarrow> hs_maxGeneration (cd_hist d) | None \<Rightarrow> hs_maxGeneration (cd_hist d) + 1)"
  define rest where "rest = pushSelectionToHistory sa' dest'"
  define h' where "h' = (put_stacks undo source (ChangeEvent anti (Some (hs_generation (cd_hist d))) # rest) ?h)
      \<lparr>hs_generation := gen, hs_maxGeneration := maxGen\<rparr>"
  define d' where "d' = d1\<lparr>cd_hist := h'\<rparr>"
  have "usable False (cd_sel d) = (\<lambda>ev. \<not> is_sel ev)" by (intro ext) (rule usable_False)
  then have "list_ex (usable False (cd_sel d)) ?src" using has by (simp add: has_change_def)
  then have run: "makeChangeFromHistory e undo False d = Some d'"
    using e(2) pop d1(1) by (auto simp: makeChangeFromHistory_def d'_def h'_def rest_def gen_def maxGen_def Let_def split: option.splits)
  define G' where "G' = (case g of Some n \<Rightarrow> G | None \<Rightarrow> G(hs_maxGeneration (cd_hist d) + 1 := L'))"
  have gens: "set (generations source) \<subseteq> set (generations ?src)" "set (generations rest) = set (generations ?dst)"
    "\<And>n. g = Some n \<Longrightarrow> n \<in> set (generations ?src)"
    using C P(3) by (auto simp: rest_def)
  have ext: "extends d G G'" by (simp add: extends_def G'_def split: option.split)
  have keep: "stack_ok ?f G' L es = stack_ok ?f G L es" if "set (generations es) \<subseteq> set (generations ?src) \<union> set (generations ?dst)" for es L
  proof -
    have "hs_maxGeneration (cd_hist d) + 1 \<notin> set (generations es)"
    proof
      assume "hs_maxGeneration (cd_hist d) + 1 \<in> set (generations es)"
      then have "hs_maxGeneration (cd_hist d) + 1 \<le> hs_maxGeneration (cd_hist d)" using that H(6) by blast
      then show False by simp
    qed
    then show ?thesis by (simp add: G'_def stack_ok_mono split: option.split)
  qed
  have "stack_ok ?f G' ?L rest" "stack_ok ?f G' L' source" using keep gens H(2) L'(6) P(2) by (auto simp: rest_def)
  moreover have "G' gen = L'" using L'(5) by (auto simp: G'_def gen_def split: option.splits)
  moreover have "G' (hs_generation (cd_hist d)) = ?L" using ext H(3,5) by (simp add: extends_def)
  moreover have "gen \<le> maxGen" "hs_maxGeneration (cd_hist d) \<le> maxGen" using gens(3) H(6) by (auto simp: gen_def maxGen_def split: option.splits)
  moreover have "\<forall>g \<in> set (generations source) \<union> insert (hs_generation (cd_hist d)) (set (generations rest)). g \<le> maxGen"
    using gens(1,2) H(5,6) \<open>hs_maxGeneration (cd_hist d) \<le> maxGen\<close> by (auto intro: le_trans)
  ultimately have "doc_inv G' d'"
    using d1 by (simp add: doc_inv_def d'_def hist_ok_sources [of _ _ _ _ undo] h'_def) (simp add: rest_def)
  then have inv': "\<exists>G'. extends d G G' \<and> doc_inv G' d'" using ext by blast
  have frame: "same_frame d d'" using d1 \<open>hs_maxGeneration (cd_hist d) \<le> maxGen\<close> by (simp add: same_frame_def d'_def h'_def)
  show thesis
    by (rule that [OF P(1) run _ frame inv', of anti rest]) (use L'(1) d1 P(4,5) in \<open>simp_all add: d'_def h'_def gen_def rest_def\<close>)
qed

section \<open>Selections keep the invariant\<close>

lemma replace_top_ok:
  "top_sel es \<Longrightarrow> stack_ok first G L (replace_top s es) = stack_ok first G L es" "top_sel es \<Longrightarrow> generations (replace_top s es) = generations es"
  "top_sel es \<Longrightarrow> bottom first L (replace_top s es) = bottom first L es" "top_sel (replace_top s es)"
  by (cases es rule: generations.cases; simp add: replace_top_def top_sel_def)+

lemma top_sel_push: "top_sel (pushSelectionToHistory s es)"
  by (simp add: top_sel_def)

lemma addSelection_ok:
  assumes "hist_ok first G L (cd_hist d)" and "same_op (ed_op e) (hs_lastSelOp (cd_hist d)) \<longrightarrow> top_sel (hs_done (cd_hist d))"
    and "addSelectionToHistory e s options d = Some h"
  shows "hist_ok first G L h \<and> hs_generation h = hs_generation (cd_hist d) \<and> hs_maxGeneration h = hs_maxGeneration (cd_hist d)
    \<and> hs_undoDepth h = hs_undoDepth (cd_hist d) \<and> bottom first L (hs_done h) = bottom first L (hs_done (cd_hist d))"
proof -
  obtain merge where m: "merge \<longrightarrow> top_sel (hs_done (cd_hist d))"
    "hs_done h = (if merge then replace_top s (hs_done (cd_hist d)) else pushSelectionToHistory s (hs_done (cd_hist d)))"
    "hs_undone h = hs_undone (cd_hist d) \<or> hs_undone h = clearSelectionEvents (hs_undone (cd_hist d))"
    "hs_generation h = hs_generation (cd_hist d)" "hs_maxGeneration h = hs_maxGeneration (cd_hist d)"
    "hs_undoDepth h = hs_undoDepth (cd_hist d)"
    using assms by (fastforce simp: addSelectionToHistory_def hist_ok_def Let_def split: option.splits if_splits)
  from m(3) have u: "stack_ok first G L (hs_undone h) = stack_ok first G L (hs_undone (cd_hist d))"
    "generations (hs_undone h) = generations (hs_undone (cd_hist d))" by auto
  have d: "stack_ok first G L (hs_done h) = stack_ok first G L (hs_done (cd_hist d))" "top_sel (hs_done h)"
    "generations (hs_done h) = generations (hs_done (cd_hist d))" "bottom first L (hs_done h) = bottom first L (hs_done (cd_hist d))"
    using m(1) by (auto simp: m(2) replace_top_ok top_sel_push)
  show ?thesis using assms(1) m(4-6) u d by (simp add: hist_ok_def)
qed

section \<open>Sequences of edits\<close>

text \<open>Edits of a document: a change, a selection, undo and redo. Two cases are left out, since the
  theorems do not hold for them: a handler that cancels an undo, and a selection that replaces a
  change on top of the stack.\<close>

inductive edit_step :: "cm_doc \<Rightarrow> cm_doc \<Rightarrow> bool" where
  edit_change: "editable d c \<Longrightarrow> makeChangeInner e c d = Some d' \<Longrightarrow> edit_step d d'"
| edit_select: "same_op (ed_op e) (hs_lastSelOp (cd_hist d)) \<longrightarrow> top_sel (hs_done (cd_hist d)) \<Longrightarrow>
    setSelection e s options d = Some d' \<Longrightarrow> edit_step d d'"
| edit_history: "no_cancel e \<Longrightarrow> makeChangeFromHistory e undo False d = Some d' \<Longrightarrow> edit_step d d'"

inductive_cases edit_stepE: "edit_step d d'"

lemma no_history:
  "\<not> has_change (source_of undo (cd_hist d)) \<or> ed_attached e \<and> ed_suppressEdits e \<Longrightarrow> makeChangeFromHistory e undo False d = Some d"
proof -
  have "usable False (cd_sel d) = (\<lambda>ev. \<not> is_sel ev)" by (intro ext) (rule usable_False)
  then show "\<not> has_change (source_of undo (cd_hist d)) \<or> ed_attached e \<and> ed_suppressEdits e \<Longrightarrow> ?thesis"
    by (auto simp: makeChangeFromHistory_def has_change_def)
qed

lemma same_frame_refl [simp]: "same_frame d d"
  by (simp add: same_frame_def)

lemma edit_step_ok:
  assumes "edit_step d d'" and inv: "doc_inv G d"
  shows "\<exists>G'. extends d G G' \<and> doc_inv G' d' \<and> same_frame d d' \<and> (hs_undoDepth (cd_hist d) = None \<longrightarrow>
    bottom (td_first d') (doc_lines d') (hs_done (cd_hist d')) = bottom (td_first d) (doc_lines d) (hs_done (cd_hist d)))"
  using assms(1)
proof cases
  case (edit_change c e)
  show ?thesis
  proof (cases "cg_text c = [[]] \<and> cmp (cg_from c) (cg_to c) = 0")
    case True
    then have "d' = d" using edit_change(2) by (simp add: makeChangeInner_def)
    then show ?thesis using inv by (auto simp: extends_def)
  next
    case False
    obtain d1 where "makeChangeInner e c d = Some d1" "doc_lines d1 = changed_lines d c" "same_frame d d1"
      "doc_inv (G(hs_maxGeneration (cd_hist d) + 1 := changed_lines d c)) d1"
      "hs_generation (cd_hist d1) = hs_maxGeneration (cd_hist d) + 1"
      "hs_undoDepth (cd_hist d) = None \<longrightarrow>
        bottom (td_first d1) (doc_lines d1) (hs_done (cd_hist d1)) = bottom (td_first d) (doc_lines d) (hs_done (cd_hist d))"
      by (rule makeChangeInner_ok [OF edit_change(1) inv False])
    then show ?thesis
      using edit_change(2) by (intro exI [of _ "G(hs_maxGeneration (cd_hist d) + 1 := changed_lines d c)"]) (auto simp: extends_def)
  qed
next
  case (edit_select e s options)
  let ?d = "setSelectionNoUndo e s d"
  from edit_select(2) obtain h where h: "addSelectionToHistory e (cd_sel ?d) options ?d = Some h" "d' = ?d\<lparr>cd_hist := h\<rparr>"
    by (auto simp: setSelection_def Let_def)
  have "hist_ok (td_first d) G (doc_lines d) (cd_hist ?d)" using inv by (simp add: doc_inv_def)
  from addSelection_ok [OF this _ h(1)] edit_select(1) show ?thesis
    using inv by (intro exI [of _ G]) (simp add: doc_inv_def same_frame_def extends_def h(2))
next
  case (edit_history e undo)
  show ?thesis
  proof (cases "\<not> has_change (source_of undo (cd_hist d)) \<or> ed_attached e \<and> ed_suppressEdits e")
    case True
    then have "d' = d" using edit_history(2) no_history by force
    then show ?thesis using inv by (auto simp: extends_def)
  next
    case False
    then have F: "\<not> (ed_attached e \<and> ed_suppressEdits e)" "has_change (source_of undo (cd_hist d))" by simp_all
    obtain cs g source d1 anti rest where U: "clearSelectionEvents (source_of undo (cd_hist d)) = ChangeEvent cs g # source"
      "makeChangeFromHistory e undo False d = Some d1" "run_back (td_first d) (rev cs) (doc_lines d) = Some (doc_lines d1)"
      "same_frame d d1" "\<exists>G'. extends d G G' \<and> doc_inv G' d1"
      "hs_generation (cd_hist d1) = (case g of Some n \<Rightarrow> n | None \<Rightarrow> hs_maxGeneration (cd_hist d) + 1)"
      "source_of undo (cd_hist d1) = source"
      "source_of (\<not> undo) (cd_hist d1) = ChangeEvent anti (Some (hs_generation (cd_hist d))) # rest"
      "run_back (td_first d) (rev anti) (doc_lines d1) = Some (doc_lines d)"
      "\<forall>L. bottom (td_first d) L rest = bottom (td_first d) L (source_of (\<not> undo) (cd_hist d))"
      "changes_in rest = changes_in (source_of (\<not> undo) (cd_hist d))" "hs_lastSelOp (cd_hist d1) = hs_lastSelOp (cd_hist d)"
      by (rule from_history_ok [OF inv edit_history(1) F])
    have "d1 = d'" using U(2) edit_history(2) by simp
    have "bottom (td_first d) (doc_lines d1) (hs_done (cd_hist d1)) = bottom (td_first d) (doc_lines d) (hs_done (cd_hist d))"
    proof (cases undo)
      case True
      have "bottom (td_first d) (doc_lines d) (hs_done (cd_hist d)) = bottom (td_first d) (doc_lines d) (ChangeEvent cs g # source)"
        using clear_stack [OF U(1)] True by (simp add: source_of_def)
      then show ?thesis using U(3,7) True by (simp add: source_of_def)
    next
      case False
      then show ?thesis using U(8-10) by (simp add: source_of_def)
    qed
    then show ?thesis using U(4,5) \<open>d1 = d'\<close> by (auto simp: same_frame_def)
  qed
qed

lemma edits_ok:
  assumes "edit_step\<^sup>*\<^sup>* d d'" and "doc_inv G d"
  shows "\<exists>G'. extends d G G' \<and> doc_inv G' d' \<and> same_frame d d' \<and> (hs_undoDepth (cd_hist d) = None \<longrightarrow>
    bottom (td_first d') (doc_lines d') (hs_done (cd_hist d')) = bottom (td_first d) (doc_lines d) (hs_done (cd_hist d)))"
  using assms(1)
proof (induction rule: rtranclp_induct)
  case base
  then show ?case using assms(2) by (auto simp: extends_def)
next
  case (step d1 d2)
  from step.IH obtain G1 where 1: "extends d G G1 \<and> doc_inv G1 d1 \<and> same_frame d d1 \<and> (hs_undoDepth (cd_hist d) = None \<longrightarrow>
      bottom (td_first d1) (doc_lines d1) (hs_done (cd_hist d1)) = bottom (td_first d) (doc_lines d) (hs_done (cd_hist d)))" ..
  from edit_step_ok [OF step(2), of G1] 1 obtain G2 where 2: "extends d1 G1 G2 \<and> doc_inv G2 d2 \<and> same_frame d1 d2 \<and>
      (hs_undoDepth (cd_hist d1) = None \<longrightarrow>
      bottom (td_first d2) (doc_lines d2) (hs_done (cd_hist d2)) = bottom (td_first d1) (doc_lines d1) (hs_done (cd_hist d1)))" by auto
  have "extends d G G2" using 1 2 by (auto simp: extends_def same_frame_def)
  moreover have "same_frame d d2" using 1 2 by (auto simp: same_frame_def)
  ultimately show ?case using 1 2 by (intro exI [of _ G2]) (auto simp: same_frame_def)
qed

text \<open>A document whose history is empty, and one to apply the theorems to.\<close>

lemma empty_history_ok:
  assumes "text_ok d" and "hs_done (cd_hist d) = []" and "hs_undone (cd_hist d) = []"
    and "hs_generation (cd_hist d) \<le> hs_maxGeneration (cd_hist d)"
  shows "doc_inv (\<lambda>_. doc_lines d) d"
  using assms by (simp add: doc_inv_def hist_ok_def top_sel_def)

definition example_editor :: editor where
  "example_editor = \<lparr>ed_op = None, ed_time = 0, ed_attached = False, ed_delay = 500, ed_suppressEdits = False, ed_wholeLine = True,
     ed_estimate = None, ed_markers = \<lambda>_. \<lparr>mk_bookmark = False, mk_inclusiveLeft = False, mk_inclusiveRight = False, mk_insertLeft = False,
       mk_clearWhenEmpty = True, mk_explicitlyCleared = False, mk_readOnly = False, mk_collapsed = False, mk_lines = 1\<rparr>,
     ed_find = \<lambda>_. (Pos 0 0, Pos 0 0), ed_sawReadOnly = False, ed_beforeChange = None, ed_newSelection = \<lambda>old new. new\<rparr>"

definition example_cm :: cm_doc where
  "example_cm = \<lparr>td_tree = example_doc, td_first = 0, cd_sel = simpleSelection (Pos 0 0) None, cd_hist = History 0, cd_cleanGeneration = 1\<rparr>"

lemma example_cm_ok: "doc_lines example_cm = doc_lines example_text" "text_ok example_cm" "doc_inv (\<lambda>_. doc_lines example_cm) example_cm"
  "editable example_cm example_change" "no_cancel example_editor" "\<not> (ed_attached example_editor \<and> ed_suppressEdits example_editor)"
proof -
  have t: "td_tree example_cm = td_tree example_text" "td_first example_cm = td_first example_text"
    by (simp_all add: example_cm_def example_text_def)
  then show l: "doc_lines example_cm = doc_lines example_text" and ok: "text_ok example_cm"
    using example_text_ok(1) by (simp_all add: doc_lines_def text_ok_def)
  show "doc_inv (\<lambda>_. doc_lines example_cm) example_cm"
    using ok by (intro empty_history_ok) (simp_all add: example_cm_def History_def)
  show "editable example_cm example_change"
    using ok example_change_valid t l
    by (simp add: editable_def full_ok_def valid_change_def valid_pos_def cut_of_def) (simp add: example_change_def)
  show "no_cancel example_editor" "\<not> (ed_attached example_editor \<and> ed_suppressEdits example_editor)"
    by (simp_all add: no_cancel_def example_editor_def)
qed

section \<open>Undo, redo and clean documents\<close>

text \<open>C18. Undo gives the text before the last event, and redo after it the text the document had, with
  the same generation: in every state of a document that satisfies the invariant, if there is a
  change to undo and no handler cancels it.\<close>

theorem undo_redo_roundtrip:
  assumes "doc_inv G d" and "no_cancel e" and "\<not> (ed_attached e \<and> ed_suppressEdits e)" and "has_change (hs_done (cd_hist d))"
  shows "\<exists>cs g es d1 d2. clearSelectionEvents (hs_done (cd_hist d)) = ChangeEvent cs g # es
    \<and> makeChangeFromHistory e True False d = Some d1 \<and> run_back (td_first d) (rev cs) (doc_lines d) = Some (doc_lines d1)
    \<and> makeChangeFromHistory e False False d1 = Some d2 \<and> doc_lines d2 = doc_lines d
    \<and> hs_generation (cd_hist d2) = hs_generation (cd_hist d)"
proof -
  have s: "source_of True h = hs_done h" "source_of False h = hs_undone h" "source_of (\<not> True) h = hs_undone h" for h
    by (simp_all add: source_of_def)
  have h1: "has_change (source_of True (cd_hist d))" using assms(4) by (simp add: s)
  obtain cs g es d1 anti rest where U: "clearSelectionEvents (source_of True (cd_hist d)) = ChangeEvent cs g # es"
      "makeChangeFromHistory e True False d = Some d1" "run_back (td_first d) (rev cs) (doc_lines d) = Some (doc_lines d1)"
      "same_frame d d1" "\<exists>G'. extends d G G' \<and> doc_inv G' d1"
      "hs_generation (cd_hist d1) = (case g of Some n \<Rightarrow> n | None \<Rightarrow> hs_maxGeneration (cd_hist d) + 1)"
      "source_of True (cd_hist d1) = es"
      "source_of (\<not> True) (cd_hist d1) = ChangeEvent anti (Some (hs_generation (cd_hist d))) # rest"
      "run_back (td_first d) (rev anti) (doc_lines d1) = Some (doc_lines d)"
      "\<forall>L. bottom (td_first d) L rest = bottom (td_first d) L (source_of (\<not> True) (cd_hist d))"
      "changes_in rest = changes_in (source_of (\<not> True) (cd_hist d))" "hs_lastSelOp (cd_hist d1) = hs_lastSelOp (cd_hist d)"
    by (rule from_history_ok [OF assms(1-3) h1])
  from U(5) obtain G1 where G1: "doc_inv G1 d1" by blast
  have top: "source_of False (cd_hist d1) = ChangeEvent anti (Some (hs_generation (cd_hist d))) # rest" using U(8) by (simp add: s)
  then have h2: "has_change (source_of False (cd_hist d1))" by (simp add: has_change_def)
  obtain cs2 g2 es2 d2 anti2 rest2 where R: "clearSelectionEvents (source_of False (cd_hist d1)) = ChangeEvent cs2 g2 # es2"
      "makeChangeFromHistory e False False d1 = Some d2" "run_back (td_first d1) (rev cs2) (doc_lines d1) = Some (doc_lines d2)"
      "same_frame d1 d2" "\<exists>G'. extends d1 G1 G' \<and> doc_inv G' d2"
      "hs_generation (cd_hist d2) = (case g2 of Some n \<Rightarrow> n | None \<Rightarrow> hs_maxGeneration (cd_hist d1) + 1)"
      "source_of False (cd_hist d2) = es2"
      "source_of (\<not> False) (cd_hist d2) = ChangeEvent anti2 (Some (hs_generation (cd_hist d1))) # rest2"
      "run_back (td_first d1) (rev anti2) (doc_lines d2) = Some (doc_lines d1)"
      "\<forall>L. bottom (td_first d1) L rest2 = bottom (td_first d1) L (source_of (\<not> False) (cd_hist d1))"
      "changes_in rest2 = changes_in (source_of (\<not> False) (cd_hist d1))" "hs_lastSelOp (cd_hist d2) = hs_lastSelOp (cd_hist d1)"
    by (rule from_history_ok [OF G1 assms(2,3) h2])
  have eq: "cs2 = anti" "g2 = Some (hs_generation (cd_hist d))" using R(1) by (simp_all add: top)
  have "doc_lines d2 = doc_lines d" using R(3) U(4,9) by (simp add: eq same_frame_def)
  moreover have "hs_generation (cd_hist d2) = hs_generation (cd_hist d)" using R(6) by (simp add: eq)
  ultimately show ?thesis using U(1-3) R(2) by (auto simp: s)
qed

theorem undo_redo_roundtrip_witness:
  "\<exists>d d1 d2. doc_lines d = changed_lines example_cm example_change
     \<and> makeChangeFromHistory example_editor True False d = Some d1 \<and> makeChangeFromHistory example_editor False False d1 = Some d2
     \<and> doc_lines d2 = doc_lines d"
proof -
  have nt: "\<not> (cg_text example_change = [[]] \<and> cmp (cg_from example_change) (cg_to example_change) = 0)"
    by (simp add: example_change_def)
  obtain d where d: "makeChangeInner example_editor example_change example_cm = Some d" "doc_lines d = changed_lines example_cm example_change"
    "same_frame example_cm d"
    "doc_inv ((\<lambda>_. doc_lines example_cm)(hs_maxGeneration (cd_hist example_cm) + 1 := changed_lines example_cm example_change)) d"
    "hs_generation (cd_hist d) = hs_maxGeneration (cd_hist example_cm) + 1"
    "hs_undoDepth (cd_hist example_cm) = None \<longrightarrow>
      bottom (td_first d) (doc_lines d) (hs_done (cd_hist d)) = bottom (td_first example_cm) (doc_lines example_cm) (hs_done (cd_hist example_cm))"
    by (rule makeChangeInner_ok [OF example_cm_ok(4,3) nt])
  have ne: "doc_lines d \<noteq> doc_lines example_cm"
    unfolding d(2) example_cm_ok(1)
    by (simp add: changed_lines_def example_cm_ok(1) example_text_ok(2) example_change_def cut_before_def cut_after_def cut_of_def)
      (simp add: example_cm_def)
  have "bottom (td_first d) (doc_lines d) (hs_done (cd_hist d)) = Some (doc_lines example_cm)"
    using d(6) by (simp add: example_cm_def History_def)
  moreover have "\<not> has_change es \<Longrightarrow> bottom first L es = Some L" for first L es
    by (induction es rule: generations.induct) (auto simp: has_change_def)
  ultimately have "has_change (hs_done (cd_hist d))" using ne by force
  from undo_redo_roundtrip [OF d(4) example_cm_ok(5,6) this] d(2) show ?thesis by blast
qed



text \<open>Undoing as often as there is something to undo.\<close>

fun undo_times :: "editor \<Rightarrow> nat \<Rightarrow> cm_doc \<Rightarrow> cm_doc option" where
  "undo_times e 0 d = Some d"
| "undo_times e (Suc n) d = Option.bind (makeChangeFromHistory e True False d) (undo_times e n)"

lemma clearSelection_changes: "clearSelectionEvents es = ChangeEvent cs g # es' \<Longrightarrow> changes_in es = Suc (changes_in es')"
  by (induction es rule: generations.induct) auto

lemma bottom_no_change: "changes_in es = 0 \<Longrightarrow> bottom first L es = Some L"
  by (induction es rule: generations.induct) auto

lemma has_change_iff: "has_change es \<longleftrightarrow> changes_in es \<noteq> 0"
  by (induction es rule: generations.induct) (auto simp: has_change_def)

lemma undo_times_bottom:
  assumes "no_cancel e" and "\<not> (ed_attached e \<and> ed_suppressEdits e)"
  shows "doc_inv G d \<Longrightarrow> changes_in (hs_done (cd_hist d)) = n \<Longrightarrow>
    \<exists>d'. undo_times e n d = Some d' \<and> bottom (td_first d) (doc_lines d) (hs_done (cd_hist d)) = Some (doc_lines d')"
proof (induction n arbitrary: G d)
  case 0
  then show ?case by (simp add: bottom_no_change)
next
  case (Suc n)
  have s: "source_of True h = hs_done h" for h by (simp add: source_of_def)
  have "has_change (source_of True (cd_hist d))"
    using Suc.prems(2) by (simp add: s has_change_iff)
  from from_history_ok [OF Suc.prems(1) assms this] obtain cs g es d1 G1 where
    U: "clearSelectionEvents (hs_done (cd_hist d)) = ChangeEvent cs g # es" "makeChangeFromHistory e True False d = Some d1"
      "run_back (td_first d) (rev cs) (doc_lines d) = Some (doc_lines d1)" "same_frame d d1" "doc_inv G1 d1" "hs_done (cd_hist d1) = es"
    unfolding s by metis
  have "changes_in (hs_done (cd_hist d1)) = n" using clearSelection_changes [OF U(1)] Suc.prems(2) U(6) by simp
  from Suc.IH [OF U(5) this] obtain d' where d': "undo_times e n d1 = Some d'"
    "bottom (td_first d1) (doc_lines d1) (hs_done (cd_hist d1)) = Some (doc_lines d')" by blast
  have "bottom (td_first d) (doc_lines d) (hs_done (cd_hist d)) = bottom (td_first d) (doc_lines d) (ChangeEvent cs g # es)"
    using clear_stack [OF U(1)] by blast
  then show ?case using d' U by (simp add: same_frame_def)
qed



text \<open>A selection set in the operation that set the last selection replaces the top of the stack,
  whatever it is: after a redo in between this is the redone change, which then is in neither stack
  any more and cannot be undone.\<close>

theorem selection_overwrites_redone_change:
  assumes "doc_inv G d" and "no_cancel e" and "\<not> (ed_attached e \<and> ed_suppressEdits e)" and "has_change (hs_undone (cd_hist d))"
    and "same_op (ed_op e) (hs_lastSelOp (cd_hist d))"
  shows "\<exists>d1 d2. makeChangeFromHistory e False False d = Some d1 \<and> setSelection e sel None d1 = Some d2
    \<and> historySize d1 = (fst (historySize d) + 1, snd (historySize d) - 1)
    \<and> historySize d2 = (fst (historySize d), snd (historySize d) - 1)"
proof -
  have s: "source_of False h = hs_undone h" "source_of (\<not> False) h = hs_done h" for h by (simp_all add: source_of_def)
  have size: "historySize x = (changes_in (hs_done (cd_hist x)), changes_in (hs_undone (cd_hist x)))" for x
    by (simp add: historySize_def changes_in_def)
  have "has_change (source_of False (cd_hist d))" using assms(4) by (simp add: s)
  from from_history_ok [OF assms(1-3) this] obtain cs g es d1 anti rest where
    R: "clearSelectionEvents (hs_undone (cd_hist d)) = ChangeEvent cs g # es" "makeChangeFromHistory e False False d = Some d1"
      "hs_undone (cd_hist d1) = es" "hs_done (cd_hist d1) = ChangeEvent anti (Some (hs_generation (cd_hist d))) # rest"
      "changes_in rest = changes_in (hs_done (cd_hist d))" "hs_lastSelOp (cd_hist d1) = hs_lastSelOp (cd_hist d)"
    unfolding s by metis
  have 1: "historySize d1 = (fst (historySize d) + 1, snd (historySize d) - 1)"
    using R(3-5) clearSelection_changes [OF R(1)] by (simp add: size)
  have "setSelection e sel None d1 = Some ((setSelectionNoUndo e sel d1)\<lparr>cd_hist := (cd_hist d1)
      \<lparr>hs_done := SelEvent (cd_sel (setSelectionNoUndo e sel d1)) # rest, hs_lastSelTime := ed_time e, hs_lastSelOrigin := None, hs_lastSelOp := ed_op e\<rparr>\<rparr>)"
    using assms(5) R(4,6) by (simp add: setSelection_def addSelectionToHistory_def Let_def replace_top_def)
  with R(2,3,5) 1 clearSelection_changes [OF R(1)] show ?thesis by (simp add: size)
qed

definition example_op :: editor where
  "example_op = example_editor\<lparr>ed_op := Some 1\<rparr>"

theorem selection_overwrites_redone_change_witness:
  "\<exists>d d1 d2. historySize d = (0, 1) \<and> makeChangeFromHistory example_op False False d = Some d1
     \<and> setSelection example_op (cd_sel d) None d1 = Some d2 \<and> historySize d2 = (0, 0)"
proof -
  define hc where "hc = \<lparr>hc_from = Pos 0 0, hc_to = Pos 0 0, hc_text = [[98]], hc_spans = None\<rparr>"
  define d where "d = example_cm\<lparr>cd_hist := (History 0)\<lparr>hs_undone := [ChangeEvent [hc] None, SelEvent (cd_sel example_cm)], hs_lastSelOp := Some 1\<rparr>\<rparr>"
  have v: "valid_hc 0 (doc_lines example_cm) hc"
    by (simp add: valid_hc_def valid_at_def hc_def hcut_def example_cm_ok(1) example_text_ok(2) valid_cut_def)
  have "doc_inv (\<lambda>_. doc_lines example_cm) d"
    using example_cm_ok(2) v by (simp add: doc_inv_def d_def hist_ok_def History_def top_sel_def) (simp add: example_cm_def)
  moreover have "no_cancel example_op" "\<not> (ed_attached example_op \<and> ed_suppressEdits example_op)" "same_op (ed_op example_op) (hs_lastSelOp (cd_hist d))"
    "has_change (hs_undone (cd_hist d))"
    by (simp_all add: no_cancel_def example_op_def example_editor_def same_op_def d_def has_change_def)
  moreover have "historySize d = (0, 1)" by (simp add: historySize_def d_def History_def)
  ultimately show ?thesis using selection_overwrites_redone_change [of "\<lambda>_. doc_lines example_cm" d example_op "cd_sel d"] by auto
qed

end
