(* ===== verification/Cm_Bidi.thy ===== *)
theory Cm_Bidi
  imports Cm_Position "HOL-Library.Multiset"
begin

text \<open>
  Bidirectional text in the editor (\<open>codemirror.js\<close>): the order in which the parts of a line are
  displayed, looking up the part at a column, and moving over extending characters. The loops over
  the types of the characters are functions that carry the loop's variables along the list.
\<close>

section \<open>Types of characters\<close>

definition lowTypes :: string where
  "lowTypes = ''bbbbbbbbbtstwsbbbbbbbbbbbbbbssstwNN%%%NNNNNN,N,N1111111111NN''
     @ ''NNNNNLLLLLLLLLLLLLLLLLLLLLLLLLLNNNNNNLLLLLLLLLLLLLLLLLLLLLLL''
     @ ''LLLNNNNbbbbbbsbbbbbbbbbbbbbbbbbbbbbbbbbb,N%%%%NNNNLNNNNN%%11''
     @ ''NLNNN1LNNNNNLLLLLLLLLLLLLLLLLLLLLLLNLLLLLLLLLLLLLLLLLLLLLLLL''
     @ ''LLLLLLLN''"

definition arabicTypes :: string where
  "arabicTypes = ''nnnnnnNNr%%r,rNNmmmmmmmmmmmrrrrrrrrrrrrrrrrrrrrrrrrrrrrrrrrr''
     @ ''rrrrrrrrrrrrrrrmmmmmmmmmmmmmmmmmmmmmnnnnnnnnnn%nnrrrmrrrrrrr''
     @ ''rrrrrrrrrrrrrrrrrrrrrrrrrrrrrrrrrrrrrrrrrrrrrrrrrrrrrrrrrrrr''
     @ ''rrrrrrrrrrrrrrrrrrrrrrrrrrrrrrrrrrmmmmmmmnNmmmmmmrrmmNmmmmrr''
     @ ''1111111111''"

definition charType :: "code_unit \<Rightarrow> char" where
  "charType c =
     (let code = unat c
      in if code \<le> 0xf7 then lowTypes ! code
         else if 0x590 \<le> code \<and> code \<le> 0x5f4 then CHR ''R''
         else if 0x600 \<le> code \<and> code \<le> 0x6f9 then arabicTypes ! (code - 0x600)
         else if 0x6ee \<le> code \<and> code \<le> 0x8ac then CHR ''r''
         else if 0x2000 \<le> code \<and> code \<le> 0x200b then CHR ''w''
         else if code = 0x200c then CHR ''b''
         else CHR ''L'')"

definition bidiRE :: "code_unit \<Rightarrow> bool" where
  "bidiRE c \<longleftrightarrow> (let n = unat c in (0x590 \<le> n \<and> n \<le> 0x5f4) \<or> (0x600 \<le> n \<and> n \<le> 0x6ff) \<or> (0x700 \<le> n \<and> n \<le> 0x8ac))"

definition isNeutral :: "char \<Rightarrow> bool" where
  "isNeutral t \<longleftrightarrow> t \<in> set ''stwN''"

definition isStrong :: "char \<Rightarrow> bool" where
  "isStrong t \<longleftrightarrow> t \<in> set ''LRr''"

definition countsAsLeft :: "char \<Rightarrow> bool" where
  "countsAsLeft t \<longleftrightarrow> t \<in> set ''Lb1n''"

definition countsAsNum :: "char \<Rightarrow> bool" where
  "countsAsNum t \<longleftrightarrow> t \<in> set ''1n''"

section \<open>The rules\<close>

text \<open>W1: a non-spacing mark gets the type of the previous character.\<close>

fun rule_W1 :: "char \<Rightarrow> string \<Rightarrow> string" where
  "rule_W1 prev [] = []"
| "rule_W1 prev (t # ts) = (if t = CHR ''m'' then prev # rule_W1 prev ts else t # rule_W1 t ts)"

text \<open>W2: a European number after an Arabic letter is an Arabic number; W3: Arabic letters are right to left.\<close>

fun rule_W2 :: "char \<Rightarrow> string \<Rightarrow> string" where
  "rule_W2 cur [] = []"
| "rule_W2 cur (t # ts) =
     (if t = CHR ''1'' \<and> cur = CHR ''r'' then CHR ''n'' # rule_W2 cur ts
      else if isStrong t then (if t = CHR ''r'' then CHR ''R'' else t) # rule_W2 t ts
      else t # rule_W2 cur ts)"

text \<open>W4: a single separator between two numbers. The first and the last type stay.\<close>

fun rule_W4_loop :: "char \<Rightarrow> string \<Rightarrow> string" where
  "rule_W4_loop prev (t # u # ts) =
     (if t = CHR ''+'' \<and> prev = CHR ''1'' \<and> u = CHR ''1'' then CHR ''1''
      else if t = CHR '','' \<and> prev = u \<and> (prev = CHR ''1'' \<or> prev = CHR ''n'') then prev else t) # rule_W4_loop t (u # ts)"
| "rule_W4_loop prev ts = ts"

definition rule_W4 :: "string \<Rightarrow> string" where
  "rule_W4 ts = (case ts of [] \<Rightarrow> [] | t # ts \<Rightarrow> t # rule_W4_loop t ts)"

text \<open>W5: terminators next to European numbers become numbers, and W6: others neutral. The type before a
  run of terminators is compared with an exclamation mark.\<close>

function rule_W5 :: "char option \<Rightarrow> string \<Rightarrow> string" where
  "rule_W5 before [] = []"
| "rule_W5 before (t # ts) =
     (if t = CHR '','' then CHR ''N'' # rule_W5 (Some (CHR ''N'')) ts
      else if t = CHR ''%''
      then (let rest = dropWhile (\<lambda>u. u = CHR ''%'') ts;
                r = (if before = Some (CHR ''!'') \<or> (rest \<noteq> [] \<and> hd rest = CHR ''1'') then CHR ''1'' else CHR ''N'')
            in replicate (Suc (length ts - length rest)) r @ rule_W5 (Some r) rest)
      else t # rule_W5 (Some t) ts)"
  by pat_completeness auto
termination
  by (relation "measure (\<lambda>(before, ts). length ts)") (auto simp: le_imp_less_Suc length_dropWhile_le)

text \<open>W7: a European number after a left-to-right letter is left to right.\<close>

fun rule_W7 :: "char \<Rightarrow> string \<Rightarrow> string" where
  "rule_W7 cur [] = []"
| "rule_W7 cur (t # ts) =
     (if cur = CHR ''L'' \<and> t = CHR ''1'' then CHR ''L'' # rule_W7 cur ts
      else t # rule_W7 (if isStrong t then t else cur) ts)"

text \<open>N1 and N2: a run of neutrals takes the direction of its surroundings, if it is the same on both
  sides, or else that of the paragraph.\<close>

function rule_N :: "char \<Rightarrow> char \<Rightarrow> string \<Rightarrow> string" where
  "rule_N outerType before [] = []"
| "rule_N outerType before (t # ts) =
     (if isNeutral t
      then (let rest = dropWhile isNeutral ts; left = (before = CHR ''L'');
                right = ((case rest of [] \<Rightarrow> outerType | u # _ \<Rightarrow> u) = CHR ''L'');
                r = (if left = right then (if left then CHR ''L'' else CHR ''R'') else outerType)
            in replicate (Suc (length ts - length rest)) r @ rule_N outerType r rest)
      else t # rule_N outerType t ts)"
  by pat_completeness auto
termination
  by (relation "measure (\<lambda>(outer, before, ts). length ts)") (auto simp: le_imp_less_Suc length_dropWhile_le)

definition bidi_types :: "char \<Rightarrow> js_text \<Rightarrow> string" where
  "bidi_types outerType str =
     rule_N outerType outerType (rule_W7 outerType (rule_W5 None (rule_W4 (rule_W2 outerType (rule_W1 outerType (map charType str))))))"

section \<open>The order of the parts\<close>

record bidi_span =
  bs_level :: nat
  bs_from :: int
  bs_to :: int

definition BidiSpan :: "nat \<Rightarrow> int \<Rightarrow> int \<Rightarrow> bidi_span" where
  "BidiSpan level a b = \<lparr>bs_level = level, bs_from = a, bs_to = b\<rparr>"

text \<open>The parts of a run from right to left, in the order they are made; each is put before the
  others.\<close>

function rtl_parts :: "nat \<Rightarrow> nat \<Rightarrow> string \<Rightarrow> bidi_span list" where
  "rtl_parts pos j [] = (if pos < j then [BidiSpan 1 (int pos) (int j)] else [])"
| "rtl_parts pos j (t # ts) =
     (if countsAsNum t
      then (let rest = dropWhile countsAsNum ts; j' = j + Suc (length ts - length rest)
            in (if pos < j then [BidiSpan 1 (int pos) (int j)] else []) @ [BidiSpan 2 (int j) (int j')] @ rtl_parts j' j' rest)
      else rtl_parts pos (Suc j) ts)"
  by pat_completeness auto
termination
  by (relation "measure (\<lambda>(pos, j, ts). length ts)") (auto simp: le_imp_less_Suc length_dropWhile_le)

function order_loop :: "nat \<Rightarrow> string \<Rightarrow> bidi_span list \<Rightarrow> bidi_span list" where
  "order_loop i [] order = order"
| "order_loop i (t # ts) order =
     (if countsAsLeft t
      then (let rest = dropWhile countsAsLeft ts; i' = i + Suc (length ts - length rest)
            in order_loop i' rest (order @ [BidiSpan 0 (int i) (int i')]))
      else (let run = takeWhile (\<lambda>u. u \<noteq> CHR ''L'') ts
            in order_loop (i + Suc (length run)) (drop (length run) ts) (order @ rev (rtl_parts i i (t # run)))))"
  by pat_completeness auto
termination
  by (relation "measure (\<lambda>(i, ts, order). length ts)") (auto simp: le_imp_less_Suc length_dropWhile_le)

text \<open>White space at the start and at the end of the line is split off if the first or last part is
  from right to left.\<close>

definition lead_space :: "js_text \<Rightarrow> nat" where
  "lead_space str = length (takeWhile js_space str)"

definition trail_space :: "js_text \<Rightarrow> nat" where
  "trail_space str = length (takeWhile js_space (rev str))"

definition split_lead :: "js_text \<Rightarrow> bidi_span list \<Rightarrow> bidi_span list" where
  "split_lead str order =
     (let m = lead_space str
      in if bs_level (hd order) = 1 \<and> 0 < m
         then BidiSpan 0 0 (int m) # (hd order)\<lparr>bs_from := int m\<rparr> # tl order else order)"

definition split_trail :: "js_text \<Rightarrow> bidi_span list \<Rightarrow> bidi_span list" where
  "split_trail str order =
     (let m = trail_space str; len = int (length str)
      in if bs_level (last order) = 1 \<and> 0 < m
         then butlast order @ [(last order)\<lparr>bs_to := bs_to (last order) - int m\<rparr>, BidiSpan 0 (len - int m) len] else order)"

definition bidiOrdering :: "js_text \<Rightarrow> string \<Rightarrow> bidi_span list option" where
  "bidiOrdering str direction =
     (let outerType = (if direction = ''ltr'' then CHR ''L'' else CHR ''R'')
      in if str = [] \<or> direction = ''ltr'' \<and> \<not> list_ex bidiRE str then None
         else let order = split_trail str (split_lead str (order_loop 0 (bidi_types outerType str) []))
              in Some (if direction = ''rtl'' then rev order else order))"

section \<open>Using the order\<close>

definition iterateBidiSections :: "bidi_span list option \<Rightarrow> int \<Rightarrow> int \<Rightarrow> (int \<times> int \<times> string) list" where
  "iterateBidiSections order a b =
     (case order of
        None \<Rightarrow> [(a, b, ''ltr'')]
      | Some parts \<Rightarrow>
          (let out = map (\<lambda>p. (max (bs_from p) a, min (bs_to p) b, if bs_level p = 1 then ''rtl'' else ''ltr''))
                (filter (\<lambda>p. bs_from p < b \<and> bs_to p > a \<or> a = b \<and> bs_to p = a) parts)
           in if out = [] then [(a, b, ''ltr'')] else out))"

text \<open>The part at a column; parts that only touch the column are kept apart by the side the position
  sticks to.\<close>

fun bidi_part_loop :: "nat \<Rightarrow> bidi_span list \<Rightarrow> int \<Rightarrow> sticky option \<Rightarrow> nat option \<Rightarrow> nat option \<Rightarrow> nat option \<times> nat option" where
  "bidi_part_loop i [] ch st found other = ((case found of None \<Rightarrow> other | Some k \<Rightarrow> Some k), other)"
| "bidi_part_loop i (cur # ps) ch st found other =
     (if bs_from cur < ch \<and> bs_to cur > ch then (Some i, other)
      else let (found, other) =
                 (if bs_to cur = ch then (if bs_from cur \<noteq> bs_to cur \<and> st = Some Before then (Some i, other) else (found, Some i))
                  else (found, other));
               (found, other) =
                 (if bs_from cur = ch then (if bs_from cur \<noteq> bs_to cur \<and> st \<noteq> Some Before then (Some i, other) else (found, Some i))
                  else (found, other))
           in bidi_part_loop (Suc i) ps ch st found other)"

definition getBidiPartAt :: "bidi_span list \<Rightarrow> int \<Rightarrow> sticky option \<Rightarrow> nat option \<times> nat option" where
  "getBidiPartAt order ch st = bidi_part_loop 0 order ch st None None"

section \<open>Extending characters\<close>

definition extendingChars :: "(nat \<times> nat) list" where
  "extendingChars = [(0x0300, 0x036f), (0x0483, 0x0489), (0x0591, 0x05bd), (0x05bf, 0x05bf), (0x05c1, 0x05c1), (0x05c2, 0x05c2),
     (0x05c4, 0x05c4), (0x05c5, 0x05c5), (0x05c7, 0x05c7), (0x0610, 0x061a), (0x064b, 0x065e), (0x0670, 0x0670),
     (0x06d6, 0x06dc), (0x06de, 0x06e4), (0x06e7, 0x06e7), (0x06e8, 0x06e8), (0x06ea, 0x06ed), (0x0711, 0x0711),
     (0x0730, 0x074a), (0x07a6, 0x07b0), (0x07eb, 0x07f3), (0x0816, 0x0819), (0x081b, 0x0823), (0x0825, 0x0827),
     (0x0829, 0x082d), (0x0900, 0x0902), (0x093c, 0x093c), (0x0941, 0x0948), (0x094d, 0x094d), (0x0951, 0x0955),
     (0x0962, 0x0962), (0x0963, 0x0963), (0x0981, 0x0981), (0x09bc, 0x09bc), (0x09be, 0x09be), (0x09c1, 0x09c4),
     (0x09cd, 0x09cd), (0x09d7, 0x09d7), (0x09e2, 0x09e2), (0x09e3, 0x09e3), (0x0a01, 0x0a01), (0x0a02, 0x0a02),
     (0x0a3c, 0x0a3c), (0x0a41, 0x0a41), (0x0a42, 0x0a42), (0x0a47, 0x0a47), (0x0a48, 0x0a48), (0x0a4b, 0x0a4d),
     (0x0a51, 0x0a51), (0x0a70, 0x0a70), (0x0a71, 0x0a71), (0x0a75, 0x0a75), (0x0a81, 0x0a81), (0x0a82, 0x0a82),
     (0x0abc, 0x0abc), (0x0ac1, 0x0ac5), (0x0ac7, 0x0ac7), (0x0ac8, 0x0ac8), (0x0acd, 0x0acd), (0x0ae2, 0x0ae2),
     (0x0ae3, 0x0ae3), (0x0b01, 0x0b01), (0x0b3c, 0x0b3c), (0x0b3e, 0x0b3e), (0x0b3f, 0x0b3f), (0x0b41, 0x0b44),
     (0x0b4d, 0x0b4d), (0x0b56, 0x0b56), (0x0b57, 0x0b57), (0x0b62, 0x0b62), (0x0b63, 0x0b63), (0x0b82, 0x0b82),
     (0x0bbe, 0x0bbe), (0x0bc0, 0x0bc0), (0x0bcd, 0x0bcd), (0x0bd7, 0x0bd7), (0x0c3e, 0x0c40), (0x0c46, 0x0c48),
     (0x0c4a, 0x0c4d), (0x0c55, 0x0c55), (0x0c56, 0x0c56), (0x0c62, 0x0c62), (0x0c63, 0x0c63), (0x0cbc, 0x0cbc),
     (0x0cbf, 0x0cbf), (0x0cc2, 0x0cc2), (0x0cc6, 0x0cc6), (0x0ccc, 0x0ccc), (0x0ccd, 0x0ccd), (0x0cd5, 0x0cd5),
     (0x0cd6, 0x0cd6), (0x0ce2, 0x0ce2), (0x0ce3, 0x0ce3), (0x0d3e, 0x0d3e), (0x0d41, 0x0d44), (0x0d4d, 0x0d4d),
     (0x0d57, 0x0d57), (0x0d62, 0x0d62), (0x0d63, 0x0d63), (0x0dca, 0x0dca), (0x0dcf, 0x0dcf), (0x0dd2, 0x0dd4),
     (0x0dd6, 0x0dd6), (0x0ddf, 0x0ddf), (0x0e31, 0x0e31), (0x0e34, 0x0e3a), (0x0e47, 0x0e4e), (0x0eb1, 0x0eb1),
     (0x0eb4, 0x0eb9), (0x0ebb, 0x0ebb), (0x0ebc, 0x0ebc), (0x0ec8, 0x0ecd), (0x0f18, 0x0f18), (0x0f19, 0x0f19),
     (0x0f35, 0x0f35), (0x0f37, 0x0f37), (0x0f39, 0x0f39), (0x0f71, 0x0f7e), (0x0f80, 0x0f84), (0x0f86, 0x0f86),
     (0x0f87, 0x0f87), (0x0f90, 0x0f97), (0x0f99, 0x0fbc), (0x0fc6, 0x0fc6), (0x102d, 0x1030), (0x1032, 0x1037),
     (0x1039, 0x1039), (0x103a, 0x103a), (0x103d, 0x103d), (0x103e, 0x103e), (0x1058, 0x1058), (0x1059, 0x1059),
     (0x105e, 0x1060), (0x1071, 0x1074), (0x1082, 0x1082), (0x1085, 0x1085), (0x1086, 0x1086), (0x108d, 0x108d),
     (0x109d, 0x109d), (0x135f, 0x135f), (0x1712, 0x1714), (0x1732, 0x1734), (0x1752, 0x1752), (0x1753, 0x1753),
     (0x1772, 0x1772), (0x1773, 0x1773), (0x17b7, 0x17bd), (0x17c6, 0x17c6), (0x17c9, 0x17d3), (0x17dd, 0x17dd),
     (0x180b, 0x180d), (0x18a9, 0x18a9), (0x1920, 0x1922), (0x1927, 0x1927), (0x1928, 0x1928), (0x1932, 0x1932),
     (0x1939, 0x193b), (0x1a17, 0x1a17), (0x1a18, 0x1a18), (0x1a56, 0x1a56), (0x1a58, 0x1a5e), (0x1a60, 0x1a60),
     (0x1a62, 0x1a62), (0x1a65, 0x1a6c), (0x1a73, 0x1a7c), (0x1a7f, 0x1a7f), (0x1b00, 0x1b03), (0x1b34, 0x1b34),
     (0x1b36, 0x1b3a), (0x1b3c, 0x1b3c), (0x1b42, 0x1b42), (0x1b6b, 0x1b73), (0x1b80, 0x1b80), (0x1b81, 0x1b81),
     (0x1ba2, 0x1ba5), (0x1ba8, 0x1ba8), (0x1ba9, 0x1ba9), (0x1c2c, 0x1c33), (0x1c36, 0x1c36), (0x1c37, 0x1c37),
     (0x1cd0, 0x1cd2), (0x1cd4, 0x1ce0), (0x1ce2, 0x1ce8), (0x1ced, 0x1ced), (0x1dc0, 0x1de6), (0x1dfd, 0x1dff),
     (0x200c, 0x200c), (0x200d, 0x200d), (0x20d0, 0x20f0), (0x2cef, 0x2cf1), (0x2de0, 0x2dff), (0x302a, 0x302f),
     (0x3099, 0x3099), (0x309a, 0x309a), (0xa66f, 0xa672), (0xa67c, 0xa67c), (0xa67d, 0xa67d), (0xa6f0, 0xa6f0),
     (0xa6f1, 0xa6f1), (0xa802, 0xa802), (0xa806, 0xa806), (0xa80b, 0xa80b), (0xa825, 0xa825), (0xa826, 0xa826),
     (0xa8c4, 0xa8c4), (0xa8e0, 0xa8f1), (0xa926, 0xa92d), (0xa947, 0xa951), (0xa980, 0xa982), (0xa9b3, 0xa9b3),
     (0xa9b6, 0xa9b9), (0xa9bc, 0xa9bc), (0xaa29, 0xaa2e), (0xaa31, 0xaa31), (0xaa32, 0xaa32), (0xaa35, 0xaa35),
     (0xaa36, 0xaa36), (0xaa43, 0xaa43), (0xaa4c, 0xaa4c), (0xaab0, 0xaab0), (0xaab2, 0xaab4), (0xaab7, 0xaab7),
     (0xaab8, 0xaab8), (0xaabe, 0xaabe), (0xaabf, 0xaabf), (0xaac1, 0xaac1), (0xabe5, 0xabe5), (0xabe8, 0xabe8),
     (0xabed, 0xabed), (0xdc00, 0xdfff), (0xfb1e, 0xfb1e), (0xfe00, 0xfe0f), (0xfe20, 0xfe26), (0xff9e, 0xff9e),
     (0xff9f, 0xff9f)]"

definition isExtendingChar :: "code_unit \<Rightarrow> bool" where
  "isExtendingChar c \<longleftrightarrow> unat c \<ge> 768 \<and> list_ex (\<lambda>(a, b). a \<le> unat c \<and> unat c \<le> b) extendingChars"

function skipExtendingChars :: "js_text \<Rightarrow> int \<Rightarrow> int \<Rightarrow> int" where
  "skipExtendingChars str pos dir =
     (if dir < 0
      then (if pos > 0 \<and> nat pos < length str \<and> isExtendingChar (str ! nat pos) then skipExtendingChars str (pos - 1) dir else pos)
      else (if 0 \<le> pos \<and> pos < int (length str) \<and> isExtendingChar (str ! nat pos) then skipExtendingChars str (pos + 1) dir else pos))"
  by pat_completeness auto
termination
  by (relation "measure (\<lambda>(str, pos, dir). if dir < 0 then nat pos else nat (int (length str) - pos))") auto

declare skipExtendingChars.simps [simp del]

definition moveCharLogically :: "js_text \<Rightarrow> int \<Rightarrow> int \<Rightarrow> int option" where
  "moveCharLogically text ch dir =
     (let target = skipExtendingChars text (ch + dir) dir in if target < 0 \<or> target > int (length text) then None else Some target)"

definition moveLogically :: "js_text \<Rightarrow> pos \<Rightarrow> int \<Rightarrow> pos option" where
  "moveLogically text start dir =
     map_option (\<lambda>ch. \<lparr>ps_line = ps_line start, ps_ch = ch, ps_sticky = Some (if dir < 0 then After else Before)\<rparr>)
       (moveCharLogically text (ps_ch start) dir)"

section \<open>The parts cover the line\<close>

definition span_chars :: "bidi_span \<Rightarrow> nat list" where
  "span_chars p = [nat (bs_from p)..<nat (bs_to p)]"

abbreviation chars_of :: "bidi_span list \<Rightarrow> nat list" where
  "chars_of ps \<equiv> concat (map span_chars ps)"

definition span_ok :: "bidi_span \<Rightarrow> bool" where
  "span_ok p \<longleftrightarrow> 0 \<le> bs_from p \<and> bs_from p < bs_to p \<and> bs_level p \<le> 2"

lemma BidiSpan_simps [simp]: "bs_level (BidiSpan l a b) = l" "bs_from (BidiSpan l a b) = a" "bs_to (BidiSpan l a b) = b"
  by (simp_all add: BidiSpan_def)

lemma span_ok_BidiSpan [simp]: "span_ok (BidiSpan l a b) \<longleftrightarrow> 0 \<le> a \<and> a < b \<and> l \<le> 2"
  by (simp add: span_ok_def)

lemma span_chars_BidiSpan [simp]: "span_chars (BidiSpan l (int a) (int b)) = [a..<b]"
  by (simp add: span_chars_def)

lemma dropWhile_split: "length ts - length (dropWhile P ts) = length (takeWhile P ts)"
proof -
  have "length ts = length (takeWhile P ts) + length (dropWhile P ts)"
    by (metis length_append takeWhile_dropWhile_id)
  then show ?thesis by simp
qed

lemma takeWhile_split: "length ts = length (takeWhile P ts) + length (dropWhile P ts)"
  by (metis length_append takeWhile_dropWhile_id)

lemma upt_join: "a \<le> b \<Longrightarrow> b \<le> c \<Longrightarrow> [a..<b] @ [b..<c] = [a..<c]"
  by (metis le_add_diff_inverse upt_add_eq_append)

lemma rtl_parts_chars: "pos \<le> j \<Longrightarrow> chars_of (rtl_parts pos j ts) = [pos..<j + length ts] \<and> list_all span_ok (rtl_parts pos j ts)"
proof (induction pos j ts rule: rtl_parts.induct)
  case (2 pos j t ts)
  show ?case
  proof (cases "countsAsNum t")
    case True
    define j' where "j' = j + Suc (length ts - length (dropWhile countsAsNum ts))"
    have end_eq: "j' + length (dropWhile countsAsNum ts) = j + Suc (length ts)" "j < j'"
      using takeWhile_split [of ts countsAsNum] by (simp_all add: j'_def)
    have IH: "chars_of (rtl_parts j' j' (dropWhile countsAsNum ts)) = [j'..<j + Suc (length ts)]"
      "list_all span_ok (rtl_parts j' j' (dropWhile countsAsNum ts))"
      using 2(1) [OF True refl j'_def] end_eq by simp_all
    have r: "rtl_parts pos j (t # ts) = (if pos < j then [BidiSpan 1 (int pos) (int j)] else [])
        @ [BidiSpan 2 (int j) (int j')] @ rtl_parts j' j' (dropWhile countsAsNum ts)"
      using True by (simp add: j'_def Let_def)
    have "chars_of (rtl_parts pos j (t # ts)) = [pos..<j] @ ([j..<j'] @ [j'..<j + Suc (length ts)])"
      using 2(3) IH(1) unfolding r by simp
    also have "\<dots> = [pos..<j + Suc (length ts)]"
      using 2(3) end_eq upt_join [of j j' "j + Suc (length ts)"] upt_join [of pos j "j + Suc (length ts)"] by (simp del: upt_Suc)
    finally show ?thesis using IH(2) end_eq(2) 2(3) unfolding r by (simp del: upt_Suc)
  next
    case False
    then show ?thesis using 2(2) [OF False] 2(3) by simp
  qed
qed auto

lemma order_loop_chars:
  "list_all span_ok order \<Longrightarrow> mset (chars_of (order_loop i ts order)) = mset (chars_of order) + mset [i..<i + length ts]
     \<and> list_all span_ok (order_loop i ts order)"
proof (induction i ts order rule: order_loop.induct)
  case (2 i t ts order)
  show ?case
  proof (cases "countsAsLeft t")
    case True
    define i' where "i' = i + Suc (length ts - length (dropWhile countsAsLeft ts))"
    have e: "i' + length (dropWhile countsAsLeft ts) = i + Suc (length ts)" "i < i'"
      using takeWhile_split [of ts countsAsLeft] by (simp_all add: i'_def)
    have r: "order_loop i (t # ts) order = order_loop i' (dropWhile countsAsLeft ts) (order @ [BidiSpan 0 (int i) (int i')])"
      using True by (simp add: i'_def Let_def)
    have ok: "list_all span_ok (order @ [BidiSpan 0 (int i) (int i')])" using 2(3) e by simp
    from 2(1) [OF True refl i'_def ok] e have
      "mset (chars_of (order_loop i (t # ts) order)) = mset (chars_of order) + (mset [i..<i'] + mset [i'..<i + Suc (length ts)])"
      "list_all span_ok (order_loop i (t # ts) order)" unfolding r by (simp_all del: upt_Suc mset_upt)
    moreover have "mset [i..<i'] + mset [i'..<i + Suc (length ts)] = mset [i..<i + length (t # ts)]"
      using e upt_join [of i i' "i + Suc (length ts)"] by (simp flip: mset_append del: upt_Suc mset_upt)
    ultimately show ?thesis by simp
  next
    case False
    define run where "run = takeWhile (\<lambda>u. u \<noteq> CHR ''L'') ts"
    have e: "length run \<le> length ts" by (simp add: run_def length_takeWhile_le)
    have r: "order_loop i (t # ts) order = order_loop (i + Suc (length run)) (drop (length run) ts) (order @ rev (rtl_parts i i (t # run)))"
      using False by (simp add: run_def Let_def del: rtl_parts.simps)
    have P: "chars_of (rtl_parts i i (t # run)) = [i..<i + Suc (length run)]" "list_all span_ok (rtl_parts i i (t # run))"
      using rtl_parts_chars [of i i "t # run"] by simp_all
    have M: "mset (chars_of (rev ps)) = mset (chars_of ps)" for ps by (induction ps) auto
    have ok: "list_all span_ok (order @ rev (rtl_parts i i (t # run)))" using 2(3) P(2) by (simp add: list_all_iff ball_Un del: rtl_parts.simps)
    from 2(2) [OF False run_def ok] P(1) e have
      "mset (chars_of (order_loop i (t # ts) order)) = mset (chars_of order) + (mset [i..<i + Suc (length run)] + mset [i + Suc (length run)..<i + Suc (length ts)])"
      "list_all span_ok (order_loop i (t # ts) order)" unfolding r using M [of "rtl_parts i i (t # run)"] by (simp_all del: upt_Suc mset_upt rtl_parts.simps)
    moreover have "mset [i..<i + Suc (length run)] + mset [i + Suc (length run)..<i + Suc (length ts)] = mset [i..<i + length (t # ts)]"
      using e upt_join [of i "i + Suc (length run)" "i + Suc (length ts)"] by (simp flip: mset_append del: upt_Suc mset_upt)
    ultimately show ?thesis by simp
  qed
qed simp

text \<open>The first and the last part, when the types of the first and last characters are left to right.\<close>

lemma order_loop_hd: "hd (order_loop i ts (p # order)) = p \<and> order_loop i ts (p # order) \<noteq> []"
  by (induction i ts "p # order" arbitrary: order rule: order_loop.induct) (simp_all add: Let_def)

lemma order_loop_first: "countsAsLeft t \<Longrightarrow> bs_level (hd (order_loop i (t # ts) [])) = 0"
  using order_loop_hd by (simp add: Let_def)

lemma order_loop_last:
  "ts \<noteq> [] \<Longrightarrow> last ts = CHR ''L'' \<Longrightarrow> order_loop i ts order \<noteq> [] \<and> bs_level (last (order_loop i ts order)) = 0"
proof (induction i ts order rule: order_loop.induct)
  case (2 i t ts order)
  show ?case
  proof (cases "countsAsLeft t")
    case True
    define rest where "rest = dropWhile countsAsLeft ts"
    show ?thesis
    proof (cases "rest = []")
      case True
      with \<open>countsAsLeft t\<close> show ?thesis by (simp add: Let_def flip: rest_def)
    next
      case False
      then have "last rest = CHR ''L''" using 2(4) last_appendR [of rest "takeWhile countsAsLeft ts"]
        by (cases "ts = []") (simp_all add: rest_def)
      with False 2(1) [OF True rest_def refl] True show ?thesis by (simp add: Let_def flip: rest_def)
    qed
  next
    case False
    define run where "run = takeWhile (\<lambda>u. u \<noteq> CHR ''L'') ts"
    have split: "run @ drop (length run) ts = ts" unfolding run_def
      by (metis append_eq_conv_conj takeWhile_dropWhile_id)
    have ts: "ts \<noteq> []" "last ts = CHR ''L''" using False 2(4) by (auto simp: countsAsLeft_def split: if_splits)
    have "drop (length run) ts \<noteq> []"
    proof
      assume "drop (length run) ts = []"
      then have "run = ts" using split by simp
      then have "last ts \<in> set run" using ts(1) by simp
      then show False using ts(2) by (auto simp: run_def dest: set_takeWhileD)
    qed
    moreover have "last (drop (length run) ts) = CHR ''L''" using calculation split ts(2) by (metis last_appendR)
    ultimately show ?thesis using 2(2) [OF False run_def] False by (simp add: Let_def flip: run_def)
  qed
qed simp

section \<open>White space at the ends\<close>

text \<open>In a left-to-right paragraph white space at the ends of a line gets the type of the paragraph.\<close>

lemma lowTypes_space:
  "lowTypes ! 9 = CHR ''t''" "lowTypes ! 10 = CHR ''s''" "lowTypes ! 11 = CHR ''t''" "lowTypes ! 12 = CHR ''w''"
  "lowTypes ! 13 = CHR ''s''" "lowTypes ! 32 = CHR ''w''" "lowTypes ! 160 = CHR '',''"
  by (simp_all add: lowTypes_def nth_append)

definition space_type :: "char \<Rightarrow> bool" where
  "space_type t \<longleftrightarrow> t \<in> set ''stw,L''"

lemma charType_space: "js_space c \<Longrightarrow> space_type (charType c)"
proof -
  assume "js_space c"
  moreover have "9 \<le> n \<and> n \<le> 13 \<longleftrightarrow> n = 9 \<or> n = 10 \<or> n = 11 \<or> n = 12 \<or> n = (13 :: nat)" for n by auto
  ultimately consider "unat c = 9" | "unat c = 10" | "unat c = 11" | "unat c = 12" | "unat c = 13" | "unat c = 32" | "unat c = 160"
    | "unat c \<in> {0x1680, 0x2028, 0x2029, 0x202F, 0x205F, 0x3000, 0xFEFF}" | "0x2000 \<le> unat c" "unat c \<le> 0x200A"
    unfolding js_space_def Let_def by blast
  then show ?thesis
    by cases (auto simp: charType_def Let_def lowTypes_space space_type_def)
qed

lemma rules_hd:
  assumes "space_type t" and that: "charType c = t"
  shows "hd (bidi_types (CHR ''L'') (c # str)) = CHR ''L''"
proof -
  have t: "t \<noteq> CHR ''m''" "t \<noteq> CHR ''1''" "t \<noteq> CHR ''r''" "t \<noteq> CHR ''%''" using assms by (auto simp: space_type_def)
  obtain ts1 where 1: "rule_W1 (CHR ''L'') (t # map charType str) = t # ts1" using t by simp
  obtain ts2 where 2: "rule_W2 (CHR ''L'') (t # ts1) = t # ts2" using t by (cases "isStrong t") simp_all
  obtain ts3 where 3: "rule_W4 (t # ts2) = t # ts3" by (simp add: rule_W4_def)
  obtain u ts4 where 4: "rule_W5 None (t # ts3) = u # ts4" "u = CHR ''L'' \<or> isNeutral u"
    using t assms by (auto simp: space_type_def isNeutral_def)
  then have u: "u \<noteq> CHR ''1''" by (auto simp: isNeutral_def)
  obtain ts5 where 5: "rule_W7 (CHR ''L'') (u # ts4) = u # ts5" using u by simp
  have "hd (rule_N (CHR ''L'') (CHR ''L'') (u # ts5)) = CHR ''L''" using 4(2) by (auto simp: Let_def isNeutral_def)
  then show ?thesis unfolding bidi_types_def list.map that 1 2 3 4(1) 5 .
qed

lemma W1_last: "ts \<noteq> [] \<Longrightarrow> last ts \<noteq> CHR ''m'' \<Longrightarrow> rule_W1 p ts \<noteq> [] \<and> last (rule_W1 p ts) = last ts"
  by (induction p ts rule: rule_W1.induct) (auto split: if_splits)

lemma W2_last: "ts \<noteq> [] \<Longrightarrow> last ts \<noteq> CHR ''1'' \<Longrightarrow> last ts \<noteq> CHR ''r'' \<Longrightarrow> rule_W2 p ts \<noteq> [] \<and> last (rule_W2 p ts) = last ts"
  by (induction p ts rule: rule_W2.induct) (auto split: if_splits)

lemma W4_last: "ts \<noteq> [] \<Longrightarrow> rule_W4 ts \<noteq> [] \<and> last (rule_W4 ts) = last ts"
proof -
  have "ts \<noteq> [] \<Longrightarrow> rule_W4_loop p ts \<noteq> [] \<and> last (rule_W4_loop p ts) = last ts" for p ts
    by (induction p ts rule: rule_W4_loop.induct) (auto split: if_splits)
  then show "ts \<noteq> [] \<Longrightarrow> ?thesis" by (cases ts) (auto simp: rule_W4_def)
qed

lemma last_dropWhile: "ts \<noteq> [] \<Longrightarrow> \<not> P (last ts) \<Longrightarrow> dropWhile P ts \<noteq> [] \<and> last (dropWhile P ts) = last ts"
  by (induction ts) (auto split: if_splits)

lemma W5_last: "ts \<noteq> [] \<Longrightarrow> last ts \<noteq> CHR ''%'' \<Longrightarrow>
    rule_W5 b ts \<noteq> [] \<and> last (rule_W5 b ts) = (if last ts = CHR '','' then CHR ''N'' else last ts)"
proof (induction b ts rule: rule_W5.induct)
  case (2 b t ts)
  show ?case
  proof (cases "t = CHR ''%''")
    case True
    then have ts: "ts \<noteq> []" "last ts \<noteq> CHR ''%''" using 2(5) by (auto split: if_splits)
    from last_dropWhile [OF ts(1), of "\<lambda>u. u = CHR ''%''"] ts(2) have
      rest: "dropWhile (\<lambda>u. u = CHR ''%'') ts \<noteq> []" "last (dropWhile (\<lambda>u. u = CHR ''%'') ts) = last ts" by simp_all
    show ?thesis using True 2(2) [OF _ True refl refl] rest ts by (simp add: Let_def)
  next
    case False
    then show ?thesis using 2 by (cases "ts = []") auto
  qed
qed simp

lemma W7_last: "ts \<noteq> [] \<Longrightarrow> last ts \<noteq> CHR ''1'' \<Longrightarrow> rule_W7 p ts \<noteq> [] \<and> last (rule_W7 p ts) = last ts"
  by (induction p ts rule: rule_W7.induct) (auto split: if_splits)

lemma N_last: "ts \<noteq> [] \<Longrightarrow> last ts = CHR ''L'' \<or> isNeutral (last ts) \<Longrightarrow>
    rule_N (CHR ''L'') b ts \<noteq> [] \<and> last (rule_N (CHR ''L'') b ts) = CHR ''L''"
proof (induction "CHR ''L''" b ts rule: rule_N.induct)
  case (2 b t ts)
  show ?case
  proof (cases "isNeutral t")
    case True
    define rest where "rest = dropWhile isNeutral ts"
    show ?thesis
    proof (cases "rest = []")
      case True
      then show ?thesis using \<open>isNeutral t\<close> by (simp add: Let_def flip: rest_def)
    next
      case False
      then have ne: "ts \<noteq> []" by (auto simp: rest_def)
      have "last rest = last ts" using False last_appendR [of rest "takeWhile isNeutral ts"] by (simp add: rest_def)
      then show ?thesis using True False 2(1) [OF True rest_def refl refl refl] 2(4) ne
        by (simp add: Let_def flip: rest_def)
    qed
  next
    case False
    then show ?thesis using 2 by (cases "ts = []") (auto simp: isNeutral_def)
  qed
qed simp

lemma types_last:
  assumes "str \<noteq> []" and "js_space (last str)"
  shows "bidi_types (CHR ''L'') str \<noteq> [] \<and> last (bidi_types (CHR ''L'') str) = CHR ''L''"
proof -
  have t: "space_type (last (map charType str))" using charType_space [OF assms(2)] assms(1) by (simp add: last_map)
  then have n: "last (map charType str) \<noteq> CHR ''m''" "last (map charType str) \<noteq> CHR ''1''" "last (map charType str) \<noteq> CHR ''r''"
    "last (map charType str) \<noteq> CHR ''%''" by (auto simp: space_type_def)
  define t1 where "t1 = rule_W1 (CHR ''L'') (map charType str)"
  define t2 where "t2 = rule_W2 (CHR ''L'') t1"
  define t5 where "t5 = rule_W5 None (rule_W4 t2)"
  have 1: "t1 \<noteq> [] \<and> last t1 = last (map charType str)" using W1_last n assms(1) by (simp add: t1_def)
  have 2: "t2 \<noteq> [] \<and> last t2 = last (map charType str)" using W2_last [of t1] n 1 by (simp add: t2_def)
  have "t5 \<noteq> [] \<and> last t5 = (if last (map charType str) = CHR '','' then CHR ''N'' else last (map charType str))"
    using W5_last [of "rule_W4 t2"] W4_last [of t2] n 2 by (simp add: t5_def)
  then have 5: "t5 \<noteq> []" "last t5 = CHR ''L'' \<or> isNeutral (last t5)" using t by (auto simp: space_type_def isNeutral_def)
  then have "last t5 \<noteq> CHR ''1''" by (auto simp: isNeutral_def)
  from W7_last [OF 5(1) this] 5(2) N_last show ?thesis by (simp add: bidi_types_def t1_def t2_def t5_def)
qed

lemma rules_length:
  "length (rule_W1 p ts) = length ts" "length (rule_W2 p ts) = length ts" "length (rule_W4_loop p ts) = length ts"
  "length (rule_W7 p ts) = length ts"
proof -
  show "length (rule_W1 p ts) = length ts" by (induction p ts rule: rule_W1.induct) auto
  show "length (rule_W2 p ts) = length ts" by (induction p ts rule: rule_W2.induct) auto
  show "length (rule_W4_loop p ts) = length ts" by (induction p ts rule: rule_W4_loop.induct) auto
  show "length (rule_W7 p ts) = length ts" by (induction p ts rule: rule_W7.induct) auto
qed

lemma W5_length: "length (rule_W5 b ts) = length ts"
  by (induction b ts rule: rule_W5.induct) (auto simp: Let_def length_dropWhile_le)

lemma N_length: "length (rule_N o1 b ts) = length ts"
  by (induction o1 b ts rule: rule_N.induct) (auto simp: Let_def length_dropWhile_le)

lemma types_length [simp]: "length (bidi_types o1 str) = length str"
proof -
  have "length (rule_W4 ts) = length ts" for ts by (cases ts) (simp_all add: rule_W4_def rules_length)
  then show ?thesis by (simp only: bidi_types_def rules_length W5_length N_length length_map)
qed

section \<open>The order in a left-to-right paragraph\<close>

lemma ltr_order:
  assumes "bidiOrdering str ''ltr'' = Some order"
  shows "mset (chars_of order) = mset [0..<length str]" "list_all span_ok order"
proof -
  define ts where "ts = bidi_types (CHR ''L'') str"
  define ps where "ps = order_loop 0 ts []"
  have ne: "str \<noteq> []" and order: "order = split_trail str (split_lead str ps)"
    using assms by (auto simp: bidiOrdering_def Let_def ps_def ts_def split: if_splits)
  have lead: "split_lead str ps = ps"
  proof (cases "0 < lead_space str")
    case True
    then obtain c cs where str: "str = c # cs" "js_space c" by (cases str) (auto simp: lead_space_def split: if_splits)
    then have "hd ts = CHR ''L''" "ts \<noteq> []" using rules_hd [OF charType_space refl, of c cs] types_length [of "CHR ''L''" str]
      by (auto simp: ts_def simp flip: length_0_conv)
    then obtain us where "ts = CHR ''L'' # us" by (cases ts) auto
    moreover have "countsAsLeft (CHR ''L'')" by (simp add: countsAsLeft_def)
    ultimately have "bs_level (hd ps) = 0" using order_loop_first by (simp only: ps_def)
    then show ?thesis by (simp add: split_lead_def)
  qed (simp add: split_lead_def)
  have trail: "split_trail str ps = ps"
  proof (cases "0 < trail_space str")
    case True
    then have "js_space (last str)" using ne by (cases str rule: rev_cases) (auto simp: trail_space_def split: if_splits)
    from types_last [OF ne this] order_loop_last [of ts 0 "[]"] show ?thesis by (simp add: ts_def ps_def split_trail_def)
  qed (simp add: split_trail_def)
  have "order = ps" by (simp add: order lead trail)
  then show "mset (chars_of order) = mset [0..<length str]" "list_all span_ok order"
    using order_loop_chars [of "[]" 0 ts] by (simp_all add: ps_def ts_def)
qed

lemma clip_upt: "0 \<le> a \<Longrightarrow> filter (\<lambda>i. nat a \<le> i \<and> i < nat b) [nat x..<nat y] = [nat (max x a)..<nat (min y b)]"
proof -
  assume "0 \<le> a"
  have "filter (\<lambda>i. k \<le> i \<and> i < m) [u..<v] = [max u k..<min v m]" for k m u v :: nat
  proof (induction v)
    case (Suc v)
    then show ?case by (cases "v < m") (auto simp: max_def min_def not_less le_Suc_eq)
  qed simp
  moreover have "nat (max x a) = max (nat x) (nat a)" "nat (min y b) = min (nat y) (nat b)" by auto
  ultimately show ?thesis by simp
qed


lemma bidiOrdering_ltr: "list_ex bidiRE str \<Longrightarrow> \<exists>order. bidiOrdering str ''ltr'' = Some order"
  by (auto simp: bidiOrdering_def Let_def)

text \<open>Two letters from right to left, a digit and a space.\<close>

lemma example_types: "charType 0x5d0 = CHR ''R''" "charType 49 = CHR ''1''" "charType 32 = CHR ''w''" "charType 37 = CHR ''%''"
  by (simp_all add: charType_def lowTypes_def nth_append)

definition example_bidi :: js_text where
  "example_bidi = [0x5d0, 0x5d0, 49, 32]"


text \<open>In a right-to-left paragraph white space is split off even if the part is not at the end of the
  line: a line that is only a space gets three parts, one of them with its ends exchanged.\<close>

theorem rtl_space_in_two_parts:
  "bidiOrdering [32] ''rtl'' = Some [BidiSpan 0 0 1, BidiSpan 1 1 0, BidiSpan 0 0 1]"
proof -
  have "bidi_types (CHR ''R'') [32] = ''R''"
    by (simp add: bidi_types_def example_types rule_W4_def isStrong_def isNeutral_def Let_def)
  then show ?thesis
    by (simp add: bidiOrdering_def Let_def split_lead_def split_trail_def lead_space_def trail_space_def js_space_def
        countsAsLeft_def countsAsNum_def BidiSpan_def)
qed

text \<open>A percent sign becomes a number before a digit, but not after one, since the type before it is
  compared with an exclamation mark, which no character has.\<close>

theorem terminator_after_number:
  "rule_W5 None ''%1'' = ''11'' \<and> rule_W5 None ''1%'' = ''1N''"
  by (simp add: Let_def)

section \<open>Moving\<close>

lemma skipExtendingChars_rng: "0 \<le> pos \<Longrightarrow> pos \<le> int (length str) \<Longrightarrow>
    0 \<le> skipExtendingChars str pos dir \<and> skipExtendingChars str pos dir \<le> int (length str)"
proof (induction str pos dir rule: skipExtendingChars.induct)
  case (1 str pos dir)
  show ?case
    by (subst (1 2) skipExtendingChars.simps) (use 1 in auto)
qed

text \<open>Moving by a character ends at a position of the line that is not inside a cluster, or at its end,
  and at least one character further.\<close>

lemma skipExtendingChars_stop:
  "skipExtendingChars str pos dir = p \<Longrightarrow> 0 \<le> p \<Longrightarrow> p < int (length str) \<Longrightarrow> dir \<ge> 0 \<or> p > 0 \<Longrightarrow> \<not> isExtendingChar (str ! nat p)"
proof (induction str pos dir rule: skipExtendingChars.induct)
  case (1 str pos dir)
  then show ?case
    by (subst (asm) (3) skipExtendingChars.simps) (auto split: if_splits)
qed

end
