(* ===== verification/Cm_Stream.thy ===== *)
theory Cm_Stream
  imports Cm_Text
begin

text \<open>
  What the modes of the editor read their text from: regular expressions as the pages use them, and
  \<open>StringStream\<close> of \<open>codemirror.js\<close>. A regular expression is a term with the meaning the
  language gives it, the list of the ways it can match in the order the matcher tries them; the
  first one is the match.
\<close>

section \<open>Characters\<close>

definition cu :: "char \<Rightarrow> code_unit" where "cu c = of_char c"
definition ascii :: "string \<Rightarrow> js_text" where "ascii s = map cu s"
definition one_of :: "string \<Rightarrow> code_unit \<Rightarrow> bool" where "one_of s c \<longleftrightarrow> c \<in> set (ascii s)"

definition digit_unit :: "code_unit \<Rightarrow> bool" where "digit_unit c \<longleftrightarrow> 48 \<le> c \<and> c \<le> 57"
definition lower_unit :: "code_unit \<Rightarrow> bool" where "lower_unit c \<longleftrightarrow> 97 \<le> c \<and> c \<le> 122"
definition upper_unit :: "code_unit \<Rightarrow> bool" where "upper_unit c \<longleftrightarrow> 65 \<le> c \<and> c \<le> 90"
definition hex_unit :: "code_unit \<Rightarrow> bool" where
  "hex_unit c \<longleftrightarrow> digit_unit c \<or> (97 \<le> c \<and> c \<le> 102) \<or> (65 \<le> c \<and> c \<le> 70)"

text \<open>The classes \<open>\w\<close> and \<open>.\<close> of regular expressions.\<close>

definition word_unit :: "code_unit \<Rightarrow> bool" where
  "word_unit c \<longleftrightarrow> digit_unit c \<or> lower_unit c \<or> upper_unit c \<or> c = 95"

definition line_unit :: "code_unit \<Rightarrow> bool" where
  "line_unit c \<longleftrightarrow> c \<noteq> newline \<and> c \<noteq> carriage_return \<and> c \<noteq> 0x2028 \<and> c \<noteq> 0x2029"

text \<open>
  \<open>toLowerCase\<close>, as far as its result is compared with ASCII words: the letters, and the Kelvin
  sign, the only other character whose lower case is ASCII.
\<close>

definition to_lower :: "code_unit \<Rightarrow> code_unit" where
  "to_lower c = (if upper_unit c then c + 32 else if c = 0x212A then 107 else c)"

definition lower_case :: "js_text \<Rightarrow> js_text" where "lower_case s = map to_lower s"

section \<open>Regular expressions\<close>

datatype regex = Empty | Unit "code_unit \<Rightarrow> bool" | Then regex regex | Else regex regex | Star regex
  | Lazy regex | Group nat regex

text \<open>
  A match in progress: the groups captured so far and the rest of the text. An iteration of a
  loop that consumes nothing is refused.
\<close>

type_synonym captures = "(nat \<times> js_text) list"

function paths :: "regex \<Rightarrow> captures \<Rightarrow> js_text \<Rightarrow> (captures \<times> js_text) list" where
  "paths Empty g s = [(g, s)]"
| "paths (Unit P) g s = (case s of [] \<Rightarrow> [] | c # s' \<Rightarrow> if P c then [(g, s')] else [])"
| "paths (Then a b) g s = concat (map (\<lambda>(g', s'). paths b g' s') (paths a g s))"
| "paths (Else a b) g s = paths a g s @ paths b g s"
| "paths (Star a) g s = concat (map (\<lambda>(g', s'). if length s' < length s then paths (Star a) g' s' else []) (paths a g s)) @ [(g, s)]"
| "paths (Lazy a) g s = (g, s) # concat (map (\<lambda>(g', s'). if length s' < length s then paths (Lazy a) g' s' else []) (paths a g s))"
| "paths (Group n a) g s = map (\<lambda>(g', s'). ((n, take (length s - length s') s) # g', s')) (paths a g s)"
  by pat_completeness auto
termination by (relation "measures [\<lambda>(r, g, s). size r, \<lambda>(r, g, s). length s]") auto

declare paths.simps(5,6) [simp del]

definition units :: "string \<Rightarrow> regex" where
  "units s = foldr (\<lambda>c r. Then (Unit (\<lambda>u. u = cu c)) r) s Empty"

abbreviation any_of :: "string \<Rightarrow> regex" where "any_of s \<equiv> Unit (one_of s)"
abbreviation plus_of :: "regex \<Rightarrow> regex" where "plus_of r \<equiv> Then r (Star r)"
abbreviation maybe :: "regex \<Rightarrow> regex" where "maybe r \<equiv> Else r Empty"

definition regex_match :: "regex \<Rightarrow> js_text \<Rightarrow> (js_text \<times> captures) option" where
  "regex_match r s = (case paths r [] s of [] \<Rightarrow> None | (g, s') # _ \<Rightarrow> Some (take (length s - length s') s, g))"

lemma paths_suffix: "(g', s') \<in> set (paths r g s) \<Longrightarrow> \<exists>m. s = m @ s'"
proof (induction r g s arbitrary: g' s' rule: paths.induct)
  case (2 P g s)
  then show ?case by (cases s) (auto split: if_splits)
next
  case (3 a b g s)
  then show ?case by fastforce
next
  case (5 a g s)
  from "5.prems" show ?case
    unfolding paths.simps(5) [of a g s] using "5.IH" by (auto split: if_splits) (metis append.assoc)
next
  case (6 a g s)
  from "6.prems" show ?case
    unfolding paths.simps(6) [of a g s] using "6.IH" by (auto split: if_splits) (metis append.assoc)
qed auto

lemma regex_match_prefix:
  "regex_match r s = Some (m, g) \<Longrightarrow> \<exists>s'. s = m @ s' \<and> (g, s') \<in> set (paths r [] s)"
proof -
  assume "regex_match r s = Some (m, g)"
  then obtain s' ps where ps: "paths r [] s = (g, s') # ps" "m = take (length s - length s') s"
    by (auto simp: regex_match_def split: list.splits)
  with paths_suffix [of g s' r "[]" s] show ?thesis by auto
qed

text \<open>The least number of characters an expression consumes.\<close>

primrec consumes :: "regex \<Rightarrow> nat" where
  "consumes Empty = 0"
| "consumes (Unit P) = 1"
| "consumes (Then a b) = consumes a + consumes b"
| "consumes (Else a b) = min (consumes a) (consumes b)"
| "consumes (Star a) = 0"
| "consumes (Lazy a) = 0"
| "consumes (Group n a) = consumes a"

lemma paths_consume: "(g', s') \<in> set (paths r g s) \<Longrightarrow> length s' + consumes r \<le> length s"
proof (induction r g s arbitrary: g' s' rule: paths.induct)
  case (2 P g s)
  then show ?case by (cases s) (auto split: if_splits)
next
  case (3 a b g s)
  then show ?case by fastforce
next
  case (5 a g s)
  then show ?case by (metis add_0_right consumes.simps(5) length_append le_add2 paths_suffix)
next
  case (6 a g s)
  then show ?case by (metis add_0_right consumes.simps(6) length_append le_add2 paths_suffix)
qed (fastforce simp: min_def)+

lemma regex_match_length:
  assumes "regex_match r s = Some (m, g)"
  shows "consumes r \<le> length m \<and> length m \<le> length s"
  using regex_match_prefix [OF assms] by (auto dest: paths_consume)

section \<open>The stream\<close>

text \<open>
  The line oracle is the part of a \<open>Context\<close> that answers \<open>lookAhead\<close>: the lines of the document,
  the number of the current line and how far was looked ahead.
\<close>

record line_oracle =
  or_getLine :: "int \<Rightarrow> js_text option"
  or_line :: int
  or_maxLookAhead :: nat

definition Context_lookAhead :: "nat \<Rightarrow> line_oracle \<Rightarrow> js_text option \<times> line_oracle" where
  "Context_lookAhead n c =
     (let l = or_getLine c (or_line c + int n)
      in (l, if l \<noteq> None \<and> n > or_maxLookAhead c then c\<lparr>or_maxLookAhead := n\<rparr> else c))"

record stream =
  pos :: nat
  start :: nat
  string_of :: js_text
  tabSize :: nat
  lastColumnPos :: nat
  lastColumnValue :: nat
  lineStart :: nat
  lineOracle :: "line_oracle option"

definition StringStream :: "js_text \<Rightarrow> nat \<Rightarrow> line_oracle option \<Rightarrow> stream" where
  "StringStream s tab_size context =
     \<lparr>pos = 0, start = 0, string_of = s, tabSize = (if tab_size = 0 then 8 else tab_size),
      lastColumnPos = 0, lastColumnValue = 0, lineStart = 0, lineOracle = context\<rparr>"

text \<open>A character at an index, the empty text outside.\<close>

definition charAt :: "js_text \<Rightarrow> nat \<Rightarrow> js_text" where "charAt s i = take 1 (drop i s)"

definition eol :: "stream \<Rightarrow> bool" where "eol st \<longleftrightarrow> length (string_of st) \<le> pos st"
definition sol :: "stream \<Rightarrow> bool" where "sol st \<longleftrightarrow> pos st = lineStart st"

definition peek :: "stream \<Rightarrow> code_unit option" where
  "peek st = (case charAt (string_of st) (pos st) of [] \<Rightarrow> None | c # _ \<Rightarrow> Some c)"

definition next_unit :: "stream \<Rightarrow> code_unit option \<times> stream" where
  "next_unit st = (if pos st < length (string_of st) then (Some (string_of st ! pos st), st\<lparr>pos := pos st + 1\<rparr>) else (None, st))"

text \<open>What \<open>eat\<close> takes: a text to be equal to, or a test (a regular expression or a function).\<close>

datatype matcher = Equals js_text | Test "code_unit \<Rightarrow> bool"

definition eat :: "matcher \<Rightarrow> stream \<Rightarrow> js_text option \<times> stream" where
  "eat match st =
     (let ch = charAt (string_of st) (pos st);
          ok = (case match of Equals m \<Rightarrow> ch = m | Test P \<Rightarrow> (case ch of [] \<Rightarrow> False | c # _ \<Rightarrow> P c))
      in if ok then (Some ch, st\<lparr>pos := pos st + 1\<rparr>) else (None, st))"

text \<open>A result counts as true unless it is undefined or the empty text.\<close>

definition truthy :: "js_text option \<Rightarrow> bool" where "truthy r \<longleftrightarrow> r \<noteq> None \<and> r \<noteq> Some []"

lemma eat_truthy: "eat match st = (r, st') \<Longrightarrow> truthy r \<Longrightarrow> pos st < length (string_of st) \<and> st' = st\<lparr>pos := pos st + 1\<rparr>"
  by (auto simp: eat_def truthy_def charAt_def Let_def split: if_splits)

function eatWhile_loop :: "matcher \<Rightarrow> stream \<Rightarrow> stream" where
  "eatWhile_loop match st = (case eat match st of (r, st') \<Rightarrow> if truthy r then eatWhile_loop match st' else st')"
  by pat_completeness auto
termination by (relation "measure (\<lambda>(m, st). length (string_of st) - pos st)") (auto dest!: eat_truthy [rotated, OF _ sym] eat_truthy)

declare eatWhile_loop.simps [simp del]

definition eatWhile :: "matcher \<Rightarrow> stream \<Rightarrow> bool \<times> stream" where
  "eatWhile match st = (let st' = eatWhile_loop match st in (pos st < pos st', st'))"

definition eatSpace :: "stream \<Rightarrow> bool \<times> stream" where
  "eatSpace st =
     (let n = length (takeWhile js_space (drop (pos st) (string_of st)))
      in (0 < n, st\<lparr>pos := pos st + n\<rparr>))"

definition skipToEnd :: "stream \<Rightarrow> stream" where "skipToEnd st = st\<lparr>pos := length (string_of st)\<rparr>"

definition skipTo :: "code_unit \<Rightarrow> stream \<Rightarrow> bool \<times> stream" where
  "skipTo ch st =
     (case find (\<lambda>i. string_of st ! i = ch) [pos st..<length (string_of st)] of
        Some found \<Rightarrow> (True, st\<lparr>pos := found\<rparr>)
      | None \<Rightarrow> (False, st))"

text \<open>Backing up is by no more characters than are before the position.\<close>

definition backUp :: "nat \<Rightarrow> stream \<Rightarrow> stream" where "backUp n st = st\<lparr>pos := pos st - n\<rparr>"

definition column :: "stream \<Rightarrow> int \<times> stream" where
  "column st =
     (let st = (if lastColumnPos st < start st
                then st\<lparr>lastColumnValue := nat (countColumn (string_of st) (Some (start st)) (tabSize st) (lastColumnPos st) (lastColumnValue st)),
                        lastColumnPos := start st\<rparr>
                else st)
      in (int (lastColumnValue st)
            - (if lineStart st \<noteq> 0 then countColumn (string_of st) (Some (lineStart st)) (tabSize st) 0 0 else 0), st))"

definition indentation :: "stream \<Rightarrow> int" where
  "indentation st =
     countColumn (string_of st) None (tabSize st) 0 0
       - (if lineStart st \<noteq> 0 then countColumn (string_of st) (Some (lineStart st)) (tabSize st) 0 0 else 0)"

text \<open>
  \<open>match\<close> with a text and with a regular expression. A match further on counts as none, so only
  the matches at the position matter.
\<close>

definition match_text :: "js_text \<Rightarrow> bool \<Rightarrow> bool \<Rightarrow> stream \<Rightarrow> bool \<times> stream" where
  "match_text pattern consume caseInsensitive st =
     (let cased = (\<lambda>str. if caseInsensitive then lower_case str else str);
          substr = take (length pattern) (drop (pos st) (string_of st))
      in if cased substr = cased pattern then (True, if consume then st\<lparr>pos := pos st + length pattern\<rparr> else st)
         else (False, st))"

definition match_regex :: "regex \<Rightarrow> bool \<Rightarrow> stream \<Rightarrow> (js_text \<times> captures) option \<times> stream" where
  "match_regex pattern consume st =
     (case regex_match pattern (drop (pos st) (string_of st)) of
        None \<Rightarrow> (None, st)
      | Some (m, g) \<Rightarrow> (Some (m, g), if consume then st\<lparr>pos := pos st + length m\<rparr> else st))"

definition matches :: "regex \<Rightarrow> stream \<Rightarrow> bool \<times> stream" where
  "matches pattern st = (case match_regex pattern True st of (r, st') \<Rightarrow> (r \<noteq> None, st'))"

definition current :: "stream \<Rightarrow> js_text" where
  "current st = take (pos st - start st) (drop (start st) (string_of st))"

definition hideFirstChars :: "nat \<Rightarrow> (stream \<Rightarrow> 'a \<times> stream) \<Rightarrow> stream \<Rightarrow> 'a \<times> stream" where
  "hideFirstChars n inner st =
     (case inner (st\<lparr>lineStart := lineStart st + n\<rparr>) of (r, st') \<Rightarrow> (r, st'\<lparr>lineStart := lineStart st' - n\<rparr>))"

definition stream_lookAhead :: "nat \<Rightarrow> stream \<Rightarrow> js_text option \<times> stream" where
  "stream_lookAhead n st =
     (case lineOracle st of
        None \<Rightarrow> (None, st)
      | Some c \<Rightarrow> (case Context_lookAhead n c of (l, c') \<Rightarrow> (l, st\<lparr>lineOracle := Some c'\<rparr>)))"

section \<open>Advancing\<close>

text \<open>What every operation of a tokenizer keeps: the line, and that the position is in it.\<close>

definition advances :: "stream \<Rightarrow> stream \<Rightarrow> bool" where
  "advances st st' \<longleftrightarrow> st' = st\<lparr>pos := pos st'\<rparr> \<and> pos st \<le> pos st'
     \<and> (pos st \<le> length (string_of st) \<longrightarrow> pos st' \<le> length (string_of st))"

lemma advancesD:
  assumes "advances st st'"
  shows "string_of st' = string_of st" "start st' = start st" "tabSize st' = tabSize st" "lineStart st' = lineStart st"
    "lineOracle st' = lineOracle st" "lastColumnPos st' = lastColumnPos st" "lastColumnValue st' = lastColumnValue st"
    "pos st \<le> pos st'" "pos st \<le> length (string_of st) \<Longrightarrow> pos st' \<le> length (string_of st)"
  using assms unfolding advances_def by (auto, (metis select_convs surjective simps update_convs)+)

lemma advances_refl [simp, intro]: "advances st st"
  by (simp add: advances_def)

lemma advances_trans [trans]: "advances a b \<Longrightarrow> advances b c \<Longrightarrow> advances a c"
  unfolding advances_def by (cases a; cases b; cases c) auto

lemma advances_pos: "pos st \<le> p \<Longrightarrow> (pos st \<le> length (string_of st) \<Longrightarrow> p \<le> length (string_of st)) \<Longrightarrow> advances st (st\<lparr>pos := p\<rparr>)"
  by (simp add: advances_def)

lemma next_unit_advances: "next_unit st = (r, st') \<Longrightarrow> advances st st'"
  by (auto simp: next_unit_def split: if_splits intro!: advances_pos)

fun wf_matcher :: "matcher \<Rightarrow> bool" where
  "wf_matcher (Equals m) \<longleftrightarrow> m \<noteq> []"
| "wf_matcher (Test P) \<longleftrightarrow> True"

lemma charAt_eq: "charAt s i = (if i < length s then [s ! i] else [])"
  by (simp add: charAt_def take_Suc_conv_app_nth flip: Cons_nth_drop_Suc)

lemma eat_advances: "eat m st = (r, st') \<Longrightarrow> wf_matcher m \<Longrightarrow> advances st st'"
  by (cases m) (auto simp: eat_def charAt_eq Let_def split: if_splits intro!: advances_pos)

lemma eatWhile_loop_advances: "wf_matcher m \<Longrightarrow> advances st (eatWhile_loop m st)"
proof (induction m st rule: eatWhile_loop.induct)
  case (1 m st)
  obtain r st' where e: "eat m st = (r, st')" by fastforce
  then have "advances st st'" using 1(2) by (rule eat_advances)
  with 1 e show ?case by (subst eatWhile_loop.simps) (auto dest: advances_trans)
qed

lemma eatWhile_advances: "eatWhile m st = (r, st') \<Longrightarrow> wf_matcher m \<Longrightarrow> advances st st'"
  by (auto simp: eatWhile_def Let_def eatWhile_loop_advances)

lemma eatSpace_advances: "eatSpace st = (r, st') \<Longrightarrow> advances st st'"
  using length_takeWhile_le [of js_space "drop (pos st) (string_of st)"]
  by (auto simp: eatSpace_def Let_def intro!: advances_pos)

lemma skipToEnd_advances: "pos st \<le> length (string_of st) \<Longrightarrow> advances st (skipToEnd st)"
  by (simp add: skipToEnd_def advances_def)

lemma matches_advances: "matches r st = (b, st') \<Longrightarrow> advances st st'"
  by (auto simp: matches_def match_regex_def split: option.splits prod.splits
      dest!: regex_match_length intro!: advances_pos)

lemma matches_consumes: "matches r st = (True, st') \<Longrightarrow> pos st + consumes r \<le> pos st'"
  by (auto simp: matches_def match_regex_def split: option.splits prod.splits dest!: regex_match_length)

section \<open>The column\<close>

text \<open>The column of the start of the token, kept from token to token, is exact.\<close>

definition column_cache_ok :: "stream \<Rightarrow> bool" where
  "column_cache_ok st \<longleftrightarrow> lastColumnPos st \<le> start st \<and> start st \<le> length (string_of st)
     \<and> lastColumnValue st = column_of (tabSize st) 0 (take (lastColumnPos st) (string_of st))"

lemma column_exact:
  assumes "column_cache_ok st" "lineStart st \<le> length (string_of st)"
  shows "fst (column st) = int (column_of (tabSize st) 0 (take (start st) (string_of st)))
           - (if lineStart st = 0 then 0 else int (column_of (tabSize st) 0 (take (lineStart st) (string_of st))))
       \<and> column_cache_ok (snd (column st))"
proof -
  let ?s = "string_of st" and ?t = "tabSize st"
  have split: "take (start st) ?s = take (lastColumnPos st) ?s @ take (start st - lastColumnPos st) (drop (lastColumnPos st) ?s)"
    using assms(1) unfolding column_cache_ok_def by (metis le_add_diff_inverse take_add)
  have "countColumn ?s (Some (start st)) ?t (lastColumnPos st) (lastColumnValue st)
      = int (column_of ?t 0 (take (start st) ?s))"
    using assms(1) unfolding column_cache_ok_def split
    by (simp add: countColumn_def countColumn_loop_eq column_of_append)
  then show ?thesis
    using assms by (auto simp: column_def Let_def column_cache_ok_def countColumn_eq)
qed

end
