(* ===== verification/Cm_Sql.thy ===== *)
theory Cm_Sql
  imports Cm_Stream
begin

text \<open>
  The SQL mode of the editor on the documentation pages, \<open>bower/codemirror/sql.js\<close>: the tokenizer
  with its hooks, the state it carries from token to token, brackets and indentation, and the
  dialects. A style is the name of a style, \<open>None\<close> when the code returns null or nothing. The
  contexts, a linked list in the code, are a list with the innermost one first.
\<close>

section \<open>Configuration\<close>

datatype hook = HookIdentifier | HookIdentifierDoublequote | HookVar | HookClient

text \<open>What a dialect may define; the objects that are used as sets of words are lists of words.\<close>

record sql_spec =
  spec_client :: "string list option"
  spec_atoms :: "string list option"
  spec_builtin :: "string list option"
  spec_keywords :: "string list option"
  spec_operatorChars :: "string option"
  spec_support :: "string list option"
  spec_hooks :: "(char \<times> hook) list option"
  spec_dateSQL :: "string list option"

record sql_config =
  client :: "string list"
  atoms :: "string list"
  builtin :: "string list"
  reserved :: "string list"
  operatorChars :: string
  support :: "string list"
  hooks :: "(char \<times> hook) list"
  dateSQL :: "string list"

definition or_else :: "'a option \<Rightarrow> 'a \<Rightarrow> 'a" where
  "or_else x d = (case x of Some v \<Rightarrow> v | None \<Rightarrow> d)"

definition sql_config_of :: "sql_spec \<Rightarrow> sql_config" where
  "sql_config_of spec =
     \<lparr>client = or_else (spec_client spec) [],
      atoms = or_else (spec_atoms spec) [''false'', ''true'', ''null''],
      builtin = or_else (spec_builtin spec) [],
      reserved = or_else (spec_keywords spec) [],
      operatorChars = or_else (spec_operatorChars spec) ''*+-%<>!=&|~^'',
      support = or_else (spec_support spec) [],
      hooks = or_else (spec_hooks spec) [],
      dateSQL = or_else (spec_dateSQL spec) [''date'', ''time'', ''timestamp'']\<rparr>"

definition own :: "string list \<Rightarrow> js_text \<Rightarrow> bool" where
  "own ws w \<longleftrightarrow> list_ex (\<lambda>x. ascii x = w) ws"

definition supports :: "sql_config \<Rightarrow> string \<Rightarrow> bool" where
  "supports cfg what \<longleftrightarrow> List.member (support cfg) what"

section \<open>Hooks\<close>

type_synonym style = "string option"

text \<open>The loop over a quoted identifier, in which the quote is doubled.\<close>

function quoted_loop :: "code_unit \<Rightarrow> stream \<Rightarrow> bool \<times> stream" where
  "quoted_loop q st =
     (case next_unit st of
        (None, st1) \<Rightarrow> (False, st1)
      | (Some ch, st1) \<Rightarrow>
          if ch = q
          then (case eat (Equals [q]) st1 of (r, st2) \<Rightarrow> if truthy r then quoted_loop q st2 else (True, st2))
          else quoted_loop q st1)"
  by pat_completeness auto
termination
  by (relation "measure (\<lambda>(q, st). length (string_of st) - pos st)")
     (auto simp: next_unit_def eat_def Let_def split: if_splits)

declare quoted_loop.simps [simp del]

definition quoted_identifier :: "code_unit \<Rightarrow> stream \<Rightarrow> style \<times> stream" where
  "quoted_identifier q st =
     (case quoted_loop q st of
        (True, st1) \<Rightarrow> (Some ''variable-2'', st1)
      | (False, st1) \<Rightarrow>
          (case eatWhile (Test word_unit) (backUp (length (current st1) - 1) st1) of
             (some, st2) \<Rightarrow> (if some then Some ''variable-2'' else None, st2)))"

definition hookIdentifier :: "stream \<Rightarrow> style \<times> stream" where
  "hookIdentifier = quoted_identifier (cu (CHR ''`''))"

definition hookIdentifierDoublequote :: "stream \<Rightarrow> style \<times> stream" where
  "hookIdentifierDoublequote = quoted_identifier (cu (CHR 0x22))"

text \<open>Everything up to the last occurrence of a quote in the line.\<close>

definition rx_up_to :: "code_unit \<Rightarrow> regex" where
  "rx_up_to q = Then (Star (Unit line_unit)) (Unit (\<lambda>c. c = q))"

definition eats :: "code_unit \<Rightarrow> stream \<Rightarrow> bool \<times> stream" where
  "eats c st = (case eat (Equals [c]) st of (r, st') \<Rightarrow> (truthy r, st'))"

definition hookVar :: "stream \<Rightarrow> style \<times> stream" where
  "hookVar st =
     (let st1 = (case eats (cu (CHR ''@'')) st of
                   (True, a) \<Rightarrow> snd (matches (units ''global.'') (snd (matches (units ''local.'') (snd (matches (units ''session.'') a)))))
                 | (False, a) \<Rightarrow> a)
      in case eats 39 st1 of (True, st2) \<Rightarrow> (Some ''variable-2'', snd (matches (rx_up_to 39) st2))
       | (False, st2) \<Rightarrow>
         (case eats 34 st2 of (True, st3) \<Rightarrow> (Some ''variable-2'', snd (matches (rx_up_to 34) st3))
          | (False, st3) \<Rightarrow>
            (case eats 96 st3 of (True, st4) \<Rightarrow> (Some ''variable-2'', snd (matches (rx_up_to 96) st4))
             | (False, st4) \<Rightarrow>
               (case matches (plus_of (Unit (\<lambda>c. digit_unit c \<or> lower_unit c \<or> upper_unit c \<or> one_of ''$._'' c))) st4 of
                  (True, st5) \<Rightarrow> (Some ''variable-2'', st5)
                | (False, st5) \<Rightarrow> (None, st5)))))"

definition hookClient :: "stream \<Rightarrow> style \<times> stream" where
  "hookClient st =
     (case eats (cu (CHR ''N'')) st of
        (True, st1) \<Rightarrow> (Some ''atom'', st1)
      | (False, st1) \<Rightarrow>
          (case matches (Unit (\<lambda>c. lower_unit c \<or> upper_unit c \<or> one_of ''.#!?'' c)) st1 of
             (m, st2) \<Rightarrow> (if m then Some ''variable-2'' else None, st2)))"

fun run_hook :: "hook \<Rightarrow> stream \<Rightarrow> style \<times> stream" where
  "run_hook HookIdentifier = hookIdentifier"
| "run_hook HookIdentifierDoublequote = hookIdentifierDoublequote"
| "run_hook HookVar = hookVar"
| "run_hook HookClient = hookClient"

definition hook_for :: "sql_config \<Rightarrow> code_unit \<Rightarrow> hook option" where
  "hook_for cfg ch = map_of (map (\<lambda>(c, h). (cu c, h)) (hooks cfg)) ch"

section \<open>The state\<close>

datatype tokenizer = TokenBase | TokenLiteral code_unit | TokenComment nat

record sql_context =
  cx_indent :: int
  cx_col :: int
  cx_type :: js_text
  cx_align :: "bool option"

record sql_state =
  tokenize :: tokenizer
  sql_contexts :: "sql_context list"
  sql_indent :: "int option"

definition sql_startState :: sql_state where
  "sql_startState = \<lparr>tokenize = TokenBase, sql_contexts = [], sql_indent = None\<rparr>"

section \<open>The tokenizer\<close>

definition rx_hex_digits :: regex where
  "rx_hex_digits = Then (any_of ''xX'') (plus_of (Unit hex_unit))"

definition rx_hex_quoted :: regex where
  "rx_hex_quoted = Then (Unit (\<lambda>c. c = 39)) (Then (plus_of (Unit hex_unit)) (Unit (\<lambda>c. c = 39)))"

definition rx_bits_quoted :: regex where
  "rx_bits_quoted = Then (Unit (\<lambda>c. c = 39)) (Then (plus_of (any_of ''01'')) (Unit (\<lambda>c. c = 39)))"

definition rx_bits :: regex where
  "rx_bits = Then (any_of ''b'') (plus_of (any_of ''01''))"

definition rx_number :: regex where
  "rx_number = Then (Star (Unit digit_unit)) (Then (maybe (any_of ''.'')) (Then (plus_of (Unit digit_unit))
     (maybe (Group 1 (Then (any_of ''eE'') (Then (maybe (any_of ''-+'')) (plus_of (Unit digit_unit))))))))"

definition rx_charset :: regex where
  "rx_charset = Then (Unit (\<lambda>c. lower_unit c \<or> upper_unit c)) (Star (Unit (\<lambda>c. lower_unit c \<or> upper_unit c \<or> digit_unit c)))"

definition rx_zeroless :: regex where
  "rx_zeroless = Then (plus_of (Unit digit_unit))
     (maybe (Then (any_of ''eE'') (Then (maybe (any_of ''+-'')) (plus_of (Unit digit_unit)))))"

definition rx_table_name :: regex where
  "rx_table_name = plus_of (Unit (\<lambda>c. lower_unit c \<or> upper_unit c \<or> c = 95))"

definition rx_blanks :: regex where "rx_blanks = Star (any_of '' '')"

definition rx_quoted_by :: "code_unit \<Rightarrow> regex" where
  "rx_quoted_by q = Then (Unit (\<lambda>c. c = q)) (Then (Star (Unit (\<lambda>c. c \<noteq> q))) (Unit (\<lambda>c. c = q)))"

definition rx_odbc_date :: "code_unit \<Rightarrow> regex" where
  "rx_odbc_date q = Then rx_blanks
     (Then (Else (any_of ''d'') (Else (any_of ''D'') (Else (any_of ''t'') (Else (any_of ''T'') (Else (units ''ts'') (units ''TS''))))))
       (Then rx_blanks (Then (rx_quoted_by q) (Then rx_blanks (any_of ''}'')))))"

definition rx_date :: "code_unit \<Rightarrow> regex" where
  "rx_date q = Then (plus_of (any_of '' '')) (rx_quoted_by q)"

definition rx_comment_mark :: regex where
  "rx_comment_mark = Then (Lazy (Unit line_unit)) (Group 1 (Else (units ''/*'') (units ''*/'')))"

text \<open>The conditions of the branches; they may consume what they have read although they fail.\<close>

definition and_then :: "bool \<Rightarrow> (stream \<Rightarrow> bool \<times> stream) \<Rightarrow> stream \<Rightarrow> bool \<times> stream" where
  "and_then b f st = (if b then f st else (False, st))"

definition or_then :: "(stream \<Rightarrow> bool \<times> stream) \<Rightarrow> (stream \<Rightarrow> bool \<times> stream) \<Rightarrow> stream \<Rightarrow> bool \<times> stream" where
  "or_then f g st = (case f st of (True, st') \<Rightarrow> (True, st') | (False, st') \<Rightarrow> g st')"

definition hexNumber_branch :: "sql_config \<Rightarrow> code_unit \<Rightarrow> stream \<Rightarrow> bool \<times> stream" where
  "hexNumber_branch cfg ch =
     and_then (supports cfg ''hexNumber'')
       (or_then (and_then (ch = cu (CHR ''0'')) (matches rx_hex_digits))
                (and_then (ch = cu (CHR ''x'') \<or> ch = cu (CHR ''X'')) (matches rx_hex_quoted)))"

definition binaryNumber_branch :: "sql_config \<Rightarrow> code_unit \<Rightarrow> stream \<Rightarrow> bool \<times> stream" where
  "binaryNumber_branch cfg ch =
     and_then (supports cfg ''binaryNumber'')
       (or_then (and_then (ch = cu (CHR ''b'') \<or> ch = cu (CHR ''B'')) (matches rx_bits_quoted))
                (and_then (ch = cu (CHR ''0'')) (matches rx_bits)))"

definition placeholder_branch :: "code_unit \<Rightarrow> stream \<Rightarrow> bool \<times> stream" where
  "placeholder_branch ch =
     and_then (ch = cu (CHR ''?'')) (or_then eatSpace (or_then (\<lambda>st. (eol st, st)) (eats (cu (CHR '';'')))))"

definition charset_branch :: "sql_config \<Rightarrow> code_unit \<Rightarrow> stream \<Rightarrow> bool \<times> stream" where
  "charset_branch cfg ch st =
     (case or_then (\<lambda>st. (supports cfg ''nCharCast'' \<and> (ch = cu (CHR ''n'') \<or> ch = cu (CHR ''N'')), st))
                   (and_then (supports cfg ''charsetCast'' \<and> ch = cu (CHR ''_'')) (matches rx_charset)) st of
        (b, st') \<Rightarrow> (b \<and> (peek st' = Some 39 \<or> peek st' = Some 34), st'))"

definition slash_comment_branch :: "sql_config \<Rightarrow> code_unit \<Rightarrow> stream \<Rightarrow> bool \<times> stream" where
  "slash_comment_branch cfg ch =
     and_then (supports cfg ''commentSlashSlash'' \<and> ch = cu (CHR ''/'')) (eats (cu (CHR ''/'')))"

definition dash_comment_branch :: "sql_config \<Rightarrow> code_unit \<Rightarrow> stream \<Rightarrow> bool \<times> stream" where
  "dash_comment_branch cfg ch st =
     (if supports cfg ''commentHash'' \<and> ch = cu (CHR ''#'') then (True, st)
      else if ch = cu (CHR ''-'')
      then (case eats (cu (CHR ''-'')) st of
              (True, st') \<Rightarrow> if \<not> supports cfg ''commentSpaceRequired'' then (True, st') else eats (cu (CHR '' '')) st'
            | (False, st') \<Rightarrow> (False, st'))
      else (False, st))"

definition odbc_date_branch :: "code_unit \<Rightarrow> stream \<Rightarrow> bool \<times> stream" where
  "odbc_date_branch ch =
     and_then (ch = cu (CHR ''{'')) (or_then (matches (rx_odbc_date 39)) (matches (rx_odbc_date 34)))"

definition number_result :: "sql_config \<Rightarrow> stream \<Rightarrow> stream" where
  "number_result cfg st =
     (let st1 = snd (matches rx_number st)
      in if supports cfg ''decimallessFloat'' then snd (eats (cu (CHR ''.'')) st1) else st1)"

text \<open>A literal: the quote that ends it is not escaped by a backslash.\<close>

function literal_loop :: "code_unit \<Rightarrow> bool \<Rightarrow> stream \<Rightarrow> bool \<times> stream" where
  "literal_loop quote escaped st =
     (case next_unit st of
        (None, st1) \<Rightarrow> (False, st1)
      | (Some ch, st1) \<Rightarrow>
          if ch = quote \<and> \<not> escaped then (True, st1)
          else literal_loop quote (\<not> escaped \<and> ch = cu (CHR 0x5C)) st1)"
  by pat_completeness auto
termination
  by (relation "measure (\<lambda>(q, e, st). length (string_of st) - pos st)") (auto simp: next_unit_def split: if_splits)

declare literal_loop.simps [simp del]

definition tokenLiteral :: "code_unit \<Rightarrow> stream \<Rightarrow> sql_state \<Rightarrow> style \<times> stream \<times> sql_state" where
  "tokenLiteral quote st state =
     (case literal_loop quote False st of
        (ended, st1) \<Rightarrow> (Some ''string'', st1, if ended then state\<lparr>tokenize := TokenBase\<rparr> else state))"

definition tokenComment :: "nat \<Rightarrow> stream \<Rightarrow> sql_state \<Rightarrow> style \<times> stream \<times> sql_state" where
  "tokenComment depth st state =
     (case match_regex rx_comment_mark True st of
        (None, st1) \<Rightarrow> (Some ''comment'', skipToEnd st1, state)
      | (Some (m, g), st1) \<Rightarrow>
          (Some ''comment'', st1,
           if map_of g 1 = Some (ascii ''/*'') then state\<lparr>tokenize := TokenComment (depth + 1)\<rparr>
           else if depth > 1 then state\<lparr>tokenize := TokenComment (depth - 1)\<rparr>
           else state\<lparr>tokenize := TokenBase\<rparr>))"

definition word_style :: "sql_config \<Rightarrow> stream \<Rightarrow> style \<times> stream" where
  "word_style cfg st =
     (let st1 = snd (eatWhile (Test word_unit) st);
          word = lower_case (current st1);
          (date, st2) = and_then (own (dateSQL cfg) word) (or_then (matches (rx_date 39)) (matches (rx_date 34))) st1
      in (if date then Some ''number''
          else if own (atoms cfg) word then Some ''atom''
          else if own (builtin cfg) word then Some ''builtin''
          else if own (reserved cfg) word then Some ''keyword''
          else if own (client cfg) word then Some ''string-2''
          else None, st2))"

text \<open>The branch of the dot; when nothing follows it the function ends without a result.\<close>

definition dot_branch :: "sql_config \<Rightarrow> stream \<Rightarrow> style \<times> stream" where
  "dot_branch cfg st =
     (case and_then (supports cfg ''zerolessFloat'') (matches rx_zeroless) st of
        (True, st1) \<Rightarrow> (Some ''number'', st1)
      | (False, st1) \<Rightarrow>
          (case and_then (supports cfg ''ODBCdotTable'') (matches rx_table_name) st1 of
             (b, st2) \<Rightarrow> (if b then Some ''variable-2'' else None, st2)))"

text \<open>The branches from the operators on, those that leave the state alone.\<close>

definition base_rest :: "sql_config \<Rightarrow> code_unit \<Rightarrow> stream \<Rightarrow> style \<times> stream" where
  "base_rest cfg ch st =
     (if ch = cu (CHR ''.'') then dot_branch cfg st
      else if one_of (operatorChars cfg) ch then (None, snd (eatWhile (Test (one_of (operatorChars cfg))) st))
      else case odbc_date_branch ch st of
        (True, st1) \<Rightarrow> (Some ''number'', st1)
      | (False, st1) \<Rightarrow> word_style cfg st1)"

text \<open>The branches from the comments on.\<close>

definition base_comments :: "sql_config \<Rightarrow> code_unit \<Rightarrow> stream \<Rightarrow> sql_state \<Rightarrow> style \<times> stream \<times> sql_state" where
  "base_comments cfg ch st state =
     (case slash_comment_branch cfg ch st of
        (True, st1) \<Rightarrow> (Some ''comment'', skipToEnd st1, state)
      | (False, st1) \<Rightarrow>
     (case dash_comment_branch cfg ch st1 of
        (True, st2) \<Rightarrow> (Some ''comment'', skipToEnd st2, state)
      | (False, st2) \<Rightarrow>
     (case and_then (ch = cu (CHR ''/'')) (eats (cu (CHR ''*''))) st2 of
        (True, st3) \<Rightarrow> tokenComment 1 st3 (state\<lparr>tokenize := TokenComment 1\<rparr>)
      | (False, st3) \<Rightarrow> (case base_rest cfg ch st3 of (style, st4) \<Rightarrow> (style, st4, state)))))"

text \<open>The whole function. At the end of the line there is no character, and asking for its code throws.\<close>

definition tokenBase :: "sql_config \<Rightarrow> stream \<Rightarrow> sql_state \<Rightarrow> (style \<times> stream \<times> sql_state) outcome" where
  "tokenBase cfg st state =
     (case next_unit st of
        (None, _) \<Rightarrow> Throw
      | (Some ch, st0) \<Rightarrow>
     (case hook_for cfg ch of
        Some h \<Rightarrow> (case run_hook h st0 of (style, st1) \<Rightarrow> Return (style, st1, state))
      | None \<Rightarrow>
     (case hexNumber_branch cfg ch st0 of
        (True, st1) \<Rightarrow> Return (Some ''number'', st1, state)
      | (False, st1) \<Rightarrow>
     (case binaryNumber_branch cfg ch st1 of
        (True, st2) \<Rightarrow> Return (Some ''number'', st2, state)
      | (False, st2) \<Rightarrow>
      if digit_unit ch then Return (Some ''number'', number_result cfg st2, state)
      else case placeholder_branch ch st2 of
        (True, st3) \<Rightarrow> Return (Some ''variable-3'', st3, state)
      | (False, st3) \<Rightarrow>
      if ch = 39 \<or> ch = 34 \<and> supports cfg ''doubleQuote''
      then Return (tokenLiteral ch st3 (state\<lparr>tokenize := TokenLiteral ch\<rparr>))
      else case charset_branch cfg ch st3 of
        (True, st4) \<Rightarrow> Return (Some ''keyword'', st4, state)
      | (False, st4) \<Rightarrow>
      if one_of ''(),;[]'' ch then Return (None, st4, state)
      else Return (base_comments cfg ch st4 state)))))"

definition run_tokenize :: "sql_config \<Rightarrow> stream \<Rightarrow> sql_state \<Rightarrow> (style \<times> stream \<times> sql_state) outcome" where
  "run_tokenize cfg st state =
     (case tokenize state of
        TokenBase \<Rightarrow> tokenBase cfg st state
      | TokenLiteral q \<Rightarrow> Return (tokenLiteral q st state)
      | TokenComment d \<Rightarrow> Return (tokenComment d st state))"

section \<open>Brackets\<close>

definition pushContext :: "stream \<Rightarrow> sql_state \<Rightarrow> js_text \<Rightarrow> stream \<times> sql_state" where
  "pushContext st state type =
     (case column st of (col, st') \<Rightarrow>
        (st', state\<lparr>sql_contexts := \<lparr>cx_indent = indentation st, cx_col = col, cx_type = type, cx_align = None\<rparr> # sql_contexts state\<rparr>))"

definition popContext :: "sql_state \<Rightarrow> sql_state outcome" where
  "popContext state =
     (case sql_contexts state of
        [] \<Rightarrow> Throw
      | cx # prev \<Rightarrow> Return (state\<lparr>sql_indent := Some (cx_indent cx), sql_contexts := prev\<rparr>))"

text \<open>Sets the alignment of the innermost context when it has none yet.\<close>

definition set_align :: "bool \<Rightarrow> sql_state \<Rightarrow> sql_state" where
  "set_align b state =
     (case sql_contexts state of
        [] \<Rightarrow> state
      | cx # prev \<Rightarrow> if cx_align cx = None then state\<lparr>sql_contexts := cx\<lparr>cx_align := Some b\<rparr> # prev\<rparr> else state)"

definition bracket_step :: "stream \<Rightarrow> sql_state \<Rightarrow> (stream \<times> sql_state) outcome" where
  "bracket_step st state =
     (let tok = current st
      in if tok = ascii ''('' then Return (pushContext st state (ascii '')''))
         else if tok = ascii ''['' then Return (pushContext st state (ascii '']''))
         else if sql_contexts state \<noteq> [] \<and> cx_type (hd (sql_contexts state)) = tok
         then (case popContext state of Return state' \<Rightarrow> Return (st, state') | Throw \<Rightarrow> Throw)
         else Return (st, state))"

definition sql_token :: "sql_config \<Rightarrow> stream \<Rightarrow> sql_state \<Rightarrow> (style \<times> stream \<times> sql_state) outcome" where
  "sql_token cfg st state =
     (let state = (if sol st then set_align False state else state);
          (space, st) = and_then (tokenize state = TokenBase) eatSpace st
      in if space then Return (None, st, state)
         else case run_tokenize cfg st state of
           Throw \<Rightarrow> Throw
         | Return (style, st, state) \<Rightarrow>
             if style = Some ''comment'' then Return (style, st, state)
             else case bracket_step st (set_align True state) of
               Throw \<Rightarrow> Throw
             | Return (st, state) \<Rightarrow> Return (style, st, state))"

text \<open>The indentation of a line; \<open>None\<close> is \<open>CodeMirror.Pass\<close>.\<close>

definition sql_indent_of :: "nat \<Rightarrow> sql_state \<Rightarrow> js_text \<Rightarrow> int option" where
  "sql_indent_of indentUnit state textAfter =
     (case sql_contexts state of
        [] \<Rightarrow> None
      | cx # _ \<Rightarrow>
          let closing = charAt textAfter 0 = cx_type cx
          in if cx_align cx = Some True then Some (cx_col cx + (if closing then 0 else 1))
             else Some (cx_indent cx + (if closing then 0 else int indentUnit)))"

definition sql_blockCommentStart :: string where "sql_blockCommentStart = ''/*''"
definition sql_blockCommentEnd :: string where "sql_blockCommentEnd = ''*/''"

definition sql_lineComment :: "sql_config \<Rightarrow> string option" where
  "sql_lineComment cfg =
     (if supports cfg ''commentSlashSlash'' then Some ''//'' else if supports cfg ''commentHash'' then Some ''#'' else None)"


section \<open>Every token advances\<close>

lemma eats_advances: "eats c st = (b, st') \<Longrightarrow> advances st st'"
  by (auto simp: eats_def split: prod.splits dest: eat_advances)

lemma eats_true: "eats c st = (True, st') \<Longrightarrow> pos st' = Suc (pos st)"
  by (auto simp: eats_def split: prod.splits dest!: eat_truthy)

text \<open>An operation that only moves the position forwards, within the line.\<close>

definition forward :: "(stream \<Rightarrow> 'a \<times> stream) \<Rightarrow> bool" where
  "forward f \<longleftrightarrow> (\<forall>st. advances st (snd (f st)))"

lemma forwardD: "forward f \<Longrightarrow> f st = (r, st') \<Longrightarrow> advances st st'"
  unfolding forward_def by (metis snd_conv)

lemma forward_after: "forward f \<Longrightarrow> advances st x \<Longrightarrow> advances st (snd (f x))"
  unfolding forward_def using advances_trans by blast

lemma forward_and_then [intro]: "forward f \<Longrightarrow> forward (and_then b f)"
  by (simp add: forward_def and_then_def)

lemma forward_or_then [intro]: "forward f \<Longrightarrow> forward g \<Longrightarrow> forward (or_then f g)"
  unfolding forward_def [of "or_then f g"] or_then_def
  by (auto split: prod.splits bool.splits dest: forwardD intro: forward_after)

lemma forward_same [intro]: "forward (\<lambda>st. (P st, st))"
  by (simp add: forward_def)

lemma forward_Pair [intro]: "forward (Pair b)"
  by (simp add: forward_def)

lemma forward_eats [intro]: "forward (eats c)"
  unfolding forward_def using eats_advances by (metis prod.collapse)

lemma forward_matches [intro]: "forward (matches r)"
  unfolding forward_def using matches_advances by (metis prod.collapse)

lemma forward_eatSpace [intro]: "forward eatSpace"
  unfolding forward_def using eatSpace_advances by (metis prod.collapse)

lemma forward_branches [intro]:
  "forward (hexNumber_branch cfg ch)" "forward (binaryNumber_branch cfg ch)" "forward (placeholder_branch ch)"
  "forward (slash_comment_branch cfg ch)" "forward (odbc_date_branch ch)"
  unfolding hexNumber_branch_def binaryNumber_branch_def placeholder_branch_def slash_comment_branch_def odbc_date_branch_def
  by blast+

lemma forward_charset [intro]: "forward (charset_branch cfg ch)"
proof -
  have "forward (or_then (\<lambda>st. (supports cfg ''nCharCast'' \<and> (ch = cu (CHR ''n'') \<or> ch = cu (CHR ''N'')), st))
      (and_then (supports cfg ''charsetCast'' \<and> ch = cu (CHR ''_'')) (matches rx_charset)))"
    by blast
  then show ?thesis
    unfolding forward_def charset_branch_def by (simp add: split_beta)
qed

lemma forward_dash [intro]: "forward (dash_comment_branch cfg ch)"
  unfolding forward_def dash_comment_branch_def
  by (auto split: prod.splits bool.splits dest: eats_advances intro: forward_after forward_eats)

lemma eatWhile_word_forward [intro]: "forward (eatWhile (Test P))"
  unfolding forward_def by (metis eatWhile_advances prod.collapse wf_matcher.simps(2))

lemma word_style_forward: "forward (word_style cfg)"
  unfolding forward_def
proof
  fix st
  have "advances st (snd (eatWhile (Test word_unit) st))"
    using eatWhile_word_forward by (simp add: forward_def)
  moreover have "forward (and_then b (or_then (matches (rx_date 39)) (matches (rx_date 34))))" for b
    by blast
  ultimately show "advances st (snd (word_style cfg st))"
    unfolding word_style_def by (auto simp: Let_def split_beta forward_def intro: advances_trans)
qed

lemma dot_branch_forward: "forward (dot_branch cfg)"
proof -
  have f: "forward (and_then b (matches r))" for b r by blast
  show ?thesis
    unfolding forward_def dot_branch_def
    by (auto split: prod.splits bool.splits dest: forwardD [OF f] intro: advances_trans)
qed

lemma base_rest_forward: "forward (base_rest cfg ch)"
  unfolding forward_def
proof
  fix st
  have w: "forward (eatWhile (Test (one_of (operatorChars cfg))))" by blast
  have od: "forward (odbc_date_branch ch)" by blast
  show "advances st (snd (base_rest cfg ch st))"
    using dot_branch_forward [of cfg] w
    unfolding base_rest_def forward_def
    by (auto split: prod.splits bool.splits dest: forwardD [OF od] forwardD [OF word_style_forward] intro: advances_trans)
      (metis advances_trans forward_def forwardD [OF od] snd_conv word_style_forward)
qed

lemma quoted_loop_advances: "quoted_loop q st = (b, st') \<Longrightarrow> advances st st'"
proof (induction q st rule: quoted_loop.induct)
  case (1 q st)
  obtain r st1 where n: "next_unit st = (r, st1)" by fastforce
  note a = next_unit_advances [OF n]
  obtain r2 st2 where e: "eat (Equals [q]) st1 = (r2, st2)" by fastforce
  then have a2: "advances st1 st2" by (rule eat_advances) simp
  show ?case
  proof (cases r)
    case None
    with 1(3) n a show ?thesis by (subst (asm) quoted_loop.simps) simp
  next
    case (Some ch)
    with 1 n e a a2 show ?thesis
      by (subst (asm) (3) quoted_loop.simps) (auto split: if_splits intro: advances_trans)
  qed
qed

text \<open>A quoted identifier that does not end goes back to the character after the quote.\<close>

lemma quoted_identifier_advances:
  assumes "quoted_identifier q st = (style, st')" "start st < pos st" "pos st \<le> length (string_of st)"
  shows "st' = st\<lparr>pos := pos st'\<rparr> \<and> start st < pos st' \<and> pos st' \<le> length (string_of st)"
proof -
  obtain b st1 where q: "quoted_loop q st = (b, st1)" by fastforce
  note a = quoted_loop_advances [OF q] and ad = advancesD [OF quoted_loop_advances [OF q]]
  show ?thesis
  proof (cases b)
    case True
    with assms q a ad show ?thesis by (auto simp: quoted_identifier_def advances_def)
  next
    case False
    let ?b = "backUp (length (current st1) - 1) st1"
    have bk: "?b = st\<lparr>pos := Suc (start st)\<rparr>"
      using a ad assms(2,3) by (auto simp: advances_def backUp_def current_def)
    obtain w st2 where e: "eatWhile (Test word_unit) ?b = (w, st2)" by fastforce
    then have "advances ?b st2" by (rule eatWhile_advances) simp
    with assms q e False show ?thesis
      unfolding bk by (auto simp: quoted_identifier_def bk [simplified] advances_def)
  qed
qed

definition moved :: "stream \<Rightarrow> stream \<Rightarrow> bool" where
  "moved st st' \<longleftrightarrow> st' = st\<lparr>pos := pos st'\<rparr> \<and> start st < pos st' \<and> pos st' \<le> length (string_of st)"

lemma advances_moved: "advances st st' \<Longrightarrow> start st < pos st \<Longrightarrow> pos st \<le> length (string_of st) \<Longrightarrow> moved st st'"
  by (auto simp: advances_def moved_def)

lemma moved_after: "moved st st' \<Longrightarrow> advances st0 st \<Longrightarrow> moved st0 st'"
  by (cases st0; cases st; cases st') (auto simp: moved_def advances_def)

lemma hookVar_forward: "forward hookVar"
proof -
  have e: "advances st (snd (matches r x))" if "advances st x" for st x r
    using that by (rule forward_after [OF forward_matches])
  define prefix where "prefix st = (case eats (cu (CHR ''@'')) st of
       (True, a) \<Rightarrow> snd (matches (units ''global.'') (snd (matches (units ''local.'') (snd (matches (units ''session.'') a)))))
     | (False, a) \<Rightarrow> a)" for st
  have p: "advances st (prefix st)" for st
    unfolding prefix_def by (auto split: prod.splits bool.splits dest: eats_advances intro!: e)
  show ?thesis
    unfolding forward_def
  proof
    fix st
    obtain b1 s1 where 1: "eats 39 (prefix st) = (b1, s1)" by fastforce
    obtain b2 s2 where 2: "eats 34 s1 = (b2, s2)" by fastforce
    obtain b3 s3 where 3: "eats 96 s2 = (b3, s3)" by fastforce
    obtain b4 s4 where 4: "matches (plus_of (Unit (\<lambda>c. digit_unit c \<or> lower_unit c \<or> upper_unit c \<or> one_of ''$._'' c))) s3 = (b4, s4)"
      by fastforce
    have a: "advances st s1" "advances st s2" "advances st s3" "advances st s4"
      using p [of st] eats_advances [OF 1] eats_advances [OF 2] eats_advances [OF 3] matches_advances [OF 4]
      by (metis advances_trans)+
    with 1 2 3 4 show "advances st (snd (hookVar st))"
      unfolding hookVar_def prefix_def [symmetric] by (cases b1; cases b2; cases b3; cases b4) (simp_all add: e)
  qed
qed

lemma hookClient_forward: "forward hookClient"
  unfolding forward_def hookClient_def
  by (auto split: prod.splits bool.splits dest: eats_advances matches_advances intro: advances_trans)

lemma run_hook_moved:
  assumes "run_hook h st = (style, st')" "start st < pos st" "pos st \<le> length (string_of st)"
  shows "moved st st'"
proof (cases h)
  case HookVar
  with assms show ?thesis using forwardD [OF hookVar_forward] advances_moved by simp
next
  case HookClient
  with assms show ?thesis using forwardD [OF hookClient_forward] advances_moved by simp
qed (use assms quoted_identifier_advances in \<open>auto simp: moved_def hookIdentifier_def hookIdentifierDoublequote_def\<close>)

lemma literal_loop_advances: "literal_loop q e st = (b, st') \<Longrightarrow> advances st st'"
proof (induction q e st rule: literal_loop.induct)
  case (1 q e st)
  obtain r st1 where n: "next_unit st = (r, st1)" by fastforce
  note a = next_unit_advances [OF n]
  from "1.prems" [unfolded literal_loop.simps [of q e st] n] n a "1.IH" show ?case
    by (auto split: option.splits if_splits intro: advances_trans)
qed

lemma next_unit_Some: "next_unit st = (Some ch, st') \<Longrightarrow> pos st < length (string_of st) \<and> st' = st\<lparr>pos := Suc (pos st)\<rparr> \<and> ch = string_of st ! pos st"
  by (auto simp: next_unit_def split: if_splits)

lemma next_unit_within: "pos st < length (string_of st) \<Longrightarrow> next_unit st = (Some (string_of st ! pos st), st\<lparr>pos := Suc (pos st)\<rparr>)"
  by (simp add: next_unit_def)

lemma literal_loop_consumes: "pos st < length (string_of st) \<Longrightarrow> literal_loop q e st = (b, st') \<Longrightarrow> pos st < pos st'"
  by (subst (asm) literal_loop.simps)
    (auto simp: next_unit_within split: if_splits dest!: literal_loop_advances advancesD(8))

lemma tokenLiteral_advances:
  "tokenLiteral q st state = (style, st', state') \<Longrightarrow> advances st st' \<and> (pos st < length (string_of st) \<longrightarrow> pos st < pos st')"
  by (auto simp: tokenLiteral_def split: prod.splits dest: literal_loop_advances literal_loop_consumes)

lemma consumes_comment_mark: "consumes rx_comment_mark = 2"
  by (simp add: rx_comment_mark_def units_def)

lemma tokenComment_advances:
  assumes "tokenComment d st state = (style, st', state')" "pos st \<le> length (string_of st)"
  shows "advances st st' \<and> (pos st < length (string_of st) \<longrightarrow> pos st < pos st')"
proof (cases "regex_match rx_comment_mark (drop (pos st) (string_of st))")
  case None
  with assms show ?thesis
    by (auto simp: tokenComment_def match_regex_def skipToEnd_advances) (simp add: skipToEnd_def)
next
  case (Some mg)
  then obtain m g where mg: "mg = (m, g)" by (cases mg)
  with Some have "2 \<le> length m \<and> length m \<le> length (string_of st) - pos st"
    using regex_match_length consumes_comment_mark by fastforce
  with assms Some mg show ?thesis
    by (auto simp: tokenComment_def match_regex_def intro!: advances_pos)
qed

lemma base_comments_advances:
  assumes "base_comments cfg ch st state = (style, st', state')" "pos st \<le> length (string_of st)"
  shows "advances st st'"
proof -
  obtain b1 s1 where 1: "slash_comment_branch cfg ch st = (b1, s1)" by fastforce
  obtain b2 s2 where 2: "dash_comment_branch cfg ch s1 = (b2, s2)" by fastforce
  obtain b3 s3 where 3: "and_then (ch = cu (CHR ''/'')) (eats (cu (CHR ''*''))) s2 = (b3, s3)" by fastforce
  have a1: "advances st s1" by (rule forwardD [OF forward_branches(4) 1])
  have a2: "advances st s2" by (rule advances_trans [OF a1 forwardD [OF forward_dash 2]])
  have f3: "forward (and_then (ch = cu (CHR ''/'')) (eats (cu (CHR ''*''))))" by (intro forward_and_then forward_eats)
  have a3: "advances st s3" by (rule advances_trans [OF a2 forwardD [OF f3 3]])
  have end1: "advances st (skipToEnd x)" if "advances st x" for x
  proof -
    have "advances x (skipToEnd x)" using advancesD(1,9) [OF that] assms(2) by (simp add: skipToEnd_advances)
    with that show ?thesis by (rule advances_trans)
  qed
  have c: "advances st x" if "tokenComment d s3 state'' = (y, x, z)" for d state'' x y z
  proof -
    have "pos s3 \<le> length (string_of s3)" using advancesD(1,9) [OF a3] assms(2) by simp
    then have "advances s3 x" using tokenComment_advances [OF that] by blast
    with a3 show ?thesis by (rule advances_trans)
  qed
  have r: "advances st (snd (base_rest cfg ch s3))"
    using base_rest_forward a3 by (rule forward_after)
  show ?thesis
    using assms(1) 1 2 3 a1 a2 end1 r c
    by (cases b1; cases b2; cases b3) (auto simp: base_comments_def split: prod.splits)
qed

text \<open>One token of the line: the stream has moved on and is not behind the end of the line.\<close>

lemma tokenBase_moved:
  assumes "pos st < length (string_of st)" "start st \<le> pos st"
  shows "\<exists>style st' state'. tokenBase cfg st state = Return (style, st', state') \<and> moved st st'"
proof -
  let ?ch = "string_of st ! pos st" and ?s0 = "st\<lparr>pos := Suc (pos st)\<rparr>"
  have a0: "advances st ?s0" using assms by (auto intro: advances_pos)
  have m: "moved st x" if "advances ?s0 x" for x
    using moved_after [OF advances_moved [OF that] a0] assms by simp
  obtain b1 s1 where 1: "hexNumber_branch cfg ?ch ?s0 = (b1, s1)" by fastforce
  obtain b2 s2 where 2: "binaryNumber_branch cfg ?ch s1 = (b2, s2)" by fastforce
  obtain b3 s3 where 3: "placeholder_branch ?ch s2 = (b3, s3)" by fastforce
  obtain b4 s4 where 4: "charset_branch cfg ?ch s3 = (b4, s4)" by fastforce
  have a1: "advances ?s0 s1" by (rule forwardD [OF forward_branches(1) 1])
  have a2: "advances ?s0 s2" by (rule advances_trans [OF a1 forwardD [OF forward_branches(2) 2]])
  have a3: "advances ?s0 s3" by (rule advances_trans [OF a2 forwardD [OF forward_branches(3) 3]])
  have a4: "advances ?s0 s4" by (rule advances_trans [OF a3 forwardD [OF forward_charset 4]])
  have n: "advances ?s0 (number_result cfg s2)"
    unfolding number_result_def Let_def using a2 by (auto intro!: forward_after [OF forward_eats] forward_after [OF forward_matches])
  have l: "advances ?s0 x" if "tokenLiteral q s3 z = (y, x, w)" for q x y z w
    using tokenLiteral_advances [OF that] by (blast intro: advances_trans [OF a3])
  have c: "advances ?s0 x" if "base_comments cfg ?ch s4 state = (y, x, w)" for x y w
  proof -
    have "pos s4 \<le> length (string_of s4)" using advancesD(1,9) [OF a4] assms by simp
    then have "advances s4 x" using base_comments_advances [OF that] by blast
    with a4 show ?thesis by (rule advances_trans)
  qed
  show ?thesis
  proof (cases "hook_for cfg ?ch")
    case (Some h)
    obtain style x where h: "run_hook h ?s0 = (style, x)" by fastforce
    then have "moved ?s0 x" using run_hook_moved assms by simp
    then have "moved st x" using a0 by (rule moved_after)
    with Some h assms(1) show ?thesis by (simp add: tokenBase_def next_unit_within)
  next
    case None
    obtain y1 x1 w1 where t: "tokenLiteral ?ch s3 (state\<lparr>tokenize := TokenLiteral ?ch\<rparr>) = (y1, x1, w1)"
      by (metis prod_cases3)
    obtain y2 x2 w2 where r: "base_comments cfg ?ch s4 state = (y2, x2, w2)" by (metis prod_cases3)
    note ms = m [OF a1] m [OF a2] m [OF a3] m [OF a4] m [OF n] m [OF l [OF t]] m [OF c [OF r]]
    show ?thesis
      using ms None assms(1) 1 2 3 4 t r
      by (cases b1; cases b2; cases b3; cases b4) (simp_all add: tokenBase_def next_unit_within)
  qed
qed

lemma run_tokenize_moved:
  assumes "pos st < length (string_of st)" "start st \<le> pos st"
  shows "\<exists>style st' state'. run_tokenize cfg st state = Return (style, st', state') \<and> moved st st'"
proof (cases "tokenize state")
  case TokenBase
  with tokenBase_moved [OF assms] show ?thesis by (simp add: run_tokenize_def)
next
  case (TokenLiteral q)
  obtain y x w where t: "tokenLiteral q st state = (y, x, w)" by (metis prod_cases3)
  have "moved st x" using tokenLiteral_advances [OF t] assms by (auto simp: advances_def moved_def)
  with TokenLiteral t show ?thesis by (simp add: run_tokenize_def)
next
  case (TokenComment d)
  obtain y x w where t: "tokenComment d st state = (y, x, w)" by (metis prod_cases3)
  have "moved st x" using tokenComment_advances [OF t] assms by (auto simp: advances_def moved_def)
  with TokenComment t show ?thesis by (simp add: run_tokenize_def)
qed

lemma column_same_line:
  "string_of (snd (column st)) = string_of st \<and> pos (snd (column st)) = pos st \<and> start (snd (column st)) = start st
     \<and> tabSize (snd (column st)) = tabSize st \<and> lineStart (snd (column st)) = lineStart st \<and> lineOracle (snd (column st)) = lineOracle st"
  by (simp add: column_def Let_def)

lemma bracket_step_same_line:
  "\<exists>st' state'. bracket_step st state = Return (st', state') \<and> string_of st' = string_of st \<and> pos st' = pos st \<and> start st' = start st
     \<and> tabSize st' = tabSize st \<and> lineStart st' = lineStart st \<and> lineOracle st' = lineOracle st"
  using column_same_line [of st]
  by (auto simp: bracket_step_def pushContext_def popContext_def Let_def split: prod.splits list.splits)

lemma sql_token_moves:
  assumes "\<not> eol st" "start st \<le> pos st"
  shows "\<exists>style st' state'. sql_token cfg st state = Return (style, st', state')
     \<and> string_of st' = string_of st \<and> start st' = start st \<and> lineStart st' = lineStart st \<and> tabSize st' = tabSize st
     \<and> lineOracle st' = lineOracle st \<and> start st < pos st' \<and> pos st' \<le> length (string_of st)"
proof -
  have p: "pos st < length (string_of st)" using assms by (simp add: eol_def)
  define state0 where "state0 = (if sol st then set_align False state else state)"
  obtain space st1 where s: "and_then (tokenize state0 = TokenBase) eatSpace st = (space, st1)" by fastforce
  show ?thesis
  proof (cases space)
    case True
    then have e: "eatSpace st = (True, st1)" using s by (auto simp: and_then_def split: if_splits)
    then have "pos st < pos st1"
      by (auto simp: eatSpace_def Let_def simp del: length_greater_0_conv)
    with assms(2) eatSpace_advances [OF e] have "advances st st1 \<and> start st < pos st1" by simp
    with True s p show ?thesis
      unfolding sql_token_def state0_def [symmetric] Let_def by (auto dest: advancesD)
  next
    case False
    then have st1: "st1 = st"
      using s by (auto simp: and_then_def eatSpace_def Let_def split: if_splits)
    obtain style st2 state2 where r: "run_tokenize cfg st state0 = Return (style, st2, state2)" "moved st st2"
      using run_tokenize_moved [OF p assms(2)] by blast
    obtain st3 state3 where b: "bracket_step st2 (set_align True state2) = Return (st3, state3)" "string_of st3 = string_of st2"
      "pos st3 = pos st2" "start st3 = start st2" "tabSize st3 = tabSize st2" "lineStart st3 = lineStart st2" "lineOracle st3 = lineOracle st2"
      using bracket_step_same_line by blast
    have "string_of st2 = string_of st \<and> start st2 = start st \<and> lineStart st2 = lineStart st \<and> tabSize st2 = tabSize st
        \<and> lineOracle st2 = lineOracle st \<and> start st < pos st2 \<and> pos st2 \<le> length (string_of st)"
      using r(2) by (cases st; cases st2) (auto simp: moved_def)
    with False s st1 r(1) b show ?thesis
      unfolding sql_token_def state0_def [symmetric] Let_def by (cases "style = Some ''comment''") simp_all
  qed
qed

text \<open>C26. On a line that is not at its end every call of the SQL mode's \<open>token\<close>, in every state and for every
  dialect, returns, consumes at least one character, stays within the line, and changes neither
  the line nor the start of the token: no dialect makes the highlighter fail to advance.\<close>

theorem sql_token_advances:
  assumes "\<not> eol st" "start st \<le> pos st"
  shows "\<exists>style st' state'. sql_token cfg st state = Return (style, st', state')
     \<and> string_of st' = string_of st \<and> start st' = start st \<and> lineStart st' = lineStart st \<and> tabSize st' = tabSize st
     \<and> lineOracle st' = lineOracle st \<and> start st < pos st' \<and> pos st' \<le> length (string_of st)"
  using assms by (rule sql_token_moves)

theorem sql_token_advances_witness:
  "let st = StringStream (ascii ''a(b'') 4 None;
       cfg = sql_config_of \<lparr>spec_client = None, spec_atoms = None, spec_builtin = None, spec_keywords = None,
                            spec_operatorChars = None, spec_support = None, spec_hooks = None, spec_dateSQL = None\<rparr>
   in \<exists>style st' state'. sql_token cfg st sql_startState = Return (style, st', state') \<and> 0 < pos st' \<and> pos st' \<le> 3"
proof -
  let ?st = "StringStream (ascii ''a(b'') 4 None"
  have "\<not> eol ?st" "start ?st \<le> pos ?st" "start ?st = 0" "length (string_of ?st) = 3"
    by (simp_all add: StringStream_def eol_def ascii_def)
  then show ?thesis
    using sql_token_advances [of ?st] by (simp add: Let_def) blast
qed

section \<open>Where a literal ends\<close>

text \<open>The specification: a quote ends the literal when the number of backslashes right before it is even.\<close>

definition backslash :: code_unit where "backslash = cu (CHR 0x5C)"

definition backslashes_before :: "js_text \<Rightarrow> nat" where
  "backslashes_before s = length (takeWhile (\<lambda>c. c = backslash) (rev s))"

definition unescaped_at :: "code_unit \<Rightarrow> js_text \<Rightarrow> nat \<Rightarrow> bool" where
  "unescaped_at q s i \<longleftrightarrow> i < length s \<and> s ! i = q \<and> even (backslashes_before (take i s))"

definition literal_end :: "code_unit \<Rightarrow> js_text \<Rightarrow> nat option" where
  "literal_end q s = find (unescaped_at q s) [0..<length s]"

lemma backslashes_before_snoc: "backslashes_before (s @ [c]) = (if c = backslash then Suc (backslashes_before s) else 0)"
  by (simp add: backslashes_before_def)

lemma find_upt_step:
  "k < n \<Longrightarrow> find P [k..<n] = (if P k then Some k else find P [Suc k..<n])"
  by (simp add: upt_conv_Cons)

lemma literal_loop_exact:
  assumes "k \<le> length s" "pos st = p + k" "drop p (string_of st) = s" "p \<le> length (string_of st)"
    "escaped = odd (backslashes_before (take k s))" "q \<noteq> backslash"
  shows "literal_loop q escaped st =
    (case find (unescaped_at q s) [k..<length s] of
       Some i \<Rightarrow> (True, st\<lparr>pos := p + i + 1\<rparr>)
     | None \<Rightarrow> (False, st\<lparr>pos := p + length s\<rparr>))"
  using assms
proof (induction "length s - k" arbitrary: k st escaped)
  case 0
  then have k: "k = length s" and at_end: "pos st = length (string_of st)" and p: "pos st = p + length s" by auto
  from p have "st = st\<lparr>pos := p + length s\<rparr>" by (cases st) simp
  with k at_end show ?case by (subst literal_loop.simps) (simp add: next_unit_def)
next
  case (Suc n)
  then have k: "k < length s" and len: "p + length s = length (string_of st)" by auto
  have ch: "next_unit st = (Some (s ! k), st\<lparr>pos := p + k + 1\<rparr>)"
    using Suc.prems k len by (auto simp: next_unit_def)
  have u: "unescaped_at q s k \<longleftrightarrow> s ! k = q \<and> \<not> escaped"
    using k Suc.prems(5) by (simp add: unescaped_at_def)
  have esc: "(\<not> escaped \<and> s ! k = backslash) \<longleftrightarrow> odd (backslashes_before (take (Suc k) s))"
    using k Suc.prems(5) by (simp add: take_Suc_conv_app_nth backslashes_before_snoc)
  show ?case
  proof (cases "unescaped_at q s k")
    case True
    with u ch k show ?thesis by (subst literal_loop.simps) (simp add: find_upt_step)
  next
    case False
    have "literal_loop q (\<not> escaped \<and> s ! k = backslash) (st\<lparr>pos := p + k + 1\<rparr>) =
        (case find (unescaped_at q s) [Suc k..<length s] of
           Some i \<Rightarrow> (True, (st\<lparr>pos := p + k + 1\<rparr>)\<lparr>pos := p + i + 1\<rparr>)
         | None \<Rightarrow> (False, (st\<lparr>pos := p + k + 1\<rparr>)\<lparr>pos := p + length s\<rparr>))"
      using Suc.hyps(2) Suc.prems k esc by (intro Suc.hyps(1)) auto
    with False u ch k show ?thesis
      by (subst literal_loop.simps) (auto simp: find_upt_step backslash_def split: option.splits)
  qed
qed

text \<open>Inside a literal a token runs to the first quote that is not escaped and ends the literal there; a quote
  counts as escaped when an odd number of backslashes of this line stands right before it. Without
  such a quote the whole rest of the line belongs to the literal, which goes on in the next line.\<close>

theorem literal_token_exact:
  assumes "pos st \<le> length (string_of st)" "q \<noteq> cu (CHR 0x5C)"
  shows "tokenLiteral q st state =
    (case literal_end q (drop (pos st) (string_of st)) of
       Some i \<Rightarrow> (Some ''string'', st\<lparr>pos := pos st + i + 1\<rparr>, state\<lparr>tokenize := TokenBase\<rparr>)
     | None \<Rightarrow> (Some ''string'', st\<lparr>pos := length (string_of st)\<rparr>, state))"
  using literal_loop_exact [of 0 "drop (pos st) (string_of st)" st "pos st" False q] assms
  by (auto simp: tokenLiteral_def literal_end_def backslash_def backslashes_before_def split: option.splits)

section \<open>Where a comment ends\<close>

text \<open>The specification: the first mark that opens or closes a comment, found before a line terminator.\<close>

fun comment_mark :: "js_text \<Rightarrow> (nat \<times> bool) option" where
  "comment_mark [] = None"
| "comment_mark (c # s) =
     (if take 2 (c # s) = ascii ''/*'' then Some (0, True)
      else if take 2 (c # s) = ascii ''*/'' then Some (0, False)
      else if line_unit c then map_option (\<lambda>(i, b). (Suc i, b)) (comment_mark s) else None)"

lemma paths_units: "paths (units u) g s = (if take (length u) s = ascii u then [(g, drop (length u) s)] else [])"
  by (induction u arbitrary: s) (auto simp: units_def ascii_def split: list.splits)

lemma paths_lazy_then:
  "paths (Then (Lazy (Unit P)) b) g s = paths b g s @ (case s of [] \<Rightarrow> [] | c # s' \<Rightarrow> if P c then paths (Then (Lazy (Unit P)) b) g s' else [])"
  by (subst paths.simps(3), subst paths.simps(6), cases s) simp_all

abbreviation comment_marks :: regex where "comment_marks \<equiv> Group 1 (Else (units ''/*'') (units ''*/''))"

lemma paths_comment_marks:
  "paths comment_marks [] s =
     (if take 2 s = ascii ''/*'' then [([(1, ascii ''/*'')], drop 2 s)]
      else if take 2 s = ascii ''*/'' then [([(1, ascii ''*/'')], drop 2 s)] else [])"
proof -
  have two: "length ''/*'' = 2" "length ''*/'' = 2" by simp_all
  have len: "length s - (length s - 2) = 2" if "take 2 s = ascii u" "length u = 2" for u
  proof -
    have "length (take 2 s) = length (ascii u)" using that(1) by simp
    then have "2 \<le> length s" using that(2) by (simp add: ascii_def)
    then show ?thesis by simp
  qed
  have ne: "ascii ''/*'' \<noteq> ascii ''*/''" by (simp add: ascii_def cu_def)
  show ?thesis
  proof (cases "take 2 s = ascii ''/*'' \<or> take 2 s = ascii ''*/''")
    case True
    then have "length s - (length s - 2) = 2" using len by auto
    with True ne show ?thesis by (auto simp: paths_units two simp del: list.size)
  next
    case False
    then show ?thesis by (simp add: paths_units two del: list.size)
  qed
qed

lemma comment_mark_paths:
  "(case paths rx_comment_mark [] s of [] \<Rightarrow> None | (g, s') # _ \<Rightarrow> Some (g, s')) =
   (case comment_mark s of None \<Rightarrow> None
    | Some (i, b) \<Rightarrow> Some ([(1, if b then ascii ''/*'' else ascii ''*/'')], drop (i + 2) s))"
proof (induction s)
  case Nil
  show ?case
    unfolding rx_comment_mark_def paths_lazy_then [of _ _ _ "[]"] paths_comment_marks by (simp add: ascii_def)
next
  case (Cons c s)
  then show ?case
    unfolding rx_comment_mark_def paths_lazy_then [of _ _ _ "c # s"] paths_comment_marks
    by (auto split: option.splits list.splits prod.splits)
qed

lemma comment_mark_take: "comment_mark s = Some (i, b) \<Longrightarrow> i + 2 \<le> length s"
proof (induction s arbitrary: i)
  case (Cons c s)
  have two: "2 \<le> length (c # s)" if "take 2 (c # s) = ascii u" "length u = 2" for u
  proof -
    have "length (take 2 (c # s)) = length (ascii u)" using that(1) by simp
    then show ?thesis using that(2) by (simp add: ascii_def)
  qed
  from Cons.prems show ?case
    using two [of "''/*''"] two [of "''*/''"] Cons.IH by (fastforce split: if_splits)
qed simp

text \<open>Inside a comment a token runs to the next mark in the line that opens or closes a comment and counts the
  depth up or down, leaving the comment when the outermost one is closed; without a mark the rest
  of the line is comment and the depth stays. Only marks before a line terminator character are seen.\<close>

theorem comment_token_exact:
  assumes "pos st \<le> length (string_of st)"
  shows "tokenComment depth st state =
    (case comment_mark (drop (pos st) (string_of st)) of
       Some (i, True) \<Rightarrow> (Some ''comment'', st\<lparr>pos := pos st + i + 2\<rparr>, state\<lparr>tokenize := TokenComment (depth + 1)\<rparr>)
     | Some (i, False) \<Rightarrow> (Some ''comment'', st\<lparr>pos := pos st + i + 2\<rparr>,
          state\<lparr>tokenize := if depth > 1 then TokenComment (depth - 1) else TokenBase\<rparr>)
     | None \<Rightarrow> (Some ''comment'', st\<lparr>pos := length (string_of st)\<rparr>, state))"
proof -
  let ?s = "drop (pos st) (string_of st)"
  have ne: "ascii ''/*'' \<noteq> ascii ''*/''" by (simp add: ascii_def cu_def)
  show ?thesis
  proof (cases "comment_mark ?s")
    case None
    then have "paths rx_comment_mark [] ?s = []"
      using comment_mark_paths [of ?s] by (auto split: list.splits)
    with None show ?thesis
      by (simp add: tokenComment_def match_regex_def regex_match_def skipToEnd_def)
  next
    case (Some ib)
    obtain i b where ib: "ib = (i, b)" by fastforce
    obtain ps where ps: "paths rx_comment_mark [] ?s = ([(1, if b then ascii ''/*'' else ascii ''*/'')], drop (i + 2) ?s) # ps"
      using comment_mark_paths [of ?s] Some ib by (auto split: list.splits)
    have "length ?s - length (drop (i + 2) ?s) = i + 2" "i + 2 \<le> length ?s"
      using comment_mark_take [of ?s i b] Some ib by auto
    then have "match_regex rx_comment_mark True st =
        (Some (take (i + 2) ?s, [(1, if b then ascii ''/*'' else ascii ''*/'')]), st\<lparr>pos := pos st + (i + 2)\<rparr>)"
      unfolding match_regex_def regex_match_def ps by simp
    with Some ib ne show ?thesis
      by (cases b) (simp_all add: tokenComment_def)
  qed
qed

theorem comment_token_exact_witness:
  "tokenComment 2 (StringStream (ascii ''a*/b'') 4 None) sql_startState
     = (Some ''comment'', (StringStream (ascii ''a*/b'') 4 None)\<lparr>pos := 3\<rparr>, sql_startState\<lparr>tokenize := TokenComment 1\<rparr>)"
proof -
  have "comment_mark (ascii ''a*/b'') = Some (1, False)" by code_simp
  then show ?thesis
    using comment_token_exact [of "StringStream (ascii ''a*/b'') 4 None" 2 sql_startState]
    by (simp add: StringStream_def ascii_def)
qed

text \<open>
  A line separator character does not split the lines of the document, but the dot of a regular
  expression does not match it: the end of a comment after one is missed.
\<close>

theorem comment_end_missed:
  "tokenComment 1 (StringStream (ascii ''a'' @ [0x2028] @ ascii ''*/ select'') 4 None) state =
     (Some ''comment'', (StringStream (ascii ''a'' @ [0x2028] @ ascii ''*/ select'') 4 None)\<lparr>pos := 11\<rparr>, state)"
proof -
  have "comment_mark (ascii ''a'' @ [0x2028] @ ascii ''*/ select'') = None" by code_simp
  then show ?thesis
    using comment_mark_paths [of "ascii ''a'' @ [0x2028] @ ascii ''*/ select''"]
    by (auto simp: tokenComment_def match_regex_def regex_match_def skipToEnd_def StringStream_def ascii_def split: list.splits)
qed

theorem literal_token_exact_witness:
  "tokenLiteral 39 (StringStream [120, 92, 39, 39, 120] 4 None) sql_startState
     = (Some ''string'', (StringStream [120, 92, 39, 39, 120] 4 None)\<lparr>pos := 4\<rparr>, sql_startState)"
proof -
  have "literal_end 39 [120, 92, 39, 39, 120] = Some 3" by code_simp
  moreover have "(39::code_unit) \<noteq> cu (CHR 0x5C)" by code_simp
  ultimately show ?thesis
    using literal_token_exact [of "StringStream [120, 92, 39, 39, 120] 4 None" 39 sql_startState]
    by (simp add: StringStream_def sql_startState_def)
qed

end
