(* ===== verification/Cm_Sql_Dialects.thy ===== *)
theory Cm_Sql_Dialects
  imports Cm_Sql
begin

text \<open>
  The dialects of the SQL mode, the MIME types that \<open>bower/codemirror/sql.js\<close> defines, with the words
  as the code has them, and what two words of them look like when they are tokenized.
\<close>

text \<open>The words of a text that are separated by single spaces.\<close>

fun split_words :: "string \<Rightarrow> string \<Rightarrow> string list" where
  "split_words w [] = [rev w]"
| "split_words w (c # s) = (if c = CHR '' '' then rev w # split_words [] s else split_words (c # w) s)"

definition set_words :: "string \<Rightarrow> string list" where
  "set_words s = split_words [] s"

definition sqlKeywords :: string where
  "sqlKeywords = ''alter and as asc between by count create delete desc distinct drop from group having in insert into is join ''
       @ ''like not on or order select set table union update values where limit ''"

definition text_x_sql :: sql_spec where
  "text_x_sql =
     \<lparr>spec_client = None,
      spec_atoms = Some (set_words (''false true null unknown'')),
      spec_builtin = Some (set_words (''bool boolean bit blob enum long longblob longtext medium mediumblob mediumint mediumtext time timestamp ''
       @ ''tinyblob tinyint tinytext text bigint int int1 int2 int3 int4 int8 integer float float4 float8 double char ''
       @ ''varbinary varchar varcharacter precision real date datetime year unsigned signed decimal numeric'')),
      spec_keywords = Some (set_words (sqlKeywords @ ''begin'')),
      spec_operatorChars = Some ''*+-%<>!='',
      spec_support = Some (set_words (''ODBCdotTable doubleQuote binaryNumber hexNumber'')),
      spec_hooks = None,
      spec_dateSQL = Some (set_words (''date time timestamp''))\<rparr>"

definition text_x_mssql :: sql_spec where
  "text_x_mssql =
     \<lparr>spec_client = Some (set_words (''charset clear connect edit ego exit go help nopager notee nowarning pager print prompt quit rehash source ''
       @ ''status system tee'')),
      spec_atoms = Some (set_words (''false true null unknown'')),
      spec_builtin = Some (set_words (''bigint numeric bit smallint decimal smallmoney int tinyint money float real char varchar text nchar nvarchar ''
       @ ''ntext binary varbinary image cursor timestamp hierarchyid uniqueidentifier sql_variant xml table '')),
      spec_keywords = Some (set_words (sqlKeywords @ ''begin trigger proc view index for add constraint key primary foreign collate clustered nonclustered declare ''
       @ ''exec'')),
      spec_operatorChars = Some ''*+-%<>!='',
      spec_support = None,
      spec_hooks = Some [(CHR ''@'', HookVar)],
      spec_dateSQL = Some (set_words (''date datetimeoffset datetime2 smalldatetime datetime time''))\<rparr>"

definition text_x_mysql :: sql_spec where
  "text_x_mysql =
     \<lparr>spec_client = Some (set_words (''charset clear connect edit ego exit go help nopager notee nowarning pager print prompt quit rehash source ''
       @ ''status system tee'')),
      spec_atoms = Some (set_words (''false true null unknown'')),
      spec_builtin = Some (set_words (''bool boolean bit blob decimal double float long longblob longtext medium mediumblob mediumint mediumtext time ''
       @ ''timestamp tinyblob tinyint tinytext text bigint int int1 int2 int3 int4 int8 integer float float4 float8 ''
       @ ''double char varbinary varchar varcharacter precision date datetime year unsigned signed numeric'')),
      spec_keywords = Some (set_words (sqlKeywords @ ''accessible action add after algorithm all analyze asensitive at authors auto_increment autocommit avg ''
       @ ''avg_row_length before binary binlog both btree cache call cascade cascaded case catalog_name chain change ''
       @ ''changed character check checkpoint checksum class_origin client_statistics close coalesce code collate ''
       @ ''collation collations column columns comment commit committed completion concurrent condition connection ''
       @ ''consistent constraint contains continue contributors convert cross current current_date current_time ''
       @ ''current_timestamp current_user cursor data database databases day_hour day_microsecond day_minute day_second ''
       @ ''deallocate dec declare default delay_key_write delayed delimiter des_key_file describe deterministic dev_pop ''
       @ ''dev_samp deviance diagnostics directory disable discard distinctrow div dual dumpfile each elseif enable ''
       @ ''enclosed end ends engine engines enum errors escape escaped even event events every execute exists exit ''
       @ ''explain extended fast fetch field fields first flush for force foreign found_rows full fulltext function ''
       @ ''general get global grant grants group group_concat handler hash help high_priority hosts hour_microsecond ''
       @ ''hour_minute hour_second if ignore ignore_server_ids import index index_statistics infile inner innodb inout ''
       @ ''insensitive insert_method install interval invoker isolation iterate key keys kill language last leading ''
       @ ''leave left level limit linear lines list load local localtime localtimestamp lock logs low_priority master ''
       @ ''master_heartbeat_period master_ssl_verify_server_cert masters match max max_rows maxvalue message_text ''
       @ ''middleint migrate min min_rows minute_microsecond minute_second mod mode modifies modify mutex mysql_errno ''
       @ ''natural next no no_write_to_binlog offline offset one online open optimize option optionally out outer ''
       @ ''outfile pack_keys parser partition partitions password phase plugin plugins prepare preserve prev primary ''
       @ ''privileges procedure processlist profile profiles purge query quick range read read_write reads real rebuild ''
       @ ''recover references regexp relaylog release remove rename reorganize repair repeatable replace require ''
       @ ''resignal restrict resume return returns revoke right rlike rollback rollup row row_format rtree savepoint ''
       @ ''schedule schema schema_name schemas second_microsecond security sensitive separator serializable server ''
       @ ''session share show signal slave slow smallint snapshot soname spatial specific sql sql_big_result ''
       @ ''sql_buffer_result sql_cache sql_calc_found_rows sql_no_cache sql_small_result sqlexception sqlstate ''
       @ ''sqlwarning ssl start starting starts status std stddev stddev_pop stddev_samp storage straight_join ''
       @ ''subclass_origin sum suspend table_name table_statistics tables tablespace temporary terminated to trailing ''
       @ ''transaction trigger triggers truncate uncommitted undo uninstall unique unlock upgrade usage use use_frm user ''
       @ ''user_resources user_statistics using utc_date utc_time utc_timestamp value variables varying view views ''
       @ ''warnings when while with work write xa xor year_month zerofill begin do then else loop repeat'')),
      spec_operatorChars = Some ''*+-%<>!=&|^'',
      spec_support = Some (set_words (''ODBCdotTable decimallessFloat zerolessFloat binaryNumber hexNumber doubleQuote nCharCast charsetCast ''
       @ ''commentHash commentSpaceRequired'')),
      spec_hooks = Some [(CHR ''@'', HookVar), (CHR ''`'', HookIdentifier), (CHR 0x5C, HookClient)],
      spec_dateSQL = Some (set_words (''date time timestamp''))\<rparr>"

definition text_x_mariadb :: sql_spec where
  "text_x_mariadb =
     \<lparr>spec_client = Some (set_words (''charset clear connect edit ego exit go help nopager notee nowarning pager print prompt quit rehash source ''
       @ ''status system tee'')),
      spec_atoms = Some (set_words (''false true null unknown'')),
      spec_builtin = Some (set_words (''bool boolean bit blob decimal double float long longblob longtext medium mediumblob mediumint mediumtext time ''
       @ ''timestamp tinyblob tinyint tinytext text bigint int int1 int2 int3 int4 int8 integer float float4 float8 ''
       @ ''double char varbinary varchar varcharacter precision date datetime year unsigned signed numeric'')),
      spec_keywords = Some (set_words (sqlKeywords @ ''accessible action add after algorithm all always analyze asensitive at authors auto_increment autocommit avg ''
       @ ''avg_row_length before binary binlog both btree cache call cascade cascaded case catalog_name chain change ''
       @ ''changed character check checkpoint checksum class_origin client_statistics close coalesce code collate ''
       @ ''collation collations column columns comment commit committed completion concurrent condition connection ''
       @ ''consistent constraint contains continue contributors convert cross current current_date current_time ''
       @ ''current_timestamp current_user cursor data database databases day_hour day_microsecond day_minute day_second ''
       @ ''deallocate dec declare default delay_key_write delayed delimiter des_key_file describe deterministic dev_pop ''
       @ ''dev_samp deviance diagnostics directory disable discard distinctrow div dual dumpfile each elseif enable ''
       @ ''enclosed end ends engine engines enum errors escape escaped even event events every execute exists exit ''
       @ ''explain extended fast fetch field fields first flush for force foreign found_rows full fulltext function ''
       @ ''general generated get global grant grants group groupby_concat handler hard hash help high_priority hosts ''
       @ ''hour_microsecond hour_minute hour_second if ignore ignore_server_ids import index index_statistics infile ''
       @ ''inner innodb inout insensitive insert_method install interval invoker isolation iterate key keys kill ''
       @ ''language last leading leave left level limit linear lines list load local localtime localtimestamp lock logs ''
       @ ''low_priority master master_heartbeat_period master_ssl_verify_server_cert masters match max max_rows maxvalue ''
       @ ''message_text middleint migrate min min_rows minute_microsecond minute_second mod mode modifies modify mutex ''
       @ ''mysql_errno natural next no no_write_to_binlog offline offset one online open optimize option optionally out ''
       @ ''outer outfile pack_keys parser partition partitions password persistent phase plugin plugins prepare preserve ''
       @ ''prev primary privileges procedure processlist profile profiles purge query quick range read read_write reads ''
       @ ''real rebuild recover references regexp relaylog release remove rename reorganize repair repeatable replace ''
       @ ''require resignal restrict resume return returns revoke right rlike rollback rollup row row_format rtree ''
       @ ''savepoint schedule schema schema_name schemas second_microsecond security sensitive separator serializable ''
       @ ''server session share show shutdown signal slave slow smallint snapshot soft soname spatial specific sql ''
       @ ''sql_big_result sql_buffer_result sql_cache sql_calc_found_rows sql_no_cache sql_small_result sqlexception ''
       @ ''sqlstate sqlwarning ssl start starting starts status std stddev stddev_pop stddev_samp storage straight_join ''
       @ ''subclass_origin sum suspend table_name table_statistics tables tablespace temporary terminated to trailing ''
       @ ''transaction trigger triggers truncate uncommitted undo uninstall unique unlock upgrade usage use use_frm user ''
       @ ''user_resources user_statistics using utc_date utc_time utc_timestamp value variables varying view views ''
       @ ''virtual warnings when while with work write xa xor year_month zerofill begin do then else loop repeat'')),
      spec_operatorChars = Some ''*+-%<>!=&|^'',
      spec_support = Some (set_words (''ODBCdotTable decimallessFloat zerolessFloat binaryNumber hexNumber doubleQuote nCharCast charsetCast ''
       @ ''commentHash commentSpaceRequired'')),
      spec_hooks = Some [(CHR ''@'', HookVar), (CHR ''`'', HookIdentifier), (CHR 0x5C, HookClient)],
      spec_dateSQL = Some (set_words (''date time timestamp''))\<rparr>"

definition text_x_sqlite :: sql_spec where
  "text_x_sqlite =
     \<lparr>spec_client = Some (set_words (''auth backup bail binary changes check clone databases dbinfo dump echo eqp exit explain fullschema headers ''
       @ ''help import imposter indexes iotrace limit lint load log mode nullvalue once open output print prompt quit ''
       @ ''read restore save scanstats schema separator session shell show stats system tables testcase timeout timer ''
       @ ''trace vfsinfo vfslist vfsname width'')),
      spec_atoms = Some (set_words (''null current_date current_time current_timestamp'')),
      spec_builtin = Some (set_words (''bool boolean bit blob decimal double float long longblob longtext medium mediumblob mediumint mediumtext time ''
       @ ''timestamp tinyblob tinyint tinytext text clob bigint int int2 int8 integer float double char varchar date ''
       @ ''datetime year unsigned signed numeric real'')),
      spec_keywords = Some (set_words (sqlKeywords @ ''abort action add after all analyze attach autoincrement before begin cascade case cast check collate column ''
       @ ''commit conflict constraint cross current_date current_time current_timestamp database default deferrable ''
       @ ''deferred detach each else end escape except exclusive exists explain fail for foreign full glob if ignore ''
       @ ''immediate index indexed initially inner instead intersect isnull key left limit match natural no notnull null ''
       @ ''of offset outer plan pragma primary query raise recursive references regexp reindex release rename replace ''
       @ ''restrict right rollback row savepoint temp temporary then to transaction trigger unique using vacuum view ''
       @ ''virtual when with without'')),
      spec_operatorChars = Some ''*+-%<>!=&|/~'',
      spec_support = Some (set_words (''decimallessFloat zerolessFloat'')),
      spec_hooks = Some [(CHR ''@'', HookVar), (CHR '':'', HookVar), (CHR ''?'', HookVar), (CHR ''$'', HookVar), (CHR 0x22, HookIdentifierDoublequote), (CHR ''`'', HookIdentifier)],
      spec_dateSQL = Some (set_words (''date time timestamp datetime''))\<rparr>"

definition text_x_cassandra :: sql_spec where
  "text_x_cassandra =
     \<lparr>spec_client = Some [],
      spec_atoms = Some (set_words (''false true infinity NaN'')),
      spec_builtin = Some (set_words (''ascii bigint blob boolean counter decimal double float frozen inet int list map static text timestamp ''
       @ ''timeuuid tuple uuid varchar varint'')),
      spec_keywords = Some (set_words (''add all allow alter and any apply as asc authorize batch begin by clustering columnfamily compact consistency ''
       @ ''count create custom delete desc distinct drop each_quorum exists filtering from grant if in index insert into ''
       @ ''key keyspace keyspaces level limit local_one local_quorum modify nan norecursive nosuperuser not of on one ''
       @ ''order password permission permissions primary quorum rename revoke schema select set storage superuser table ''
       @ ''three to token truncate ttl two type unlogged update use user users using values where with writetime'')),
      spec_operatorChars = Some ''<>='',
      spec_support = Some (set_words (''commentSlashSlash decimallessFloat'')),
      spec_hooks = Some [],
      spec_dateSQL = Some []\<rparr>"

definition text_x_plsql :: sql_spec where
  "text_x_plsql =
     \<lparr>spec_client = Some (set_words (''appinfo arraysize autocommit autoprint autorecovery autotrace blockterminator break btitle cmdsep colsep ''
       @ ''compatibility compute concat copycommit copytypecheck define describe echo editfile embedded escape exec ''
       @ ''execute feedback flagger flush heading headsep instance linesize lno loboffset logsource long longchunksize ''
       @ ''markup native newpage numformat numwidth pagesize pause pno recsep recsepchar release repfooter repheader ''
       @ ''serveroutput shiftinout show showmode size spool sqlblanklines sqlcase sqlcode sqlcontinue sqlnumber ''
       @ ''sqlpluscompatibility sqlprefix sqlprompt sqlterminator suffix tab term termout time timing trimout trimspool ''
       @ ''ttitle underline verify version wrap'')),
      spec_atoms = None,
      spec_builtin = Some (set_words (''abs acos add_months ascii asin atan atan2 average bfile bfilename bigserial bit blob ceil character ''
       @ ''chartorowid chr clob concat convert cos cosh count dec decode deref dual dump dup_val_on_index empty error ''
       @ ''exp false float floor found glb greatest hextoraw initcap instr instrb int integer isopen last_day least ''
       @ ''length lengthb ln lower lpad ltrim lub make_ref max min mlslabel mod months_between natural naturaln nchar ''
       @ ''nclob new_time next_day nextval nls_charset_decl_len nls_charset_id nls_charset_name nls_initcap nls_lower ''
       @ ''nls_sort nls_upper nlssort no_data_found notfound null number numeric nvarchar2 nvl others power rawtohex ''
       @ ''real reftohex round rowcount rowidtochar rowtype rpad rtrim serial sign signtype sin sinh smallint soundex ''
       @ ''sqlcode sqlerrm sqrt stddev string substr substrb sum sysdate tan tanh to_char text to_date to_label ''
       @ ''to_multi_byte to_number to_single_byte translate true trunc uid unlogged upper user userenv varchar varchar2 ''
       @ ''variance varying vsize xml'')),
      spec_keywords = Some (set_words (''abort accept access add all alter and any array arraylen as asc assert assign at attributes audit ''
       @ ''authorization avg base_table begin between binary_integer body boolean by case cast char char_base check ''
       @ ''close cluster clusters colauth column comment commit compress connect connected constant constraint crash ''
       @ ''create current currval cursor data_base database date dba deallocate debugoff debugon decimal declare default ''
       @ ''definition delay delete desc digits dispose distinct do drop else elseif elsif enable end entry escape ''
       @ ''exception exception_init exchange exclusive exists exit external fast fetch file for force form from function ''
       @ ''generic goto grant group having identified if immediate in increment index indexes indicator initial initrans ''
       @ ''insert interface intersect into is key level library like limited local lock log logging long loop master ''
       @ ''maxextents maxtrans member minextents minus mislabel mode modify multiset new next no noaudit nocompress ''
       @ ''nologging noparallel not nowait number_base object of off offline on online only open option or order out ''
       @ ''package parallel partition pctfree pctincrease pctused pls_integer positive positiven pragma primary prior ''
       @ ''private privileges procedure public raise range raw read rebuild record ref references refresh release rename ''
       @ ''replace resource restrict return returning returns reverse revoke rollback row rowid rowlabel rownum rows run ''
       @ ''savepoint schema segment select separate session set share snapshot some space split sql start statement ''
       @ ''storage subtype successful synonym tabauth table tables tablespace task terminate then to trigger truncate ''
       @ ''type union unique unlimited unrecoverable unusable update use using validate value values variable view views ''
       @ ''when whenever where while with work'')),
      spec_operatorChars = Some ''*+-%<>!=~'',
      spec_support = Some (set_words (''doubleQuote nCharCast zerolessFloat binaryNumber hexNumber'')),
      spec_hooks = None,
      spec_dateSQL = Some (set_words (''date time timestamp''))\<rparr>"

definition text_x_hive :: sql_spec where
  "text_x_hive =
     \<lparr>spec_client = None,
      spec_atoms = Some (set_words (''false true null unknown'')),
      spec_builtin = Some (set_words (''bool boolean long timestamp tinyint smallint bigint int float double date datetime unsigned string array ''
       @ ''struct map uniontype'')),
      spec_keywords = Some (set_words (''select alter $elem$ $key$ $value$ add after all analyze and archive as asc before between binary both bucket ''
       @ ''buckets by cascade case cast change cluster clustered clusterstatus collection column columns comment compute ''
       @ ''concatenate continue create cross cursor data database databases dbproperties deferred delete delimited desc ''
       @ ''describe directory disable distinct distribute drop else enable end escaped exclusive exists explain export ''
       @ ''extended external false fetch fields fileformat first format formatted from full function functions grant ''
       @ ''group having hold_ddltime idxproperties if import in index indexes inpath inputdriver inputformat insert ''
       @ ''intersect into is items join keys lateral left like limit lines load local location lock locks mapjoin ''
       @ ''materialized minus msck no_drop nocompress not of offline on option or order out outer outputdriver ''
       @ ''outputformat overwrite partition partitioned partitions percent plus preserve procedure purge range rcfile ''
       @ ''read readonly reads rebuild recordreader recordwriter recover reduce regexp rename repair replace restrict ''
       @ ''revoke right rlike row schema schemas semi sequencefile serde serdeproperties set shared show show_database ''
       @ ''sort sorted ssl statistics stored streamtable table tables tablesample tblproperties temporary terminated ''
       @ ''textfile then tmp to touch transform trigger true unarchive undo union uniquejoin unlock update use using utc ''
       @ ''utc_tmestamp view when where while with'')),
      spec_operatorChars = Some ''*+-%<>!='',
      spec_support = Some (set_words (''ODBCdotTable doubleQuote binaryNumber hexNumber'')),
      spec_hooks = None,
      spec_dateSQL = Some (set_words (''date timestamp''))\<rparr>"

definition text_x_pgsql :: sql_spec where
  "text_x_pgsql =
     \<lparr>spec_client = Some (set_words (''source'')),
      spec_atoms = Some (set_words (''false true null unknown'')),
      spec_builtin = Some (set_words (''bigint int8 bigserial serial8 bit varying varbit boolean bool box bytea character char varchar cidr circle ''
       @ ''date double precision float8 inet integer int int4 interval json jsonb line lseg macaddr macaddr8 money ''
       @ ''numeric decimal path pg_lsn point polygon real float4 smallint int2 smallserial serial2 serial serial4 text ''
       @ ''time without zone with timetz timestamp timestamptz tsquery tsvector txid_snapshot uuid xml'')),
      spec_keywords = Some (set_words (sqlKeywords @ ''a abort abs absent absolute access according action ada add admin after aggregate all allocate also always ''
       @ ''analyse analyze any are array array_agg array_max_cardinality asensitive assertion assignment asymmetric at ''
       @ ''atomic attribute attributes authorization avg backward base64 before begin begin_frame begin_partition ''
       @ ''bernoulli binary bit_length blob blocked bom both breadth c cache call called cardinality cascade cascaded ''
       @ ''case cast catalog catalog_name ceil ceiling chain characteristics characters character_length ''
       @ ''character_set_catalog character_set_name character_set_schema char_length check checkpoint class class_origin ''
       @ ''clob close cluster coalesce cobol collate collation collation_catalog collation_name collation_schema collect ''
       @ ''column columns column_name command_function command_function_code comment comments commit committed ''
       @ ''concurrently condition condition_number configuration conflict connect connection connection_name constraint ''
       @ ''constraints constraint_catalog constraint_name constraint_schema constructor contains content continue ''
       @ ''control conversion convert copy corr corresponding cost covar_pop covar_samp cross csv cube cume_dist current ''
       @ ''current_catalog current_date current_default_transform_group current_path current_role current_row ''
       @ ''current_schema current_time current_timestamp current_transform_group_for_type current_user cursor ''
       @ ''cursor_name cycle data database datalink datetime_interval_code datetime_interval_precision day db deallocate ''
       @ ''dec declare default defaults deferrable deferred defined definer degree delimiter delimiters dense_rank depth ''
       @ ''deref derived describe descriptor deterministic diagnostics dictionary disable discard disconnect dispatch ''
       @ ''dlnewcopy dlpreviouscopy dlurlcomplete dlurlcompleteonly dlurlcompletewrite dlurlpath dlurlpathonly ''
       @ ''dlurlpathwrite dlurlscheme dlurlserver dlvalue do document domain dynamic dynamic_function ''
       @ ''dynamic_function_code each element else empty enable encoding encrypted end end-exec end_frame end_partition ''
       @ ''enforced enum equals escape event every except exception exclude excluding exclusive exec execute exists exp ''
       @ ''explain expression extension external extract false family fetch file filter final first first_value flag ''
       @ ''float floor following for force foreign fortran forward found frame_row free freeze fs full function ''
       @ ''functions fusion g general generated get global go goto grant granted greatest grouping groups handler header ''
       @ ''hex hierarchy hold hour id identity if ignore ilike immediate immediately immutable implementation implicit ''
       @ ''import including increment indent index indexes indicator inherit inherits initially inline inner inout input ''
       @ ''insensitive instance instantiable instead integrity intersect intersection invoker isnull isolation k key ''
       @ ''key_member key_type label lag language large last last_value lateral lead leading leakproof least left length ''
       @ ''level library like_regex link listen ln load local localtime localtimestamp location locator lock locked ''
       @ ''logged lower m map mapping match matched materialized max maxvalue max_cardinality member merge ''
       @ ''message_length message_octet_length message_text method min minute minvalue mod mode modifies module month ''
       @ ''more move multiset mumps name names namespace national natural nchar nclob nesting new next nfc nfd nfkc nfkd ''
       @ ''nil no none normalize normalized nothing notify notnull nowait nth_value ntile null nullable nullif nulls ''
       @ ''number object occurrences_regex octets octet_length of off offset oids old only open operator option options ''
       @ ''ordering ordinality others out outer output over overlaps overlay overriding owned owner p pad parallel ''
       @ ''parameter parameter_mode parameter_name parameter_ordinal_position parameter_specific_catalog ''
       @ ''parameter_specific_name parameter_specific_schema parser partial partition pascal passing passthrough ''
       @ ''password percent percentile_cont percentile_disc percent_rank period permission placing plans pli policy ''
       @ ''portion position position_regex power precedes preceding prepare prepared preserve primary prior privileges ''
       @ ''procedural procedure program public quote range rank read reads reassign recheck recovery recursive ref ''
       @ ''references referencing refresh regr_avgx regr_avgy regr_count regr_intercept regr_r2 regr_slope regr_sxx ''
       @ ''regr_sxy regr_syy reindex relative release rename repeatable replace replica requiring reset respect restart ''
       @ ''restore restrict restricted result return returned_cardinality returned_length returned_octet_length ''
       @ ''returned_sqlstate returning returns revoke right role rollback rollup routine routine_catalog routine_name ''
       @ ''routine_schema row rows row_count row_number rule savepoint scale schema schema_name scope scope_catalog ''
       @ ''scope_name scope_schema scroll search second section security selective self sensitive sequence sequences ''
       @ ''serializable server server_name session session_user setof sets share show similar simple size skip snapshot ''
       @ ''some source space specific specifictype specific_name sql sqlcode sqlerror sqlexception sqlstate sqlwarning ''
       @ ''sqrt stable standalone start state statement static statistics stddev_pop stddev_samp stdin stdout storage ''
       @ ''strict strip structure style subclass_origin submultiset substring substring_regex succeeds sum symmetric ''
       @ ''sysid system system_time system_user t tables tablesample tablespace table_name temp template temporary then ''
       @ ''ties timezone_hour timezone_minute to token top_level_count trailing transaction transactions_committed ''
       @ ''transactions_rolled_back transaction_active transform transforms translate translate_regex translation treat ''
       @ ''trigger trigger_catalog trigger_name trigger_schema trim trim_array true truncate trusted type types uescape ''
       @ ''unbounded uncommitted under unencrypted unique unknown unlink unlisten unlogged unnamed unnest until untyped ''
       @ ''upper uri usage user user_defined_type_catalog user_defined_type_code user_defined_type_name ''
       @ ''user_defined_type_schema using vacuum valid validate validator value value_of varbinary variadic var_pop ''
       @ ''var_samp verbose version versioning view views volatile when whenever whitespace width_bucket window within ''
       @ ''work wrapper write xmlagg xmlattributes xmlbinary xmlcast xmlcomment xmlconcat xmldeclaration xmldocument ''
       @ ''xmlelement xmlexists xmlforest xmliterate xmlnamespaces xmlparse xmlpi xmlquery xmlroot xmlschema ''
       @ ''xmlserialize xmltable xmltext xmlvalidate year yes loop repeat attach path depends detach zone'')),
      spec_operatorChars = Some ''*+-%<>!=&|^/#@?~'',
      spec_support = Some (set_words (''ODBCdotTable decimallessFloat zerolessFloat binaryNumber hexNumber nCharCast charsetCast'')),
      spec_hooks = None,
      spec_dateSQL = Some (set_words (''date time timestamp''))\<rparr>"

definition text_x_gql :: sql_spec where
  "text_x_gql =
     \<lparr>spec_client = None,
      spec_atoms = Some (set_words (''false true'')),
      spec_builtin = Some (set_words (''blob datetime first key __key__ string integer double boolean null'')),
      spec_keywords = Some (set_words (''ancestor and asc by contains desc descendant distinct from group has in is limit offset on order select ''
       @ ''superset where'')),
      spec_operatorChars = Some ''*+-%<>!='',
      spec_support = None,
      spec_hooks = None,
      spec_dateSQL = None\<rparr>"

end
