(* ===== verification/Cm_Mode.thy ===== *)
theory Cm_Mode
  imports Cm_Sql
begin

text \<open>
  How the editor runs a mode over a line (\<open>codemirror.js\<close>): contexts, \<open>readToken\<close>, \<open>processLine\<close>,
  \<open>runMode\<close> and the classes of a line. Modes do not contain other modes here, so the inner mode
  is the mode itself. Copying a state is the identity, since states are values. The loops over a
  line end only if the mode advances: their result is \<open>None\<close> when they do not end, and the locale
  \<open>advancing_mode\<close> shows that they do for a mode that keeps its contract, as the SQL mode does.
\<close>

section \<open>Modes and contexts\<close>

text \<open>The state \<open>true\<close> stands for no state; each mode has a value for it.\<close>

record 's mode =
  m_name :: string
  m_token :: "stream \<Rightarrow> 's \<Rightarrow> (style \<times> stream \<times> 's) outcome"
  m_startState :: "'s option"
  m_true :: 's
  m_blankLine :: "('s \<Rightarrow> style \<times> 's) option"
  m_flattenSpans :: "bool option"

record 's mode_context =
  ct_state :: 's
  ct_oracle :: line_oracle

datatype 's saved = Plain 's | SavedContext 's nat

definition new_context :: "(int \<Rightarrow> js_text option) \<Rightarrow> 's \<Rightarrow> int \<Rightarrow> nat \<Rightarrow> 's mode_context" where
  "new_context doc state line lookAhead =
     \<lparr>ct_state = state, ct_oracle = \<lparr>or_getLine = doc, or_line = line, or_maxLookAhead = lookAhead\<rparr>\<rparr>"

definition nextLine :: "'s mode_context \<Rightarrow> 's mode_context" where
  "nextLine c = c\<lparr>ct_oracle := (ct_oracle c)\<lparr>or_line := or_line (ct_oracle c) + 1,
     or_maxLookAhead := or_maxLookAhead (ct_oracle c) - 1\<rparr>\<rparr>"

fun fromSaved :: "(int \<Rightarrow> js_text option) \<Rightarrow> 's saved \<Rightarrow> int \<Rightarrow> 's mode_context" where
  "fromSaved doc (SavedContext s lookAhead) line = new_context doc s line lookAhead"
| "fromSaved doc (Plain s) line = new_context doc s line 0"

definition save :: "'s mode_context \<Rightarrow> 's saved" where
  "save c = (if or_maxLookAhead (ct_oracle c) > 0 then SavedContext (ct_state c) (or_maxLookAhead (ct_oracle c))
             else Plain (ct_state c))"

definition startState :: "'s mode \<Rightarrow> 's" where
  "startState m = (case m_startState m of Some s \<Rightarrow> s | None \<Rightarrow> m_true m)"

definition null_mode :: "unit mode" where
  "null_mode = \<lparr>m_name = ''null'', m_token = (\<lambda>st s. Return (None, skipToEnd st, s)), m_startState = None, m_true = (),
     m_blankLine = None, m_flattenSpans = None\<rparr>"

text \<open>The SQL mode has a start state, so its state is never \<open>true\<close>.\<close>

definition sql_mode :: "sql_config \<Rightarrow> sql_state mode" where
  "sql_mode cfg = \<lparr>m_name = ''sql'', m_token = sql_token cfg, m_startState = Some sql_startState, m_true = sql_startState,
     m_blankLine = None, m_flattenSpans = None\<rparr>"

section \<open>Tokens\<close>

definition callBlankLine :: "'s mode \<Rightarrow> 's \<Rightarrow> style \<times> 's" where
  "callBlankLine m s = (case m_blankLine m of Some f \<Rightarrow> f s | None \<Rightarrow> (None, s))"

text \<open>At most ten calls of \<open>token\<close> until one moves the stream; then the mode has failed.\<close>

fun readToken_loop :: "nat \<Rightarrow> 's mode \<Rightarrow> stream \<Rightarrow> 's \<Rightarrow> (style \<times> stream \<times> 's) outcome" where
  "readToken_loop 0 m st s = Throw"
| "readToken_loop (Suc n) m st s =
     (case m_token m st s of
        Throw \<Rightarrow> Throw
      | Return (style, st', s') \<Rightarrow> if pos st' > start st' then Return (style, st', s') else readToken_loop n m st' s')"

definition readToken :: "'s mode \<Rightarrow> stream \<Rightarrow> 's \<Rightarrow> (style \<times> stream \<times> 's) outcome" where
  "readToken = readToken_loop 10"

text \<open>The stream of a line reads ahead through the context, which is updated with it.\<close>

definition put_oracle :: "stream \<Rightarrow> 's \<Rightarrow> 's mode_context \<Rightarrow> 's mode_context" where
  "put_oracle st s c = c\<lparr>ct_state := s, ct_oracle := (case lineOracle st of Some r \<Rightarrow> r | None \<Rightarrow> ct_oracle c)\<rparr>"

definition line_step :: "'s mode \<Rightarrow> stream \<times> 's mode_context \<Rightarrow> (stream \<times> 's mode_context) outcome option" where
  "line_step m = (\<lambda>(st, c).
     case readToken m st (ct_state c) of
       Throw \<Rightarrow> Some Throw
     | Return (style, st', s') \<Rightarrow> Some (Return (st'\<lparr>start := pos st'\<rparr>, put_oracle st' s' c)))"

definition processLine :: "nat \<Rightarrow> 's mode \<Rightarrow> js_text \<Rightarrow> 's mode_context \<Rightarrow> nat \<Rightarrow> 's mode_context outcome option" where
  "processLine tab_size m text context startAt =
     (let stream = (StringStream text tab_size (Some (ct_oracle context)))\<lparr>start := startAt, pos := startAt\<rparr>;
          context = (if text = [] then context\<lparr>ct_state := snd (callBlankLine m (ct_state context))\<rparr> else context)
      in case loop (\<lambda>(st, c). \<not> eol st) (line_step m) (stream, context) of
           None \<Rightarrow> None
         | Some Throw \<Rightarrow> Some Throw
         | Some (Return (st, c)) \<Rightarrow> Some (Return c))"

section \<open>The classes of a line\<close>

definition space_char :: "char \<Rightarrow> bool" where
  "space_char c \<longleftrightarrow> (let n = of_char c :: nat in (9 \<le> n \<and> n \<le> 13) \<or> n = 32 \<or> n = 160)"

text \<open>What follows \<open>line-\<close>: whether it is for the background, the class, and the rest.\<close>

definition class_after :: "string \<Rightarrow> (bool \<times> string \<times> string) option" where
  "class_after t =
     (let b = ''background-''; n = length b; word = takeWhile (\<lambda>c. \<not> space_char c)
      in if take n t = b \<and> word (drop n t) \<noteq> [] then Some (True, word (drop n t), dropWhile (\<lambda>c. \<not> space_char c) (drop n t))
         else if word t \<noteq> [] then Some (False, word t, dropWhile (\<lambda>c. \<not> space_char c) t)
         else None)"

definition line_class_at :: "bool \<Rightarrow> string \<Rightarrow> (bool \<times> string \<times> string) option" where
  "line_class_at first s =
     (if first \<and> take 5 s = ''line-'' then class_after (drop 5 s)
      else let t = dropWhile space_char s
           in if t \<noteq> s \<and> take 5 t = ''line-'' then class_after (drop 5 t) else None)"

text \<open>The leftmost match: what is before it, and what it found.\<close>

fun find_line_class :: "bool \<Rightarrow> string \<Rightarrow> (string \<times> bool \<times> string \<times> string) option" where
  "find_line_class first s =
     (case line_class_at first s of
        Some (b, c, r) \<Rightarrow> Some ([], b, c, r)
      | None \<Rightarrow> (case s of [] \<Rightarrow> None
                 | ch # s' \<Rightarrow> map_option (\<lambda>(p, x). (ch # p, x)) (find_line_class False s')))"

declare find_line_class.simps [simp del]

lemma class_after_length: "class_after t = Some (b, c, r) \<Longrightarrow> length r < length t"
proof -
  have w: "length (dropWhile P u) < length u" if "takeWhile (\<lambda>c. P c) u \<noteq> []" for P and u :: string
    using that by (metis length_append length_greater_0_conv less_add_same_cancel2 takeWhile_dropWhile_id)
  have w': "length (dropWhile P (drop n t)) < length t" if "takeWhile (\<lambda>c. P c) (drop n t) \<noteq> []" for P n
    using w [OF that] by simp
  assume "class_after t = Some (b, c, r)"
  then show ?thesis
    by (auto simp: class_after_def Let_def split: if_splits intro: w w')
qed

lemma line_class_at_length: "line_class_at first s = Some (b, c, r) \<Longrightarrow> length r < length s"
proof -
  have "length (dropWhile space_char s) \<le> length s" by (rule length_dropWhile_le)
  moreover assume "line_class_at first s = Some (b, c, r)"
  ultimately show ?thesis
    by (auto simp: line_class_at_def Let_def split: if_splits dest!: class_after_length)
qed

lemma find_line_class_length: "find_line_class first s = Some (p, b, c, r) \<Longrightarrow> length p + length r < length s"
proof (induction first s arbitrary: p rule: find_line_class.induct)
  case (1 first s)
  show ?case
    using "1.prems" [unfolded find_line_class.simps [of first s]] "1.IH"
    by (auto split: option.splits list.splits dest: line_class_at_length)
qed

record line_classes =
  bgClass :: "string option"
  textClass :: "string option"

text \<open>
  The test whether a class is there already. It is built from a string in which the escape \<open>\s\<close> is
  the letter s, and takes the class as a regular expression; classes here are without characters
  that are special there.
\<close>

definition class_present :: "string \<Rightarrow> string \<Rightarrow> bool" where
  "class_present cls out =
     list_ex (\<lambda>i. take (length cls) (drop i out) = cls
        \<and> (i = 0 \<or> out ! (i - 1) = CHR ''s'')
        \<and> (i + length cls = length out \<or> take 1 (drop (i + length cls) out) = ''s''))
       [0..<Suc (length out)]"

definition add_class :: "string \<Rightarrow> string option \<Rightarrow> string option" where
  "add_class cls out =
     (case out of
        None \<Rightarrow> Some cls
      | Some o' \<Rightarrow> if class_present cls o' then Some o' else Some (o' @ '' '' @ cls))"

function extract_classes :: "string \<Rightarrow> line_classes \<Rightarrow> string \<times> line_classes" where
  "extract_classes type output =
     (case find_line_class True type of
        None \<Rightarrow> (type, output)
      | Some (before, bg, cls, after) \<Rightarrow>
          extract_classes (before @ after)
            (if bg then output\<lparr>bgClass := add_class cls (bgClass output)\<rparr> else output\<lparr>textClass := add_class cls (textClass output)\<rparr>))"
  by pat_completeness auto
termination by (relation "measure (\<lambda>(t, c). length t)") (auto dest: find_line_class_length)

declare extract_classes.simps [simp del]

definition extractLineClasses :: "style \<Rightarrow> line_classes \<Rightarrow> style \<times> line_classes" where
  "extractLineClasses type output =
     (case type of
        None \<Rightarrow> (None, output)
      | Some t \<Rightarrow> if t = [] then (Some t, output) else (case extract_classes t output of (t', output') \<Rightarrow> (Some t', output')))"

text \<open>
  The test for a class that is there already does not see it behind a blank, so a class that is not
  the first one is added once more for every token that asks for it.
\<close>

theorem line_class_repeated:
  "extractLineClasses (Some ''line-a'') \<lparr>bgClass = None, textClass = Some ''b a''\<rparr>
     = (Some '''', \<lparr>bgClass = None, textClass = Some ''b a a''\<rparr>)"
  by code_simp

end
