(* ===== verification/Cm_Highlight.thy ===== *)
theory Cm_Highlight
  imports Cm_Mode
begin

text \<open>
  Highlighting in the editor (\<open>codemirror.js\<close>): \<open>runMode\<close> cuts a line into spans of one style,
  \<open>highlightLine\<close> puts the styles of overlays over them. A style array is a list of pairs of the
  end of a span and its style, without the number of the mode's generation in front.
\<close>

section \<open>Running a mode over a line\<close>

record hl_options =
  opt_tabSize :: nat
  opt_flattenSpans :: bool
  opt_addModeClass :: bool
  opt_maxHighlightLength :: nat

type_synonym spans = "(nat \<times> style) list"

text \<open>
  The variables of the loop. The name of the inner mode is there when the classes of modes are
  asked for, and has no value before the first token.
\<close>

record 's mode_run =
  r_stream :: stream
  r_context :: "'s mode_context"
  r_flatten :: bool
  r_curStart :: nat
  r_curStyle :: style
  r_inner :: "string option option"
  r_classes :: line_classes
  r_out :: spans

text \<open>Spans are at most 5000 characters long.\<close>

function emit :: "nat \<Rightarrow> nat \<Rightarrow> style \<Rightarrow> spans" where
  "emit limit curStart curStyle =
     (if curStart < limit
      then (let e = min limit (curStart + 5000) in (e, curStyle) # emit limit e curStyle)
      else [])"
  by pat_completeness auto
termination by (relation "measure (\<lambda>(l, c, s). l - c)") auto

declare emit.simps [simp del]

definition nonempty :: "style \<Rightarrow> bool" where "nonempty s \<longleftrightarrow> s \<noteq> None \<and> s \<noteq> Some []"

definition mode_class :: "string \<Rightarrow> style \<Rightarrow> style" where
  "mode_class name style =
     (if name = [] then style
      else Some (''m-'' @ (if nonempty style then name @ '' '' @ the style else name)))"

text \<open>What the code reads at the position: the style, and the stream, context and classes after it.\<close>

definition run_token ::
  "hl_options \<Rightarrow> 's mode \<Rightarrow> bool \<Rightarrow> js_text \<Rightarrow> 's mode_run \<Rightarrow> (style \<times> 's mode_run) outcome option" where
  "run_token opts m forceToEnd text r =
     (let st = r_stream r; c = r_context r
      in if pos st > opt_maxHighlightLength opts
         then (case (if forceToEnd then processLine (opt_tabSize opts) m text c (pos st) else Some (Return c)) of
                 None \<Rightarrow> None
               | Some Throw \<Rightarrow> Some Throw
               | Some (Return c') \<Rightarrow>
                   Some (Return (None, r\<lparr>r_flatten := False, r_stream := st\<lparr>pos := length text\<rparr>, r_context := c'\<rparr>)))
         else (case readToken m st (ct_state c) of
                 Throw \<Rightarrow> Some Throw
               | Return (tok, st', s') \<Rightarrow>
                   (case extractLineClasses tok (r_classes r) of
                      (style, classes) \<Rightarrow>
                        Some (Return (style, r\<lparr>r_stream := st', r_context := put_oracle st' s' c, r_classes := classes,
                                               r_inner := map_option (\<lambda>_. Some (m_name m)) (r_inner r)\<rparr>)))))"

definition run_step ::
  "hl_options \<Rightarrow> 's mode \<Rightarrow> bool \<Rightarrow> js_text \<Rightarrow> 's mode_run \<Rightarrow> 's mode_run outcome option" where
  "run_step opts m forceToEnd text r0 =
     (case run_token opts m forceToEnd text r0 of
        None \<Rightarrow> None
      | Some Throw \<Rightarrow> Some Throw
      | Some (Return (style0, r)) \<Rightarrow>
          if r_inner r = Some None then Some Throw
          else
            let style = (case r_inner r of Some (Some name) \<Rightarrow> mode_class name style0 | _ \<Rightarrow> style0);
                st = r_stream r;
                r1 = (if \<not> r_flatten r \<or> r_curStyle r \<noteq> style
                      then r\<lparr>r_out := r_out r @ emit (start st) (r_curStart r) (r_curStyle r),
                             r_curStart := max (r_curStart r) (start st), r_curStyle := style\<rparr>
                      else r)
            in Some (Return (r1\<lparr>r_stream := st\<lparr>start := pos st\<rparr>\<rparr>)))"

definition run_start :: "hl_options \<Rightarrow> 's mode \<Rightarrow> js_text \<Rightarrow> 's mode_context \<Rightarrow> line_classes \<Rightarrow> 's mode_run" where
  "run_start opts m text context lineClasses =
     (let blank = callBlankLine m (ct_state context);
          r = \<lparr>r_stream = StringStream text (opt_tabSize opts) (Some (ct_oracle context)), r_context = context,
               r_flatten = or_else (m_flattenSpans m) (opt_flattenSpans opts), r_curStart = 0, r_curStyle = None,
               r_inner = (if opt_addModeClass opts then Some None else None), r_classes = lineClasses, r_out = []\<rparr>
      in if text = [] then r\<lparr>r_classes := snd (extractLineClasses (fst blank) lineClasses),
                             r_context := context\<lparr>ct_state := snd blank\<rparr>\<rparr>
         else r)"

definition runMode ::
  "hl_options \<Rightarrow> 's mode \<Rightarrow> js_text \<Rightarrow> 's mode_context \<Rightarrow> line_classes \<Rightarrow> bool
     \<Rightarrow> (spans \<times> line_classes \<times> 's mode_context) outcome option" where
  "runMode opts m text context lineClasses forceToEnd =
     (case loop (\<lambda>r. \<not> eol (r_stream r)) (run_step opts m forceToEnd text) (run_start opts m text context lineClasses) of
        None \<Rightarrow> None
      | Some Throw \<Rightarrow> Some Throw
      | Some (Return r) \<Rightarrow>
          Some (Return (r_out r @ emit (pos (r_stream r)) (r_curStart r) (r_curStyle r), r_classes r, r_context r)))"

section \<open>Overlays\<close>

text \<open>
  Makes a span end at \<open>end\<close>: goes over the spans from index \<open>i\<close>, which begins at \<open>at\<close>, and cuts the
  one that goes on. There is no result when the spans do not reach that far.
\<close>

function cut_spans :: "nat \<Rightarrow> nat \<Rightarrow> spans \<Rightarrow> nat \<Rightarrow> (spans \<times> nat \<times> nat) option" where
  "cut_spans end at st i =
     (if at < end
      then (if i < length st
            then (case st ! i of (i_end, style) \<Rightarrow>
                    if i_end > end then Some (take i st @ [(end, style), (i_end, style)] @ drop (Suc i) st, Suc i, end)
                    else cut_spans end (min end i_end) st (Suc i))
            else None)
      else Some (st, i, at))"
  by pat_completeness auto
termination by (relation "measure (\<lambda>(e, a, st, i). length st - i)") auto

declare cut_spans.simps [simp del]

definition overlay_name :: "string \<Rightarrow> string" where "overlay_name style = ''overlay '' @ style"

definition over_style :: "string \<Rightarrow> style \<Rightarrow> style" where
  "over_style style cur = Some ((if nonempty cur then the cur @ '' '' else '''') @ overlay_name style)"

text \<open>The callback for one span of the overlay.\<close>

definition overlay_step :: "bool \<Rightarrow> nat \<times> style \<Rightarrow> spans \<times> nat \<times> nat \<Rightarrow> (spans \<times> nat \<times> nat) option" where
  "overlay_step opaque = (\<lambda>(end, style) (st, i, at).
     case cut_spans end at st i of
       None \<Rightarrow> None
     | Some (st1, i1, at1) \<Rightarrow>
         if \<not> nonempty style then Some (st1, i1, at1)
         else if opaque then Some (take i st1 @ [(end, Some (overlay_name (the style)))] @ drop i1 st1, Suc i, at1)
         else Some (take i st1 @ map (\<lambda>(e, cur). (e, over_style (the style) cur)) (take (i1 - i) (drop i st1)) @ drop i1 st1, i1, at1))"

fun overlay_steps :: "bool \<Rightarrow> spans \<Rightarrow> spans \<times> nat \<times> nat \<Rightarrow> (spans \<times> nat \<times> nat) option" where
  "overlay_steps opaque [] x = Some x"
| "overlay_steps opaque (s # ss) x = (case overlay_step opaque s x of None \<Rightarrow> None | Some y \<Rightarrow> overlay_steps opaque ss y)"

record 'o overlay =
  ov_opaque :: bool
  ov_mode :: "'o mode"

text \<open>An overlay runs with the state \<open>true\<close>; what it reads ahead counts for the line.\<close>

fun run_overlays ::
  "hl_options \<Rightarrow> 'o overlay list \<Rightarrow> js_text \<Rightarrow> line_oracle \<Rightarrow> spans \<Rightarrow> line_classes
     \<Rightarrow> (spans \<times> line_classes \<times> line_oracle) outcome option" where
  "run_overlays opts [] text orc st classes = Some (Return (st, classes, orc))"
| "run_overlays opts (ov # ovs) text orc st classes =
     (case runMode opts (ov_mode ov) text \<lparr>ct_state = m_true (ov_mode ov), ct_oracle = orc\<rparr> classes False of
        None \<Rightarrow> None
      | Some Throw \<Rightarrow> Some Throw
      | Some (Return (spans, classes', c)) \<Rightarrow>
          (case overlay_steps (ov_opaque ov) spans (st, 0, 0) of
             None \<Rightarrow> None
           | Some (st', _, _) \<Rightarrow> run_overlays opts ovs text (ct_oracle c) st' classes'))"

definition highlightLine ::
  "hl_options \<Rightarrow> 's mode \<Rightarrow> 'o overlay list \<Rightarrow> js_text \<Rightarrow> 's mode_context \<Rightarrow> bool
     \<Rightarrow> (spans \<times> line_classes option \<times> 's mode_context) outcome option" where
  "highlightLine opts m overlays text context forceToEnd =
     (case runMode opts m text context \<lparr>bgClass = None, textClass = None\<rparr> forceToEnd of
        None \<Rightarrow> None
      | Some Throw \<Rightarrow> Some Throw
      | Some (Return (st, classes, c)) \<Rightarrow>
          (case run_overlays opts overlays text (ct_oracle c) st classes of
             None \<Rightarrow> None
           | Some Throw \<Rightarrow> Some Throw
           | Some (Return (st', classes', orc)) \<Rightarrow>
               Some (Return (st', if nonempty (bgClass classes') \<or> nonempty (textClass classes') then Some classes' else None,
                             c\<lparr>ct_oracle := orc\<rparr>))))"

section \<open>The style of a character\<close>

text \<open>The specification reads spans as a function from characters to styles.\<close>

fun style_at :: "spans \<Rightarrow> nat \<Rightarrow> style" where
  "style_at [] p = None"
| "style_at ((e, s) # r) p = (if p < e then s else style_at r p)"

text \<open>Spans that cover the characters from \<open>lo\<close> to \<open>hi\<close>, none of them empty.\<close>

fun covers :: "nat \<Rightarrow> spans \<Rightarrow> nat \<Rightarrow> bool" where
  "covers lo [] hi \<longleftrightarrow> lo = hi"
| "covers lo ((e, s) # r) hi \<longleftrightarrow> lo < e \<and> covers e r hi"

lemma covers_le: "covers lo a hi \<Longrightarrow> lo \<le> hi"
  by (induction a arbitrary: lo) force+

lemma covers_append: "covers lo (a @ b) hi \<longleftrightarrow> (\<exists>m. covers lo a m \<and> covers m b hi)"
  by (induction a arbitrary: lo) auto

lemma style_at_append:
  "covers lo a m \<Longrightarrow> lo \<le> p \<Longrightarrow> style_at (a @ b) p = (if p < m then style_at a p else style_at b p)"
proof (induction a arbitrary: lo)
  case (Cons x a)
  obtain e s where x: "x = (e, s)" by fastforce
  show ?case
  proof (cases "p < e")
    case True
    with Cons.prems x covers_le [of e a m] show ?thesis by auto
  next
    case False
    with Cons.prems x Cons.IH [of e] show ?thesis by auto
  qed
qed simp

lemma style_at_after: "covers lo a hi \<Longrightarrow> hi \<le> p \<Longrightarrow> style_at a p = None"
proof (induction a arbitrary: lo)
  case (Cons x a)
  obtain e s where x: "x = (e, s)" by fastforce
  with Cons.prems covers_le [of e a hi] show ?case by (auto intro: Cons.IH)
qed simp

definition combined :: "bool \<Rightarrow> style \<Rightarrow> style \<Rightarrow> style" where
  "combined opaque base over =
     (if \<not> nonempty over then base
      else if opaque then Some (overlay_name (the over))
      else over_style (the over) base)"

lemma cut_spans_correct:
  assumes "covers at todo n" "at \<le> end" "end \<le> n"
  shows "\<exists>mid todo'. cut_spans end at (pre @ todo) (length pre) = Some (pre @ mid @ todo', length pre + length mid, end)
     \<and> covers at mid end \<and> covers end todo' n \<and> (\<forall>p. at \<le> p \<longrightarrow> style_at (mid @ todo') p = style_at todo p)"
  using assms
proof (induction todo arbitrary: pre at)
  case Nil
  then have "at = end" by simp
  with Nil show ?case by (subst cut_spans.simps) (auto intro!: exI [of _ "[]"])
next
  case (Cons x todo)
  obtain e s where x: "x = (e, s)" by fastforce
  show ?case
  proof (cases "at < end")
    case False
    with Cons.prems have "at = end" by simp
    with Cons.prems show ?thesis
      by (subst cut_spans.simps) (auto intro!: exI [of _ "[]"] exI [of _ "x # todo"])
  next
    case True
    show ?thesis
    proof (cases "e > end")
      case e: True
      have "cut_spans end at (pre @ x # todo) (length pre) = Some (pre @ [(end, s)] @ (e, s) # todo, length pre + length [(end, s)], end)"
        using True e x by (subst cut_spans.simps) simp
      with True e x Cons.prems show ?thesis
        by (intro exI [of _ "[(end, s)]"] exI [of _ "(e, s) # todo"]) auto
    next
      case e: False
      have u: "cut_spans end at (pre @ x # todo) (length pre) = cut_spans end e ((pre @ [x]) @ todo) (length (pre @ [x]))"
        using True e x by (subst cut_spans.simps) (simp add: min_def)
      obtain mid todo' where m: "cut_spans end e ((pre @ [x]) @ todo) (length (pre @ [x]))
            = Some ((pre @ [x]) @ mid @ todo', length (pre @ [x]) + length mid, end)"
        "covers e mid end" "covers end todo' n" "\<forall>p. e \<le> p \<longrightarrow> style_at (mid @ todo') p = style_at todo p"
        using Cons.IH [of e "pre @ [x]"] Cons.prems x e by auto
      show ?thesis
        unfolding u using m x Cons.prems by (intro exI [of _ "x # mid"] exI [of _ todo']) auto
    qed
  qed
qed

lemma style_at_map:
  "lo \<le> p \<Longrightarrow> p < m \<Longrightarrow> covers lo a m \<Longrightarrow> style_at (map (\<lambda>(e, c). (e, f c)) a) p = f (style_at a p)"
proof (induction a arbitrary: lo)
  case (Cons x a)
  obtain e c where x: "x = (e, c)" by fastforce
  with Cons.prems Cons.IH [of e] show ?case by (cases "p < e") auto
qed auto

lemma covers_map: "covers lo (map (\<lambda>(e, c). (e, f c)) a) hi = covers lo a hi"
  by (induction a arbitrary: lo) auto

lemma overlay_step_correct:
  assumes "covers 0 pre at" "covers at todo n" "at < end" "end \<le> n"
  shows "\<exists>pre' todo'. overlay_step opaque (end, style) (pre @ todo, length pre, at) = Some (pre' @ todo', length pre', end)
     \<and> covers 0 pre' end \<and> covers end todo' n
     \<and> (\<forall>p < end. style_at pre' p = (if p < at then style_at pre p else combined opaque (style_at todo p) style))
     \<and> (\<forall>p \<ge> end. style_at todo' p = style_at todo p)"
proof -
  obtain mid todo' where c: "cut_spans end at (pre @ todo) (length pre) = Some (pre @ mid @ todo', length pre + length mid, end)"
    "covers at mid end" "covers end todo' n" and s: "\<And>p. at \<le> p \<Longrightarrow> style_at (mid @ todo') p = style_at todo p"
    using cut_spans_correct [OF assms(2) _ assms(4), of pre] assms(3) by auto
  have mid: "style_at mid p = style_at todo p" if "at \<le> p" "p < end" for p
    using s [OF that(1)] style_at_append [OF c(2) that(1)] that by simp
  have rest: "style_at todo' p = style_at todo p" if "end \<le> p" for p
    using s [of p] style_at_append [OF c(2), of p] that assms(3) by simp
  define mid' where "mid' = (if \<not> nonempty style then mid else if opaque then [(end, Some (overlay_name (the style)))]
      else map (\<lambda>(e, cur). (e, over_style (the style) cur)) mid)"
  have step: "overlay_step opaque (end, style) (pre @ todo, length pre, at) = Some ((pre @ mid') @ todo', length (pre @ mid'), end)"
    by (simp add: overlay_step_def c(1) mid'_def)
  have cov: "covers at mid' end"
    using c(2) assms(3) by (simp add: mid'_def covers_map)
  have new: "style_at mid' p = combined opaque (style_at todo p) style" if "at \<le> p" "p < end" for p
    using that mid [OF that] style_at_map [OF that c(2), of "over_style (the style)"] by (simp add: mid'_def combined_def)
  show ?thesis
    using step cov c(3) assms(1) style_at_append [OF assms(1)] new rest
    by (intro exI [of _ "pre @ mid'"] exI [of _ todo']) (auto simp: covers_append)
qed

lemma overlay_steps_correct:
  assumes "covers 0 pre at" "covers at todo n" "covers at ov n'" "n' \<le> n"
  shows "\<exists>st' i. overlay_steps opaque ov (pre @ todo, length pre, at) = Some (st', i, n') \<and> covers 0 st' n
     \<and> (\<forall>p < n. style_at st' p = (if p < at then style_at pre p else combined opaque (style_at todo p) (style_at ov p)))"
  using assms
proof (induction ov arbitrary: pre todo at)
  case Nil
  then show ?case
    using style_at_append [OF Nil(1)] by (auto simp: covers_append combined_def nonempty_def)
next
  case (Cons x ov)
  obtain e0 style where x: "x = (e0, style)" by fastforce
  have e: "at < e0" "e0 \<le> n" "covers e0 ov n'"
    using Cons.prems(3,4) x covers_le [of e0 ov n'] by auto
  obtain pre' todo' where s: "overlay_step opaque (e0, style) (pre @ todo, length pre, at) = Some (pre' @ todo', length pre', e0)"
    "covers 0 pre' e0" "covers e0 todo' n"
    "\<forall>p < e0. style_at pre' p = (if p < at then style_at pre p else combined opaque (style_at todo p) style)"
    "\<forall>p \<ge> e0. style_at todo' p = style_at todo p"
    using overlay_step_correct [OF Cons.prems(1,2) e(1,2)] by blast
  obtain st' i where r: "overlay_steps opaque ov (pre' @ todo', length pre', e0) = Some (st', i, n')" "covers 0 st' n"
    "\<forall>p < n. style_at st' p = (if p < e0 then style_at pre' p else combined opaque (style_at todo' p) (style_at ov p))"
    using Cons.IH [OF s(2,3) e(3) Cons.prems(4)] by blast
  have "style_at st' p = (if p < at then style_at pre p else combined opaque (style_at todo p) (style_at (x # ov) p))" if "p < n" for p
    using r(3) s(4,5) e(1) x that by auto
  with r s(1) x show ?case by auto
qed

text \<open>Putting an overlay over the spans of a line changes the style of every character as if the overlay had been
  combined with it there: without a style of the overlay the character keeps its own, an opaque
  overlay replaces it, any other adds to it. The spans still cover the line without empty ones.\<close>

theorem overlays_combine_pointwise:
  assumes "covers 0 base n" "covers 0 ov n'" "n' \<le> n"
  shows "\<exists>st i. overlay_steps opaque ov (base, 0, 0) = Some (st, i, n') \<and> covers 0 st n
     \<and> (\<forall>p < n. style_at st p = combined opaque (style_at base p) (style_at ov p))"
  using overlay_steps_correct [of "[]" 0 base n ov n' opaque] assms by simp

theorem overlays_combine_pointwise_witness:
  "\<exists>st i. overlay_steps False [(1, None), (3, Some ''x'')] ([(2, Some ''a''), (4, None)], 0, 0) = Some (st, i, 3) \<and> covers 0 st 4
     \<and> style_at st 1 = Some ''a overlay x'' \<and> style_at st 2 = Some ''overlay x'' \<and> style_at st 3 = None"
  using overlays_combine_pointwise [of "[(2, Some ''a''), (4, None)]" 4 "[(1, None), (3, Some ''x'')]" 3 False]
  by (auto simp: combined_def nonempty_def over_style_def overlay_name_def)

section \<open>Modes that advance\<close>

text \<open>
  The contract of a mode: on a line that is not at its end \<open>token\<close> returns, moves the stream
  forwards within the line, and leaves the line and the start of the token alone.
\<close>

locale advancing_mode =
  fixes m :: "'s mode"
  assumes token_advances: "\<not> eol st \<Longrightarrow> start st \<le> pos st \<Longrightarrow>
    \<exists>style st' s'. m_token m st s = Return (style, st', s') \<and> string_of st' = string_of st \<and> start st' = start st
      \<and> start st < pos st' \<and> pos st' \<le> length (string_of st)"

lemma emit_correct:
  "cur \<le> limit \<Longrightarrow> covers cur (emit limit cur s) limit \<and> (\<forall>p. cur \<le> p \<longrightarrow> p < limit \<longrightarrow> style_at (emit limit cur s) p = s)"
proof (induction limit cur s rule: emit.induct)
  case (1 limit cur s)
  show ?case
  proof (cases "cur < limit")
    case True
    with 1 show ?thesis by (subst (1 2) emit.simps) (auto simp: Let_def)
  next
    case False
    with 1(2) show ?thesis by (subst (1 2) emit.simps) auto
  qed
qed

text \<open>Two loops in step, the second one for what the first one is compared with.\<close>

lemma loop_together:
  assumes step: "\<And>x y. R x y \<Longrightarrow> c x \<Longrightarrow> \<exists>x' y'. f x = Some (Return x') \<and> g y = Some (Return y') \<and> R x' y' \<and> (m x' :: nat) < m x"
    and same: "\<And>x y. R x y \<Longrightarrow> c x = d y"
    and "R x y"
  shows "\<exists>x' y'. loop c f x = Some (Return x') \<and> loop d g y = Some (Return y') \<and> R x' y' \<and> \<not> c x'"
  using assms(3)
proof (induction "m x" arbitrary: x y rule: less_induct)
  case less
  show ?case
  proof (cases "c x")
    case True
    with step [OF less.prems] obtain x' y' where s: "f x = Some (Return x')" "g y = Some (Return y')" "R x' y'" "m x' < m x" by blast
    from True same [OF less.prems] have "d y" by simp
    with less.hyps [of x' y'] s True show ?thesis by (subst (1 2) loop.simps) simp
  next
    case False
    with same [OF less.prems] have "\<not> d y" by simp
    with less.prems False show ?thesis by (subst (1 2) loop.simps) auto
  qed
qed

definition line_ok :: "js_text \<Rightarrow> stream \<Rightarrow> bool" where
  "line_ok text st \<longleftrightarrow> string_of st = text \<and> start st = pos st \<and> pos st \<le> length text"

text \<open>The style of a character before the current token.\<close>

definition style_now :: "'s mode_run \<Rightarrow> nat \<Rightarrow> style" where
  "style_now r p = (if p < r_curStart r then style_at (r_out r) p else r_curStyle r)"

definition run_ok :: "js_text \<Rightarrow> 's mode_run \<Rightarrow> bool" where
  "run_ok text r \<longleftrightarrow> line_ok text (r_stream r) \<and> (pos (r_stream r) = 0 \<or> r_inner r \<noteq> Some None)
     \<and> covers 0 (r_out r) (r_curStart r) \<and> r_curStart r \<le> pos (r_stream r)"

definition same_run :: "js_text \<Rightarrow> 's mode_run \<Rightarrow> 's mode_run \<Rightarrow> bool" where
  "same_run text r r' \<longleftrightarrow> run_ok text r \<and> run_ok text r' \<and> r_stream r = r_stream r' \<and> r_context r = r_context r'
     \<and> r_inner r = r_inner r' \<and> r_classes r = r_classes r' \<and> (\<forall>p < pos (r_stream r). style_now r p = style_now r' p)"

text \<open>The part of a step after the token.\<close>

definition put_style :: "style \<Rightarrow> 's mode_run \<Rightarrow> 's mode_run" where
  "put_style style r =
     (let st = r_stream r;
          r1 = (if \<not> r_flatten r \<or> r_curStyle r \<noteq> style
                then r\<lparr>r_out := r_out r @ emit (start st) (r_curStart r) (r_curStyle r),
                       r_curStart := max (r_curStart r) (start st), r_curStyle := style\<rparr>
                else r)
      in r1\<lparr>r_stream := st\<lparr>start := pos st\<rparr>\<rparr>)"

lemma put_style_simps [simp]:
  "r_stream (put_style style r) = (r_stream r)\<lparr>start := pos (r_stream r)\<rparr>" "r_context (put_style style r) = r_context r"
  "r_inner (put_style style r) = r_inner r" "r_classes (put_style style r) = r_classes r"
  by (simp_all add: put_style_def Let_def)

lemma put_style_correct:
  assumes "covers 0 (r_out r) (r_curStart r)" "r_curStart r \<le> start (r_stream r)" "start (r_stream r) \<le> pos (r_stream r)"
  shows "covers 0 (r_out (put_style style r)) (r_curStart (put_style style r))
    \<and> r_curStart (put_style style r) \<le> pos (r_stream r)
    \<and> (\<forall>p < pos (r_stream r). style_now (put_style style r) p = (if p < start (r_stream r) then style_now r p else style))"
proof (cases "\<not> r_flatten r \<or> r_curStyle r \<noteq> style")
  case True
  let ?e = "emit (start (r_stream r)) (r_curStart r) (r_curStyle r)"
  have e: "covers (r_curStart r) ?e (start (r_stream r))"
    and s: "\<And>p. r_curStart r \<le> p \<Longrightarrow> p < start (r_stream r) \<Longrightarrow> style_at ?e p = r_curStyle r"
    using emit_correct [OF assms(2)] by blast+
  have "style_at (r_out r @ ?e) p = (if p < r_curStart r then style_at (r_out r) p else r_curStyle r)" if "p < start (r_stream r)" for p
    using style_at_append [OF assms(1)] s that by simp
  with True assms e show ?thesis
    by (auto simp: put_style_def Let_def style_now_def covers_append max_def)
next
  case False
  with assms show ?thesis by (auto simp: put_style_def Let_def style_now_def)
qed

lemma run_step_eq:
  "run_step opts m force text r0 =
     (case run_token opts m force text r0 of
        None \<Rightarrow> None
      | Some Throw \<Rightarrow> Some Throw
      | Some (Return (style, r)) \<Rightarrow>
          if r_inner r = Some None then Some Throw
          else Some (Return (put_style (case r_inner r of Some (Some name) \<Rightarrow> mode_class name style | _ \<Rightarrow> style) r)))"
  by (simp add: run_step_def put_style_def Let_def split: option.splits outcome.splits)

context advancing_mode begin

lemma readToken_returns:
  assumes "line_ok text st" "\<not> eol st"
  shows "\<exists>style st' s'. readToken m st s = Return (style, st', s') \<and> string_of st' = text \<and> start st' = start st
    \<and> start st < pos st' \<and> pos st' \<le> length text"
proof -
  from assms obtain style st' s' where "m_token m st s = Return (style, st', s')" "string_of st' = text" "start st' = start st"
    "start st < pos st'" "pos st' \<le> length text"
    using token_advances [of st s] by (auto simp: line_ok_def)
  then show ?thesis by (simp add: readToken_def numeral_eq_Suc)
qed

lemma processLine_returns:
  assumes "startAt \<le> length text"
  shows "\<exists>c'. processLine tab_size m text c startAt = Some (Return c')"
proof -
  have step: "\<exists>y. line_step m x = Some (Return y) \<and> line_ok text (fst y) \<and> length text - pos (fst y) < length text - pos (fst x)"
    if "line_ok text (fst x)" "(case x of (st, c) \<Rightarrow> \<not> eol st)" for x
  proof -
    obtain st c where x: "x = (st, c)" by fastforce
    with that obtain style st' s' where "readToken m st (ct_state c) = Return (style, st', s')" "string_of st' = text"
      "start st' = start st" "start st < pos st'" "pos st' \<le> length text"
      using readToken_returns [of "text" st "ct_state c"] by auto
    then show ?thesis using that x by (auto simp: line_step_def line_ok_def)
  qed
  let ?st = "(StringStream text tab_size (Some (ct_oracle c)))\<lparr>start := startAt, pos := startAt\<rparr>"
  let ?c = "if text = [] then c\<lparr>ct_state := snd (callBlankLine m (ct_state c))\<rparr> else c"
  have "line_ok text (fst (?st, ?c))" using assms by (simp add: line_ok_def StringStream_def)
  from loop_ends [where I = "\<lambda>x. line_ok text (fst x)" and m = "\<lambda>x. length text - pos (fst x)", OF step this]
  obtain y where "loop (\<lambda>(st, c). \<not> eol st) (line_step m) (?st, ?c) = Some (Return y)" by blast
  then show ?thesis by (cases y) (simp add: processLine_def Let_def)
qed

lemma run_token_returns:
  assumes "run_ok text r" "\<not> eol (r_stream r)"
  shows "\<exists>style st c inner classes flat.
     (\<forall>r'. r_stream r' = r_stream r \<longrightarrow> r_context r' = r_context r \<longrightarrow> r_inner r' = r_inner r \<longrightarrow> r_classes r' = r_classes r \<longrightarrow>
        run_token opts m force text r' =
          Some (Return (style, r'\<lparr>r_stream := st, r_context := c, r_inner := inner, r_classes := classes, r_flatten := flat (r_flatten r')\<rparr>)))
     \<and> string_of st = text \<and> start st = start (r_stream r) \<and> pos (r_stream r) < pos st \<and> pos st \<le> length text \<and> inner \<noteq> Some None"
proof (cases "pos (r_stream r) > opt_maxHighlightLength opts")
  case True
  let ?st = "r_stream r"
  have ok: "line_ok text ?st" using assms(1) by (simp add: run_ok_def)
  then have "pos ?st \<le> length text" by (simp add: line_ok_def)
  then obtain c where "processLine (opt_tabSize opts) m text (r_context r) (pos ?st) = Some (Return c)"
    using processLine_returns by blast
  then obtain c' where c': "(if force then processLine (opt_tabSize opts) m text (r_context r) (pos ?st) else Some (Return (r_context r))) = Some (Return c')"
    by (cases force) auto
  have inner: "r_inner r \<noteq> Some None" using assms(1) True by (auto simp: run_ok_def)
  show ?thesis
    using True c' ok assms(2) inner
    by (intro exI [of _ None] exI [of _ "?st\<lparr>pos := length text\<rparr>"] exI [of _ c'] exI [of _ "r_inner r"] exI [of _ "r_classes r"]
        exI [of _ "\<lambda>_. False"]) (auto simp: run_token_def Let_def line_ok_def eol_def)
next
  case False
  let ?st = "r_stream r"
  have ok: "line_ok text ?st" using assms(1) by (simp add: run_ok_def)
  then obtain tok st' s' where t: "readToken m ?st (ct_state (r_context r)) = Return (tok, st', s')" "string_of st' = text"
    "start st' = start ?st" "start ?st < pos st'" "pos st' \<le> length text"
    using readToken_returns [OF ok assms(2)] by blast
  obtain style classes where e: "extractLineClasses tok (r_classes r) = (style, classes)" by fastforce
  show ?thesis
    using False t e ok
    by (intro exI [of _ style] exI [of _ st'] exI [of _ "put_oracle st' s' (r_context r)"]
        exI [of _ "map_option (\<lambda>_. Some (m_name m)) (r_inner r)"] exI [of _ classes] exI [of _ "\<lambda>b. b"])
      (auto simp: run_token_def Let_def line_ok_def)
qed

lemma run_step_together:
  assumes "same_run text r r'" "\<not> eol (r_stream r)"
  shows "\<exists>q q'. run_step opts m force text r = Some (Return q) \<and> run_step opts m force text r' = Some (Return q')
    \<and> same_run text q q' \<and> length text - pos (r_stream q) < length text - pos (r_stream r)"
proof -
  have ok: "run_ok text r" "run_ok text r'" and same: "r_stream r' = r_stream r" "r_context r' = r_context r" "r_inner r' = r_inner r"
    "r_classes r' = r_classes r" "\<forall>p < pos (r_stream r). style_now r p = style_now r' p"
    using assms(1) by (auto simp: same_run_def)
  obtain style st c inner classes flat where
    t: "\<forall>r'. r_stream r' = r_stream r \<longrightarrow> r_context r' = r_context r \<longrightarrow> r_inner r' = r_inner r \<longrightarrow> r_classes r' = r_classes r \<longrightarrow>
        run_token opts m force text r' =
          Some (Return (style, r'\<lparr>r_stream := st, r_context := c, r_inner := inner, r_classes := classes, r_flatten := flat (r_flatten r')\<rparr>))"
    and s: "string_of st = text" "start st = start (r_stream r)" "pos (r_stream r) < pos st" "pos st \<le> length text" "inner \<noteq> Some None"
    using run_token_returns [OF ok(1) assms(2)] by blast
  define full where "full = (case inner of Some (Some name) \<Rightarrow> mode_class name style | _ \<Rightarrow> style)"
  define u where "u x = x\<lparr>r_stream := st, r_context := c, r_inner := inner, r_classes := classes, r_flatten := flat (r_flatten x)\<rparr>" for x :: "'s mode_run"
  have step: "run_step opts m force text r = Some (Return (put_style full (u r)))"
    "run_step opts m force text r' = Some (Return (put_style full (u r')))"
    using t same s(5) by (simp_all add: run_step_eq u_def full_def)
  have now: "style_now (u x) p = style_now x p" for x p
    by (simp add: style_now_def u_def)
  have put: "covers 0 (r_out (put_style full (u x))) (r_curStart (put_style full (u x)))
    \<and> r_curStart (put_style full (u x)) \<le> pos st
    \<and> (\<forall>p < pos st. style_now (put_style full (u x)) p = (if p < start st then style_now x p else full))"
    if "run_ok text x" "r_stream x = r_stream r" for x
    using put_style_correct [of "u x" full] that s(2,3) ok(1) now [of x]
    by (simp add: u_def run_ok_def line_ok_def)
  have st: "start st = pos (r_stream r)" using s(2) ok(1) by (simp add: run_ok_def line_ok_def)
  have "same_run text (put_style full (u r)) (put_style full (u r'))"
    using put [OF ok(1) refl] put [OF ok(2) same(1)] s same(5) st
    by (simp add: same_run_def run_ok_def line_ok_def u_def)
  then show ?thesis
    using step s(3,4) by (simp add: u_def)
qed

end

lemma run_token_flatten: "run_token (opts\<lparr>opt_flattenSpans := b\<rparr>) = run_token opts"
  by (intro ext) (simp add: run_token_def Let_def)

lemma run_step_flatten: "run_step (opts\<lparr>opt_flattenSpans := b\<rparr>) = run_step opts"
  by (intro ext) (simp add: run_step_eq run_token_flatten)

lemma run_start_same:
  "m_flattenSpans m = None \<or> f = f' \<Longrightarrow>
   same_run text (run_start (opts\<lparr>opt_flattenSpans := f\<rparr>) m text c classes) (run_start (opts\<lparr>opt_flattenSpans := f'\<rparr>) m text c classes)"
  by (auto simp: run_start_def Let_def same_run_def run_ok_def line_ok_def StringStream_def style_now_def)

lemma spans_styles:
  assumes "run_ok text r" "eol (r_stream r)"
  shows "covers 0 (r_out r @ emit (pos (r_stream r)) (r_curStart r) (r_curStyle r)) (length text)
    \<and> (\<forall>p < length text. style_at (r_out r @ emit (pos (r_stream r)) (r_curStart r) (r_curStyle r)) p = style_now r p)"
proof -
  have c: "covers 0 (r_out r) (r_curStart r)" "r_curStart r \<le> pos (r_stream r)" "pos (r_stream r) = length text"
    using assms by (auto simp: run_ok_def line_ok_def eol_def)
  then show ?thesis
    using emit_correct [OF c(2), of "r_curStyle r"] style_at_append [OF c(1)]
    by (auto simp: covers_append style_now_def)
qed

context advancing_mode begin

lemma runMode_together:
  assumes "m_flattenSpans m = None \<or> f = f'"
  shows "\<exists>spans spans' classes' c'.
      runMode (opts\<lparr>opt_flattenSpans := f\<rparr>) m text c classes force = Some (Return (spans, classes', c'))
    \<and> runMode (opts\<lparr>opt_flattenSpans := f'\<rparr>) m text c classes force = Some (Return (spans', classes', c'))
    \<and> covers 0 spans (length text) \<and> covers 0 spans' (length text)
    \<and> (\<forall>p < length text. style_at spans p = style_at spans' p)"
proof -
  let ?r = "run_start (opts\<lparr>opt_flattenSpans := f\<rparr>) m text c classes"
  let ?r' = "run_start (opts\<lparr>opt_flattenSpans := f'\<rparr>) m text c classes"
  let ?f = "run_step opts m force text" and ?c = "\<lambda>r :: 's mode_run. \<not> eol (r_stream r)"
  have "\<exists>x' y'. loop ?c ?f ?r = Some (Return x') \<and> loop ?c ?f ?r' = Some (Return y') \<and> same_run text x' y' \<and> \<not> ?c x'"
  proof (rule loop_together [where R = "same_run text" and m = "\<lambda>r. length text - pos (r_stream r)"])
    fix x y :: "'s mode_run"
    assume "same_run text x y" "\<not> eol (r_stream x)"
    then show "\<exists>x' y'. ?f x = Some (Return x') \<and> ?f y = Some (Return y') \<and> same_run text x' y'
        \<and> length text - pos (r_stream x') < length text - pos (r_stream x)"
      by (rule run_step_together)
  next
    fix x y :: "'s mode_run"
    assume "same_run text x y"
    then show "(\<not> eol (r_stream x)) = (\<not> eol (r_stream y))" by (simp add: same_run_def)
  qed (rule run_start_same [OF assms])
  then obtain x y where l: "loop ?c ?f ?r = Some (Return x)" "loop ?c ?f ?r' = Some (Return y)" "same_run text x y" "eol (r_stream x)"
    by blast
  from l(3) have ok: "run_ok text x" "run_ok text y" "r_stream x = r_stream y" "r_classes x = r_classes y" "r_context x = r_context y"
    and now: "\<forall>p < pos (r_stream x). style_now x p = style_now y p"
    unfolding same_run_def by blast+
  from ok(1) l(4) have "pos (r_stream x) = length text" unfolding run_ok_def line_ok_def eol_def by simp
  with now have "\<forall>p < length text. style_now x p = style_now y p" by simp
  with l(1,2,4) ok spans_styles [OF ok(1)] spans_styles [OF ok(2)] show ?thesis
    by (simp add: runMode_def run_step_flatten)
qed

lemma runMode_covers:
  "\<exists>spans classes' c'. runMode opts m text c classes force = Some (Return (spans, classes', c')) \<and> covers 0 spans (length text)"
proof -
  have e: "opts\<lparr>opt_flattenSpans := opt_flattenSpans opts\<rparr> = opts" by simp
  show ?thesis
    using runMode_together [of "opt_flattenSpans opts" "opt_flattenSpans opts" opts "text" c classes force] unfolding e by blast
qed

end

lemma run_overlays_cover:
  assumes "\<forall>ov \<in> set overlays. advancing_mode (ov_mode ov)" "covers 0 st (length text)"
  shows "\<exists>st' classes' orc'. run_overlays opts overlays text orc st classes = Some (Return (st', classes', orc'))
    \<and> covers 0 st' (length text)"
  using assms
proof (induction overlays arbitrary: orc st classes)
  case (Cons ov overlays)
  then have adv: "advancing_mode (ov_mode ov)" by simp
  obtain spans classes' c where r: "runMode opts (ov_mode ov) text \<lparr>ct_state = m_true (ov_mode ov), ct_oracle = orc\<rparr> classes False
      = Some (Return (spans, classes', c))" "covers 0 spans (length text)"
    using advancing_mode.runMode_covers [OF adv] by blast
  obtain st' i where s: "overlay_steps (ov_opaque ov) spans (st, 0, 0) = Some (st', i, length text)" "covers 0 st' (length text)"
    using overlay_steps_correct [of "[]" 0 st "length text" spans "length text" "ov_opaque ov"] Cons.prems(2) r(2) by (simp, blast)
  with r Cons.IH [of st'] Cons.prems(1) show ?case by simp
qed simp

interpretation sql: advancing_mode "sql_mode cfg" for cfg
proof unfold_locales
  fix st :: stream and s
  assume "\<not> eol st" "start st \<le> pos st"
  from sql_token_moves [OF this, of cfg s]
  show "\<exists>style st' s'. m_token (sql_mode cfg) st s = Return (style, st', s') \<and> string_of st' = string_of st \<and> start st' = start st
      \<and> start st < pos st' \<and> pos st' \<le> length (string_of st)"
    by (auto simp: sql_mode_def)
qed

interpretation null: advancing_mode null_mode
  by unfold_locales (auto simp: null_mode_def skipToEnd_def eol_def)

text \<open>C27. Highlighting a line with the SQL mode, in any dialect, state and settings, and with overlays that advance,
  always ends without an error and gives spans that cover the line from its first to its last
  character without empty ones.\<close>

theorem sql_lines_highlighted:
  assumes "\<forall>ov \<in> set overlays. advancing_mode (ov_mode ov)"
  shows "\<exists>st classes c'. highlightLine opts (sql_mode cfg) overlays text c force = Some (Return (st, classes, c'))
    \<and> covers 0 st (length text)"
proof -
  obtain spans classes c' where r: "runMode opts (sql_mode cfg) text c \<lparr>bgClass = None, textClass = None\<rparr> force
      = Some (Return (spans, classes, c'))" "covers 0 spans (length text)"
    using sql.runMode_covers by blast
  from run_overlays_cover [OF assms r(2), of opts "ct_oracle c'" classes] r(1) show ?thesis
    by (auto simp: highlightLine_def)
qed

definition example_options :: hl_options where
  "example_options = \<lparr>opt_tabSize = 4, opt_flattenSpans = True, opt_addModeClass = True, opt_maxHighlightLength = 10000\<rparr>"

theorem sql_lines_highlighted_witness:
  "\<exists>st classes c'. highlightLine example_options (sql_mode (sql_config_of \<lparr>spec_client = None, spec_atoms = None, spec_builtin = None,
      spec_keywords = None, spec_operatorChars = None, spec_support = None, spec_hooks = None, spec_dateSQL = None\<rparr>))
      [\<lparr>ov_opaque = True, ov_mode = null_mode\<rparr>] (ascii ''select (1)'')
      (new_context (\<lambda>_. None) sql_startState 0 0) False = Some (Return (st, classes, c')) \<and> covers 0 st 10"
proof -
  have "\<forall>ov \<in> set [\<lparr>ov_opaque = True, ov_mode = null_mode\<rparr>]. advancing_mode (ov_mode ov)"
    using null.advancing_mode_axioms by simp
  moreover have "length (ascii ''select (1)'') = 10" by (simp add: ascii_def)
  ultimately show ?thesis
    using sql_lines_highlighted [of "[\<lparr>ov_opaque = True, ov_mode = null_mode\<rparr>]" example_options _ "ascii ''select (1)''"] by metis
qed

text \<open>Merging neighbouring tokens of the same style does not change the style of any character, nor the classes of
  the line nor the state after it, whatever else is set.\<close>

theorem flattening_keeps_styles:
  "\<exists>spans spans' classes' c'.
      runMode (opts\<lparr>opt_flattenSpans := True\<rparr>) (sql_mode cfg) text c classes force = Some (Return (spans, classes', c'))
    \<and> runMode (opts\<lparr>opt_flattenSpans := False\<rparr>) (sql_mode cfg) text c classes force = Some (Return (spans', classes', c'))
    \<and> covers 0 spans (length text) \<and> covers 0 spans' (length text)
    \<and> (\<forall>p < length text. style_at spans p = style_at spans' p)"
  by (rule sql.runMode_together) (simp add: sql_mode_def)

theorem flattening_keeps_styles_witness:
  "\<exists>spans spans' classes' c'.
      runMode (example_options\<lparr>opt_flattenSpans := True\<rparr>) (sql_mode (sql_config_of \<lparr>spec_client = None, spec_atoms = None,
        spec_builtin = None, spec_keywords = None, spec_operatorChars = None, spec_support = None, spec_hooks = None, spec_dateSQL = None\<rparr>))
        (ascii ''(a'') (new_context (\<lambda>_. None) sql_startState 0 0) \<lparr>bgClass = None, textClass = None\<rparr> False
        = Some (Return (spans, classes', c'))
    \<and> runMode (example_options\<lparr>opt_flattenSpans := False\<rparr>) (sql_mode (sql_config_of \<lparr>spec_client = None, spec_atoms = None,
        spec_builtin = None, spec_keywords = None, spec_operatorChars = None, spec_support = None, spec_hooks = None, spec_dateSQL = None\<rparr>))
        (ascii ''(a'') (new_context (\<lambda>_. None) sql_startState 0 0) \<lparr>bgClass = None, textClass = None\<rparr> False
        = Some (Return (spans', classes', c'))
    \<and> style_at spans 1 = style_at spans' 1"
proof -
  have "1 < length (ascii ''(a'')" by (simp add: ascii_def)
  then show ?thesis
    using flattening_keeps_styles [of example_options "sql_config_of \<lparr>spec_client = None, spec_atoms = None,
      spec_builtin = None, spec_keywords = None, spec_operatorChars = None, spec_support = None, spec_hooks = None, spec_dateSQL = None\<rparr>"
      "ascii ''(a''" "new_context (\<lambda>_. None) sql_startState 0 0" "\<lparr>bgClass = None, textClass = None\<rparr>" False]
    by blast
qed

end
