(* ===== verification/Cm_State_Cache.thy ===== *)
theory Cm_State_Cache
  imports Cm_Highlight
begin

text \<open>
  The states of the mode that the editor keeps with the lines (\<open>codemirror.js\<close>): where to start from
  to get the state before a line, filling the states in on the way, and giving up what a change
  made stale. A document is the number of its first line and its lines; a line has a text, the
  state after it and its styles. The part of the document that is displayed is an argument.
\<close>

section \<open>The document\<close>

record 's hl_line =
  hl_text :: js_text
  hl_stateAfter :: "'s saved option"
  hl_styles :: "(nat \<times> spans) option"
  hl_styleClasses :: "line_classes option"

record 's hl_doc =
  hd_first :: int
  hd_lines :: "'s hl_line list"
  hd_modeFrontier :: int
  hd_highlightFrontier :: int

record viewport =
  viewFrom :: int
  viewTo :: int

definition hl_index :: "'s hl_doc \<Rightarrow> int \<Rightarrow> nat option" where
  "hl_index doc n = (if hd_first doc \<le> n \<and> n < hd_first doc + int (length (hd_lines doc)) then Some (nat (n - hd_first doc)) else None)"

definition hl_getLine :: "'s hl_doc \<Rightarrow> int \<Rightarrow> 's hl_line option" where
  "hl_getLine doc n = map_option (\<lambda>i. hd_lines doc ! i) (hl_index doc n)"

definition doc_texts :: "'s hl_doc \<Rightarrow> int \<Rightarrow> js_text option" where
  "doc_texts doc n = map_option hl_text (hl_getLine doc n)"

definition put_hl_line :: "'s hl_doc \<Rightarrow> int \<Rightarrow> ('s hl_line \<Rightarrow> 's hl_line) \<Rightarrow> 's hl_doc" where
  "put_hl_line doc n f =
     (case hl_index doc n of
        Some i \<Rightarrow> doc\<lparr>hd_lines := (hd_lines doc)[i := f (hd_lines doc ! i)]\<rparr>
      | None \<Rightarrow> doc)"

section \<open>Where to start\<close>

fun look_ahead_of :: "'s saved \<Rightarrow> nat" where
  "look_ahead_of (SavedContext s n) = n"
| "look_ahead_of (Plain s) = 0"

text \<open>
  The line to start from, going up from line \<open>search\<close>. The line of least indentation so far is
  carried along. A line that is not there throws.
\<close>

function find_start :: "nat \<Rightarrow> bool \<Rightarrow> 's hl_doc \<Rightarrow> int \<Rightarrow> int \<Rightarrow> (int \<times> int) option \<Rightarrow> int option outcome" where
  "find_start tab_size precise doc lim search best =
     (if search > lim
      then if search \<le> hd_first doc then Return (Some (hd_first doc))
        else (case hl_getLine doc (search - 1) of
                None \<Rightarrow> Throw
              | Some line \<Rightarrow>
                  (let usable = (case hl_stateAfter line of
                                   None \<Rightarrow> False
                                 | Some after \<Rightarrow> \<not> precise \<or> search + int (look_ahead_of after) \<le> hd_modeFrontier doc);
                       indented = countColumn (hl_text line) None tab_size 0 0
                   in if usable then Return (Some search)
                      else find_start tab_size precise doc lim (search - 1)
                             (case best of
                                None \<Rightarrow> Some (search - 1, indented)
                              | Some (minline, minindent) \<Rightarrow>
                                  if minindent > indented then Some (search - 1, indented) else best)))
      else Return (map_option fst best))"
  by pat_completeness auto
termination by (relation "measure (\<lambda>(t, p, d, lim, search, b). nat (search - lim))") auto

declare find_start.simps [simp del]

definition findStartLine :: "nat \<Rightarrow> 's hl_doc \<Rightarrow> int \<Rightarrow> bool \<Rightarrow> int option outcome" where
  "findStartLine tab_size doc n precise = find_start tab_size precise doc (if precise then -1 else n - 100) n None"

section \<open>The state before a line\<close>

definition keeps_state :: "viewport \<Rightarrow> int \<Rightarrow> int \<Rightarrow> bool" where
  "keeps_state view n p \<longleftrightarrow> p = n - 1 \<or> p mod 5 = 0 \<or> (p \<ge> viewFrom view \<and> p < viewTo view)"

text \<open>Runs the mode over the lines from the context's line up to line \<open>n\<close>.\<close>

function context_loop ::
  "hl_options \<Rightarrow> viewport \<Rightarrow> 's mode \<Rightarrow> int \<Rightarrow> 's mode_context \<Rightarrow> 's hl_doc \<Rightarrow> ('s mode_context \<times> 's hl_doc) outcome option" where
  "context_loop opts view m n c doc =
     (let p = or_line (ct_oracle c)
      in if p < n
         then (case hl_getLine doc p of
                 None \<Rightarrow> Some (Return (c, doc))
               | Some line \<Rightarrow>
                   (case processLine (opt_tabSize opts) m (hl_text line) c 0 of
                      None \<Rightarrow> None
                    | Some Throw \<Rightarrow> Some Throw
                    | Some (Return c') \<Rightarrow>
                        let c'' = c'\<lparr>ct_oracle := (ct_oracle c')\<lparr>or_line := p\<rparr>\<rparr>
                        in context_loop opts view m n (nextLine c'')
                             (put_hl_line doc p (\<lambda>l. l\<lparr>hl_stateAfter := if keeps_state view n p then Some (save c') else None\<rparr>))))
         else Some (Return (c, doc)))"
  by pat_completeness auto
termination
  by (relation "measure (\<lambda>(opts, view, m, n, c, doc). nat (n - or_line (ct_oracle c)))") (auto simp: nextLine_def)

declare context_loop.simps [simp del]

definition getContextBefore ::
  "hl_options \<Rightarrow> viewport \<Rightarrow> 's mode \<Rightarrow> 's hl_doc \<Rightarrow> int \<Rightarrow> bool \<Rightarrow> ('s mode_context \<times> 's hl_doc) outcome option" where
  "getContextBefore opts view m doc n precise =
     (if m_startState m = None then Some (Return (new_context (doc_texts doc) (m_true m) n 0, doc))
      else case findStartLine (opt_tabSize opts) doc n precise of
        Throw \<Rightarrow> Some Throw
      | Return None \<Rightarrow> None
      | Return (Some s) \<Rightarrow>
          let saved = (if s > hd_first doc then Option.bind (hl_getLine doc (s - 1)) hl_stateAfter else None);
              c0 = (case saved of Some v \<Rightarrow> fromSaved (doc_texts doc) v s | None \<Rightarrow> new_context (doc_texts doc) (startState m) s 0)
          in case context_loop opts view m n c0 doc of
               None \<Rightarrow> None
             | Some Throw \<Rightarrow> Some Throw
             | Some (Return (c, doc')) \<Rightarrow>
                 Some (Return (c, if precise then doc'\<lparr>hd_modeFrontier := or_line (ct_oracle c)\<rparr> else doc')))"

section \<open>Giving up states\<close>

text \<open>The line after the last one whose state did not see line \<open>n\<close>.\<close>

function retreat_scan :: "'s hl_doc \<Rightarrow> int \<Rightarrow> int \<Rightarrow> int outcome" where
  "retreat_scan doc n line =
     (if line > hd_first doc
      then (case hl_getLine doc line of
              None \<Rightarrow> Throw
            | Some l \<Rightarrow>
                (case hl_stateAfter l of
                   None \<Rightarrow> retreat_scan doc n (line - 1)
                 | Some (Plain _) \<Rightarrow> Return (line + 1)
                 | Some (SavedContext _ lookAhead) \<Rightarrow>
                     if line + int lookAhead < n then Return (line + 1) else retreat_scan doc n (line - 1)))
      else Return (hd_first doc))"
  by pat_completeness auto
termination by (relation "measure (\<lambda>(doc, n, line). nat (line - hd_first doc))") auto

declare retreat_scan.simps [simp del]

definition retreatFrontier :: "'s hl_doc \<Rightarrow> int \<Rightarrow> 's hl_doc outcome" where
  "retreatFrontier doc n =
     (let doc = doc\<lparr>hd_modeFrontier := min (hd_modeFrontier doc) n\<rparr>
      in if hd_highlightFrontier doc < n - 10 then Return doc
         else case retreat_scan doc n (n - 1) of
           Throw \<Rightarrow> Throw
         | Return s \<Rightarrow> Return (doc\<lparr>hd_highlightFrontier := min (hd_highlightFrontier doc) s\<rparr>))"

section \<open>The styles of a line\<close>

text \<open>What is stored with a line that is highlighted anew.\<close>

definition store_styles ::
  "hl_options \<Rightarrow> nat \<Rightarrow> 's hl_line \<Rightarrow> 's \<Rightarrow> 's mode_context \<Rightarrow> spans \<Rightarrow> line_classes option \<Rightarrow> 's hl_line" where
  "store_styles opts modeGen line before c styles classes =
     (let c = (if length (hl_text line) > opt_maxHighlightLength opts then c\<lparr>ct_state := before\<rparr> else c)
      in line\<lparr>hl_stateAfter := Some (save c), hl_styles := Some (modeGen, styles), hl_styleClasses := classes\<rparr>)"

definition getLineStyles ::
  "hl_options \<Rightarrow> viewport \<Rightarrow> nat \<Rightarrow> 's mode \<Rightarrow> 'o overlay list \<Rightarrow> 's hl_doc \<Rightarrow> int \<Rightarrow> int option
     \<Rightarrow> (spans \<times> 's hl_doc) outcome option" where
  "getLineStyles opts view modeGen m overlays doc n updateFrontier =
     (case hl_getLine doc n of
        None \<Rightarrow> Some Throw
      | Some line \<Rightarrow>
          if map_option fst (hl_styles line) = Some modeGen then Some (Return (snd (the (hl_styles line)), doc))
          else case getContextBefore opts view m doc n False of
            None \<Rightarrow> None
          | Some Throw \<Rightarrow> Some Throw
          | Some (Return (c, doc1)) \<Rightarrow>
              (case highlightLine opts m overlays (hl_text line) c False of
                 None \<Rightarrow> None
               | Some Throw \<Rightarrow> Some Throw
               | Some (Return (styles, classes, c')) \<Rightarrow>
                   let doc2 = put_hl_line doc1 n (\<lambda>l. store_styles opts modeGen l (ct_state c) c' styles classes);
                       frontier = hd_highlightFrontier doc2 + 1
                   in Some (Return (styles,
                        if updateFrontier = Some (hd_highlightFrontier doc2)
                        then doc2\<lparr>hd_highlightFrontier := frontier, hd_modeFrontier := max (hd_modeFrontier doc2) frontier\<rparr>
                        else doc2))))"

section \<open>Exact states\<close>

text \<open>
  The specification: the state before a line is what the mode makes of all lines before it. A mode
  that never looks ahead gets a context without look ahead.
\<close>

definition line_texts :: "int \<Rightarrow> js_text list \<Rightarrow> int \<Rightarrow> js_text option" where
  "line_texts first texts n = (if first \<le> n \<and> n < first + int (length texts) then Some (texts ! nat (n - first)) else None)"

fun state_before :: "nat \<Rightarrow> 's mode \<Rightarrow> int \<Rightarrow> js_text list \<Rightarrow> nat \<Rightarrow> 's option" where
  "state_before tab_size m first texts 0 = Some (startState m)"
| "state_before tab_size m first texts (Suc k) =
     (case state_before tab_size m first texts k of
        None \<Rightarrow> None
      | Some s \<Rightarrow>
          (case processLine tab_size m (texts ! k) (new_context (line_texts first texts) s (first + int k) 0) 0 of
             Some (Return c) \<Rightarrow> Some (ct_state c)
           | _ \<Rightarrow> None))"

abbreviation texts_of :: "'s hl_doc \<Rightarrow> js_text list" where "texts_of doc \<equiv> map hl_text (hd_lines doc)"

definition exact_below :: "nat \<Rightarrow> 's mode \<Rightarrow> 's hl_doc \<Rightarrow> int \<Rightarrow> bool" where
  "exact_below tab_size m doc n \<longleftrightarrow>
     (\<forall>k < length (hd_lines doc). hd_first doc + int k < n \<longrightarrow>
        (case hl_stateAfter (hd_lines doc ! k) of
           None \<Rightarrow> True
         | Some v \<Rightarrow> \<exists>s. v = Plain s \<and> state_before tab_size m (hd_first doc) (texts_of doc) (Suc k) = Some s))"

lemma doc_texts_eq: "doc_texts doc = line_texts (hd_first doc) (texts_of doc)"
  by (rule ext) (auto simp: doc_texts_def hl_getLine_def hl_index_def line_texts_def)

text \<open>A mode that does not look ahead.\<close>

locale plain_mode = advancing_mode m for m :: "'s mode" +
  assumes token_oracle: "\<not> eol st \<Longrightarrow> start st \<le> pos st \<Longrightarrow> m_token m st s = Return (style, st', s') \<Longrightarrow> lineOracle st' = lineOracle st"
begin

lemma processLine_plain: "\<exists>s'. processLine tab_size m text c 0 = Some (Return (c\<lparr>ct_state := s'\<rparr>))"
proof -
  let ?ok = "\<lambda>(st, c'). line_ok text st \<and> lineOracle st = Some (ct_oracle c) \<and> ct_oracle c' = ct_oracle c"
  have step: "\<exists>y. line_step m x = Some (Return y) \<and> ?ok y \<and> length text - pos (fst y) < length text - pos (fst x)"
    if ok: "?ok x" and e: "(case x of (st, c) \<Rightarrow> \<not> eol st)" for x
  proof -
    obtain st c' where x: "x = (st, c')" by fastforce
    have st: "\<not> eol st" "start st \<le> pos st" "line_ok text st" using ok e x by (auto simp: line_ok_def)
    obtain style st' s' where t: "m_token m st (ct_state c') = Return (style, st', s')" "string_of st' = string_of st"
      "start st' = start st" "start st < pos st'" "pos st' \<le> length (string_of st)"
      using token_advances [OF st(1,2)] by blast
    from t have "readToken m st (ct_state c') = Return (style, st', s')"
      by (simp add: readToken_def numeral_eq_Suc)
    with t token_oracle [OF st(1,2) t(1)] ok x show ?thesis
      by (auto simp: line_step_def line_ok_def put_oracle_def)
  qed
  let ?st = "(StringStream text tab_size (Some (ct_oracle c)))\<lparr>start := 0, pos := 0\<rparr>"
  let ?c = "if text = [] then c\<lparr>ct_state := snd (callBlankLine m (ct_state c))\<rparr> else c"
  have "?ok (?st, ?c)" by (simp add: line_ok_def StringStream_def)
  from loop_ends [where I = ?ok and c = "\<lambda>(st, c). \<not> eol st" and m = "\<lambda>x. length text - pos (fst x)", OF step this]
  obtain st' c' where l: "loop (\<lambda>(st, c). \<not> eol st) (line_step m) (?st, ?c) = Some (Return (st', c'))" "ct_oracle c' = ct_oracle c"
    by auto
  from l(2) have "c' = c\<lparr>ct_state := ct_state c'\<rparr>" by (cases c; cases c') simp
  with l(1) show ?thesis by (auto simp: processLine_def Let_def)
qed

lemma state_before_total: "\<exists>s. state_before tab_size m first texts k = Some s"
proof (induction k)
  case (Suc k)
  then obtain s where "state_before tab_size m first texts k = Some s" by blast
  moreover obtain s' where "processLine tab_size m (texts ! k) (new_context (line_texts first texts) s (first + int k) 0) 0
      = Some (Return ((new_context (line_texts first texts) s (first + int k) 0)\<lparr>ct_state := s'\<rparr>))"
    using processLine_plain by blast
  ultimately show ?case by simp
qed simp


lemma hl_getLine_at: "k < length (hd_lines doc) \<Longrightarrow> hl_getLine doc (hd_first doc + int k) = Some (hd_lines doc ! k)"
  by (simp add: hl_getLine_def hl_index_def)

lemma new_context_line:
  "or_line (ct_oracle (new_context T s p l)) = p"
  "(new_context T s p l)\<lparr>ct_oracle := (ct_oracle (new_context T s p l))\<lparr>or_line := p\<rparr>\<rparr> = new_context T s p l"
  by (simp_all add: new_context_def)

lemma context_loop_exact:
  assumes "n = hd_first doc + int k" "p = hd_first doc + int i" "i \<le> k" "k \<le> length (hd_lines doc)"
    "state_before (opt_tabSize opts) m (hd_first doc) (texts_of doc) i = Some s"
    "exact_below (opt_tabSize opts) m doc p"
  shows "\<exists>s' doc'. context_loop opts view m n (new_context (doc_texts doc) s p 0) doc
        = Some (Return (new_context (doc_texts doc) s' n 0, doc'))
     \<and> state_before (opt_tabSize opts) m (hd_first doc) (texts_of doc) k = Some s'
     \<and> hd_first doc' = hd_first doc \<and> texts_of doc' = texts_of doc \<and> exact_below (opt_tabSize opts) m doc' n"
  using assms
proof (induction "k - i" arbitrary: i p s doc)
  case 0
  then show ?case by (subst context_loop.simps) (simp add: new_context_def)
next
  case (Suc d)
  let ?t = "opt_tabSize opts" and ?l = "hd_lines doc ! i" and ?T = "doc_texts doc"
  have i: "i < k" "i < length (hd_lines doc)" "p < n" using Suc.hyps(2) Suc.prems by auto
  obtain s1 where s1: "processLine ?t m (hl_text ?l) (new_context ?T s p 0) 0 = Some (Return ((new_context ?T s p 0)\<lparr>ct_state := s1\<rparr>))"
    using processLine_plain by blast
  then have c1: "processLine ?t m (hl_text ?l) (new_context ?T s p 0) 0 = Some (Return (new_context ?T s1 p 0))"
    by (simp add: new_context_def)
  have state1: "state_before ?t m (hd_first doc) (texts_of doc) (Suc i) = Some s1"
    using Suc.prems(2,5) i c1 by (simp add: doc_texts_eq new_context_def)
  define after where "after = (if keeps_state view n p then Some (save (new_context ?T s1 p 0)) else None)"
  define doc1 where "doc1 = doc\<lparr>hd_lines := (hd_lines doc)[i := ?l\<lparr>hl_stateAfter := after\<rparr>]\<rparr>"
  have same: "hd_first doc1 = hd_first doc" "texts_of doc1 = texts_of doc" "length (hd_lines doc1) = length (hd_lines doc)"
    using i(2) by (simp_all add: doc1_def map_update) (metis list_update_id map_update nth_map)
  then have T: "doc_texts doc1 = ?T" by (simp add: doc_texts_eq)
  have put: "put_hl_line doc p (\<lambda>l. l\<lparr>hl_stateAfter := after\<rparr>) = doc1"
    using Suc.prems(2) i(2) by (simp add: put_hl_line_def hl_index_def doc1_def)
  have exact1: "exact_below ?t m doc1 (hd_first doc + int (Suc i))"
    unfolding exact_below_def same
  proof (intro allI impI)
    fix j assume j: "j < length (hd_lines doc)" "hd_first doc + int j < hd_first doc + int (Suc i)"
    show "case hl_stateAfter (hd_lines doc1 ! j) of None \<Rightarrow> True
      | Some v \<Rightarrow> \<exists>s. v = Plain s \<and> state_before ?t m (hd_first doc) (texts_of doc) (Suc j) = Some s"
    proof (cases "j = i")
      case True
      then show ?thesis
        using i(2) state1 by (simp add: doc1_def after_def save_def new_context_def del: state_before.simps)
    next
      case False
      with j Suc.prems(2,6) show ?thesis by (auto simp: exact_below_def doc1_def simp del: state_before.simps)
    qed
  qed
  obtain s' doc' where r: "context_loop opts view m n (new_context (doc_texts doc1) s1 (hd_first doc + int (Suc i)) 0) doc1
        = Some (Return (new_context (doc_texts doc1) s' n 0, doc'))"
     "state_before ?t m (hd_first doc1) (texts_of doc1) k = Some s'"
     "hd_first doc' = hd_first doc1" "texts_of doc' = texts_of doc1" "exact_below ?t m doc' n"
  proof -
    have prems: "d = k - Suc i" "n = hd_first doc1 + int k" "hd_first doc + int (Suc i) = hd_first doc1 + int (Suc i)" "Suc i \<le> k"
      "k \<le> length (hd_lines doc1)" "state_before ?t m (hd_first doc1) (texts_of doc1) (Suc i) = Some s1"
      "exact_below ?t m doc1 (hd_first doc + int (Suc i))"
      using Suc.hyps(2) Suc.prems(1,4) i(1) same state1 exact1 by (simp_all del: state_before.simps)
    from Suc.hyps(1) [OF prems] show ?thesis using that by blast
  qed
  have next1: "nextLine (new_context ?T s1 p 0) = new_context ?T s1 (hd_first doc + int (Suc i)) 0"
    using Suc.prems(2) by (simp add: nextLine_def new_context_def)
  have "context_loop opts view m n (new_context ?T s p 0) doc
      = context_loop opts view m n (new_context ?T s1 (hd_first doc + int (Suc i)) 0) doc1"
    using i(3) c1 next1 put [unfolded after_def] hl_getLine_at [OF i(2), folded Suc.prems(2)]
    by (subst context_loop.simps) (simp add: new_context_line Let_def split del: if_split)
  with r same T show ?case by auto
qed

lemma find_start_precise:
  assumes "0 \<le> hd_first doc" "hd_first doc \<le> search" "search \<le> hd_first doc + int (length (hd_lines doc))"
  shows "\<exists>s. find_start tab_size True doc (- 1) search best = Return (Some s) \<and> hd_first doc \<le> s \<and> s \<le> search
    \<and> (s = hd_first doc \<or> (\<exists>line v. hl_getLine doc (s - 1) = Some line \<and> hl_stateAfter line = Some v \<and> s + int (look_ahead_of v) \<le> hd_modeFrontier doc))"
  using assms(2,3)
proof (induction "nat (search - hd_first doc)" arbitrary: search best)
  case 0
  then have "search = hd_first doc" by simp
  with assms(1) show ?case by (subst find_start.simps) simp
next
  case (Suc d)
  then have s: "search > hd_first doc" "search > -1" using assms(1) by auto
  then obtain line where line: "hl_getLine doc (search - 1) = Some line"
    using Suc.prems by (auto simp: hl_getLine_def hl_index_def)
  show ?case
  proof (cases "\<exists>v. hl_stateAfter line = Some v \<and> search + int (look_ahead_of v) \<le> hd_modeFrontier doc")
    case True
    with s line show ?thesis by (subst find_start.simps) auto
  next
    case False
    let ?best = "case best of None \<Rightarrow> Some (search - 1, countColumn (hl_text line) None tab_size 0 0)
      | Some (minline, minindent) \<Rightarrow> if minindent > countColumn (hl_text line) None tab_size 0 0
          then Some (search - 1, countColumn (hl_text line) None tab_size 0 0) else best"
    have "find_start tab_size True doc (- 1) search best = find_start tab_size True doc (- 1) (search - 1) ?best"
      using s line False by (subst find_start.simps) (auto simp: Let_def split: option.splits)
    moreover have "d = nat (search - 1 - hd_first doc)" "hd_first doc \<le> search - 1" "search - 1 \<le> hd_first doc + int (length (hd_lines doc))"
      using Suc.hyps(2) Suc.prems s by auto
    ultimately show ?thesis using Suc.hyps(1) [of "search - 1" ?best] by auto
  qed
qed

lemma precise_exact:
  assumes "m_startState m \<noteq> None" "0 \<le> hd_first doc" "k \<le> length (hd_lines doc)" "n = hd_first doc + int k"
    "exact_below (opt_tabSize opts) m doc (hd_modeFrontier doc)"
  shows "\<exists>s doc'. getContextBefore opts view m doc n True = Some (Return (new_context (doc_texts doc) s n 0, doc'))
    \<and> state_before (opt_tabSize opts) m (hd_first doc) (texts_of doc) k = Some s
    \<and> texts_of doc' = texts_of doc \<and> hd_modeFrontier doc' = n \<and> exact_below (opt_tabSize opts) m doc' (hd_modeFrontier doc')"
proof -
  let ?t = "opt_tabSize opts"
  obtain p where p: "find_start ?t True doc (- 1) n None = Return (Some p)" "hd_first doc \<le> p" "p \<le> n"
    and frm: "p = hd_first doc \<or> (\<exists>line v. hl_getLine doc (p - 1) = Some line \<and> hl_stateAfter line = Some v \<and> p + int (look_ahead_of v) \<le> hd_modeFrontier doc)"
    using find_start_precise [of doc n ?t None] assms(2-4) by auto
  obtain i where i: "p = hd_first doc + int i" "i \<le> k"
    using p assms(4) by (metis add_le_cancel_left zle_iff_zadd of_nat_le_iff)
  let ?saved = "if p > hd_first doc then Option.bind (hl_getLine doc (p - 1)) hl_stateAfter else None"
  have start: "\<exists>s. (case ?saved of Some v \<Rightarrow> fromSaved (doc_texts doc) v p | None \<Rightarrow> new_context (doc_texts doc) (startState m) p 0)
        = new_context (doc_texts doc) s p 0 \<and> state_before ?t m (hd_first doc) (texts_of doc) i = Some s"
     and below: "exact_below ?t m doc p"
  proof -
    show "\<exists>s. (case ?saved of Some v \<Rightarrow> fromSaved (doc_texts doc) v p | None \<Rightarrow> new_context (doc_texts doc) (startState m) p 0)
        = new_context (doc_texts doc) s p 0 \<and> state_before ?t m (hd_first doc) (texts_of doc) i = Some s"
    proof (cases "p = hd_first doc")
      case True
      with i(1) show ?thesis by simp
    next
      case False
      with frm obtain line v where v: "hl_getLine doc (p - 1) = Some line" "hl_stateAfter line = Some v" "p \<le> hd_modeFrontier doc"
        by fastforce
      obtain j where j: "i = Suc j" using False i(1) by (cases i) auto
      have "j < length (hd_lines doc)" using j i(2) assms(3) by simp
      then have line: "line = hd_lines doc ! j" using v(1) i(1) j hl_getLine_at [of j doc] by simp
      have "hd_first doc + int j < hd_modeFrontier doc" using v(3) i(1) j by simp
      then obtain s where "v = Plain s" "state_before ?t m (hd_first doc) (texts_of doc) i = Some s"
        using assms(5) v(2) line \<open>j < length (hd_lines doc)\<close> j unfolding exact_below_def
        by (force simp del: state_before.simps)
      with v(1,2) False p(2) show ?thesis by simp
    qed
    show "exact_below ?t m doc p"
    proof (cases "p = hd_first doc")
      case True
      then show ?thesis by (simp add: exact_below_def)
    next
      case False
      with frm have "p \<le> hd_modeFrontier doc" by fastforce
      with assms(5) show ?thesis unfolding exact_below_def by (meson less_le_trans)
    qed
  qed
  then obtain s where s: "(case ?saved of Some v \<Rightarrow> fromSaved (doc_texts doc) v p | None \<Rightarrow> new_context (doc_texts doc) (startState m) p 0)
        = new_context (doc_texts doc) s p 0" "state_before ?t m (hd_first doc) (texts_of doc) i = Some s" by blast
  obtain s' doc' where r: "context_loop opts view m n (new_context (doc_texts doc) s p 0) doc
        = Some (Return (new_context (doc_texts doc) s' n 0, doc'))"
     "state_before ?t m (hd_first doc) (texts_of doc) k = Some s'"
     "hd_first doc' = hd_first doc" "texts_of doc' = texts_of doc" "exact_below ?t m doc' n"
    using context_loop_exact [OF assms(4) i assms(3) s(2) below] by blast
  obtain y where obtain_start: "m_startState m = Some y" using assms(1) by blast
  have line: "or_line (ct_oracle (new_context (doc_texts doc) s' n 0)) = n" by (simp add: new_context_def)
  have "exact_below ?t m (doc'\<lparr>hd_modeFrontier := n\<rparr>) n" using r(5) by (simp add: exact_below_def cong: option.case_cong)
  with r p(1) s(1) line obtain_start show ?thesis
    by (simp add: getContextBefore_def findStartLine_def Let_def)
qed

end

interpretation plain_sql: plain_mode "sql_mode cfg" for cfg
proof unfold_locales
  fix st st' :: stream and s s' style
  assume "\<not> eol st" "start st \<le> pos st" "m_token (sql_mode cfg) st s = Return (style, st', s')"
  with sql_token_moves [of st cfg s] show "lineOracle st' = lineOracle st" by (auto simp: sql_mode_def)
qed

text \<open>C28. Asked for the exact state before a line, the editor gives what the SQL mode makes of all lines before it,
  wherever it starts, as long as the states kept with the lines up to the frontier are exact; the
  frontier then is that line, and the states kept up to it are exact again.\<close>

theorem precise_state_exact:
  assumes "0 \<le> hd_first doc" "k \<le> length (hd_lines doc)"
    "exact_below (opt_tabSize opts) (sql_mode cfg) doc (hd_modeFrontier doc)"
  shows "\<exists>s doc'. getContextBefore opts view (sql_mode cfg) doc (hd_first doc + int k) True
        = Some (Return (new_context (doc_texts doc) s (hd_first doc + int k) 0, doc'))
    \<and> state_before (opt_tabSize opts) (sql_mode cfg) (hd_first doc) (texts_of doc) k = Some s
    \<and> texts_of doc' = texts_of doc \<and> hd_modeFrontier doc' = hd_first doc + int k
    \<and> exact_below (opt_tabSize opts) (sql_mode cfg) doc' (hd_modeFrontier doc')"
  by (rule plain_sql.precise_exact [OF _ assms(1,2) refl assms(3)]) (simp add: sql_mode_def)

definition example_hl_line :: "js_text \<Rightarrow> sql_state hl_line" where
  "example_hl_line t = \<lparr>hl_text = t, hl_stateAfter = None, hl_styles = None, hl_styleClasses = None\<rparr>"

definition example_hl_doc :: "sql_state hl_doc" where
  "example_hl_doc = \<lparr>hd_first = 0, hd_lines = [example_hl_line (ascii ''select /*''), example_hl_line (ascii ''x */'')],
     hd_modeFrontier = 0, hd_highlightFrontier = 0\<rparr>"

theorem precise_state_exact_witness:
  "\<exists>s doc'. getContextBefore example_options \<lparr>viewFrom = 0, viewTo = 1\<rparr> (sql_mode (sql_config_of \<lparr>spec_client = None, spec_atoms = None,
      spec_builtin = None, spec_keywords = None, spec_operatorChars = None, spec_support = None, spec_hooks = None, spec_dateSQL = None\<rparr>))
      example_hl_doc 1 True = Some (Return (new_context (doc_texts example_hl_doc) s 1 0, doc')) \<and> hd_modeFrontier doc' = 1"
proof -
  have "0 \<le> hd_first example_hl_doc" "1 \<le> length (hd_lines example_hl_doc)" "hd_first example_hl_doc + int 1 = 1"
    "exact_below (opt_tabSize example_options) m example_hl_doc (hd_modeFrontier example_hl_doc)" for m
    by (simp_all add: example_hl_doc_def exact_below_def)
  with precise_state_exact [of example_hl_doc 1 example_options] show ?thesis by metis
qed

end
