(* ===== verification/Jq_Callbacks.thy ===== *)
theory Jq_Callbacks
  imports Web_Base
begin

text \<open>
  Callback lists of jQuery (\<open>jQuery.Callbacks\<close> in \<open>bower/jquery/jquery.js\<close>). A callback is a
  function of the page. What it does when it is called is an argument of the model: the operations
  it performs on the same list and how it ends, which may depend on all calls so far. The calls are
  recorded in the state. The list is \<open>None\<close> when it is the empty text, that is disabled; memory is
  \<open>None\<close> when it has a value that counts as false.
\<close>

section \<open>State and operations\<close>

record cb_options =
  opt_once :: bool
  opt_memory :: bool
  opt_unique :: bool
  opt_stopOnFalse :: bool

record ('f, 'a) callbacks =
  cb_firing :: bool
  cb_memory :: "'a option"
  cb_fired :: bool
  cb_locked :: bool
  cb_list :: "'f list option"
  cb_queue :: "'a list"
  cb_firingIndex :: int
  cb_calls :: "('f \<times> 'a option) list"

definition Callbacks :: "('f, 'a) callbacks" where
  "Callbacks = \<lparr>cb_firing = False, cb_memory = None, cb_fired = False, cb_locked = False, cb_list = Some [],
     cb_queue = [], cb_firingIndex = -1, cb_calls = []\<rparr>"

text \<open>The options in a text: words separated by white space.\<close>

fun option_words :: "string \<Rightarrow> string \<Rightarrow> string list" where
  "option_words w [] = (if w = [] then [] else [rev w])"
| "option_words w (c # s) =
     (if c \<in> {CHR 0x20, CHR 0x09, CHR 0x0D, CHR 0x0A, CHR 0x0C}
      then (if w = [] then option_words [] s else rev w # option_words [] s)
      else option_words (c # w) s)"

definition createOptions :: "string \<Rightarrow> cb_options" where
  "createOptions options =
     (let has_flag = List.member (option_words [] options)
      in \<lparr>opt_once = has_flag ''once'', opt_memory = has_flag ''memory'', opt_unique = has_flag ''unique'',
          opt_stopOnFalse = has_flag ''stopOnFalse''\<rparr>)"

text \<open>An argument of \<open>add\<close>: a function, something like an array, or anything else, which is ignored.\<close>

datatype 'f arg = Function 'f | Array "'f arg list" | Ignored

datatype ('f, 'a) cb_op = Add "'f arg list" | Remove "'f list" | Empty_List | Disable | Lock | FireWith 'a

datatype cb_result = Returns | Returns_False | Throws

type_synonym ('f, 'a) behaviour = "('f \<times> 'a option) list \<Rightarrow> ('f, 'a) cb_op list \<times> cb_result"

fun cb_has :: "'f option \<Rightarrow> ('f, 'a) callbacks \<Rightarrow> bool" where
  "cb_has (Some f) s = List.member (or_default [] (cb_list s)) f"
| "cb_has None s = (or_default [] (cb_list s) \<noteq> [])"

text \<open>Appends the functions of the arguments, arrays inspected recursively.\<close>

fun add_arg :: "bool \<Rightarrow> 'f arg \<Rightarrow> 'f list \<Rightarrow> 'f list" and add_args :: "bool \<Rightarrow> 'f arg list \<Rightarrow> 'f list \<Rightarrow> 'f list" where
  "add_arg unique (Function f) fs = (if \<not> unique \<or> \<not> List.member fs f then fs @ [f] else fs)"
| "add_arg unique (Array args) fs = add_args unique args fs"
| "add_arg unique Ignored fs = fs"
| "add_args unique [] fs = fs"
| "add_args unique (a # args) fs = add_args unique args (add_arg unique a fs)"

text \<open>Adding, and whether the list fires afterwards because it has memory and is not firing.\<close>

definition cb_add :: "cb_options \<Rightarrow> 'f arg list \<Rightarrow> ('f, 'a) callbacks \<Rightarrow> ('f, 'a) callbacks \<times> bool" where
  "cb_add opts args s =
     (case cb_list s of
        None \<Rightarrow> (s, False)
      | Some fs \<Rightarrow>
          let again = cb_memory s \<noteq> None \<and> \<not> cb_firing s;
              s1 = (if again then s\<lparr>cb_firingIndex := int (length fs) - 1, cb_queue := cb_queue s @ [the (cb_memory s)]\<rparr> else s)
          in (s1\<lparr>cb_list := Some (add_args (opt_unique opts) args fs)\<rparr>, again))"

text \<open>Removes every occurrence of a function from index \<open>i\<close> on and keeps the index of the running callback.\<close>

function remove_from :: "'f \<Rightarrow> nat \<Rightarrow> 'f list \<Rightarrow> int \<Rightarrow> 'f list \<times> int" where
  "remove_from f i fs firingIndex =
     (case find (\<lambda>k. fs ! k = f) [i..<length fs] of
        None \<Rightarrow> (fs, firingIndex)
      | Some k \<Rightarrow> remove_from f k (take k fs @ drop (Suc k) fs) (if int k \<le> firingIndex then firingIndex - 1 else firingIndex))"
  by pat_completeness auto
termination
  by (relation "measure (\<lambda>(f, i, fs, n). length fs)") (auto simp: find_Some_iff)

declare remove_from.simps [simp del]

fun remove_all_of :: "'f list \<Rightarrow> 'f list \<Rightarrow> int \<Rightarrow> 'f list \<times> int" where
  "remove_all_of [] fs n = (fs, n)"
| "remove_all_of (f # args) fs n = (case remove_from f 0 fs n of (fs', n') \<Rightarrow> remove_all_of args fs' n')"

definition cb_remove :: "'f list \<Rightarrow> ('f, 'a) callbacks \<Rightarrow> ('f, 'a) callbacks" where
  "cb_remove args s =
     (case cb_list s of
        None \<Rightarrow> s
      | Some fs \<Rightarrow> (case remove_all_of args fs (cb_firingIndex s) of
                      (fs', n) \<Rightarrow> s\<lparr>cb_list := Some fs', cb_firingIndex := n\<rparr>))"

definition cb_empty :: "('f, 'a) callbacks \<Rightarrow> ('f, 'a) callbacks" where
  "cb_empty s = (if cb_list s \<noteq> None then s\<lparr>cb_list := Some []\<rparr> else s)"

definition cb_disable :: "('f, 'a) callbacks \<Rightarrow> ('f, 'a) callbacks" where
  "cb_disable s = s\<lparr>cb_locked := True, cb_queue := [], cb_list := None, cb_memory := None\<rparr>"

definition cb_disabled :: "('f, 'a) callbacks \<Rightarrow> bool" where "cb_disabled s \<longleftrightarrow> cb_list s = None"

definition cb_lock :: "('f, 'a) callbacks \<Rightarrow> ('f, 'a) callbacks" where
  "cb_lock s =
     (let s = s\<lparr>cb_locked := True, cb_queue := []\<rparr>
      in if cb_memory s = None \<and> \<not> cb_firing s then s\<lparr>cb_list := None, cb_memory := None\<rparr> else s)"

definition cb_fireWith :: "'a \<Rightarrow> ('f, 'a) callbacks \<Rightarrow> ('f, 'a) callbacks \<times> bool" where
  "cb_fireWith args s =
     (if \<not> cb_locked s then (s\<lparr>cb_queue := cb_queue s @ [args]\<rparr>, \<not> cb_firing s) else (s, False))"

text \<open>What an operation does before it fires, and whether it does.\<close>

fun op_effect :: "cb_options \<Rightarrow> ('f, 'a) cb_op \<Rightarrow> ('f, 'a) callbacks \<Rightarrow> ('f, 'a) callbacks \<times> bool" where
  "op_effect opts (Add args) s = cb_add opts args s"
| "op_effect opts (Remove fs) s = (cb_remove fs s, False)"
| "op_effect opts Empty_List s = (cb_empty s, False)"
| "op_effect opts Disable s = (cb_disable s, False)"
| "op_effect opts Lock s = (cb_lock s, False)"
| "op_effect opts (FireWith a) s = cb_fireWith a s"

section \<open>Firing\<close>

definition list_length :: "('f, 'a) callbacks \<Rightarrow> int" where
  "list_length s = int (length (or_default [] (cb_list s)))"

text \<open>
  Calls the callback at the index. While the list is firing none of the operations that a callback
  performs fires again.
\<close>

definition call_one :: "('f, 'a) behaviour \<Rightarrow> cb_options \<Rightarrow> ('f, 'a) callbacks \<Rightarrow> ('f, 'a) callbacks \<times> bool" where
  "call_one env opts s =
     (let f = or_default [] (cb_list s) ! nat (cb_firingIndex s);
          s1 = s\<lparr>cb_calls := cb_calls s @ [(f, cb_memory s)]\<rparr>;
          (ops, result) = env (cb_calls s1);
          s2 = fold (\<lambda>x s. fst (op_effect opts x s)) ops s1
      in case result of
           Throws \<Rightarrow> (s2, True)
         | Returns \<Rightarrow> (s2, False)
         | Returns_False \<Rightarrow>
             (if opt_stopOnFalse opts then s2\<lparr>cb_firingIndex := list_length s2, cb_memory := None\<rparr> else s2, False))"

partial_function (option) call_all :: "('f, 'a) behaviour \<Rightarrow> cb_options \<Rightarrow> ('f, 'a) callbacks \<Rightarrow> (('f, 'a) callbacks \<times> bool) option" where
  [code]: "call_all env opts s =
     (let s1 = s\<lparr>cb_firingIndex := cb_firingIndex s + 1\<rparr>
      in if cb_firingIndex s1 < list_length s1
         then (case call_one env opts s1 of (s2, thrown) \<Rightarrow> if thrown then Some (s2, True) else call_all env opts s2)
         else Some (s1, False))"

partial_function (option) fire_queue :: "('f, 'a) behaviour \<Rightarrow> cb_options \<Rightarrow> ('f, 'a) callbacks \<Rightarrow> (('f, 'a) callbacks \<times> bool) option" where
  [code]: "fire_queue env opts s =
     (case cb_queue s of
        [] \<Rightarrow> Some (s, False)
      | a # q \<Rightarrow>
          (case call_all env opts (s\<lparr>cb_memory := Some a, cb_queue := q\<rparr>) of
             None \<Rightarrow> None
           | Some (s1, thrown) \<Rightarrow> if thrown then Some (s1, True) else fire_queue env opts (s1\<lparr>cb_firingIndex := -1\<rparr>)))"

definition fire_done :: "cb_options \<Rightarrow> ('f, 'a) callbacks \<Rightarrow> ('f, 'a) callbacks" where
  "fire_done opts s =
     (let s = (if \<not> opt_memory opts then s\<lparr>cb_memory := None\<rparr> else s);
          s = s\<lparr>cb_firing := False\<rparr>
      in if cb_locked s then s\<lparr>cb_list := if cb_memory s \<noteq> None then Some [] else None\<rparr> else s)"

text \<open>The result says whether a callback threw; then the rest of the function is not reached.\<close>

definition cb_fire :: "('f, 'a) behaviour \<Rightarrow> cb_options \<Rightarrow> ('f, 'a) callbacks \<Rightarrow> (('f, 'a) callbacks \<times> bool) option" where
  "cb_fire env opts s =
     (case fire_queue env opts (s\<lparr>cb_locked := cb_locked s \<or> opt_once opts, cb_fired := True, cb_firing := True\<rparr>) of
        None \<Rightarrow> None
      | Some (s1, thrown) \<Rightarrow> if thrown then Some (s1, True) else Some (fire_done opts s1, False))"

definition cb_do :: "('f, 'a) behaviour \<Rightarrow> cb_options \<Rightarrow> ('f, 'a) cb_op \<Rightarrow> ('f, 'a) callbacks \<Rightarrow> (('f, 'a) callbacks \<times> bool) option" where
  "cb_do env opts x s =
     (case op_effect opts x s of (s1, fires) \<Rightarrow> if fires then cb_fire env opts s1 else Some (s1, False))"

text \<open>Operations of the page one after the other; an exception ends only the operation it comes from.\<close>

fun cb_run :: "('f, 'a) behaviour \<Rightarrow> cb_options \<Rightarrow> ('f, 'a) cb_op list \<Rightarrow> ('f, 'a) callbacks \<Rightarrow> ('f, 'a) callbacks option" where
  "cb_run env opts [] s = Some s"
| "cb_run env opts (x # xs) s = (case cb_do env opts x s of None \<Rightarrow> None | Some (s1, _) \<Rightarrow> cb_run env opts xs s1)"

section \<open>Invariants of firing\<close>

lemma op_effect_calls:
  assumes "op_effect opts x s = (s1, fires)"
  shows "cb_calls s1 = cb_calls s" "cb_firing s1 = cb_firing s" "cb_firing s \<Longrightarrow> \<not> fires"
  using assms
  by (cases x; auto simp: cb_add_def cb_remove_def cb_empty_def cb_disable_def cb_lock_def cb_fireWith_def Let_def
      split: option.splits prod.splits if_splits)+

definition perform :: "cb_options \<Rightarrow> ('f, 'a) cb_op list \<Rightarrow> ('f, 'a) callbacks \<Rightarrow> ('f, 'a) callbacks" where
  "perform opts ops = fold (\<lambda>x s. fst (op_effect opts x s)) ops"

lemma perform_simps [simp]:
  "perform opts [] s = s" "perform opts (x # ops) s = perform opts ops (fst (op_effect opts x s))"
  by (simp_all add: perform_def)

lemma perform_calls [simp]: "cb_calls (perform opts ops s) = cb_calls s" "cb_firing (perform opts ops s) = cb_firing s"
proof (induction ops arbitrary: s)
  case (Cons x ops)
  { case 1 then show ?case using Cons(1) op_effect_calls(1) [OF prod.collapse [symmetric], of opts x s] by simp }
  { case 2 then show ?case using Cons(2) op_effect_calls(2) [OF prod.collapse [symmetric], of opts x s] by simp }
qed simp_all

definition next_index :: "('f, 'a) callbacks \<Rightarrow> ('f, 'a) callbacks" where
  "next_index s = s\<lparr>cb_firingIndex := cb_firingIndex s + 1\<rparr>"

definition more_to_call :: "('f, 'a) callbacks \<Rightarrow> bool" where
  "more_to_call s \<longleftrightarrow> cb_firingIndex s + 1 < list_length s"

lemma call_all_eq:
  "call_all env opts s =
     (if more_to_call s
      then (case call_one env opts (next_index s) of (s2, thrown) \<Rightarrow> if thrown then Some (s2, True) else call_all env opts s2)
      else Some (next_index s, False))"
  by (subst call_all.simps) (simp add: more_to_call_def next_index_def list_length_def Let_def)

lemma call_all_induct:
  assumes "call_all env opts s = Some r"
    and stop: "\<And>s. \<not> more_to_call s \<Longrightarrow> P s (next_index s, False)"
    and throw: "\<And>s s2. more_to_call s \<Longrightarrow> call_one env opts (next_index s) = (s2, True) \<Longrightarrow> P s (s2, True)"
    and step: "\<And>s s2 r. more_to_call s \<Longrightarrow> call_one env opts (next_index s) = (s2, False) \<Longrightarrow> P s2 r \<Longrightarrow> P s r"
  shows "P s r"
proof -
  have "call_all env' opts' s = Some r \<Longrightarrow> env' = env \<longrightarrow> opts' = opts \<longrightarrow> P s r" for env' opts' s r
  proof (induction env' opts' s r rule: call_all.raw_induct [rotated 1, consumes 1, case_names unfolded])
    case (unfolded rec env' opts' s r)
    show ?case
    proof (intro impI)
      assume e: "env' = env" "opts' = opts"
      obtain s2 t where c: "call_one env opts (next_index s) = (s2, t)" by fastforce
      note b = unfolded(2) [unfolded e Let_def, folded next_index_def]
      show "P s r"
      proof (cases "more_to_call s")
        case False
        with b stop [of s] show ?thesis by (auto simp: more_to_call_def next_index_def list_length_def)
      next
        case True
        show ?thesis
        proof (cases t)
          case True
          with b c \<open>more_to_call s\<close> throw [of s s2] show ?thesis
            by (auto simp: more_to_call_def next_index_def list_length_def)
        next
          case False
          with b c \<open>more_to_call s\<close> have "rec env opts s2 = Some r"
            by (auto simp: more_to_call_def next_index_def list_length_def)
          with unfolded(1) have p: "P s2 r" by blast
          from c False have "call_one env opts (next_index s) = (s2, False)" by simp
          with p \<open>more_to_call s\<close> show ?thesis by (blast intro: step)
        qed
      qed
    qed
  qed
  with assms(1) show ?thesis by blast
qed

lemma fire_queue_induct:
  assumes "fire_queue env opts s = Some r"
    and stop: "\<And>s. cb_queue s = [] \<Longrightarrow> P s (s, False)"
    and throw: "\<And>s a q s1. cb_queue s = a # q \<Longrightarrow> call_all env opts (s\<lparr>cb_memory := Some a, cb_queue := q\<rparr>) = Some (s1, True) \<Longrightarrow> P s (s1, True)"
    and step: "\<And>s a q s1 r. cb_queue s = a # q \<Longrightarrow> call_all env opts (s\<lparr>cb_memory := Some a, cb_queue := q\<rparr>) = Some (s1, False) \<Longrightarrow>
      P (s1\<lparr>cb_firingIndex := -1\<rparr>) r \<Longrightarrow> P s r"
  shows "P s r"
proof -
  have "fire_queue env' opts' s = Some r \<Longrightarrow> env' = env \<longrightarrow> opts' = opts \<longrightarrow> P s r" for env' opts' s r
  proof (induction env' opts' s r rule: fire_queue.raw_induct [rotated 1, consumes 1, case_names unfolded])
    case (unfolded rec env' opts' s r)
    show ?case
    proof (intro impI)
      assume e: "env' = env" "opts' = opts"
      show "P s r"
      proof (cases "cb_queue s")
        case Nil
        with unfolded(2) e stop [of s] show ?thesis by auto
      next
        case (Cons a q)
        with unfolded(2) e obtain s1 t where c: "call_all env opts (s\<lparr>cb_memory := Some a, cb_queue := q\<rparr>) = Some (s1, t)"
          and r: "(if t then Some (s1, True) else rec env opts (s1\<lparr>cb_firingIndex := -1\<rparr>)) = Some r"
          by (auto split: option.splits)
        show ?thesis
        proof (cases t)
          case True
          with r throw [OF Cons, of s1] c show ?thesis by auto
        next
          case False
          with r unfolded(1) have p: "P (s1\<lparr>cb_firingIndex := -1\<rparr>) r" by auto
          from c False have "call_all env opts (s\<lparr>cb_memory := Some a, cb_queue := q\<rparr>) = Some (s1, False)" by simp
          from step [OF Cons this p] show ?thesis .
        qed
      qed
    qed
  qed
  with assms(1) show ?thesis by blast
qed

section \<open>A callback that throws\<close>

lemma call_one_firing: "call_one env opts s = (s1, thrown) \<Longrightarrow> cb_firing s1 = cb_firing s"
  by (auto simp: call_one_def Let_def perform_def [symmetric] split: prod.splits cb_result.splits if_splits)

lemma call_all_firing: "call_all env opts s = Some r \<Longrightarrow> cb_firing (fst r) = cb_firing s"
  by (erule call_all_induct) (auto simp: next_index_def dest!: call_one_firing)

lemma fire_queue_firing: "fire_queue env opts s = Some r \<Longrightarrow> cb_firing (fst r) = cb_firing s"
  by (erule fire_queue_induct) (auto dest!: call_all_firing)

lemma firing_calls_nothing: "cb_firing s \<Longrightarrow> \<exists>s'. cb_run env opts ops s = Some s' \<and> cb_calls s' = cb_calls s"
proof (induction ops arbitrary: s)
  case (Cons x ops)
  obtain s1 fires where e: "op_effect opts x s = (s1, fires)" by fastforce
  with Cons.prems op_effect_calls [OF e] have s1: "cb_calls s1 = cb_calls s" "cb_firing s1" "\<not> fires" by auto
  with Cons.IH [of s1] e show ?case by (simp add: cb_do_def)
qed simp

text \<open>After a callback has thrown, the list counts as firing for ever: no operation of the page calls a callback
  any more, neither one that fires nor one that adds to a list with memory.\<close>

theorem exception_blocks_list:
  assumes "cb_do env opts x s = Some (s1, True)"
  shows "\<exists>s2. cb_run env opts ops s1 = Some s2 \<and> cb_calls s2 = cb_calls s1"
proof -
  have "cb_firing s1"
    using assms by (auto simp: cb_do_def cb_fire_def split: prod.splits if_splits option.splits dest!: fire_queue_firing)
  then show ?thesis by (rule firing_calls_nothing)
qed

definition example_env :: "(nat, nat) behaviour" where
  "example_env calls = ([], if fst (last calls) = 0 then Throws else Returns)"

theorem exception_blocks_list_witness:
  "\<exists>s1 s2. cb_do example_env (createOptions ''memory'') (FireWith (7::nat)) (Callbacks\<lparr>cb_list := Some [0, 1]\<rparr>) = Some (s1, True)
     \<and> cb_run example_env (createOptions ''memory'') [FireWith 8, Add [Function 2]] s1 = Some s2 \<and> cb_calls s2 = [(0, Some 7)]"
proof -
  let ?o = "createOptions ''memory''"
  have "\<exists>s1. cb_do example_env ?o (FireWith 7) (Callbacks\<lparr>cb_list := Some [0, 1]\<rparr>) = Some (s1, True) \<and> cb_calls s1 = [(0, Some 7)]"
    by (simp add: cb_do_def cb_fireWith_def Callbacks_def cb_fire_def createOptions_def fire_queue.simps [of example_env]
        call_all_eq [of example_env] more_to_call_def next_index_def list_length_def call_one_def example_env_def Let_def)
  then show ?thesis using exception_blocks_list [of example_env ?o] by metis
qed

section \<open>Callbacks that remove others\<close>

text \<open>A list in which \<open>f\<close> stands once; it has been passed when the index has reached it.\<close>

definition stands_once :: "'f \<Rightarrow> 'f list \<Rightarrow> int \<Rightarrow> bool \<Rightarrow> bool" where
  "stands_once f fs n passed \<longleftrightarrow>
     (\<exists>pre post. fs = pre @ f # post \<and> f \<notin> set pre \<and> f \<notin> set post \<and> (int (length pre) \<le> n \<longleftrightarrow> passed)) \<and> -1 \<le> n \<and> n \<le> int (length fs)"

lemma stands_once_delete:
  assumes "stands_once f fs n passed" "k < length fs" "fs ! k \<noteq> f"
  shows "stands_once f (take k fs @ drop (Suc k) fs) (if int k \<le> n then n - 1 else n) passed"
proof -
  from assms(1) obtain pre post where p: "fs = pre @ f # post" "f \<notin> set pre" "f \<notin> set post" "int (length pre) \<le> n \<longleftrightarrow> passed"
    "-1 \<le> n" "n \<le> int (length fs)" unfolding stands_once_def by blast
  have "k \<noteq> length pre" using assms(3) p(1) by auto
  then consider "k < length pre" | "k > length pre" by linarith
  then show ?thesis
  proof cases
    case 1
    then have "take k fs @ drop (Suc k) fs = (take k pre @ drop (Suc k) pre) @ f # post"
      using p(1) by simp
    moreover have "f \<notin> set (take k pre @ drop (Suc k) pre)" using p(2) by (auto dest: in_set_takeD in_set_dropD)
    ultimately show ?thesis
      using 1 p unfolding stands_once_def
      by (intro conjI exI [of _ "take k pre @ drop (Suc k) pre"] exI [of _ post]) auto
  next
    case 2
    then obtain j where j: "k = Suc (length pre + j)" using less_iff_Suc_add by blast
    then have "take k fs @ drop (Suc k) fs = pre @ f # (take j post @ drop (Suc j) post)"
      using p(1) by simp
    moreover have "f \<notin> set (take j post @ drop (Suc j) post)" using p(3) by (auto dest: in_set_takeD in_set_dropD)
    ultimately show ?thesis
      using j p assms(2) unfolding stands_once_def
      by (intro conjI exI [of _ pre] exI [of _ "take j post @ drop (Suc j) post"]) auto
  qed
qed

lemma remove_from_keeps:
  assumes "stands_once f fs n passed" "g \<noteq> f" "remove_from g i fs n = (fs', n')"
  shows "stands_once f fs' n' passed \<and> int (length fs') - n' \<le> int (length fs) - n"
  using assms
proof (induction g i fs n rule: remove_from.induct)
  case (1 g i fs n)
  show ?case
  proof (cases "find (\<lambda>k. fs ! k = g) [i..<length fs]")
    case None
    with "1.prems" remove_from.simps [of g i fs n] show ?thesis by simp
  next
    case (Some k)
    then have k: "k < length fs" "fs ! k = g" by (auto simp: find_Some_iff)
    let ?n = "if int k \<le> n then n - 1 else n"
    have s: "stands_once f (take k fs @ drop (Suc k) fs) ?n passed"
      using stands_once_delete [OF "1.prems"(1) k(1)] k(2) "1.prems"(2) by simp
    have r: "remove_from g k (take k fs @ drop (Suc k) fs) ?n = (fs', n')"
      using "1.prems"(3) Some remove_from.simps [of g i fs n] by simp
    from "1.IH" [OF Some s "1.prems"(2) r] k(1) show ?thesis by (auto split: if_splits)
  qed
qed

lemma remove_all_keeps:
  "stands_once f fs n passed \<Longrightarrow> f \<notin> set gs \<Longrightarrow> remove_all_of gs fs n = (fs', n') \<Longrightarrow>
     stands_once f fs' n' passed \<and> int (length fs') - n' \<le> int (length fs) - n"
proof (induction gs arbitrary: fs n)
  case (Cons g gs)
  obtain fs1 n1 where r: "remove_from g 0 fs n = (fs1, n1)" by fastforce
  with Cons.prems remove_from_keeps [OF Cons.prems(1) _ r] Cons.IH [of fs1 n1] show ?case by auto
qed simp

definition fires_for :: "'f \<Rightarrow> 'a \<Rightarrow> ('f, 'a) callbacks \<Rightarrow> bool \<Rightarrow> bool" where
  "fires_for f a s passed \<longleftrightarrow>
     (\<exists>fs. cb_list s = Some fs \<and> stands_once f fs (cb_firingIndex s) passed) \<and> cb_memory s = Some a \<and> cb_queue s = []"

lemma perform_removes:
  assumes "\<forall>x \<in> set ops. \<exists>gs. x = Remove gs \<and> f \<notin> set gs" "fires_for f a s passed"
  shows "fires_for f a (perform opts ops s) passed
    \<and> list_length (perform opts ops s) - cb_firingIndex (perform opts ops s) \<le> list_length s - cb_firingIndex s"
  using assms
proof (induction ops arbitrary: s)
  case (Cons x ops)
  then obtain gs where x: "x = Remove gs" "f \<notin> set gs" by auto
  obtain fs where fs: "cb_list s = Some fs" "stands_once f fs (cb_firingIndex s) passed" "cb_memory s = Some a" "cb_queue s = []"
    using Cons.prems(2) by (auto simp: fires_for_def)
  obtain fs' n' where r: "remove_all_of gs fs (cb_firingIndex s) = (fs', n')" by fastforce
  have e: "fst (op_effect opts x s) = s\<lparr>cb_list := Some fs', cb_firingIndex := n'\<rparr>"
    using x(1) fs(1) r by (simp add: cb_remove_def)
  have k: "stands_once f fs' n' passed" "int (length fs') - n' \<le> int (length fs) - cb_firingIndex s"
    using remove_all_keeps [OF fs(2) x(2) r] by simp_all
  have "fires_for f a (s\<lparr>cb_list := Some fs', cb_firingIndex := n'\<rparr>) passed"
    using k fs(3,4) by (simp add: fires_for_def)
  with Cons.IH [of "s\<lparr>cb_list := Some fs', cb_firingIndex := n'\<rparr>"] Cons.prems(1) k(2) fs(1) show ?case
    by (simp add: e list_length_def)
qed simp

text \<open>A page whose callbacks only remove others, and neither throw nor stop.\<close>

definition only_removes :: "cb_options \<Rightarrow> 'f \<Rightarrow> ('f, 'a) behaviour \<Rightarrow> bool" where
  "only_removes opts f env \<longleftrightarrow>
     (\<forall>calls. (\<forall>x \<in> set (fst (env calls)). \<exists>gs. x = Remove gs \<and> f \<notin> set gs) \<and> snd (env calls) \<noteq> Throws
        \<and> (opt_stopOnFalse opts \<longrightarrow> snd (env calls) \<noteq> Returns_False))"

lemma call_all_once:
  assumes "only_removes opts f env" "fires_for f a s passed"
  shows "\<exists>s'. call_all env opts s = Some (s', False) \<and> cb_queue s' = []
    \<and> count_list (cb_calls s') (f, Some a) = count_list (cb_calls s) (f, Some a) + (if passed then 0 else 1)"
  using assms(2)
proof (induction "nat (list_length s - cb_firingIndex s)" arbitrary: s passed rule: less_induct)
  case less
  obtain fs where fs: "cb_list s = Some fs" "stands_once f fs (cb_firingIndex s) passed" "cb_memory s = Some a" "cb_queue s = []"
    using less.prems by (auto simp: fires_for_def)
  then obtain pre post where p: "fs = pre @ f # post" "f \<notin> set pre" "f \<notin> set post" "int (length pre) \<le> cb_firingIndex s \<longleftrightarrow> passed"
    "-1 \<le> cb_firingIndex s" unfolding stands_once_def by blast
  show ?case
  proof (cases "more_to_call s")
    case False
    then have passed using p fs(1) by (auto simp: more_to_call_def list_length_def)
    with False fs(4) show ?thesis by (subst call_all_eq) (simp add: next_index_def)
  next
    case True
    let ?s0 = "next_index s"
    let ?k = "nat (cb_firingIndex s + 1)"
    let ?g = "fs ! ?k"
    let ?s1 = "?s0\<lparr>cb_calls := cb_calls s @ [(?g, Some a)]\<rparr>"
    obtain ops res where env: "env (cb_calls ?s1) = (ops, res)" by fastforce
    have ok: "\<forall>x \<in> set ops. \<exists>gs. x = Remove gs \<and> f \<notin> set gs" "res \<noteq> Throws" "opt_stopOnFalse opts \<longrightarrow> res \<noteq> Returns_False"
      using assms(1) env unfolding only_removes_def by (metis fst_conv snd_conv)+
    have k: "?k < length fs" "int ?k = cb_firingIndex s + 1"
      using True p(5) fs(1) by (auto simp: more_to_call_def list_length_def)
    define passed' where "passed' = (passed \<or> ?g = f)"
    have at: "?g = f \<longleftrightarrow> ?k = length pre"
    proof
      assume g: "?g = f"
      show "?k = length pre"
      proof (rule ccontr)
        assume "?k \<noteq> length pre"
        then consider "?k < length pre" | "?k > length pre" by linarith
        then show False
        proof cases
          case 1
          then have "f \<in> set pre" using g p(1) by (metis nth_append nth_mem)
          with p(2) show False by simp
        next
          case 2
          then obtain j where j: "?k = Suc (length pre + j)" using less_iff_Suc_add by blast
          with k(1) p(1) have "j < length post" by simp
          moreover have "?g = post ! j" using j p(1) by (simp add: nth_append)
          ultimately have "f \<in> set post" using g by (metis nth_mem)
          with p(3) show False by simp
        qed
      qed
    qed (simp add: p(1))
    have first: "?g = f \<Longrightarrow> \<not> passed"
      using at p(4) k(2) by auto
    have so: "stands_once f fs (cb_firingIndex s + 1) passed'"
    proof -
      have at': "?g = f \<longleftrightarrow> int (length pre) = cb_firingIndex s + 1" using at k(2) by linarith
      have "int (length pre) \<le> cb_firingIndex s + 1 \<longleftrightarrow> passed'"
        unfolding passed'_def at' p(4) [symmetric] by linarith
      moreover have "-1 \<le> cb_firingIndex s + 1" "cb_firingIndex s + 1 \<le> int (length fs)" using p(5) k by linarith+
      ultimately show ?thesis using p(1-3) unfolding stands_once_def by blast
    qed
    have f1: "fires_for f a ?s1 passed'"
      using fs so by (auto simp: fires_for_def next_index_def)
    let ?s2 = "perform opts ops ?s1"
    have s2: "fires_for f a ?s2 passed'" "list_length ?s2 - cb_firingIndex ?s2 \<le> list_length ?s1 - cb_firingIndex ?s1"
      using perform_removes [OF ok(1) f1] by blast+
    have one: "call_one env opts ?s0 = (?s2, False)"
      using ok(2,3) env fs(1,3)
      by (cases res) (simp_all add: call_one_def next_index_def perform_def Let_def)
    have less': "nat (list_length ?s2 - cb_firingIndex ?s2) < nat (list_length s - cb_firingIndex s)"
      using s2(2) True by (simp add: list_length_def next_index_def more_to_call_def)
    obtain s' where s': "call_all env opts ?s2 = Some (s', False)" "cb_queue s' = []"
      "count_list (cb_calls s') (f, Some a) = count_list (cb_calls ?s2) (f, Some a) + (if passed' then 0 else 1)"
      using less.hyps [OF less' s2(1)] by blast
    have "count_list (cb_calls ?s2) (f, Some a) = count_list (cb_calls s) (f, Some a) + (if ?g = f then 1 else 0)"
      by simp
    with s' first one True show ?thesis
      by (subst call_all_eq) (auto simp: passed'_def)
  qed
qed

text \<open>C31. However the callbacks of a list remove other callbacks while the list fires, before or behind the running one, a
  callback that stands in the list once and is not removed is called exactly once with the
  arguments of the firing: none is skipped and none is called twice.\<close>

theorem removal_skips_no_callback:
  assumes "only_removes opts f env" "cb_list s = Some (pre @ f # post)" "f \<notin> set pre" "f \<notin> set post"
    "\<not> cb_locked s" "\<not> cb_firing s" "cb_queue s = []" "cb_firingIndex s = -1"
  shows "\<exists>s'. cb_do env opts (FireWith a) s = Some (s', False)
    \<and> count_list (cb_calls s') (f, Some a) = Suc (count_list (cb_calls s) (f, Some a))"
proof -
  let ?s = "s\<lparr>cb_locked := opt_once opts, cb_fired := True, cb_firing := True, cb_memory := Some a, cb_queue := []\<rparr>"
  have "stands_once f (pre @ f # post) (-1) False"
    using assms(3,4) unfolding stands_once_def by force
  then have "fires_for f a ?s False" using assms(2,8) by (simp add: fires_for_def)
  from call_all_once [OF assms(1) this] obtain s' where s': "call_all env opts ?s = Some (s', False)" "cb_queue s' = []"
    "count_list (cb_calls s') (f, Some a) = Suc (count_list (cb_calls s) (f, Some a))" by auto
  have same: "(s\<lparr>cb_queue := [a], cb_locked := opt_once opts, cb_fired := True, cb_firing := True\<rparr>)\<lparr>cb_memory := Some a, cb_queue := []\<rparr> = ?s"
    by simp
  have "fire_queue env opts (s\<lparr>cb_queue := [a], cb_locked := opt_once opts, cb_fired := True, cb_firing := True\<rparr>)
      = Some (s'\<lparr>cb_firingIndex := -1\<rparr>, False)"
    using s'(1,2) by (subst fire_queue.simps) (simp add: fire_queue.simps same)
  then show ?thesis
    using assms(5-7) s'(3) by (simp add: cb_do_def cb_fireWith_def cb_fire_def fire_done_def Let_def)
qed

definition removing_env :: "(nat, nat) behaviour" where
  "removing_env calls = (if fst (last calls) = 0 then ([Remove [0, 1]], Returns) else ([], Returns))"

theorem removal_skips_no_callback_witness:
  "\<exists>s'. cb_do removing_env (createOptions '''') (FireWith (7::nat)) (Callbacks\<lparr>cb_list := Some [0, 1, 2]\<rparr>) = Some (s', False)
     \<and> count_list (cb_calls s') (2, Some 7) = 1"
proof -
  have "only_removes (createOptions '''') 2 removing_env"
    by (simp add: only_removes_def removing_env_def)
  from removal_skips_no_callback [OF this, of "Callbacks\<lparr>cb_list := Some [0, 1, 2]\<rparr>" "[0, 1]" "[]" 7] show ?thesis
    by (simp add: Callbacks_def)
qed

section \<open>The lists of a deferred object\<close>

text \<open>Callbacks that do nothing to their list, and the functions among the arguments of operations.\<close>

definition quiet :: "('f, 'a) behaviour" where "quiet calls = ([], Returns)"

fun functions_of :: "'f arg \<Rightarrow> 'f list" where
  "functions_of (Function f) = [f]"
| "functions_of (Array args) = concat (map functions_of args)"
| "functions_of Ignored = []"

fun added_by :: "('f, 'a) cb_op \<Rightarrow> 'f list" where
  "added_by (Add args) = concat (map functions_of args)"
| "added_by _ = []"

fun first_args :: "('f, 'a) cb_op list \<Rightarrow> 'a option" where
  "first_args [] = None"
| "first_args (FireWith a # ops) = Some a"
| "first_args (_ # ops) = first_args ops"

fun adds_or_fires :: "('f, 'a) cb_op \<Rightarrow> bool" where
  "adds_or_fires (Add args) \<longleftrightarrow> True"
| "adds_or_fires (FireWith a) \<longleftrightarrow> True"
| "adds_or_fires _ \<longleftrightarrow> False"

lemma add_arg_eq:
  "\<not> unique \<Longrightarrow> add_arg unique a fs = fs @ functions_of a"
  "\<not> unique \<Longrightarrow> add_args unique args fs = fs @ concat (map functions_of args)"
  by (induction unique a fs and unique args fs rule: add_arg_add_args.induct) auto

lemma quiet_call_all:
  assumes "cb_list s = Some fs" "cb_memory s = Some a" "-1 \<le> cb_firingIndex s" "cb_firingIndex s < int (length fs)"
  shows "call_all quiet opts s = Some (s\<lparr>cb_firingIndex := int (length fs),
     cb_calls := cb_calls s @ map (\<lambda>f. (f, Some a)) (drop (nat (cb_firingIndex s + 1)) fs)\<rparr>, False)"
  using assms
proof (induction "nat (int (length fs) - cb_firingIndex s)" arbitrary: s rule: less_induct)
  case less
  let ?i = "cb_firingIndex s + 1"
  show ?case
  proof (cases "?i < int (length fs)")
    case False
    then have "?i = int (length fs)" using less.prems(4) by simp
    with less.prems(1) show ?thesis
      by (subst call_all_eq) (simp add: more_to_call_def list_length_def next_index_def)
  next
    case True
    let ?s1 = "s\<lparr>cb_firingIndex := ?i, cb_calls := cb_calls s @ [(fs ! nat ?i, Some a)]\<rparr>"
    have one: "call_one quiet opts (next_index s) = (?s1, False)"
      using less.prems(1,2) by (simp add: call_one_def quiet_def next_index_def Let_def)
    have "call_all quiet opts ?s1 = Some (?s1\<lparr>cb_firingIndex := int (length fs),
        cb_calls := cb_calls ?s1 @ map (\<lambda>f. (f, Some a)) (drop (nat (cb_firingIndex ?s1 + 1)) fs)\<rparr>, False)"
      using less.prems True by (intro less.hyps) auto
    moreover have "drop (nat ?i) fs = fs ! nat ?i # drop (nat (?i + 1)) fs"
    proof -
      have "nat (?i + 1) = Suc (nat ?i)" "nat ?i < length fs" using less.prems(3) True by auto
      then show ?thesis by (simp add: Cons_nth_drop_Suc)
    qed
    ultimately show ?thesis
      using less.prems(1) True one
      by (subst call_all_eq) (simp add: more_to_call_def list_length_def)
  qed
qed

definition once_memory :: cb_options where
  "once_memory = \<lparr>opt_once = True, opt_memory = True, opt_unique = False, opt_stopOnFalse = False\<rparr>"

lemma createOptions_once_memory: "createOptions ''once memory'' = once_memory"
  by code_simp

lemma quiet_fire:
  assumes "cb_list s = Some fs" "cb_queue s = [a]" "-1 \<le> cb_firingIndex s" "cb_firingIndex s < int (length fs)"
  shows "cb_fire quiet once_memory s = Some (s\<lparr>cb_locked := True, cb_fired := True, cb_firing := False, cb_memory := Some a,
     cb_queue := [], cb_list := Some [], cb_firingIndex := -1,
     cb_calls := cb_calls s @ map (\<lambda>f. (f, Some a)) (drop (nat (cb_firingIndex s + 1)) fs)\<rparr>, False)"
proof -
  let ?s0 = "s\<lparr>cb_locked := cb_locked s \<or> opt_once once_memory, cb_fired := True, cb_firing := True\<rparr>"
  have "call_all quiet once_memory (?s0\<lparr>cb_memory := Some a, cb_queue := []\<rparr>) = Some ((?s0\<lparr>cb_memory := Some a, cb_queue := []\<rparr>)\<lparr>
      cb_firingIndex := int (length fs), cb_calls := cb_calls s @ map (\<lambda>f. (f, Some a)) (drop (nat (cb_firingIndex s + 1)) fs)\<rparr>, False)"
    using quiet_call_all [of "?s0\<lparr>cb_memory := Some a, cb_queue := []\<rparr>" fs a once_memory] assms by simp
  then have "fire_queue quiet once_memory ?s0 = Some (((?s0\<lparr>cb_memory := Some a, cb_queue := []\<rparr>)\<lparr>
      cb_firingIndex := int (length fs), cb_calls := cb_calls s @ map (\<lambda>f. (f, Some a)) (drop (nat (cb_firingIndex s + 1)) fs)\<rparr>)\<lparr>cb_firingIndex := -1\<rparr>, False)"
    using assms(2) by (subst fire_queue.simps) (simp add: fire_queue.simps)
  then show ?thesis
    by (simp add: cb_fire_def fire_done_def once_memory_def)
qed

lemma quiet_after:
  assumes "\<forall>x \<in> set ops. adds_or_fires x" "cb_list s = Some []" "cb_memory s = Some a" "cb_locked s" "\<not> cb_firing s"
    "cb_queue s = []" "cb_firingIndex s = -1"
  shows "\<exists>s'. cb_run quiet once_memory ops s = Some s'
    \<and> cb_calls s' = cb_calls s @ map (\<lambda>f. (f, Some a)) (concat (map added_by ops))"
  using assms
proof (induction ops arbitrary: s)
  case (Cons x ops)
  show ?case
  proof (cases x)
    case (Add args)
    let ?fs = "concat (map functions_of args)"
    let ?s = "s\<lparr>cb_queue := [a], cb_list := Some ?fs\<rparr>"
    let ?s1 = "?s\<lparr>cb_locked := True, cb_fired := True, cb_firing := False, cb_memory := Some a,
       cb_queue := [], cb_list := Some [], cb_firingIndex := -1, cb_calls := cb_calls s @ map (\<lambda>f. (f, Some a)) ?fs\<rparr>"
    have "cb_add once_memory args s = (?s, True)"
      using Cons.prems by (simp add: cb_add_def add_arg_eq once_memory_def Let_def)
    then have f: "cb_do quiet once_memory x s = Some (?s1, False)"
      using Add Cons.prems quiet_fire [of ?s ?fs a] by (simp add: cb_do_def)
    have "\<exists>s'. cb_run quiet once_memory ops ?s1 = Some s'
        \<and> cb_calls s' = cb_calls ?s1 @ map (\<lambda>f. (f, Some a)) (concat (map added_by ops))"
      using Cons.prems(1) by (intro Cons.IH) auto
    with f Add show ?thesis by auto
  next
    case (FireWith b)
    then have "cb_do quiet once_memory x s = Some (s, False)"
      using Cons.prems by (simp add: cb_do_def cb_fireWith_def)
    with Cons.IH [of s] Cons.prems FireWith show ?thesis by simp
  qed (use Cons.prems(1) in auto)
qed simp

lemma quiet_before:
  assumes "\<forall>x \<in> set ops. adds_or_fires x" "cb_list s = Some fs" "cb_memory s = None" "\<not> cb_locked s" "\<not> cb_firing s"
    "cb_queue s = []" "cb_firingIndex s = -1"
  shows "\<exists>s'. cb_run quiet once_memory ops s = Some s' \<and> cb_calls s' = cb_calls s @
    (case first_args ops of None \<Rightarrow> [] | Some a \<Rightarrow> map (\<lambda>f. (f, Some a)) (fs @ concat (map added_by ops)))"
  using assms
proof (induction ops arbitrary: s fs)
  case (Cons x ops)
  show ?case
  proof (cases x)
    case (Add args)
    let ?s = "s\<lparr>cb_list := Some (fs @ concat (map functions_of args))\<rparr>"
    have "cb_do quiet once_memory x s = Some (?s, False)"
      using Add Cons.prems by (simp add: cb_do_def cb_add_def add_arg_eq once_memory_def Let_def)
    with Cons.IH [of ?s "fs @ concat (map functions_of args)"] Cons.prems Add show ?thesis by (simp cong: option.case_cong)
  next
    case (FireWith a)
    let ?s = "s\<lparr>cb_queue := [a]\<rparr>"
    let ?s1 = "?s\<lparr>cb_locked := True, cb_fired := True, cb_firing := False, cb_memory := Some a,
       cb_queue := [], cb_list := Some [], cb_firingIndex := -1, cb_calls := cb_calls s @ map (\<lambda>f. (f, Some a)) fs\<rparr>"
    have f: "cb_do quiet once_memory x s = Some (?s1, False)"
      using FireWith Cons.prems quiet_fire [of ?s fs a] by (simp add: cb_do_def cb_fireWith_def)
    have "\<exists>s'. cb_run quiet once_memory ops ?s1 = Some s'
        \<and> cb_calls s' = cb_calls ?s1 @ map (\<lambda>f. (f, Some a)) (concat (map added_by ops))"
      using Cons.prems(1) by (intro quiet_after) auto
    with f FireWith show ?thesis by auto
  qed (use Cons.prems(1) in auto)
qed simp



end
