(* ===== verification/Cm_Keys.thy ===== *)
theory Cm_Keys
  imports Web_Base
begin

text \<open>
  Key maps of the editor (\<open>codemirror.js\<close>): the names of keys, normalizing names and maps, looking a
  key up through the fallthrough maps, and dispatching keys, sequences of several keys included. A
  map is a list of bindings in the order of the object's properties. What a binding does is an
  argument that threads the state of the editor.
\<close>

section \<open>Names of keys\<close>

text \<open>Splits at every hyphen but one at the very end.\<close>

fun split_hyphens :: "string \<Rightarrow> string \<Rightarrow> string list" where
  "split_hyphens w [] = [rev w]"
| "split_hyphens w (c # s) = (if c = CHR ''-'' \<and> s \<noteq> [] then rev w # split_hyphens [] s else split_hyphens (c # w) s)"

record modifiers =
  mod_alt :: bool
  mod_ctrl :: bool
  mod_shift :: bool
  mod_cmd :: bool

definition no_modifiers :: modifiers where
  "no_modifiers = \<lparr>mod_alt = False, mod_ctrl = False, mod_shift = False, mod_cmd = False\<rparr>"

definition read_modifier :: "string \<Rightarrow> modifiers \<Rightarrow> modifiers outcome" where
  "read_modifier m ms =
     (let m = lower m
      in if m \<in> {''cmd'', ''meta'', ''m''} then Return (ms\<lparr>mod_cmd := True\<rparr>)
         else if m \<in> {''a'', ''alt''} then Return (ms\<lparr>mod_alt := True\<rparr>)
         else if m \<in> {''c'', ''ctrl'', ''control''} then Return (ms\<lparr>mod_ctrl := True\<rparr>)
         else if m \<in> {''s'', ''shift''} then Return (ms\<lparr>mod_shift := True\<rparr>)
         else Throw)"

fun read_modifiers :: "string list \<Rightarrow> modifiers \<Rightarrow> modifiers outcome" where
  "read_modifiers [] ms = Return ms"
| "read_modifiers (m # rest) ms = (case read_modifier m ms of Throw \<Rightarrow> Throw | Return ms' \<Rightarrow> read_modifiers rest ms')"

definition with_modifiers :: "modifiers \<Rightarrow> string \<Rightarrow> string" where
  "with_modifiers ms name =
     (let name = (if mod_alt ms then ''Alt-'' @ name else name);
          name = (if mod_ctrl ms then ''Ctrl-'' @ name else name);
          name = (if mod_cmd ms then ''Cmd-'' @ name else name)
      in if mod_shift ms then ''Shift-'' @ name else name)"

definition normalizeKeyName :: "string \<Rightarrow> string outcome" where
  "normalizeKeyName name =
     (let parts = split_hyphens [] name
      in case read_modifiers (butlast parts) no_modifiers of
           Throw \<Rightarrow> Throw
         | Return ms \<Rightarrow> Return (with_modifiers ms (last parts)))"

section \<open>Key events\<close>

definition dec_string :: "nat \<Rightarrow> string" where
  "dec_string n = (if n < 10 then [char_of (48 + n)] else [char_of (48 + n div 10), char_of (48 + n mod 10)])"

definition keyNames :: "nat \<Rightarrow> string option" where
  "keyNames n =
     (if 48 \<le> n \<and> n \<le> 57 then Some (dec_string (n - 48))
      else if 96 \<le> n \<and> n \<le> 105 then Some (dec_string (n - 96))
      else if 65 \<le> n \<and> n \<le> 90 then Some [char_of n]
      else if 112 \<le> n \<and> n \<le> 123 then Some (''F'' @ dec_string (n - 111))
      else if 63236 \<le> n \<and> n \<le> 63247 then Some (''F'' @ dec_string (n - 63235))
      else map_of [(3, ''Enter''), (8, ''Backspace''), (9, ''Tab''), (13, ''Enter''), (16, ''Shift''), (17, ''Ctrl''), (18, ''Alt''),
        (19, ''Pause''), (20, ''CapsLock''), (27, ''Esc''), (32, ''Space''), (33, ''PageUp''), (34, ''PageDown''), (35, ''End''),
        (36, ''Home''), (37, ''Left''), (38, ''Up''), (39, ''Right''), (40, ''Down''), (44, ''PrintScrn''), (45, ''Insert''),
        (46, ''Delete''), (59, '';''), (61, ''=''), (91, ''Mod''), (92, ''Mod''), (93, ''Mod''),
        (106, ''*''), (107, ''=''), (109, ''-''), (110, ''.''), (111, ''/''), (127, ''Delete''),
        (173, ''-''), (186, '';''), (187, ''=''), (188, '',''), (189, ''-''), (190, ''.''), (191, ''/''), (192, [CHR 0x60]), (219, ''[''), (220, [CHR 0x5C]),
        (221, '']''), (222, [CHR 0x27]), (63232, ''Up''), (63233, ''Down''), (63234, ''Left''), (63235, ''Right''), (63272, ''Delete''),
        (63273, ''Home''), (63275, ''End''), (63276, ''PageUp''), (63277, ''PageDown''), (63302, ''Insert'')] n)"

record key_event =
  ev_keyCode :: nat
  ev_char :: bool
  ev_altKey :: bool
  ev_ctrlKey :: bool
  ev_shiftKey :: bool
  ev_metaKey :: bool
  ev_altGraphKey :: bool

record platform =
  presto :: bool
  flipCtrlCmd :: bool

definition addModifierNames :: "platform \<Rightarrow> string \<Rightarrow> key_event \<Rightarrow> bool \<Rightarrow> string" where
  "addModifierNames pf name e noShift =
     (let base = name;
          name = (if ev_altKey e \<and> base \<noteq> ''Alt'' then ''Alt-'' @ name else name);
          name = (if (if flipCtrlCmd pf then ev_metaKey e else ev_ctrlKey e) \<and> base \<noteq> ''Ctrl'' then ''Ctrl-'' @ name else name);
          name = (if (if flipCtrlCmd pf then ev_ctrlKey e else ev_metaKey e) \<and> base \<noteq> ''Cmd'' then ''Cmd-'' @ name else name)
      in if \<not> noShift \<and> ev_shiftKey e \<and> base \<noteq> ''Shift'' then ''Shift-'' @ name else name)"

definition keyName :: "platform \<Rightarrow> key_event \<Rightarrow> bool \<Rightarrow> string option" where
  "keyName pf e noShift =
     (if presto pf \<and> ev_keyCode e = 34 \<and> ev_char e then None
      else case keyNames (ev_keyCode e) of
        None \<Rightarrow> None
      | Some name \<Rightarrow> if ev_altGraphKey e then None else Some (addModifierNames pf name e noShift))"

definition isModifierKey :: "string \<Rightarrow> bool" where
  "isModifierKey name \<longleftrightarrow> name \<in> {''Ctrl'', ''Alt'', ''Shift'', ''Mod''}"

section \<open>Key maps\<close>

text \<open>A binding: the three dots of a sequence that goes on, \<open>false\<close>, or a command.\<close>

datatype 'b binding = Dots | Off | Bound 'b

text \<open>The words of a key, separated by single blanks.\<close>

fun split_blanks :: "string \<Rightarrow> string \<Rightarrow> string list" where
  "split_blanks w [] = [rev w]"
| "split_blanks w (c # s) = (if c = CHR '' '' then rev w # split_blanks [] s else split_blanks (c # w) s)"

fun join_blanks :: "string list \<Rightarrow> string" where
  "join_blanks [] = []"
| "join_blanks [w] = w"
| "join_blanks (w # ws) = w @ '' '' @ join_blanks ws"

fun normalize_all :: "string list \<Rightarrow> string list outcome" where
  "normalize_all [] = Return []"
| "normalize_all (k # ks) =
     (case normalizeKeyName k of
        Throw \<Rightarrow> Throw
      | Return n \<Rightarrow> (case normalize_all ks of Throw \<Rightarrow> Throw | Return ns \<Rightarrow> Return (n # ns)))"

text \<open>Enters a value under a name; a value that is not \<open>false\<close> must not be replaced by another.\<close>

definition bind_key :: "string \<Rightarrow> 'b binding \<Rightarrow> (string \<times> 'b binding) list \<Rightarrow> (string \<times> 'b binding) list outcome" where
  "bind_key name val copy =
     (case map_of copy name of
        None \<Rightarrow> Return (copy @ [(name, val)])
      | Some prev \<Rightarrow>
          if prev = Off then Return (map (\<lambda>(n, v). (n, if n = name then val else v)) copy)
          else if prev \<noteq> val then Throw else Return copy)"

fun bind_prefixes :: "string list \<Rightarrow> string list \<Rightarrow> 'b binding \<Rightarrow> (string \<times> 'b binding) list \<Rightarrow> (string \<times> 'b binding) list outcome" where
  "bind_prefixes got [] val copy = Return copy"
| "bind_prefixes got (k # ks) val copy =
     (case bind_key (join_blanks (got @ [k])) (if ks = [] then val else Dots) copy of
        Throw \<Rightarrow> Throw
      | Return copy' \<Rightarrow> bind_prefixes (got @ [k]) ks val copy')"

definition special_key :: "string \<Rightarrow> bool" where
  "special_key k \<longleftrightarrow> k \<in> {''name'', ''fallthrough'', ''attach'', ''detach''}"

fun compile_keys :: "(string \<times> 'b binding) list \<Rightarrow> (string \<times> 'b binding) list \<Rightarrow> (string \<times> 'b binding) list outcome" where
  "compile_keys [] copy = Return copy"
| "compile_keys ((keyname, val) # rest) copy =
     (if special_key keyname \<or> val = Dots then compile_keys rest copy
      else case normalize_all (split_blanks [] keyname) of
        Throw \<Rightarrow> Throw
      | Return keys \<Rightarrow>
          (case bind_prefixes [] keys val copy of Throw \<Rightarrow> Throw | Return copy' \<Rightarrow> compile_keys rest copy'))"

definition normalizeKeyMap :: "(string \<times> 'b binding) list \<Rightarrow> (string \<times> 'b binding) list outcome" where
  "normalizeKeyMap keymap =
     (case compile_keys keymap [] of
        Throw \<Rightarrow> Throw
      | Return copy \<Rightarrow> Return (filter (\<lambda>(k, v). special_key k \<and> map_of copy k = None) keymap @ copy))"

section \<open>Looking keys up\<close>

datatype 'b keymap = Key_Map "(string \<times> 'b binding) list" "'b keymap_ref list" | Key_Function "string \<Rightarrow> 'b binding option"
  and 'b keymap_ref = Named string | Inline "'b keymap"

text \<open>
  The maps by name, and what a binding does: it returns whether it was handled, or throws, and
  leaves a state.
\<close>

type_synonym 'b keymap_table = "(string \<times> 'b keymap) list"
type_synonym ('b, 's) key_handler = "'b \<Rightarrow> 's \<Rightarrow> bool outcome \<times> 's"

datatype key_result = Nothing | Multi | Handled

fun getKeyMap :: "'b keymap_table \<Rightarrow> 'b keymap_ref \<Rightarrow> 'b keymap option" where
  "getKeyMap table (Named n) = map_of table n"
| "getKeyMap table (Inline m) = Some m"

fun binding_in :: "string \<Rightarrow> 'b keymap \<Rightarrow> 'b binding option" where
  "binding_in key (Key_Map bs refs) = map_of bs key"
| "binding_in key (Key_Function f) = f key"

fun fallthrough :: "'b keymap \<Rightarrow> 'b keymap_ref list" where
  "fallthrough (Key_Map bs refs) = refs"
| "fallthrough (Key_Function f) = []"

text \<open>What the binding itself gives; without a result the maps to fall through to are asked.\<close>

definition own_result :: "('b, 's) key_handler \<Rightarrow> 'b binding option \<Rightarrow> 's \<Rightarrow> key_result option outcome \<times> 's" where
  "own_result handle found s =
     (case found of
        None \<Rightarrow> (Return None, s)
      | Some Off \<Rightarrow> (Return (Some Nothing), s)
      | Some Dots \<Rightarrow> (Return (Some Multi), s)
      | Some (Bound b) \<Rightarrow>
          (case handle b s of
             (Throw, s') \<Rightarrow> (Throw, s')
           | (Return handled, s') \<Rightarrow> (Return (if handled then Some Handled else None), s')))"

text \<open>The maps of a list in turn, each with the maps it falls through to. A map that is not there throws.\<close>

partial_function (option) lookup_in ::
  "'b keymap_table \<Rightarrow> string \<Rightarrow> ('b, 's) key_handler \<Rightarrow> 'b keymap_ref list \<Rightarrow> 's \<Rightarrow> (key_result option outcome \<times> 's) option" where
  [code]: "lookup_in table key handle refs s =
     (case refs of
        [] \<Rightarrow> Some (Return None, s)
      | r # rs \<Rightarrow>
          (case getKeyMap table r of
             None \<Rightarrow> Some (Throw, s)
           | Some km \<Rightarrow>
               (case own_result handle (binding_in key km) s of
                  (out, s1) \<Rightarrow>
                    if out \<noteq> Return None then Some (out, s1)
                    else Option.bind (lookup_in table key handle (fallthrough km) s1)
                      (\<lambda>(out2, s2). if out2 \<noteq> Return None then Some (out2, s2) else lookup_in table key handle rs s2))))"

definition lookupKey ::
  "'b keymap_table \<Rightarrow> string \<Rightarrow> 'b keymap_ref \<Rightarrow> ('b, 's) key_handler \<Rightarrow> 's \<Rightarrow> (key_result option outcome \<times> 's) option" where
  "lookupKey table key km handle s = lookup_in table key handle [km] s"

record 'b key_options =
  ko_table :: "'b keymap_table"
  ko_keyMaps :: "'b keymap_ref list"
  ko_extraKeys :: "'b keymap_ref option"
  ko_keyMap :: "'b keymap_ref"

definition lookupKeyForEditor ::
  "'b key_options \<Rightarrow> string \<Rightarrow> ('b, 's) key_handler \<Rightarrow> 's \<Rightarrow> (key_result option outcome \<times> 's) option" where
  "lookupKeyForEditor opts name handle s =
     lookup_in (ko_table opts) name handle
       (ko_keyMaps opts @ (case ko_extraKeys opts of None \<Rightarrow> [] | Some m \<Rightarrow> [m]) @ [ko_keyMap opts]) s"

section \<open>Dispatching\<close>

text \<open>
  The keys typed of a sequence, and the sequence that the pending timer forgets. What happened is
  whether the default action was prevented and whether \<open>keyHandled\<close> was signalled.
\<close>

record 's keys_state =
  ks_keySeq :: "string option"
  ks_timer :: "string option"
  ks_prevented :: bool
  ks_signalled :: "string list"
  ks_editor :: 's

definition last_quote :: "string \<Rightarrow> bool" where "last_quote s \<longleftrightarrow> s \<noteq> [] \<and> last s = CHR 0x27"

definition dispatchKey ::
  "'b key_options \<Rightarrow> string \<Rightarrow> ('b, 's) key_handler \<Rightarrow> 's keys_state \<Rightarrow> (bool outcome \<times> 's keys_state) option" where
  "dispatchKey opts name handle ks =
     (let seq = ks_keySeq ks
      in if seq \<noteq> None \<and> isModifierKey name then Some (Return True, ks)
         else
           let ks1 = (case seq of None \<Rightarrow> ks | Some q \<Rightarrow> ks\<lparr>ks_timer := Some q\<rparr>);
               name = (case seq of None \<Rightarrow> name | Some q \<Rightarrow> q @ '' '' @ name)
           in case lookupKeyForEditor opts name handle (ks_editor ks1) of
                None \<Rightarrow> None
              | Some (Throw, s') \<Rightarrow> Some (Throw, ks1\<lparr>ks_editor := s'\<rparr>)
              | Some (Return result, s') \<Rightarrow>
                  let ks2 = ks1\<lparr>ks_editor := s'\<rparr>;
                      ks3 = (if result = Some Multi then ks2\<lparr>ks_keySeq := Some name\<rparr> else ks2);
                      ks4 = (if result = Some Handled then ks3\<lparr>ks_signalled := ks_signalled ks3 @ [name]\<rparr> else ks3);
                      ks5 = (if result = Some Handled \<or> result = Some Multi then ks4\<lparr>ks_prevented := True\<rparr> else ks4)
                  in if seq \<noteq> None \<and> result = None \<and> last_quote name then Some (Return True, ks5\<lparr>ks_prevented := True\<rparr>)
                     else Some (Return (result \<noteq> None), ks5))"

text \<open>The timer, 50 milliseconds after the last key of a sequence.\<close>

definition stopSeq_fires :: "'s keys_state \<Rightarrow> 's keys_state" where
  "stopSeq_fires ks =
     (case ks_timer ks of
        None \<Rightarrow> ks
      | Some q \<Rightarrow> (if ks_keySeq ks = Some q then ks\<lparr>ks_keySeq := None, ks_timer := None\<rparr> else ks\<lparr>ks_timer := None\<rparr>))"

section \<open>Commands\<close>

datatype action = Command string | Action nat bool

record 's command_editor =
  ce_shift :: bool
  ce_suppressEdits :: bool
  ce_readOnly :: bool
  ce_rest :: 's

type_synonym 's command = "'s command_editor \<Rightarrow> bool outcome \<times> 's command_editor"

text \<open>The commands by name, and the functions that are bound directly; the result is false for \<open>Pass\<close>.\<close>

record 's commands =
  named_command :: "string \<Rightarrow> 's command option"
  bound_function :: "nat \<Rightarrow> 's command"

definition doHandleBinding :: "'s commands \<Rightarrow> bool \<Rightarrow> action \<Rightarrow> 's command_editor \<Rightarrow> bool outcome \<times> 's command_editor" where
  "doHandleBinding cs dropShift bound ed =
     (case (case bound of Command n \<Rightarrow> named_command cs n | Action i motion \<Rightarrow> Some (bound_function cs i)) of
        None \<Rightarrow> (Return False, ed)
      | Some f \<Rightarrow>
          let prevShift = ce_shift ed;
              ed1 = (if ce_readOnly ed then ed\<lparr>ce_suppressEdits := True\<rparr> else ed);
              ed2 = (if dropShift then ed1\<lparr>ce_shift := False\<rparr> else ed1)
          in case f ed2 of (result, ed3) \<Rightarrow> (result, ed3\<lparr>ce_shift := prevShift, ce_suppressEdits := False\<rparr>))"

text \<open>Commands that move the cursor: \<open>go\<close> and an upper case letter, or marked as a motion.\<close>

fun is_motion :: "action \<Rightarrow> bool" where
  "is_motion (Command n) = (take 2 n = ''go'' \<and> length n > 2 \<and> (let c = of_char (n ! 2) :: nat in 65 \<le> c \<and> c \<le> 90))"
| "is_motion (Action i motion) = motion"

definition handleKeyBinding ::
  "platform \<Rightarrow> 's commands \<Rightarrow> action key_options \<Rightarrow> key_event \<Rightarrow> 's command_editor keys_state
     \<Rightarrow> (bool outcome \<times> 's command_editor keys_state) option" where
  "handleKeyBinding pf cs opts e ks =
     (case keyName pf e True of
        None \<Rightarrow> Some (Return False, ks)
      | Some name \<Rightarrow>
          if name = [] then Some (Return False, ks)
          else if ev_shiftKey e \<and> ks_keySeq ks = None
          then (case dispatchKey opts (''Shift-'' @ name) (doHandleBinding cs True) ks of
                  None \<Rightarrow> None
                | Some (Return False, ks1) \<Rightarrow>
                    dispatchKey opts name (\<lambda>b ed. if is_motion b then doHandleBinding cs False b ed else (Return False, ed)) ks1
                | Some r \<Rightarrow> Some r)
          else dispatchKey opts name (doHandleBinding cs False) ks)"

definition handleCharBinding ::
  "'s commands \<Rightarrow> action key_options \<Rightarrow> string \<Rightarrow> 's command_editor keys_state \<Rightarrow> (bool outcome \<times> 's command_editor keys_state) option" where
  "handleCharBinding cs opts ch ks = dispatchKey opts ([CHR 0x27] @ ch @ [CHR 0x27]) (doHandleBinding cs True) ks"

section \<open>The built-in maps\<close>

definition basic_keys :: "(string \<times> string) list" where
  "basic_keys =
    [(''Left'', ''goCharLeft''), (''Right'', ''goCharRight''), (''Up'', ''goLineUp''), (''Down'', ''goLineDown''),
     (''End'', ''goLineEnd''), (''Home'', ''goLineStartSmart''), (''PageUp'', ''goPageUp''), (''PageDown'', ''goPageDown''),
     (''Delete'', ''delCharAfter''), (''Backspace'', ''delCharBefore''), (''Shift-Backspace'', ''delCharBefore''),
     (''Tab'', ''defaultTab''), (''Shift-Tab'', ''indentAuto''), (''Enter'', ''newlineAndIndent''),
     (''Insert'', ''toggleOverwrite''), (''Esc'', ''singleSelection'')]"

definition pcDefault_keys :: "(string \<times> string) list" where
  "pcDefault_keys =
    [(''Ctrl-A'', ''selectAll''), (''Ctrl-D'', ''deleteLine''), (''Ctrl-Z'', ''undo''), (''Shift-Ctrl-Z'', ''redo''),
     (''Ctrl-Y'', ''redo''), (''Ctrl-Home'', ''goDocStart''), (''Ctrl-End'', ''goDocEnd''), (''Ctrl-Up'', ''goLineUp''),
     (''Ctrl-Down'', ''goLineDown''), (''Ctrl-Left'', ''goGroupLeft''), (''Ctrl-Right'', ''goGroupRight''),
     (''Alt-Left'', ''goLineStart''), (''Alt-Right'', ''goLineEnd''), (''Ctrl-Backspace'', ''delGroupBefore''),
     (''Ctrl-Delete'', ''delGroupAfter''), (''Ctrl-S'', ''save''), (''Ctrl-F'', ''find''), (''Ctrl-G'', ''findNext''),
     (''Shift-Ctrl-G'', ''findPrev''), (''Shift-Ctrl-F'', ''replace''), (''Shift-Ctrl-R'', ''replaceAll''),
     (''Ctrl-['', ''indentLess''), (''Ctrl-]'', ''indentMore''), (''Ctrl-U'', ''undoSelection''),
     (''Shift-Ctrl-U'', ''redoSelection''), (''Alt-U'', ''redoSelection'')]"

definition emacsy_keys :: "(string \<times> string) list" where
  "emacsy_keys =
    [(''Ctrl-F'', ''goCharRight''), (''Ctrl-B'', ''goCharLeft''), (''Ctrl-P'', ''goLineUp''), (''Ctrl-N'', ''goLineDown''),
     (''Alt-F'', ''goWordRight''), (''Alt-B'', ''goWordLeft''), (''Ctrl-A'', ''goLineStart''), (''Ctrl-E'', ''goLineEnd''),
     (''Ctrl-V'', ''goPageDown''), (''Shift-Ctrl-V'', ''goPageUp''), (''Ctrl-D'', ''delCharAfter''),
     (''Ctrl-H'', ''delCharBefore''), (''Alt-D'', ''delWordAfter''), (''Alt-Backspace'', ''delWordBefore''),
     (''Ctrl-K'', ''killLine''), (''Ctrl-T'', ''transposeChars''), (''Ctrl-O'', ''openLine'')]"

definition macDefault_keys :: "(string \<times> string) list" where
  "macDefault_keys =
    [(''Cmd-A'', ''selectAll''), (''Cmd-D'', ''deleteLine''), (''Cmd-Z'', ''undo''), (''Shift-Cmd-Z'', ''redo''),
     (''Cmd-Y'', ''redo''), (''Cmd-Home'', ''goDocStart''), (''Cmd-Up'', ''goDocStart''), (''Cmd-End'', ''goDocEnd''),
     (''Cmd-Down'', ''goDocEnd''), (''Alt-Left'', ''goGroupLeft''), (''Alt-Right'', ''goGroupRight''),
     (''Cmd-Left'', ''goLineLeft''), (''Cmd-Right'', ''goLineRight''), (''Alt-Backspace'', ''delGroupBefore''),
     (''Ctrl-Alt-Backspace'', ''delGroupAfter''), (''Alt-Delete'', ''delGroupAfter''), (''Cmd-S'', ''save''),
     (''Cmd-F'', ''find''), (''Cmd-G'', ''findNext''), (''Shift-Cmd-G'', ''findPrev''), (''Cmd-Alt-F'', ''replace''),
     (''Shift-Cmd-Alt-F'', ''replaceAll''), (''Cmd-['', ''indentLess''), (''Cmd-]'', ''indentMore''),
     (''Cmd-Backspace'', ''delWrappedLineLeft''), (''Cmd-Delete'', ''delWrappedLineRight''), (''Cmd-U'', ''undoSelection''),
     (''Shift-Cmd-U'', ''redoSelection''), (''Ctrl-Up'', ''goDocStart''), (''Ctrl-Down'', ''goDocEnd'')]"

definition command_map :: "(string \<times> string) list \<Rightarrow> string list \<Rightarrow> action keymap" where
  "command_map bs refs = Key_Map (map (\<lambda>(k, c). (k, Bound (Command c))) bs) (map Named refs)"

definition keyMap :: "bool \<Rightarrow> action keymap_table" where
  "keyMap mac =
     [(''basic'', command_map basic_keys []),
      (''pcDefault'', command_map pcDefault_keys [''basic'']),
      (''emacsy'', command_map emacsy_keys []),
      (''macDefault'', command_map macDefault_keys [''basic'', ''emacsy'']),
      (''default'', if mac then command_map macDefault_keys [''basic'', ''emacsy''] else command_map pcDefault_keys [''basic''])]"

section \<open>Normal names\<close>

lemma split_hyphens_nonempty [simp]: "split_hyphens w s \<noteq> []"
  by (induction w s rule: split_hyphens.induct) auto

text \<open>A name whose only hyphen may be its last character is one part.\<close>

lemma split_hyphens_plain: "CHR ''-'' \<notin> set (butlast b) \<Longrightarrow> split_hyphens w b = [rev w @ b]"
  by (induction b arbitrary: w) (auto split: if_splits)

lemma split_hyphens_last: "CHR ''-'' \<notin> set w \<Longrightarrow> CHR ''-'' \<notin> set (butlast (last (split_hyphens w s)))"
proof (induction w s rule: split_hyphens.induct)
  case (1 w)
  then show ?case by (cases w) auto
next
  case (2 w c s)
  then show ?case by (cases "s = []") (auto simp: butlast_append)
qed

lemma split_hyphens_last_empty: "last (split_hyphens w s) = [] \<Longrightarrow> w = [] \<and> s = []"
  by (induction w s rule: split_hyphens.induct) (auto split: if_splits)

lemma read_modifier_words:
  "read_modifier ''Alt'' ms = Return (ms\<lparr>mod_alt := True\<rparr>)"
  "read_modifier ''Ctrl'' ms = Return (ms\<lparr>mod_ctrl := True\<rparr>)"
  "read_modifier ''Cmd'' ms = Return (ms\<lparr>mod_cmd := True\<rparr>)"
  "read_modifier ''Shift'' ms = Return (ms\<lparr>mod_shift := True\<rparr>)"
proof -
  have "lower ''Alt'' = ''alt''" "lower ''Ctrl'' = ''ctrl''" "lower ''Cmd'' = ''cmd''" "lower ''Shift'' = ''shift''"
    by code_simp+
  then show
    "read_modifier ''Alt'' ms = Return (ms\<lparr>mod_alt := True\<rparr>)"
    "read_modifier ''Ctrl'' ms = Return (ms\<lparr>mod_ctrl := True\<rparr>)"
    "read_modifier ''Cmd'' ms = Return (ms\<lparr>mod_cmd := True\<rparr>)"
    "read_modifier ''Shift'' ms = Return (ms\<lparr>mod_shift := True\<rparr>)"
    by (simp_all add: read_modifier_def Let_def)
qed

definition plain_name :: "string \<Rightarrow> bool" where
  "plain_name b \<longleftrightarrow> b \<noteq> [] \<and> CHR ''-'' \<notin> set (butlast b)"

lemma normalize_with_modifiers:
  "plain_name b \<Longrightarrow> normalizeKeyName (with_modifiers ms b) = Return (with_modifiers ms b)"
  by (cases ms)
    (auto simp: plain_name_def normalizeKeyName_def with_modifiers_def split_hyphens_plain read_modifier_words no_modifiers_def Let_def)

lemma normalize_is_plain:
  assumes "normalizeKeyName s = Return n" "s \<noteq> []"
  obtains ms b where "plain_name b" "n = with_modifiers ms b"
proof -
  have "plain_name (last (split_hyphens [] s))"
    using assms(2) split_hyphens_last [of "[]" s] split_hyphens_last_empty [of "[]" s] by (auto simp: plain_name_def)
  with assms(1) that show thesis by (auto simp: normalizeKeyName_def Let_def split: outcome.splits)
qed

lemma normalize_idem:
  assumes "normalizeKeyName s = Return n"
  shows "normalizeKeyName n = Return n"
proof (cases "s = []")
  case True
  with assms show ?thesis by (auto simp: normalizeKeyName_def no_modifiers_def with_modifiers_def Let_def)
next
  case False
  with assms obtain ms b where "plain_name b" "n = with_modifiers ms b" by (rule normalize_is_plain)
  then show ?thesis by (simp add: normalize_with_modifiers)
qed

lemma dec_string_plain: "n < 10 \<Longrightarrow> plain_name (dec_string n)" "n \<le> 12 \<Longrightarrow> CHR ''-'' \<notin> set (butlast (dec_string n))"
proof -
  show "n < 10 \<Longrightarrow> plain_name (dec_string n)" by (simp add: plain_name_def dec_string_def)
  assume "n \<le> 12"
  then have "n < 10 \<or> n div 10 = 1" by auto
  moreover have "char_of (49::nat) \<noteq> CHR ''-''" by code_simp
  ultimately show "CHR ''-'' \<notin> set (butlast (dec_string n))" by (auto simp: plain_name_def dec_string_def)
qed

lemma keyNames_plain: "keyNames n = Some b \<Longrightarrow> plain_name b"
  unfolding keyNames_def
  by (auto split: if_splits intro: dec_string_plain simp: plain_name_def [of "[x]" for x] dest!: map_of_SomeD)
     (auto simp: plain_name_def dec_string_plain(2))

text \<open>The modifiers of an event, as the names of keys have them.\<close>

definition event_modifiers :: "platform \<Rightarrow> string \<Rightarrow> key_event \<Rightarrow> bool \<Rightarrow> modifiers" where
  "event_modifiers pf base e noShift =
     \<lparr>mod_alt = ev_altKey e \<and> base \<noteq> ''Alt'',
      mod_ctrl = (if flipCtrlCmd pf then ev_metaKey e else ev_ctrlKey e) \<and> base \<noteq> ''Ctrl'',
      mod_shift = \<not> noShift \<and> ev_shiftKey e \<and> base \<noteq> ''Shift'',
      mod_cmd = (if flipCtrlCmd pf then ev_ctrlKey e else ev_metaKey e) \<and> base \<noteq> ''Cmd''\<rparr>"

lemma addModifierNames_with_modifiers: "addModifierNames pf name e noShift = with_modifiers (event_modifiers pf name e noShift) name"
  by (simp add: addModifierNames_def with_modifiers_def event_modifiers_def Let_def)

lemma keyName_normal: "keyName pf e noShift = Some n \<Longrightarrow> normalizeKeyName n = Return n"
  by (auto simp: keyName_def addModifierNames_with_modifiers split: if_splits option.splits
      intro!: normalize_with_modifiers intro: keyNames_plain)

section \<open>Compiled maps\<close>

text \<open>Binding keeps the bindings that are there, \<open>false\<close> apart, and enters the new one.\<close>

definition keeps :: "(string \<times> 'b binding) list \<Rightarrow> (string \<times> 'b binding) list \<Rightarrow> bool" where
  "keeps copy copy' \<longleftrightarrow> (\<forall>n v. map_of copy n = Some v \<and> v \<noteq> Off \<longrightarrow> map_of copy' n = Some v)"

lemma keeps_refl [simp, intro]: "keeps copy copy"
  by (simp add: keeps_def)

lemma keeps_trans [trans]: "keeps a b \<Longrightarrow> keeps b c \<Longrightarrow> keeps a c"
  by (simp add: keeps_def)

lemma map_of_replace: "map_of (map (\<lambda>(n, v). (n, if n = name then val else v)) xs) k =
    (if k = name \<and> map_of xs k \<noteq> None then Some val else map_of xs k)"
  by (induction xs) auto

lemma bind_key_keeps: "bind_key name val copy = Return copy' \<Longrightarrow> keeps copy copy' \<and> map_of copy' name = Some val"
  by (auto simp: bind_key_def keeps_def map_of_replace map_add_def split: option.splits if_splits)

text \<open>The names a sequence of keys is entered under, with their values.\<close>

definition sequence_bound :: "string list \<Rightarrow> string list \<Rightarrow> 'b binding \<Rightarrow> (string \<times> 'b binding) list \<Rightarrow> bool" where
  "sequence_bound got ks val copy \<longleftrightarrow>
     (ks \<noteq> [] \<longrightarrow> map_of copy (join_blanks (got @ ks)) = Some val) \<and>
     (\<forall>i. 0 < i \<and> i < length ks \<longrightarrow> map_of copy (join_blanks (got @ take i ks)) = Some Dots)"

lemma sequence_bound_keeps: "sequence_bound got ks val copy \<Longrightarrow> keeps copy copy' \<Longrightarrow> val \<noteq> Off \<Longrightarrow> sequence_bound got ks val copy'"
  unfolding sequence_bound_def keeps_def by (metis binding.distinct(1))

lemma bind_prefixes_bound:
  assumes "bind_prefixes got ks val copy = Return copy'" "val \<noteq> Off"
  shows "keeps copy copy' \<and> sequence_bound got ks val copy'"
  using assms
proof (induction got ks val copy rule: bind_prefixes.induct)
  case (1 got val copy)
  then show ?case by (simp add: sequence_bound_def)
next
  case (2 got k ks val copy)
  let ?v = "if ks = [] then val else Dots"
  from "2.prems" obtain mid where mid: "bind_key (join_blanks (got @ [k])) ?v copy = Return mid"
    and rest: "bind_prefixes (got @ [k]) ks val mid = Return copy'" by (auto split: outcome.splits)
  have first: "keeps copy mid" "map_of mid (join_blanks (got @ [k])) = Some ?v"
    using bind_key_keeps [OF mid] by auto
  have later: "keeps mid copy'" "sequence_bound (got @ [k]) ks val copy'"
    using "2.IH" [OF mid rest "2.prems"(2)] by auto
  have here: "map_of copy' (join_blanks (got @ [k])) = Some ?v"
    using first(2) later(1) "2.prems"(2) by (auto simp: keeps_def split: if_splits)
  have "sequence_bound got (k # ks) val copy'"
    unfolding sequence_bound_def
  proof (intro conjI allI impI)
    show "map_of copy' (join_blanks (got @ k # ks)) = Some val"
      using here later(2) by (cases "ks = []") (auto simp: sequence_bound_def)
  next
    fix i assume i: "0 < i \<and> i < length (k # ks)"
    then obtain j where j: "i = Suc j" "j < length ks" by (cases i) auto
    show "map_of copy' (join_blanks (got @ take i (k # ks))) = Some Dots"
      using here later(2) j by (cases "j = 0") (auto simp: sequence_bound_def)
  qed
  with first(1) later(1) show ?case by (auto intro: keeps_trans)
qed

text \<open>The compiled map has what it was compiled from, and what it had before.\<close>

lemma compile_keys_bound:
  assumes "compile_keys keymap copy = Return copy'" "\<forall>(k, v) \<in> set keymap. v \<noteq> Off"
  shows "keeps copy copy' \<and> (\<forall>(k, v) \<in> set keymap. \<not> special_key k \<and> v \<noteq> Dots \<longrightarrow>
    (\<exists>ns. normalize_all (split_blanks [] k) = Return ns \<and> sequence_bound [] ns v copy'))"
  using assms
proof (induction keymap copy rule: compile_keys.induct)
  case (1 copy)
  then show ?case by simp
next
  case (2 k v rest copy)
  show ?case
  proof (cases "special_key k \<or> v = Dots")
    case True
    with 2 show ?thesis by auto
  next
    case False
    with "2.prems" obtain ns mid where ns: "normalize_all (split_blanks [] k) = Return ns"
      and mid: "bind_prefixes [] ns v copy = Return mid" and rest: "compile_keys rest mid = Return copy'"
      by (auto split: outcome.splits)
    have first: "keeps copy mid" "sequence_bound [] ns v mid"
      using bind_prefixes_bound [OF mid] "2.prems"(2) by auto
    have later: "keeps mid copy'" "\<forall>(k, v) \<in> set rest. \<not> special_key k \<and> v \<noteq> Dots \<longrightarrow>
        (\<exists>ns. normalize_all (split_blanks [] k) = Return ns \<and> sequence_bound [] ns v copy')"
      using "2.IH"(2) [OF False ns mid rest] "2.prems"(2) by auto
    have "sequence_bound [] ns v copy'" using sequence_bound_keeps [OF first(2) later(1)] "2.prems"(2) by auto
    with ns later first(1) show ?thesis by (auto intro: keeps_trans)
  qed
qed

lemma normalizeKeyMap_bound:
  assumes "normalizeKeyMap keymap = Return out" "\<forall>(k, v) \<in> set keymap. v \<noteq> Off"
    "(k, v) \<in> set keymap" "\<not> special_key k" "v \<noteq> Dots"
  shows "\<exists>ns. normalize_all (split_blanks [] k) = Return ns \<and> sequence_bound [] ns v out"
proof -
  from assms(1) obtain copy where copy: "compile_keys keymap [] = Return copy"
    and out: "out = filter (\<lambda>(k, v). special_key k \<and> map_of copy k = None) keymap @ copy"
    by (auto simp: normalizeKeyMap_def split: outcome.splits)
  have "keeps copy out"
  proof -
    have "map_of (filter (\<lambda>(k, v). special_key k \<and> map_of copy k = None) keymap) n = None" if "map_of copy n \<noteq> None" for n
      using that by (induction keymap) auto
    then show ?thesis by (auto simp: keeps_def out map_add_def split: option.splits)
  qed
  then show ?thesis using compile_keys_bound [OF copy assms(2)] assms(2-5) sequence_bound_keeps by fastforce
qed

section \<open>Typing a sequence\<close>

text \<open>Keys typed one after the other, before the timer of the sequence fires.\<close>

fun type_keys ::
  "'b key_options \<Rightarrow> ('b, 's) key_handler \<Rightarrow> string list \<Rightarrow> 's keys_state \<Rightarrow> (bool outcome list \<times> 's keys_state) option" where
  "type_keys opts handle [] ks = Some ([], ks)"
| "type_keys opts handle (n # ns) ks =
     (case dispatchKey opts n handle ks of
        None \<Rightarrow> None
      | Some (r, ks1) \<Rightarrow>
          (case type_keys opts handle ns ks1 of None \<Rightarrow> None | Some (rs, ks2) \<Rightarrow> Some (r # rs, ks2)))"

lemma join_blanks_snoc: "p \<noteq> [] \<Longrightarrow> join_blanks (p @ [k]) = join_blanks p @ '' '' @ k"
  by (induction p rule: join_blanks.induct) auto

text \<open>The keys typed so far are remembered, nothing at the start.\<close>

definition typed :: "string list \<Rightarrow> 's keys_state \<Rightarrow> bool" where
  "typed p ks \<longleftrightarrow> ks_keySeq ks = (if p = [] then None else Some (join_blanks p))"

lemma first_map_decides:
  assumes "ko_keyMaps opts = Inline (Key_Map out refs) # maps" "own_result handle (map_of out name) s = (Return (Some res), s')"
  shows "lookupKeyForEditor opts name handle s = Some (Return (Some res), s')"
  using assms by (simp add: lookupKeyForEditor_def lookup_in.simps)

lemma dispatch_typed:
  assumes maps: "ko_keyMaps opts = Inline (Key_Map out refs) # maps" and p: "typed p ks"
    and plain: "p = [] \<or> \<not> isModifierKey k"
    and found: "own_result handle (map_of out (join_blanks (p @ [k]))) (ks_editor ks) = (Return (Some res), s')"
    and res: "res = Multi \<or> res = Handled"
  obtains ks' where "dispatchKey opts k handle ks = Some (Return True, ks')" "ks_editor ks' = s'"
    "res = Multi \<Longrightarrow> typed (p @ [k]) ks' \<and> ks_signalled ks' = ks_signalled ks"
    "res = Handled \<Longrightarrow> typed p ks' \<and> ks_signalled ks' = ks_signalled ks @ [join_blanks (p @ [k])]"
    "ks_prevented ks'"
proof (cases "p = []")
  case True
  with p found first_map_decides [OF maps, of handle k] res show thesis
    by (intro that) (auto simp: dispatchKey_def typed_def Let_def)
next
  case False
  with p found first_map_decides [OF maps, of handle "join_blanks p @ '' '' @ k"] res plain show thesis
    by (intro that) (auto simp: dispatchKey_def typed_def join_blanks_snoc Let_def)
qed

lemma type_keys_sequence:
  assumes maps: "ko_keyMaps opts = Inline (Key_Map out refs) # maps" and handled: "handle b s = (Return True, s')"
  shows "typed p ks \<Longrightarrow> ks_editor ks = s \<Longrightarrow> sequence_bound p ns (Bound b) out \<Longrightarrow> ns \<noteq> []
    \<Longrightarrow> \<forall>n \<in> set (if p = [] then tl ns else ns). \<not> isModifierKey n
    \<Longrightarrow> \<exists>ks'. type_keys opts handle ns ks = Some (map (\<lambda>n. Return True) ns, ks') \<and> ks_editor ks' = s'
         \<and> ks_signalled ks' = ks_signalled ks @ [join_blanks (p @ ns)] \<and> ks_prevented ks' \<and> typed (p @ butlast ns) ks'"
proof (induction ns arbitrary: p ks)
  case Nil
  then show ?case by simp
next
  case (Cons n ns)
  have plain: "p = [] \<or> \<not> isModifierKey n" using Cons.prems(5) by auto
  show ?case
  proof (cases "ns = []")
    case True
    then have "own_result handle (map_of out (join_blanks (p @ [n]))) (ks_editor ks) = (Return (Some Handled), s')"
      using Cons.prems handled by (simp add: sequence_bound_def own_result_def)
    from dispatch_typed [OF maps Cons.prems(1) plain this] obtain ks' where "dispatchKey opts n handle ks = Some (Return True, ks')"
      "ks_editor ks' = s'" "typed p ks'" "ks_signalled ks' = ks_signalled ks @ [join_blanks (p @ [n])]" "ks_prevented ks'" by auto
    then show ?thesis by (simp add: True)
  next
    case False
    have "map_of out (join_blanks (p @ [n])) = Some Dots"
      using Cons.prems(3) False spec [where x = 1] by (fastforce simp: sequence_bound_def)
    then have "own_result handle (map_of out (join_blanks (p @ [n]))) (ks_editor ks) = (Return (Some Multi), s)"
      using Cons.prems by (simp add: own_result_def)
    from dispatch_typed [OF maps Cons.prems(1) plain this] obtain ks1 where step: "dispatchKey opts n handle ks = Some (Return True, ks1)"
      "ks_editor ks1 = s" "typed (p @ [n]) ks1" "ks_signalled ks1 = ks_signalled ks" by auto
    have bound: "sequence_bound (p @ [n]) ns (Bound b) out"
      unfolding sequence_bound_def
    proof (intro conjI allI impI)
      show "map_of out (join_blanks ((p @ [n]) @ ns)) = Some (Bound b)" using Cons.prems(3) by (simp add: sequence_bound_def)
      fix i assume "0 < i \<and> i < length ns"
      then show "map_of out (join_blanks ((p @ [n]) @ take i ns)) = Some Dots"
        using Cons.prems(3) unfolding sequence_bound_def by (auto dest!: spec [where x = "Suc i"])
    qed
    have later: "\<forall>m \<in> set (if p @ [n] = [] then tl ns else ns). \<not> isModifierKey m"
      using Cons.prems(5) by (auto split: if_splits)
    obtain ks' where "type_keys opts handle ns ks1 = Some (map (\<lambda>n. Return True) ns, ks')" "ks_editor ks' = s'"
      "ks_signalled ks' = ks_signalled ks1 @ [join_blanks ((p @ [n]) @ ns)]" "ks_prevented ks'" "typed ((p @ [n]) @ butlast ns) ks'"
      using Cons.IH [OF step(3) step(2) bound False later] by blast
    with step False show ?thesis by simp
  qed
qed

lemma split_blanks_nonempty [simp]: "split_blanks w s \<noteq> []"
  by (induction w s rule: split_blanks.induct) auto

lemma normalize_all_length: "normalize_all ks = Return ns \<Longrightarrow> length ns = length ks"
  by (induction ks arbitrary: ns) (auto split: outcome.splits)

section \<open>Properties\<close>

text \<open>Every name that \<open>keyName\<close> gives to a key event, in either modifier order of the platform, is one
  that \<open>normalizeKeyName\<close> leaves alone, and normalizing twice is normalizing once: what is looked up is
  spelled as the compiled maps spell it.\<close>

theorem key_names_normalized:
  "(case keyName pf e noShift of None \<Rightarrow> True | Some n \<Rightarrow> normalizeKeyName n = Return n) \<and>
   (case normalizeKeyName s of Throw \<Rightarrow> True | Return n \<Rightarrow> normalizeKeyName n = Return n)"
  using keyName_normal [of pf e noShift] normalize_idem [of s] by (auto split: option.splits outcome.splits)


definition demo_bindings :: "(string \<times> nat binding) list" where
  "demo_bindings = [(''name'', Bound 0), (''c-X Meta-Shift-S'', Bound 1), (''Ctrl-X m-S-U'', Bound 2), (''Alt-Q'', Bound 3)]"

definition demo_compiled :: "(string \<times> nat binding) list" where
  "demo_compiled = [(''name'', Bound 0), (''Ctrl-X'', Dots), (''Ctrl-X Shift-Cmd-S'', Bound 1), (''Ctrl-X Shift-Cmd-U'', Bound 2), (''Alt-Q'', Bound 3)]"

definition demo_handle :: "(nat, nat list) key_handler" where
  "demo_handle b s = (Return True, s @ [b])"

definition demo_options :: "nat key_options" where
  "demo_options = \<lparr>ko_table = [], ko_keyMaps = [Inline (Key_Map demo_compiled [])], ko_extraKeys = None, ko_keyMap = Named ''default''\<rparr>"

definition demo_start :: "nat list keys_state" where
  "demo_start = \<lparr>ks_keySeq = None, ks_timer = None, ks_prevented = False, ks_signalled = [], ks_editor = [7]\<rparr>"

lemma demo_facts:
  "normalizeKeyMap demo_bindings = Return demo_compiled"
  "normalize_all (split_blanks [] ''c-X Meta-Shift-S'') = Return [''Ctrl-X'', ''Shift-Cmd-S'']"
  by code_simp+


text \<open>
  The sequence that was typed stays pending when its command has run, until the timer fires: the last
  key alone runs the command again.
\<close>

lemma handled_sequence_stays_pending:
  "type_keys demo_options demo_handle [''Ctrl-X'', ''Shift-Cmd-S'', ''Shift-Cmd-S''] demo_start =
     Some ([Return True, Return True, Return True],
       \<lparr>ks_keySeq = Some ''Ctrl-X'', ks_timer = Some ''Ctrl-X'', ks_prevented = True,
        ks_signalled = [''Ctrl-X Shift-Cmd-S'', ''Ctrl-X Shift-Cmd-S''], ks_editor = [7, 1, 1]\<rparr>)"
  by (simp add: dispatchKey_def lookupKeyForEditor_def lookup_in.simps own_result_def demo_options_def demo_compiled_def
      demo_handle_def demo_start_def isModifierKey_def Let_def)

text \<open>The character binding of a hyphen has no normal name.\<close>

lemma hyphen_char_not_normalized: "normalizeKeyName ([CHR 0x27] @ ''-'' @ [CHR 0x27]) = Throw"
  by code_simp


end
