(* ===== verification/Cm_Rebase.thy ===== *)
theory Cm_Rebase
  imports Cm_History
begin

text \<open>
  Rebasing the history (\<open>codemirror.js\<close>): when a change comes from a linked document, the events of
  the history are moved to where their lines are now, and events that touch the changed lines are
  to go, with everything behind them. The loop goes from the oldest event to the newest, so
  it works on the stacks reversed.
\<close>

section \<open>Moving positions\<close>

definition rebaseHistSelSingle :: "int \<Rightarrow> int \<Rightarrow> int \<Rightarrow> pos \<Rightarrow> pos" where
  "rebaseHistSelSingle from_line to_line diff p =
     (if to_line < ps_line p then p\<lparr>ps_line := ps_line p + diff\<rparr>
      else if from_line < ps_line p then p\<lparr>ps_line := from_line, ps_ch := 0\<rparr> else p)"

definition rebase_selection :: "int \<Rightarrow> int \<Rightarrow> int \<Rightarrow> selection \<Rightarrow> selection" where
  "rebase_selection from_line to_line diff s =
     (let move = rebaseHistSelSingle from_line to_line diff
      in (sel_deepCopy s)\<lparr>sl_ranges := map (\<lambda>r. Range (move (rg_anchor r)) (move (rg_head r))) (sl_ranges (sel_deepCopy s))\<rparr>)"

text \<open>One change of an event; without a result the change touches the lines.\<close>

definition rebase_change :: "int \<Rightarrow> int \<Rightarrow> int \<Rightarrow> hist_change \<Rightarrow> hist_change option" where
  "rebase_change from_line to_line diff cur =
     (if to_line < ps_line (hc_from cur)
      then Some (cur\<lparr>hc_from := Pos (ps_line (hc_from cur) + diff) (ps_ch (hc_from cur)),
                     hc_to := Pos (ps_line (hc_to cur) + diff) (ps_ch (hc_to cur))\<rparr>)
      else if from_line \<le> ps_line (hc_to cur) then None
      else Some cur)"

fun rebase_changes :: "int \<Rightarrow> int \<Rightarrow> int \<Rightarrow> hist_change list \<Rightarrow> hist_change list option" where
  "rebase_changes from_line to_line diff [] = Some []"
| "rebase_changes from_line to_line diff (c # cs) =
     (case rebase_change from_line to_line diff c of
        None \<Rightarrow> None
      | Some c' \<Rightarrow> map_option (\<lambda>cs'. c' # cs') (rebase_changes from_line to_line diff cs))"

fun rebase_event :: "int \<Rightarrow> int \<Rightarrow> int \<Rightarrow> hist_event \<Rightarrow> hist_event option" where
  "rebase_event from_line to_line diff (SelEvent s) = Some (SelEvent (rebase_selection from_line to_line diff s))"
| "rebase_event from_line to_line diff (ChangeEvent cs g) =
     map_option (\<lambda>cs'. ChangeEvent cs' g) (rebase_changes from_line to_line diff cs)"

section \<open>The loop\<close>

text \<open>
  The events before the index and from it on. When an event touches the lines, it goes with all
  before it; the index is set to 0 and then incremented, so the event that is first now is passed over.
\<close>

fun rebase_loop :: "int \<Rightarrow> int \<Rightarrow> int \<Rightarrow> hist_event list \<Rightarrow> hist_event list \<Rightarrow> hist_event list" where
  "rebase_loop from_line to_line diff passed [] = passed"
| "rebase_loop from_line to_line diff passed (e # es) =
     (case rebase_event from_line to_line diff e of
        Some e' \<Rightarrow> rebase_loop from_line to_line diff (passed @ [e']) es
      | None \<Rightarrow> (case es of [] \<Rightarrow> [] | e1 # es1 \<Rightarrow> rebase_loop from_line to_line diff [e1] es1))"

definition rebaseHistArray :: "hist_event list \<Rightarrow> int \<Rightarrow> int \<Rightarrow> int \<Rightarrow> hist_event list" where
  "rebaseHistArray events from_line to_line diff = rev (rebase_loop from_line to_line diff [] (rev events))"

definition rebaseHist :: "history \<Rightarrow> change \<Rightarrow> history" where
  "rebaseHist hist c =
     (let from_line = ps_line (cg_from c); to_line = ps_line (cg_to c);
          diff = int (length (cg_text c)) - (to_line - from_line) - 1
      in hist\<lparr>hs_done := rebaseHistArray (hs_done hist) from_line to_line diff,
              hs_undone := rebaseHistArray (hs_undone hist) from_line to_line diff\<rparr>)"

section \<open>Events that do not touch the changed lines\<close>

definition line_diff :: "change \<Rightarrow> int" where
  "line_diff c = int (length (cg_text c)) - (ps_line (cg_to c) - ps_line (cg_from c)) - 1"

lemma rebase_loop_untouched:
  "list_all2 (\<lambda>e e'. rebase_event a b n e = Some e') es es' \<Longrightarrow> rebase_loop a b n passed es = passed @ es'"
  by (induction es es' arbitrary: passed rule: list_all2_induct) auto

lemma rebaseHistArray_untouched:
  "list_all2 (\<lambda>e e'. rebase_event a b n e = Some e') es es' \<Longrightarrow> rebaseHistArray es a b n = es'"
  using rebase_loop_untouched [of a b n "rev es" "rev es'" "[]"] by (simp add: rebaseHistArray_def)

text \<open>The lines before and behind a change.\<close>

lemma changed_lines_nth:
  assumes "valid_change d c"
  defines "i \<equiv> nat (ps_line (cg_from c) - td_first d)" and "j \<equiv> nat (ps_line (cg_to c) - td_first d)"
  shows "k < i \<Longrightarrow> k < length (changed_lines d c) \<and> changed_lines d c ! k = doc_lines d ! k"
    and "j < k \<Longrightarrow> k < length (doc_lines d) \<Longrightarrow>
      (k + length (cg_text c)) - (j - i) - 1 < length (changed_lines d c) \<and>
      changed_lines d c ! ((k + length (cg_text c)) - (j - i) - 1) = doc_lines d ! k"
proof -
  let ?L = "doc_lines d" and ?t = "cg_text c"
  have v: "valid_cut ?L (cut_of d (cg_from c))" "valid_cut ?L (cut_of d (cg_to c))" "?t \<noteq> []"
    and le: "cut_le (cut_of d (cg_from c)) (cut_of d (cg_to c))"
    using assms(1) cmp_cut(1) by (auto simp: valid_change_def valid_pos_def)
  then have ij: "i \<le> j" "j < length ?L" by (auto simp: valid_cut_def cut_of_def cut_le_def i_def j_def)
  obtain x where whole: "changed_lines d c = take i ?L @ x @ drop (Suc j) ?L" and x: "length x = length ?t"
  proof -
    let ?b = "take (nat (ps_ch (cg_from c))) (?L ! i)" and ?e = "drop (nat (ps_ch (cg_to c))) (?L ! j)"
    have "changed_lines d c = take i ?L @ join [?b] (join ?t [?e]) @ drop (Suc j) ?L"
      using v(3) by (simp add: changed_lines_def cut_before_def cut_after_def cut_of_def i_def j_def join_eq butlast_append)
        (cases ?t rule: rev_cases; auto simp: hd_append tl_append split: list.splits)
    moreover have "length (join [?b] (join ?t [?e])) = length ?t" using v(3) by (simp add: length_join)
    ultimately show thesis using that by blast
  qed
  show "k < i \<Longrightarrow> k < length (changed_lines d c) \<and> changed_lines d c ! k = ?L ! k"
    using ij by (simp add: whole nth_append)
  assume k: "j < k" "k < length ?L"
  then obtain r where r: "k = Suc j + r" by (metis less_imp_Suc_add add_Suc)
  have index: "(k + length ?t) - (j - i) - 1 = i + length x + r" using ij r x by simp
  have "(take i ?L @ x @ drop (Suc j) ?L) ! (i + length x + r) = ?L ! k"
    using ij k r by (simp add: nth_append)
  moreover have "i + length x + r < length (take i ?L @ x @ drop (Suc j) ?L)" using ij k r by simp
  ultimately show "(k + length ?t) - (j - i) - 1 < length (changed_lines d c) \<and> changed_lines d c ! ((k + length ?t) - (j - i) - 1) = ?L ! k"
    unfolding index whole by blast
qed


lemma cut_between_shift:
  assumes "\<And>k. fst p \<le> k \<Longrightarrow> k \<le> fst q \<Longrightarrow> L' ! (k + n - m) = L ! k" "fst p \<le> fst q" "m \<le> fst p"
  shows "cut_between L' (fst p + n - m, snd p) (fst q + n - m, snd q) = cut_between L p q"
proof -
  have mid: "map (\<lambda>i. L' ! i) [Suc (fst p + n - m)..<fst q + n - m] = map (\<lambda>i. L ! i) [Suc (fst p)..<fst q]"
  proof (rule nth_equalityI)
    show "length (map (\<lambda>i. L' ! i) [Suc (fst p + n - m)..<fst q + n - m]) = length (map (\<lambda>i. L ! i) [Suc (fst p)..<fst q])"
      using assms(2,3) by simp
    fix i assume "i < length (map (\<lambda>i. L' ! i) [Suc (fst p + n - m)..<fst q + n - m])"
    then have i: "Suc (fst p) + i < fst q" using assms(3) by simp
    have "Suc (fst p + n - m) + i = (Suc (fst p) + i) + n - m" using assms(3) by simp
    with i assms(1) [of "Suc (fst p) + i"]
    show "map (\<lambda>i. L' ! i) [Suc (fst p + n - m)..<fst q + n - m] ! i = map (\<lambda>i. L ! i) [Suc (fst p)..<fst q] ! i"
      using assms(3) by simp
  qed
  have "fst p + n - m = fst q + n - m \<longleftrightarrow> fst p = fst q" using assms(2,3) by auto
  with mid assms show ?thesis by (simp add: cut_between_def)
qed

text \<open>A rebased change has the range in the changed document that the change had in the document before.\<close>

lemma rebase_change_target:
  assumes d: "text_ok d" "valid_change d c" and d': "text_ok d'" "td_first d' = td_first d" "doc_lines d' = changed_lines d c"
    and h: "valid_pos d (hc_from h)" "valid_pos d (hc_to h)" "cmp (hc_from h) (hc_to h) \<le> 0"
    and r: "rebase_change (ps_line (cg_from c)) (ps_line (cg_to c)) (line_diff c) h = Some h'"
  shows "valid_pos d' (hc_from h') \<and> valid_pos d' (hc_to h') \<and>
    getBetween d' (hc_from h') (hc_to h') = getBetween d (hc_from h) (hc_to h) \<and> hc_text h' = hc_text h \<and> hc_spans h' = hc_spans h"
proof -
  let ?i = "nat (ps_line (cg_from c) - td_first d)" and ?j = "nat (ps_line (cg_to c) - td_first d)"
  let ?n = "length (cg_text c)" and ?p = "cut_of d (hc_from h)" and ?q = "cut_of d (hc_to h)"
  have v: "td_first d \<le> ps_line (cg_from c)" "ps_line (cg_from c) \<le> ps_line (cg_to c)" "?n > 0"
    using d(2) by (auto simp: valid_change_def valid_pos_def cmp_def split: if_splits)
  have le: "cut_le ?p ?q" using cmp_cut(1) [OF h(1,2)] h(3) by simp
  have cuts: "valid_cut (doc_lines d) ?p" "valid_cut (doc_lines d) ?q" "td_first d \<le> ps_line (hc_from h)" "td_first d \<le> ps_line (hc_to h)"
    "0 \<le> ps_ch (hc_from h)" "0 \<le> ps_ch (hc_to h)" using h by (auto simp: valid_pos_def)
  have between: "getBetween d (hc_from h) (hc_to h) = cut_between (doc_lines d) ?p ?q"
    by (rule getBetween_eq [OF d(1) h(1,2) le])
  have pq: "fst ?p \<le> fst ?q" "fst ?q < length (doc_lines d)" using le cuts by (auto simp: cut_le_def valid_cut_def)
  have result: ?thesis if same: "hc_text h' = hc_text h" "hc_spans h' = hc_spans h"
    and pos: "td_first d \<le> ps_line (hc_from h')" "td_first d \<le> ps_line (hc_to h')"
      "ps_ch (hc_from h') = ps_ch (hc_from h)" "ps_ch (hc_to h') = ps_ch (hc_to h)"
    and f: "cut_of d (hc_from h') = (fst ?p + a - b, snd ?p)" "cut_of d (hc_to h') = (fst ?q + a - b, snd ?q)" "b \<le> fst ?p"
    and nth: "\<And>k. fst ?p \<le> k \<Longrightarrow> k \<le> fst ?q \<Longrightarrow> k + a - b < length (doc_lines d') \<and> doc_lines d' ! (k + a - b) = doc_lines d ! k"
    for a b
  proof -
    have cut: "cut_of d' x = cut_of d x" for x by (simp add: cut_of_def d'(2))
    have ends: "fst ?p + a - b < length (doc_lines d')" "doc_lines d' ! (fst ?p + a - b) = doc_lines d ! fst ?p"
      "fst ?q + a - b < length (doc_lines d')" "doc_lines d' ! (fst ?q + a - b) = doc_lines d ! fst ?q"
      using nth [of "fst ?p"] nth [of "fst ?q"] pq(1) by auto
    have valid: "valid_pos d' (hc_from h')" "valid_pos d' (hc_to h')"
      using pos cuts ends unfolding valid_pos_def valid_cut_def cut f d'(2) by simp_all
    have "cut_le (fst ?p + a - b, snd ?p) (fst ?q + a - b, snd ?q)"
      using le f(3) by (auto simp: cut_le_def)
    then have "getBetween d' (hc_from h') (hc_to h') = cut_between (doc_lines d') (fst ?p + a - b, snd ?p) (fst ?q + a - b, snd ?q)"
      using getBetween_eq [OF d'(1) valid] unfolding cut f by blast
    also have "\<dots> = cut_between (doc_lines d) ?p ?q"
      using nth pq(1) f(3) by (intro cut_between_shift) auto
    finally show ?thesis using valid same between by simp
  qed
  from r consider (behind) "ps_line (cg_to c) < ps_line (hc_from h)"
      "h' = h\<lparr>hc_from := Pos (ps_line (hc_from h) + line_diff c) (ps_ch (hc_from h)),
              hc_to := Pos (ps_line (hc_to h) + line_diff c) (ps_ch (hc_to h))\<rparr>"
    | (before) "ps_line (hc_to h) < ps_line (cg_from c)" "h' = h"
    by (auto simp: rebase_change_def split: if_splits)
  then show ?thesis
  proof cases
    case behind
    have lines: "ps_line (hc_from h) \<le> ps_line (hc_to h)" using h(3) by (auto simp: cmp_def split: if_splits)
    show ?thesis
    proof (rule result [of ?n "Suc (?j - ?i)"])
      fix k assume "fst ?p \<le> k" "k \<le> fst ?q"
      then have "?j < k" "k < length (doc_lines d)" using behind(1) v pq(2) by (auto simp: cut_of_def)
      from changed_lines_nth(2) [OF d(2) this]
      show "k + ?n - Suc (?j - ?i) < length (doc_lines d') \<and> doc_lines d' ! (k + ?n - Suc (?j - ?i)) = doc_lines d ! k"
        by (simp add: d'(3) diff_right_commute)
    qed (use behind v cuts lines in \<open>auto simp: cut_of_def line_diff_def\<close>)
  next
    case before
    show ?thesis
    proof (rule result [of 0 0])
      fix k assume "fst ?p \<le> k" "k \<le> fst ?q"
      then have "k < ?i" using before(1) cuts by (auto simp: cut_of_def)
      from changed_lines_nth(1) [OF d(2) this]
      show "k + 0 - 0 < length (doc_lines d') \<and> doc_lines d' ! (k + 0 - 0) = doc_lines d ! k" by (simp add: d'(3))
    qed (use before cuts in auto)
  qed
qed

section \<open>Properties\<close>

text \<open>A change in the history and what has become of it address the same text, each in its document.\<close>

definition same_target :: "('a) text_doc_scheme \<Rightarrow> ('a) text_doc_scheme \<Rightarrow> hist_change \<Rightarrow> hist_change \<Rightarrow> bool" where
  "same_target d d' h h' \<longleftrightarrow> valid_pos d' (hc_from h') \<and> valid_pos d' (hc_to h') \<and>
     getBetween d' (hc_from h') (hc_to h') = getBetween d (hc_from h) (hc_to h) \<and> hc_text h' = hc_text h \<and> hc_spans h' = hc_spans h"

fun event_same_target :: "('a) text_doc_scheme \<Rightarrow> ('a) text_doc_scheme \<Rightarrow> hist_event \<Rightarrow> hist_event \<Rightarrow> bool" where
  "event_same_target d d' (ChangeEvent cs g) (ChangeEvent cs' g') = (g = g' \<and> list_all2 (same_target d d') cs cs')"
| "event_same_target d d' (SelEvent s) (SelEvent s') = True"
| "event_same_target d d' _ _ = False"

definition untouched :: "('a) text_doc_scheme \<Rightarrow> change \<Rightarrow> hist_change \<Rightarrow> bool" where
  "untouched d c h \<longleftrightarrow> valid_pos d (hc_from h) \<and> valid_pos d (hc_to h) \<and> cmp (hc_from h) (hc_to h) \<le> 0 \<and>
     (ps_line (cg_to c) < ps_line (hc_from h) \<or> ps_line (hc_to h) < ps_line (cg_from c))"

fun event_untouched :: "('a) text_doc_scheme \<Rightarrow> change \<Rightarrow> hist_event \<Rightarrow> bool" where
  "event_untouched d c (ChangeEvent cs g) = list_all (untouched d c) cs"
| "event_untouched d c (SelEvent s) = True"

lemma rebase_changes_untouched:
  assumes "text_ok d" "valid_change d c" "text_ok d'" "td_first d' = td_first d" "doc_lines d' = changed_lines d c"
  shows "list_all (untouched d c) cs \<Longrightarrow>
    \<exists>cs'. rebase_changes (ps_line (cg_from c)) (ps_line (cg_to c)) (line_diff c) cs = Some cs' \<and> list_all2 (same_target d d') cs cs'"
proof (induction cs)
  case (Cons h cs)
  then obtain cs' where cs': "rebase_changes (ps_line (cg_from c)) (ps_line (cg_to c)) (line_diff c) cs = Some cs'"
    "list_all2 (same_target d d') cs cs'" by auto
  from Cons.prems have "rebase_change (ps_line (cg_from c)) (ps_line (cg_to c)) (line_diff c) h \<noteq> None"
    by (auto simp: untouched_def rebase_change_def)
  then obtain h' where h': "rebase_change (ps_line (cg_from c)) (ps_line (cg_to c)) (line_diff c) h = Some h'" by blast
  have "same_target d d' h h'"
    using rebase_change_target [OF assms _ _ _ h'] Cons.prems by (simp add: untouched_def same_target_def)
  with cs' h' show ?case by simp
qed simp

lemma rebase_event_untouched:
  assumes "text_ok d" "valid_change d c" "text_ok d'" "td_first d' = td_first d" "doc_lines d' = changed_lines d c" "event_untouched d c e"
  shows "\<exists>e'. rebase_event (ps_line (cg_from c)) (ps_line (cg_to c)) (line_diff c) e = Some e' \<and> event_same_target d d' e e'"
proof (cases e)
  case (ChangeEvent cs g)
  with assms(6) obtain cs' where "rebase_changes (ps_line (cg_from c)) (ps_line (cg_to c)) (line_diff c) cs = Some cs'"
    "list_all2 (same_target d d') cs cs'" using rebase_changes_untouched [OF assms(1-5)] by auto
  with ChangeEvent show ?thesis by (intro exI [of _ "ChangeEvent cs' g"]) simp
qed simp


text \<open>The event that follows the one that touches the changed lines is passed over: it stays in the
  history as it was, neither moved to where its lines are now nor, if it touches the changed lines
  itself, removed.\<close>

theorem rebase_skips_event:
  assumes "hs_done hist = newer @ e # bad # older"
    and "rebase_event (ps_line (cg_from c)) (ps_line (cg_to c)) (line_diff c) bad = None"
    and "\<forall>x \<in> set (newer @ older). rebase_event (ps_line (cg_from c)) (ps_line (cg_to c)) (line_diff c) x \<noteq> None"
  shows "hs_done (rebaseHist hist c) =
    map (\<lambda>x. the (rebase_event (ps_line (cg_from c)) (ps_line (cg_to c)) (line_diff c) x)) newer @ [e]"
proof -
  let ?R = "rebase_event (ps_line (cg_from c)) (ps_line (cg_to c)) (line_diff c)"
  have moved: "rebase_loop (ps_line (cg_from c)) (ps_line (cg_to c)) (line_diff c) passed (es @ fs) =
      rebase_loop (ps_line (cg_from c)) (ps_line (cg_to c)) (line_diff c) (passed @ map (\<lambda>x. the (?R x)) es) fs"
    if "\<forall>x \<in> set es. ?R x \<noteq> None" for passed es fs
    using that by (induction es arbitrary: passed) auto
  have "rebaseHistArray (newer @ e # bad # older) (ps_line (cg_from c)) (ps_line (cg_to c)) (line_diff c) =
      rev (rebase_loop (ps_line (cg_from c)) (ps_line (cg_to c)) (line_diff c) [e] (rev newer))"
    using moved [of "rev older" "[]" "bad # e # rev newer"] assms(2,3) by (simp add: rebaseHistArray_def)
  also have "\<dots> = map (\<lambda>x. the (?R x)) newer @ [e]"
    using moved [of "rev newer" "[e]" "[]"] assms(3) by (simp add: rev_map)
  finally show ?thesis using assms(1) by (simp add: rebaseHist_def line_diff_def Let_def)
qed

text \<open>A line is added at the top; the event about the last line keeps the old number of that line.\<close>

definition small_change :: "int \<Rightarrow> hist_event" where
  "small_change l = ChangeEvent [\<lparr>hc_from = Pos l 0, hc_to = Pos l 1, hc_text = [[]], hc_spans = None\<rparr>] (Some 1)"

definition top_change :: change where
  "top_change = \<lparr>cg_from = Pos 0 1, cg_to = Pos 0 1, cg_text = [[], [98]], cg_origin = None, cg_full = False\<rparr>"

definition rebase_example :: history where
  "rebase_example = (History 0)\<lparr>hs_done := [small_change 2, small_change 1]\<rparr>"

definition rebased_text :: text_doc where
  "rebased_text = \<lparr>td_tree = BranchChunk [LeafChunk [\<lparr>ln_text = [97], ln_spans = [], ln_height = 10\<rparr>,
     \<lparr>ln_text = [98], ln_spans = [], ln_height = 10\<rparr>, example_line 2, example_line 3]], td_first = 0\<rparr>"

lemma rebase_example_facts:
  "text_ok rebased_text" "doc_lines rebased_text = changed_lines example_text top_change" "valid_change example_text top_change"
  "list_all (event_untouched example_text top_change) (hs_done rebase_example)"
proof -
  show "text_ok rebased_text" by (simp add: text_ok_def rebased_text_def doc_ok_def doc_lines_def) (simp add: BranchChunk_def)
  show "doc_lines rebased_text = changed_lines example_text top_change"
    by (simp add: changed_lines_def example_text_ok(2) top_change_def cut_before_def cut_after_def cut_of_def)
      (simp add: doc_lines_def rebased_text_def example_text_def BranchChunk_def example_line_def numeral_2_eq_2 numeral_3_eq_3)
  show "valid_change example_text top_change"
    by (simp add: valid_change_def valid_pos_def valid_cut_def cut_of_def example_text_ok(2) cmp_def top_change_def)
      (simp add: example_text_def)
  show "list_all (event_untouched example_text top_change) (hs_done rebase_example)"
    by (simp add: rebase_example_def small_change_def untouched_def valid_pos_def valid_cut_def cut_of_def example_text_ok(2) cmp_def top_change_def)
      (simp add: example_text_def)
qed


theorem rebase_skips_event_witness:
  "hs_done (rebaseHist ((History 0)\<lparr>hs_done := [small_change 1, small_change 2, small_change 0]\<rparr>) top_change) = [small_change 2, small_change 2]"
  using rebase_skips_event [of "(History 0)\<lparr>hs_done := [small_change 1, small_change 2, small_change 0]\<rparr>" "[small_change 1]"
      "small_change 2" "small_change 0" "[]" top_change]
  by (simp add: small_change_def top_change_def rebase_change_def line_diff_def)

end
