(* ===== verification/Cm_Commands.thy ===== *)
theory Cm_Commands
  imports Cm_Undo
begin

text \<open>
  Commands of the editor (\<open>codemirror.js\<close>) that delete text near the selections. Positions that only
  the display can compute, wrapped lines, are left out, as is deleting by characters and groups. An error
  of the language is \<open>None\<close>.
\<close>

section \<open>Deleting near the selections\<close>

text \<open>The ranges to delete so far, the last one first; a range that reaches into them is merged.\<close>

fun push_kill :: "pos \<times> pos \<Rightarrow> (pos \<times> pos) list \<Rightarrow> (pos \<times> pos) list" where
  "push_kill toKill [] = [toKill]"
| "push_kill toKill (replaced # kill) =
     (if cmp (fst toKill) (snd replaced) \<le> 0
      then (if cmp (fst replaced) (fst toKill) < 0 then (fst replaced, snd toKill) # kill else push_kill toKill kill)
      else toKill # replaced # kill)"

fun kill_ranges :: "(sel_range \<Rightarrow> (pos \<times> pos) option) \<Rightarrow> sel_range list \<Rightarrow> (pos \<times> pos) list \<Rightarrow> (pos \<times> pos) list option" where
  "kill_ranges compute [] kill = Some kill"
| "kill_ranges compute (r # rs) kill = do { toKill \<leftarrow> compute r; kill_ranges compute rs (push_kill toKill kill) }"

fun delete_ranges :: "editor \<Rightarrow> (pos \<times> pos) list \<Rightarrow> cm_doc \<Rightarrow> cm_doc option" where
  "delete_ranges e [] d = Some d"
| "delete_ranges e (k # kill) d = do { d1 \<leftarrow> replaceRange e [[]] (fst k) (Some (snd k)) (Some ''+delete'') d; delete_ranges e kill d1 }"

definition deleteNearSelection :: "editor \<Rightarrow> (sel_range \<Rightarrow> (pos \<times> pos) option) \<Rightarrow> cm_doc \<Rightarrow> cm_doc option" where
  "deleteNearSelection e compute d = do { kill \<leftarrow> kill_ranges compute (sl_ranges (cd_sel d)) []; delete_ranges e kill d }"

definition killLine :: "editor \<Rightarrow> cm_doc \<Rightarrow> cm_doc option" where
  "killLine e d = deleteNearSelection e
     (\<lambda>r. if range_empty r
          then do {
            l \<leftarrow> getLine d (ps_line (rg_head r));
            let len = int (length (ln_text l));
            Some (rg_head r, if ps_ch (rg_head r) = len \<and> ps_line (rg_head r) < doc_lastLine d
                             then Pos (ps_line (rg_head r) + 1) 0 else Pos (ps_line (rg_head r)) len)
          }
          else Some (range_from r, range_to r)) d"

definition deleteLine :: "editor \<Rightarrow> cm_doc \<Rightarrow> cm_doc option" where
  "deleteLine e d = deleteNearSelection e
     (\<lambda>r. map_option (\<lambda>p. (Pos (ps_line (range_from r)) 0, p)) (clipPos d (raw (Pos (ps_line (range_to r) + 1) 0)))) d"

definition delLineLeft :: "editor \<Rightarrow> cm_doc \<Rightarrow> cm_doc option" where
  "delLineLeft e d = deleteNearSelection e (\<lambda>r. Some (Pos (ps_line (range_from r)) 0, range_from r)) d"

section \<open>Merging the ranges\<close>

definition inside :: "pos \<times> pos \<Rightarrow> pos \<Rightarrow> bool" where
  "inside k p \<longleftrightarrow> cmp (fst k) p \<le> 0 \<and> cmp p (snd k) \<le> 0"

text \<open>Ranges, the last one first, none reaching the next.\<close>

fun apart :: "(pos \<times> pos) list \<Rightarrow> bool" where
  "apart [] = True"
| "apart [k] \<longleftrightarrow> cmp (fst k) (snd k) \<le> 0"
| "apart (k # r # ks) \<longleftrightarrow> cmp (fst k) (snd k) \<le> 0 \<and> cmp (snd r) (fst k) < 0 \<and> apart (r # ks)"

lemma cmp_leD: "cmp a b \<le> 0 \<longleftrightarrow> ps_line a < ps_line b \<or> ps_line a = ps_line b \<and> ps_ch a \<le> ps_ch b"
  "cmp a b < 0 \<longleftrightarrow> ps_line a < ps_line b \<or> ps_line a = ps_line b \<and> ps_ch a < ps_ch b"
  by (auto simp: cmp_def)

lemma push_kill_apart:
  assumes "apart ks" "cmp (fst k) (snd k) \<le> 0" "ks = [] \<or> cmp (snd (hd ks)) (snd k) \<le> 0"
  shows "apart (push_kill k ks) \<and> snd (hd (push_kill k ks)) = snd k \<and> push_kill k ks \<noteq> []
    \<and> (\<forall>p. (\<exists>x \<in> set (push_kill k ks). inside x p) \<longleftrightarrow> inside k p \<or> (\<exists>x \<in> set ks. inside x p))"
  using assms
proof (induction k ks rule: push_kill.induct)
  case (1 k)
  then show ?case by simp
next
  case (2 k r ks)
  have rest: "apart ks" "ks = [] \<or> cmp (snd (hd ks)) (snd r) \<le> 0"
    using "2.prems"(1) by (cases ks; auto simp: cmp_leD)+
  consider (apart) "\<not> cmp (fst k) (snd r) \<le> 0" | (merged) "cmp (fst k) (snd r) \<le> 0" "cmp (fst r) (fst k) < 0"
    | (swallowed) "cmp (fst k) (snd r) \<le> 0" "\<not> cmp (fst r) (fst k) < 0" by blast
  then show ?case
  proof cases
    case apart
    then have "cmp (snd r) (fst k) < 0" by (auto simp: cmp_leD)
    with apart "2.prems" show ?thesis by auto
  next
    case merged
    have "apart ((fst r, snd k) # ks)"
      using "2.prems" merged by (cases ks) (auto simp: cmp_leD)
    moreover have "inside (fst r, snd k) p \<longleftrightarrow> inside k p \<or> inside r p" for p
      using "2.prems" merged unfolding inside_def cmp_leD by (auto simp: cmp_leD)
    ultimately show ?thesis using merged by auto
  next
    case swallowed
    have "ks = [] \<or> cmp (snd (hd ks)) (snd k) \<le> 0" using rest(2) "2.prems"(3) by (auto simp: cmp_leD)
    from "2.IH" [OF swallowed rest(1) "2.prems"(2) this]
    have IH: "apart (push_kill k ks) \<and> snd (hd (push_kill k ks)) = snd k \<and> push_kill k ks \<noteq> []
      \<and> (\<forall>p. (\<exists>x \<in> set (push_kill k ks). inside x p) \<longleftrightarrow> inside k p \<or> (\<exists>x \<in> set ks. inside x p))" .
    moreover have "inside r p \<Longrightarrow> inside k p" for p
      using "2.prems"(3) swallowed unfolding inside_def cmp_leD by (auto simp: cmp_leD)
    ultimately show ?thesis using swallowed by auto
  qed
qed

text \<open>The computed ranges in the order of the selections; their ends go up.\<close>

fun ends_up :: "(pos \<times> pos) list \<Rightarrow> bool" where
  "ends_up (j # k # ks) \<longleftrightarrow> cmp (snd j) (snd k) \<le> 0 \<and> ends_up (k # ks)"
| "ends_up _ = True"

lemma kill_ranges_ok:
  assumes "list_all2 (\<lambda>r k. compute r = Some k) rs ks" "\<forall>k \<in> set ks. cmp (fst k) (snd k) \<le> 0"
    and "apart kill" "kill = [] \<or> ks = [] \<or> cmp (snd (hd kill)) (snd (hd ks)) \<le> 0" "ends_up ks"
  shows "\<exists>kill'. kill_ranges compute rs kill = Some kill' \<and> apart kill' \<and>
    (\<forall>p. (\<exists>x \<in> set kill'. inside x p) \<longleftrightarrow> (\<exists>x \<in> set kill \<union> set ks. inside x p))"
  using assms
proof (induction rs ks arbitrary: kill rule: list_all2_induct)
  case Nil
  then show ?case by simp
next
  case (Cons r rs k ks)
  have "kill = [] \<or> cmp (snd (hd kill)) (snd k) \<le> 0" using Cons.prems(3) by simp
  from push_kill_apart [OF Cons.prems(2) _ this] Cons.prems(1)
  have pushed: "apart (push_kill k kill)" "snd (hd (push_kill k kill)) = snd k"
    "\<forall>p. (\<exists>x \<in> set (push_kill k kill). inside x p) \<longleftrightarrow> inside k p \<or> (\<exists>x \<in> set kill. inside x p)" by auto
  have "push_kill k kill = [] \<or> ks = [] \<or> cmp (snd (hd (push_kill k kill))) (snd (hd ks)) \<le> 0" "ends_up ks"
    using Cons.prems(4) pushed(2) by (cases ks; simp)+
  from Cons.IH [OF _ pushed(1) this] Cons.prems(1)
  obtain kill' where "kill_ranges compute rs (push_kill k kill) = Some kill'" "apart kill'"
    "\<forall>p. (\<exists>x \<in> set kill'. inside x p) \<longleftrightarrow> (\<exists>x \<in> set (push_kill k kill) \<union> set ks. inside x p)" by auto
  with pushed(3) Cons.hyps show ?case by auto
qed

section \<open>What is left of the text\<close>

text \<open>The text before a cut without the parts between the given cuts, the last pair first.\<close>

fun left_before :: "'c list list \<Rightarrow> ((nat \<times> nat) \<times> (nat \<times> nat)) list \<Rightarrow> nat \<times> nat \<Rightarrow> 'c list list" where
  "left_before L [] x = cut_before L x"
| "left_before L ((a, b) # ks) x = join (left_before L ks a) (cut_between L b x)"

fun cuts_ok :: "'c list list \<Rightarrow> ((nat \<times> nat) \<times> (nat \<times> nat)) list \<Rightarrow> nat \<times> nat \<Rightarrow> bool" where
  "cuts_ok L [] x \<longleftrightarrow> valid_cut L x"
| "cuts_ok L ((a, b) # ks) x \<longleftrightarrow> valid_cut L x \<and> valid_cut L b \<and> cut_le a b \<and> cut_le b x \<and> cuts_ok L ks a"

lemma left_before_ne [simp]: "left_before L ks x \<noteq> []"
  by (induction L ks x rule: left_before.induct) auto

lemma cuts_ok_valid: "cuts_ok L ks x \<Longrightarrow> valid_cut L x"
  by (cases ks) auto

text \<open>A cut of the text before \<open>x\<close> when something else follows \<open>x\<close>.\<close>

lemma cut_of_prefix:
  assumes "valid_cut L x" "valid_cut L a" "cut_le a x" "R \<noteq> []"
  shows "cut_before (join (cut_before L x) R) a = cut_before L a"
    and "cut_after (join (cut_before L x) R) a = join (cut_between L a x) R"
    and "valid_cut (join (cut_before L x) R) a"
proof -
  have e: "join (cut_before L x) R = join (cut_before L a) (join (cut_between L a x) R)"
    using cut_three(2) [OF assms(2,1,3)] assms(4) by (simp add: join_assoc flip: cut_three(2) [OF assms(2,1,3)])
  note c = cut_join [of "cut_before L a" "join (cut_between L a x) R"]
  show "cut_before (join (cut_before L x) R) a = cut_before L a"
    "cut_after (join (cut_before L x) R) a = join (cut_between L a x) R" "valid_cut (join (cut_before L x) R) a"
    unfolding e using c assms(4) end_of_cut [OF assms(2)] by simp_all
qed

definition plain_editor :: "editor \<Rightarrow> bool" where
  "plain_editor e \<longleftrightarrow> \<not> (ed_attached e \<and> ed_suppressEdits e) \<and> ed_beforeChange e = None \<and> \<not> ed_sawReadOnly e"

lemma replace_step:
  assumes "plain_editor e" "doc_inv G d" "valid_pos d p" "valid_pos d q" "cmp p q \<le> 0" "code \<noteq> []"
  shows "\<exists>d' G'. replaceRange e code p (Some q) origin d = Some d' \<and> doc_inv G' d' \<and> td_first d' = td_first d \<and>
    doc_lines d' = join (cut_before (doc_lines d) (cut_of d p)) (join code (cut_after (doc_lines d) (cut_of d q)))"
proof -
  let ?c = "\<lparr>cg_from = p, cg_to = q, cg_text = code, cg_origin = origin, cg_full = False\<rparr>"
  have ok: "text_ok d" using assms(2) by (simp add: doc_inv_def)
  have "\<not> cmp q p < 0" using assms(5) by (auto simp: cmp_leD)
  then have step: "replaceRange e code p (Some q) origin d = makeChangeInner e ?c d"
    using assms(1) by (auto simp: replaceRange_def makeChange_def plain_editor_def Let_def)
  have lines: "changed_lines d ?c = join (cut_before (doc_lines d) (cut_of d p)) (join code (cut_after (doc_lines d) (cut_of d q)))"
    by (simp add: changed_lines_def)
  show ?thesis
  proof (cases "code = [[]] \<and> cmp p q = 0")
    case True
    then have "cut_of d p = cut_of d q" by (simp add: cut_of_def cmp_zero_iff)
    then have "join (cut_before (doc_lines d) (cut_of d p)) (join code (cut_after (doc_lines d) (cut_of d q))) = doc_lines d"
      using True assms(4) by (simp add: valid_pos_def join_cut)
    moreover have "replaceRange e code p (Some q) origin d = Some d" unfolding step using True by (simp add: makeChangeInner_def)
    ultimately show ?thesis using assms(2) by auto
  next
    case False
    have "editable d ?c" using ok assms(3-6) by (simp add: editable_def valid_change_def full_ok_def)
    from makeChangeInner_ok [OF this assms(2), of e] False obtain d' where "makeChangeInner e ?c d = Some d'"
      "doc_lines d' = changed_lines d ?c" "same_frame d d'" "doc_inv (G(hs_maxGeneration (cd_hist d) + 1 := changed_lines d ?c)) d'"
      by auto
    then show ?thesis unfolding step lines by (auto simp: same_frame_def)
  qed
qed

lemma delete_ranges_ok:
  assumes "plain_editor e"
  shows "doc_inv G d \<Longrightarrow> R \<noteq> [] \<Longrightarrow> doc_lines d = join (cut_before L x) R
    \<Longrightarrow> cuts_ok L (map (\<lambda>k. (cut_of d (fst k), cut_of d (snd k))) kill) x
    \<Longrightarrow> \<forall>k \<in> set kill. td_first d \<le> ps_line (fst k) \<and> td_first d \<le> ps_line (snd k) \<and> 0 \<le> ps_ch (fst k) \<and> 0 \<le> ps_ch (snd k)
    \<Longrightarrow> \<exists>d' G'. delete_ranges e kill d = Some d' \<and> doc_inv G' d' \<and>
        doc_lines d' = join (left_before L (map (\<lambda>k. (cut_of d (fst k), cut_of d (snd k))) kill) x) R"
proof (induction kill arbitrary: d G R x)
  case Nil
  then show ?case by auto
next
  case (Cons k kill)
  let ?a = "cut_of d (fst k)" and ?b = "cut_of d (snd k)"
  have cuts: "valid_cut L x" "valid_cut L ?b" "cut_le ?a ?b" "cut_le ?b x"
    "cuts_ok L (map (\<lambda>k. (cut_of d (fst k), cut_of d (snd k))) kill) ?a"
    using Cons.prems(4) by auto
  note a = cuts_ok_valid [OF cuts(5)]
  note at = cut_of_prefix [OF cuts(1) a cut_le_trans [OF cuts(3,4)] Cons.prems(2)]
    cut_of_prefix [OF cuts(1,2,4) Cons.prems(2)]
  have valid: "valid_pos d (fst k)" "valid_pos d (snd k)"
    using at Cons.prems(3,5) by (auto simp: valid_pos_def)
  then have le: "cmp (fst k) (snd k) \<le> 0" using cuts(3) cmp_cut(1) by blast
  from replace_step [OF assms Cons.prems(1) valid le, of "[[]]" "Some ''+delete''"]
  obtain d1 G1 where d1: "replaceRange e [[]] (fst k) (Some (snd k)) (Some ''+delete'') d = Some d1" "doc_inv G1 d1" "td_first d1 = td_first d"
    "doc_lines d1 = join (cut_before (doc_lines d) ?a) (cut_after (doc_lines d) ?b)" by auto
  have lines: "doc_lines d1 = join (cut_before L ?a) (join (cut_between L ?b x) R)"
    unfolding d1(4) unfolding Cons.prems(3) at ..
  have same: "cut_of d1 = cut_of d" using d1(3) by (intro ext) (simp add: cut_of_def)
  from Cons.IH [of G1 d1 "join (cut_between L ?b x) R" ?a] d1 lines cuts(5) Cons.prems(2,5)
  obtain d' G' where "delete_ranges e kill d1 = Some d'" "doc_inv G' d'"
    "doc_lines d' = join (left_before L (map (\<lambda>k. (cut_of d (fst k), cut_of d (snd k))) kill) ?a) (join (cut_between L ?b x) R)"
    by (auto simp: same)
  with d1(1) Cons.prems(2) show ?case by (auto simp: join_assoc)
qed

text \<open>The ends of the merged ranges are ends of the computed ones.\<close>

definition ends_in :: "(pos \<Rightarrow> bool) \<Rightarrow> (pos \<times> pos) list \<Rightarrow> bool" where
  "ends_in V ks \<longleftrightarrow> (\<forall>k \<in> set ks. V (fst k) \<and> V (snd k))"

lemma push_kill_ends: "ends_in V (k # ks) \<Longrightarrow> ends_in V (push_kill k ks)"
  by (induction k ks rule: push_kill.induct) (auto simp: ends_in_def)

lemma kill_ranges_ends:
  "list_all2 (\<lambda>r k. compute r = Some k) rs ks \<Longrightarrow> kill_ranges compute rs kill = Some kill' \<Longrightarrow>
    ends_in V kill \<Longrightarrow> ends_in V ks \<Longrightarrow> ends_in V kill'"
proof (induction rs ks arbitrary: kill rule: list_all2_induct)
  case (Cons r rs k ks)
  have "ends_in V (k # kill)" and ks: "ends_in V ks" using Cons.prems by (simp_all add: ends_in_def)
  note push_kill_ends [OF this(1)]
  with Cons ks show ?case by auto
qed simp

lemma apart_cuts_ok:
  assumes "apart kill" "\<forall>k \<in> set kill. valid_pos d (fst k) \<and> valid_pos d (snd k)" "valid_cut (doc_lines d) x"
    "kill = [] \<or> cut_le (cut_of d (snd (hd kill))) x"
  shows "cuts_ok (doc_lines d) (map (\<lambda>k. (cut_of d (fst k), cut_of d (snd k))) kill) x"
  using assms
proof (induction kill arbitrary: x rule: apart.induct)
  case (2 k)
  then show ?case using cmp_cut(1) [of d "fst k" "snd k"] by (auto simp: valid_pos_def)
next
  case (3 k r ks)
  have v: "valid_pos d (fst k)" "valid_pos d (snd k)" "valid_pos d (snd r)" using "3.prems"(2) by auto
  have "cut_le (cut_of d (fst k)) (cut_of d (snd k))" "cut_le (cut_of d (snd r)) (cut_of d (fst k))"
    using "3.prems"(1) cmp_cut(1) [OF v(1,2)] cmp_cut(1) [OF v(3,1)] by auto
  with "3.IH" [of "cut_of d (fst k)"] "3.prems" v show ?case by (auto simp: valid_pos_def)
qed simp

lemma valid_end: "L \<noteq> [] \<Longrightarrow> valid_cut L (end_of L)" "L \<noteq> [] \<Longrightarrow> cut_before L (end_of L) = L"
  by (cases L rule: rev_cases; simp add: valid_cut_def cut_before_def end_of_def nth_append)+

lemma cut_le_end:
  assumes "valid_cut L p"
  shows "cut_le p (end_of L)"
proof -
  have "L \<noteq> []" "fst p < length L" "snd p \<le> length (L ! fst p)" using assms by (auto simp: valid_cut_def)
  then show ?thesis
    by (cases "fst p = length L - 1") (auto simp: cut_le_def end_of_def last_conv_nth)
qed

text \<open>C33. Deleting near the selections removes exactly what was asked for: when the ranges computed for the
  selections are positions of the document whose ends go up, whether or not they overlap, touch or
  contain each other, the merged ranges are disjoint, lie over the same positions, and the text
  afterwards is the text before without the parts between their ends; and the document keeps its
  invariant, so the deletion can be undone.\<close>

theorem deletes_union:
  assumes "plain_editor e" "doc_inv G d"
    and "list_all2 (\<lambda>r k. compute r = Some k) (sl_ranges (cd_sel d)) ks" "ends_up ks"
    and "\<forall>k \<in> set ks. valid_pos d (fst k) \<and> valid_pos d (snd k) \<and> cmp (fst k) (snd k) \<le> 0"
  shows "\<exists>kill d' G'. kill_ranges compute (sl_ranges (cd_sel d)) [] = Some kill \<and> apart kill
    \<and> (\<forall>p. (\<exists>k \<in> set kill. inside k p) \<longleftrightarrow> (\<exists>k \<in> set ks. inside k p))
    \<and> deleteNearSelection e compute d = Some d' \<and> doc_inv G' d'
    \<and> doc_lines d' = left_before (doc_lines d) (map (\<lambda>k. (cut_of d (fst k), cut_of d (snd k))) kill) (end_of (doc_lines d))"
proof -
  let ?L = "doc_lines d"
  have ne: "?L \<noteq> []" using assms(2) by (simp add: doc_inv_def text_ok_def)
  obtain kill where kill: "kill_ranges compute (sl_ranges (cd_sel d)) [] = Some kill" "apart kill"
    "\<forall>p. (\<exists>k \<in> set kill. inside k p) \<longleftrightarrow> (\<exists>k \<in> set ks. inside k p)"
    using kill_ranges_ok [OF assms(3), of "[]"] assms(4,5) by auto
  have valid: "\<forall>k \<in> set kill. valid_pos d (fst k) \<and> valid_pos d (snd k)"
    using kill_ranges_ends [OF assms(3) kill(1), of "valid_pos d"] assms(5) by (simp add: ends_in_def)
  then have "kill = [] \<or> cut_le (cut_of d (snd (hd kill))) (end_of ?L)"
    by (cases kill) (auto intro: cut_le_end simp del: split_paired_All simp: valid_pos_def)
  note cuts = apart_cuts_ok [OF kill(2) valid valid_end(1) [OF ne] this]
  have "?L = join (cut_before ?L (end_of ?L)) [[]]" by (simp add: valid_end(2) [OF ne] ne)
  from delete_ranges_ok [OF assms(1,2) _ this cuts] valid obtain d' G' where "delete_ranges e kill d = Some d'" "doc_inv G' d'"
    "doc_lines d' = join (left_before ?L (map (\<lambda>k. (cut_of d (fst k), cut_of d (snd k))) kill) (end_of ?L)) [[]]"
    by (auto simp: valid_pos_def)
  with kill show ?thesis by (auto simp: deleteNearSelection_def)
qed

text \<open>Cursors on the first two lines, which \<open>deleteLine\<close> deletes.\<close>

definition two_cursors :: cm_doc where
  "two_cursors = example_cm\<lparr>cd_sel := \<lparr>sl_ranges = [Range (Pos 0 1) (Pos 0 1), Range (Pos 1 0) (Pos 1 2)], sl_primIndex = 0\<rparr>\<rparr>"

definition line_range :: "sel_range \<Rightarrow> (pos \<times> pos) option" where
  "line_range r = map_option (\<lambda>p. (Pos (ps_line (range_from r)) 0, p)) (clipPos two_cursors (raw (Pos (ps_line (range_to r) + 1) 0)))"

lemma two_cursors_ok: "doc_inv (\<lambda>_. doc_lines two_cursors) two_cursors" "doc_lines two_cursors = [[97], [97, 97], [97, 97, 97]]"
  "td_first two_cursors = 0" "map line_range (sl_ranges (cd_sel two_cursors)) = [Some (Pos 0 0, Pos 1 0), Some (Pos 1 0, Pos 2 0)]"
  "plain_editor example_editor" "kill_ranges line_range (sl_ranges (cd_sel two_cursors)) [] = Some [(Pos 0 0, Pos 2 0)]"
proof -
  have t: "td_tree two_cursors = example_doc" "td_first two_cursors = 0" "cd_hist two_cursors = History 0"
    by (simp_all add: two_cursors_def example_cm_def)
  then show "td_first two_cursors = 0" by simp
  show lines: "doc_lines two_cursors = [[97], [97, 97], [97, 97, 97]]"
    using example_text_ok(2) t by (simp add: doc_lines_def example_text_def)
  have "text_ok two_cursors" using t lines example_doc_ok(1) by (simp add: text_ok_def)
  then show "doc_inv (\<lambda>_. doc_lines two_cursors) two_cursors"
    using t by (intro empty_history_ok) (simp_all add: History_def)
  show "map line_range (sl_ranges (cd_sel two_cursors)) = [Some (Pos 0 0, Pos 1 0), Some (Pos 1 0, Pos 2 0)]"
    "kill_ranges line_range (sl_ranges (cd_sel two_cursors)) [] = Some [(Pos 0 0, Pos 2 0)]"
    by code_simp+
  show "plain_editor example_editor" by (simp add: plain_editor_def example_editor_def)
qed

theorem deletes_union_witness:
  "\<exists>d'. deleteLine example_editor two_cursors = Some d' \<and> doc_lines d' = [[97, 97, 97]]"
proof -
  have all: "list_all2 (\<lambda>r k. line_range r = Some k) (sl_ranges (cd_sel two_cursors)) [(Pos 0 0, Pos 1 0), (Pos 1 0, Pos 2 0)]"
    using two_cursors_ok(4) by (simp add: two_cursors_def)
  have valid: "\<forall>k \<in> set [(Pos 0 0, Pos 1 0), (Pos 1 0, Pos 2 0)]. valid_pos two_cursors (fst k) \<and> valid_pos two_cursors (snd k) \<and> cmp (fst k) (snd k) \<le> 0"
    by (simp add: valid_pos_def valid_cut_def cut_of_def two_cursors_ok(2,3) cmp_def)
  have "ends_up [(Pos 0 0, Pos 1 0), (Pos 1 0, Pos 2 0)]" by (simp add: cmp_def)
  from deletes_union [OF two_cursors_ok(5,1) all this valid] obtain d' where
    "deleteNearSelection example_editor line_range two_cursors = Some d'"
    "doc_lines d' = left_before [[97], [97, 97], [97, 97, 97]] [((0, 0), (2, 0))] (2, 3)"
    by (auto simp: two_cursors_ok(2,3,6) cut_of_def end_of_def numeral_2_eq_2 numeral_3_eq_3)
  moreover have "left_before [[97], [97, 97], [97, 97, 97 :: code_unit]] [((0, 0), (2, 0))] (2, 3) = [[97, 97, 97]]"
    by code_simp
  moreover have "line_range = (\<lambda>r. map_option (\<lambda>p. (Pos (ps_line (range_from r)) 0, p)) (clipPos two_cursors (raw (Pos (ps_line (range_to r) + 1) 0))))"
    by (intro ext) (simp add: line_range_def)
  ultimately show ?thesis by (simp add: deleteLine_def)
qed

end
