(* ===== verification/Cm_Indent.thy ===== *)
theory Cm_Indent
  imports Cm_Commands
begin

text \<open>
  Indenting lines of the editor (\<open>codemirror.js\<close>), by a number of columns, as the line before or as
  the mode says, the lines of a selection, and the commands for tabs and new lines. What the mode
  says, with the state it has before a line, is an argument; the result \<open>None\<close> of it stands for
  \<open>Pass\<close>. A tab size is positive.
\<close>

section \<open>Indenting a line\<close>

record indenting =
  in_unit :: nat
  in_tabs :: bool
  in_tabSize :: nat
  in_smart :: bool
  in_mode :: "(cm_doc \<Rightarrow> int \<Rightarrow> js_text \<Rightarrow> js_text \<Rightarrow> int option) option"

datatype how = Smart | Prev | Add | Subtract | By_Columns int

definition space :: code_unit where "space = 32"

definition spaceStr :: "nat \<Rightarrow> js_text" where
  "spaceStr n = replicate n space"

definition line_column :: "indenting \<Rightarrow> js_text \<Rightarrow> int" where
  "line_column o' text = countColumn text None (in_tabSize o') 0 0"

definition prev_indentation :: "indenting \<Rightarrow> int \<Rightarrow> cm_doc \<Rightarrow> int option" where
  "prev_indentation o' n d =
     (if n > td_first d then map_option (\<lambda>l. line_column o' (ln_text l)) (getLine d (n - 1)) else Some 0)"

text \<open>The indentation a line gets; \<open>Some None\<close> leaves the line alone.\<close>

definition indentation_for :: "indenting \<Rightarrow> int \<Rightarrow> how \<Rightarrow> bool \<Rightarrow> js_text \<Rightarrow> cm_doc \<Rightarrow> int option option" where
  "indentation_for o' n how aggressive text d =
     (let how = (if how = Smart \<and> in_mode o' = None then Prev else how);
          blanks = length (takeWhile js_space text); curSpace = line_column o' text
      in if \<not> aggressive \<and> list_all js_space text then Some (Some 0)
         else case how of
           Smart \<Rightarrow>
             (case the (in_mode o') d n (drop blanks text) text of
                Some i \<Rightarrow> if i \<le> 150 then Some (Some i)
                          else if aggressive then map_option Some (prev_indentation o' n d) else Some None
              | None \<Rightarrow> if aggressive then map_option Some (prev_indentation o' n d) else Some None)
         | Prev \<Rightarrow> map_option Some (prev_indentation o' n d)
         | Add \<Rightarrow> Some (Some (curSpace + int (in_unit o')))
         | Subtract \<Rightarrow> Some (Some (curSpace - int (in_unit o')))
         | By_Columns k \<Rightarrow> Some (Some (curSpace + k)))"

definition indentString :: "indenting \<Rightarrow> int \<Rightarrow> js_text" where
  "indentString o' indentation =
     (let n = nat (max 0 indentation); tabs = (if in_tabs o' then n div in_tabSize o' else 0)
      in replicate tabs tab @ spaceStr (n - tabs * in_tabSize o'))"

text \<open>The first selection whose head is in the white space at the start of the line.\<close>

definition head_in_space :: "int \<Rightarrow> nat \<Rightarrow> sel_range list \<Rightarrow> nat option" where
  "head_in_space n len ranges =
     find (\<lambda>i. ps_line (rg_head (ranges ! i)) = n \<and> ps_ch (rg_head (ranges ! i)) < int len) [0..<length ranges]"

text \<open>The result says whether the line was changed.\<close>

definition indentLine :: "editor \<Rightarrow> indenting \<Rightarrow> int \<Rightarrow> how \<Rightarrow> bool \<Rightarrow> cm_doc \<Rightarrow> (bool \<times> cm_doc) option" where
  "indentLine e o' n how aggressive d =
     do {
       l \<leftarrow> getLine d n;
       let curSpaceString = takeWhile js_space (ln_text l);
       target \<leftarrow> indentation_for o' n how aggressive (ln_text l) d;
       (case target of
          None \<Rightarrow> Some (False, d)
        | Some indentation \<Rightarrow>
            let str = indentString o' indentation; p = Pos n (int (length curSpaceString))
            in if str \<noteq> curSpaceString
               then map_option (\<lambda>d'. (True, d')) (replaceRange e [str] (Pos n 0) (Some p) (Some ''+input'') d)
               else case head_in_space n (length curSpaceString) (sl_ranges (cd_sel d)) of
                      None \<Rightarrow> Some (False, d)
                    | Some i \<Rightarrow> map_option (\<lambda>d'. (False, d')) (replaceOneSelection e i (Range p p) None d))
     }"

section \<open>Indenting selections\<close>

fun indent_lines :: "editor \<Rightarrow> indenting \<Rightarrow> int list \<Rightarrow> how \<Rightarrow> cm_doc \<Rightarrow> cm_doc option" where
  "indent_lines e o' [] how d = Some d"
| "indent_lines e o' (n # ns) how d = do { (b, d1) \<leftarrow> indentLine e o' n how False d; indent_lines e o' ns how d1 }"

text \<open>The start of a selection that began the line goes back there.\<close>

definition restore_start :: "editor \<Rightarrow> nat \<Rightarrow> nat \<Rightarrow> pos \<Rightarrow> cm_doc \<Rightarrow> cm_doc option" where
  "restore_start e amount i from_pos d =
     (let newRanges = sl_ranges (cd_sel d)
      in if ps_ch from_pos = 0 \<and> amount = length newRanges \<and> ps_ch (range_from (newRanges ! i)) > 0
         then replaceOneSelection e i (Range from_pos (range_to (newRanges ! i))) (Some \<lparr>so_origin = None, so_clearRedo = False\<rparr>) d
         else Some d)"

text \<open>The ranges are those at the start; the last argument but one is the line where the next range may begin.\<close>

fun indent_ranges :: "editor \<Rightarrow> indenting \<Rightarrow> how \<Rightarrow> nat \<Rightarrow> nat \<Rightarrow> sel_range list \<Rightarrow> int \<Rightarrow> cm_doc \<Rightarrow> cm_doc option" where
  "indent_ranges e o' how amount i [] stop d = Some d"
| "indent_ranges e o' how amount i (r # rs) stop d =
     (if \<not> range_empty r
      then let from_pos = range_from r; to_pos = range_to r; start = max stop (ps_line from_pos);
               stop' = min (doc_lastLine d) (ps_line to_pos - (if ps_ch to_pos = 0 then 1 else 0)) + 1
           in do {
                d1 \<leftarrow> indent_lines e o' [start..stop' - 1] how d;
                d2 \<leftarrow> restore_start e amount i from_pos d1;
                indent_ranges e o' how amount (Suc i) rs stop' d2
              }
      else if ps_line (rg_head r) > stop
      then do {
             (b, d1) \<leftarrow> indentLine e o' (ps_line (rg_head r)) how True d;
             indent_ranges e o' how amount (Suc i) rs (ps_line (rg_head r)) d1
           }
      else indent_ranges e o' how amount (Suc i) rs stop d)"

definition indentSelection :: "editor \<Rightarrow> indenting \<Rightarrow> how \<Rightarrow> cm_doc \<Rightarrow> cm_doc option" where
  "indentSelection e o' how d =
     (let ranges = sl_ranges (cd_sel d) in indent_ranges e o' how (length ranges) 0 ranges (-1) d)"

definition cm_indentLine :: "editor \<Rightarrow> indenting \<Rightarrow> int \<Rightarrow> how option \<Rightarrow> bool \<Rightarrow> cm_doc \<Rightarrow> cm_doc option" where
  "cm_indentLine e o' n dir aggressive d =
     (let how = (case dir of None \<Rightarrow> if in_smart o' then Smart else Prev | Some h \<Rightarrow> h)
      in if isLine d n then map_option snd (indentLine e o' n how aggressive d) else Some d)"

section \<open>Commands\<close>

definition replaceSelection :: "editor \<Rightarrow> js_text list \<Rightarrow> string option \<Rightarrow> string option \<Rightarrow> cm_doc \<Rightarrow> cm_doc option" where
  "replaceSelection e code collapse origin d =
     replaceSelections e (map (\<lambda>_. code) (sl_ranges (cd_sel d))) collapse (Some (or_default ''+input'' origin)) d"

definition insertTab :: "editor \<Rightarrow> cm_doc \<Rightarrow> cm_doc option" where
  "insertTab e d = replaceSelection e [[tab]] None None d"

fun soft_tabs :: "indenting \<Rightarrow> cm_doc \<Rightarrow> sel_range list \<Rightarrow> js_text list list option" where
  "soft_tabs o' d [] = Some []"
| "soft_tabs o' d (r # rs) =
     do {
       l \<leftarrow> getLine d (ps_line (range_from r));
       let col = nat (countColumn (ln_text l) (Some (nat (ps_ch (range_from r)))) (in_tabSize o') 0 0);
       rest \<leftarrow> soft_tabs o' d rs;
       Some ([spaceStr (in_tabSize o' - col mod in_tabSize o')] # rest)
     }"

definition insertSoftTab :: "editor \<Rightarrow> indenting \<Rightarrow> cm_doc \<Rightarrow> cm_doc option" where
  "insertSoftTab e o' d = do { spaces \<leftarrow> soft_tabs o' d (sl_ranges (cd_sel d)); replaceSelections e spaces None None d }"

definition defaultTab :: "editor \<Rightarrow> indenting \<Rightarrow> cm_doc \<Rightarrow> cm_doc option" where
  "defaultTab e o' d = (if somethingSelected (cd_sel d) then indentSelection e o' Add d else insertTab e d)"

definition openLine :: "editor \<Rightarrow> cm_doc \<Rightarrow> cm_doc option" where
  "openLine e d = replaceSelection e [[], []] (Some ''start'') None d"

fun new_lines :: "editor \<Rightarrow> sel_range list \<Rightarrow> cm_doc \<Rightarrow> cm_doc option" where
  "new_lines e [] d = Some d"
| "new_lines e (r # rs) d =
     do {
       d1 \<leftarrow> new_lines e rs d;
       doc_replaceRange e [[], []] (raw (rg_anchor r)) (Some (raw (rg_head r))) (Some ''+input'') d1
     }"

fun indent_new_lines :: "editor \<Rightarrow> indenting \<Rightarrow> sel_range list \<Rightarrow> cm_doc \<Rightarrow> cm_doc option" where
  "indent_new_lines e o' [] d = Some d"
| "indent_new_lines e o' (r # rs) d =
     do { d1 \<leftarrow> cm_indentLine e o' (ps_line (range_from r)) None True d; indent_new_lines e o' rs d1 }"

definition newlineAndIndent :: "editor \<Rightarrow> indenting \<Rightarrow> cm_doc \<Rightarrow> cm_doc option" where
  "newlineAndIndent e o' d =
     do { d1 \<leftarrow> new_lines e (sl_ranges (cd_sel d)) d; indent_new_lines e o' (sl_ranges (cd_sel d1)) d1 }"

section \<open>The indentation of a line\<close>

lemma column_tabs: "column_of tabSize (m * tabSize) (replicate k tab) = (m + k) * tabSize"
proof (induction k arbitrary: m)
  case (Suc k)
  from Suc [of "Suc m"] show ?case by (simp add: column_of_def column_step_def add.commute)
qed (simp add: column_of_def)

lemma column_indentString: "0 < in_tabSize o' \<Longrightarrow> int (column_of (in_tabSize o') 0 (indentString o' i)) = max 0 i"
proof -
  let ?n = "nat (max 0 i)"
  define tabs where "tabs = (if in_tabs o' then ?n div in_tabSize o' else 0)"
  have "tab \<notin> set (spaceStr r)" for r by (auto simp: spaceStr_def tab_def space_def)
  then have "column_of (in_tabSize o') 0 (indentString o' i) = tabs * in_tabSize o' + (?n - tabs * in_tabSize o')"
    using column_tabs [of "in_tabSize o'" 0 tabs]
    by (simp add: indentString_def tabs_def [symmetric] Let_def column_of_append column_of_no_tab) (simp add: spaceStr_def)
  moreover have "tabs * in_tabSize o' \<le> ?n" by (simp add: tabs_def)
  ultimately show ?thesis by simp
qed

lemma js_space_blank: "js_space tab" "js_space space"
  by (simp_all add: js_space_def tab_def space_def)

lemma takeWhile_indentString: "takeWhile js_space (indentString o' i @ dropWhile js_space text) = indentString o' i"
proof -
  have "list_all js_space (indentString o' i)"
    by (auto simp: indentString_def spaceStr_def Let_def list_all_iff js_space_blank split: if_splits)
  then have "takeWhile js_space (indentString o' i @ dropWhile js_space text) = indentString o' i @ takeWhile js_space (dropWhile js_space text)"
    by (simp add: list_all_iff)
  moreover have "takeWhile js_space (dropWhile js_space text) = []"
    by (induction "text") auto
  ultimately show ?thesis by simp
qed

lemma line_column_indented:
  "0 < in_tabSize o' \<Longrightarrow> line_column o' (indentString o' i @ dropWhile js_space text) = max 0 i"
  using column_indentString [of o' i] countColumn_eq [of "length (indentString o' i)" "indentString o' i @ dropWhile js_space text"]
  by (simp add: line_column_def countColumn_def takeWhile_indentString)

lemma replace_indentation:
  assumes "k < length L"
  shows "join (cut_before L (k, 0)) (join [str] (cut_after L (k, length (takeWhile js_space (L ! k))))) = L[k := str @ dropWhile js_space (L ! k)]"
  using assms
  by (simp add: cut_before_def cut_after_def join_eq butlast_append upd_conv_take_nth_drop dropWhile_eq_drop)

lemma replaceOneSelection_text:
  "\<exists>d'. replaceOneSelection e i r None d = Some d' \<and> doc_lines d' = doc_lines d \<and> text_ok d' = text_ok d"
proof -
  let ?d = "setSelectionNoUndo e (normalizeSelection ((sl_ranges (cd_sel d))[i := r]) (sl_primIndex (cd_sel d))) d"
  have "addSelectionToHistory e (cd_sel ?d) None ?d \<noteq> None" by (auto simp: addSelectionToHistory_def Let_def)
  then obtain h where "addSelectionToHistory e (cd_sel ?d) None ?d = Some h" by blast
  then have "replaceOneSelection e i r None d = Some (?d\<lparr>cd_hist := h\<rparr>)"
    by (simp add: replaceOneSelection_def setSelection_def Let_def)
  then show ?thesis by simp
qed

text \<open>A line whose white space changes is replaced; the document keeps its invariant.\<close>

lemma indentLine_changes:
  assumes "plain_editor e" "doc_inv G d" "k < length (doc_lines d)"
    and "indentation_for o' (td_first d + int k) how aggressive (doc_lines d ! k) d = Some (Some i)"
    and "indentString o' i \<noteq> takeWhile js_space (doc_lines d ! k)"
  obtains d' G' where "indentLine e o' (td_first d + int k) how aggressive d = Some (True, d')" "doc_inv G' d'"
    "td_first d' = td_first d" "doc_lines d' = (doc_lines d)[k := indentString o' i @ dropWhile js_space (doc_lines d ! k)]"
proof -
  let ?L = "doc_lines d" and ?n = "td_first d + int k" and ?str = "indentString o' i"
  let ?cur = "takeWhile js_space (?L ! k)"
  have ok: "text_ok d" using assms(2) by (simp add: doc_inv_def)
  obtain l where l: "getLine d ?n = Some l" "ln_text l = ?L ! k"
    using getLine_doc [OF ok, of ?n] assms(3) doc_size_eq [OF ok] by auto
  have v: "valid_pos d (Pos ?n 0)" "valid_pos d (Pos ?n (int (length ?cur)))"
    using assms(3) length_takeWhile_le by (auto simp: valid_pos_def valid_cut_def cut_of_def)
  have "cmp (Pos ?n 0) (Pos ?n (int (length ?cur))) \<le> 0" by (simp add: cmp_def)
  from replace_step [OF assms(1,2) v this, of "[?str]" "Some ''+input''"] obtain d' G' where
    d': "replaceRange e [?str] (Pos ?n 0) (Some (Pos ?n (int (length ?cur)))) (Some ''+input'') d = Some d'" "doc_inv G' d'"
    "td_first d' = td_first d" "doc_lines d' = join (cut_before ?L (k, 0)) (join [?str] (cut_after ?L (k, length ?cur)))"
    by (auto simp: cut_of_def)
  have "indentLine e o' ?n how aggressive d = Some (True, d')"
    using l assms(4,5) d'(1) by (simp add: indentLine_def Let_def)
  moreover have "doc_lines d' = ?L[k := ?str @ dropWhile js_space (?L ! k)]"
    unfolding d'(4) by (rule replace_indentation [OF assms(3)])
  ultimately show thesis using that d'(2,3) by blast
qed

lemma line_column_eq: "line_column o' text = int (column_of (in_tabSize o') 0 (takeWhile js_space text))"
  using countColumn_eq [OF length_takeWhile_le, of "text" js_space]
  by (simp add: line_column_def countColumn_def flip: takeWhile_eq_take)

text \<open>C40. Indenting a line gives it the indentation: whatever way of indenting is asked for, when it asks
  for a column at all, the line afterwards starts with white space that ends exactly at that column,
  or at column 0 when a negative one is asked for, by tabs and spaces as the options say; the rest of
  the line and all other lines stay, and the result says whether the text changed.\<close>

theorem indented_to_column:
  assumes "0 < in_tabSize o'" "plain_editor e" "doc_inv G d" "k < length (doc_lines d)"
    and "indentation_for o' (td_first d + int k) how aggressive (doc_lines d ! k) d = Some (Some i)"
  shows "\<exists>b d'. indentLine e o' (td_first d + int k) how aggressive d = Some (b, d') \<and> text_ok d'
    \<and> doc_lines d' = (doc_lines d)[k := indentString o' i @ dropWhile js_space (doc_lines d ! k)]
    \<and> line_column o' (doc_lines d' ! k) = max 0 i \<and> (b \<longleftrightarrow> doc_lines d' \<noteq> doc_lines d)"
proof -
  let ?L = "doc_lines d" and ?n = "td_first d + int k" and ?str = "indentString o' i"
  let ?cur = "takeWhile js_space (?L ! k)"
  have ok: "text_ok d" using assms(3) by (simp add: doc_inv_def)
  obtain l where l: "getLine d ?n = Some l" "ln_text l = ?L ! k"
    using getLine_doc [OF ok, of ?n] assms(4) doc_size_eq [OF ok] by auto
  have column: "line_column o' (?L[k := ?str @ dropWhile js_space (?L ! k)] ! k) = max 0 i"
    using assms(1,4) by (simp add: line_column_indented)
  show ?thesis
  proof (cases "?str = ?cur")
    case True
    then have same: "?L[k := ?str @ dropWhile js_space (?L ! k)] = ?L" by simp
    have "\<exists>d'. indentLine e o' ?n how aggressive d = Some (False, d') \<and> text_ok d' \<and> doc_lines d' = ?L"
    proof (cases "head_in_space ?n (length ?cur) (sl_ranges (cd_sel d))")
      case None
      with l True assms(5) ok show ?thesis by (simp add: indentLine_def Let_def)
    next
      case (Some j)
      let ?p = "Pos ?n (int (length ?cur))"
      from replaceOneSelection_text [of e j "Range ?p ?p" d] obtain d' where
        "replaceOneSelection e j (Range ?p ?p) None d = Some d'" "doc_lines d' = ?L" "text_ok d' = text_ok d" by blast
      with l True Some assms(5) ok show ?thesis by (simp add: indentLine_def Let_def)
    qed
    with column same show ?thesis by auto
  next
    case False
    obtain d' G' where d': "indentLine e o' ?n how aggressive d = Some (True, d')" "doc_inv G' d'"
      "doc_lines d' = ?L[k := ?str @ dropWhile js_space (?L ! k)]"
      by (rule indentLine_changes [OF assms(2-5) False])
    have "?str @ dropWhile js_space (?L ! k) \<noteq> ?L ! k"
      using False by (metis append_same_eq takeWhile_dropWhile_id)
    then have "doc_lines d' \<noteq> ?L" unfolding d'(3) using assms(4) by (metis nth_list_update_eq)
    with d' column show ?thesis by (auto simp: doc_inv_def)
  qed
qed


definition two_spaces :: indenting where
  "two_spaces = \<lparr>in_unit = 2, in_tabs = True, in_tabSize = 4, in_smart = False, in_mode = None\<rparr>"

lemma not_space: "\<not> js_space 97"
  by (simp add: js_space_def)

lemma two_spaces_strings:
  "indentString two_spaces 2 = [space, space]" "indentString two_spaces 4 = [tab]" "indentString two_spaces 6 = [tab, space, space]"
  by (simp_all add: indentString_def two_spaces_def spaceStr_def numeral_2_eq_2)

theorem indented_to_column_witness:
  "\<exists>b d'. indentLine example_editor two_spaces 2 (By_Columns 6) True two_cursors = Some (b, d')
     \<and> doc_lines d' = [[97], [97, 97], [tab, space, space, 97, 97, 97]]"
proof -
  have line: "doc_lines two_cursors ! 2 = [97, 97, 97]" by (simp add: two_cursors_ok(2))
  have target: "indentation_for two_spaces (td_first two_cursors + int 2) (By_Columns 6) True (doc_lines two_cursors ! 2) two_cursors = Some (Some 6)"
    unfolding line by (simp add: indentation_for_def line_column_eq not_space column_of_def Let_def)
  have "2 < length (doc_lines two_cursors)" "0 < in_tabSize two_spaces" by (simp_all add: two_cursors_ok(2) two_spaces_def)
  from indented_to_column [OF this(2) two_cursors_ok(5,1) this(1) target] show ?thesis
    unfolding line by (auto simp: two_cursors_ok(2,3) two_spaces_strings not_space)
qed

text \<open>
  The line of a cursor in front of a selection that starts on the same line is indented twice, and the
  line of a cursor behind a selection that ends on the line before is not indented: the number kept
  for a cursor is its line, the number kept for a selection the line behind it.
\<close>

definition selecting :: "sel_range list \<Rightarrow> cm_doc" where
  "selecting rs = example_cm\<lparr>cd_sel := \<lparr>sl_ranges = rs, sl_primIndex = 0\<rparr>\<rparr>"

lemma selecting_ok: "doc_inv (\<lambda>_. doc_lines (selecting rs)) (selecting rs)" "doc_lines (selecting rs) = [[97], [97, 97], [97, 97, 97]]"
  "td_first (selecting rs) = 0" "sl_ranges (cd_sel (selecting rs)) = rs"
proof -
  have t: "td_tree (selecting rs) = example_doc" "td_first (selecting rs) = 0" "cd_hist (selecting rs) = History 0"
    by (simp_all add: selecting_def example_cm_def)
  then show lines: "doc_lines (selecting rs) = [[97], [97, 97], [97, 97, 97]]" and "td_first (selecting rs) = 0"
    using example_text_ok(2) by (simp_all add: doc_lines_def example_text_def)
  have "text_ok (selecting rs)" using t lines example_doc_ok(1) by (simp add: text_ok_def)
  then show "doc_inv (\<lambda>_. doc_lines (selecting rs)) (selecting rs)"
    using t by (intro empty_history_ok) (simp_all add: History_def)
  show "sl_ranges (cd_sel (selecting rs)) = rs" by (simp add: selecting_def)
qed

text \<open>Adding two columns to a line of the letters \<open>a\<close> with the given white space.\<close>

lemma add_columns:
  assumes "doc_inv G d" "td_first d = 0" "k < length (doc_lines d)" "doc_lines d ! k = blanks @ text"
    and "list_all js_space blanks" "text \<noteq> []" "list_all (\<lambda>c. c = 97) text"
    and "indentString two_spaces (int (column_of 4 0 blanks) + 2) = blanks'" "blanks' \<noteq> blanks"
  obtains d' G' where "indentLine example_editor two_spaces (int k) Add aggressive d = Some (True, d')" "doc_inv G' d'" "td_first d' = 0"
    "doc_lines d' = (doc_lines d)[k := blanks' @ text]"
proof -
  have split: "takeWhile js_space (blanks @ text) = blanks" "dropWhile js_space (blanks @ text) = text"
    using assms(5-7) not_space by (auto simp: list_all_iff neq_Nil_conv)
  have "\<not> list_all js_space text" using assms(6,7) not_space by (auto simp: neq_Nil_conv)
  then have target: "indentation_for two_spaces (td_first d + int k) Add aggressive (doc_lines d ! k) d = Some (Some (int (column_of 4 0 blanks) + 2))"
    using split by (simp add: assms(4) indentation_for_def line_column_eq two_spaces_def Let_def)
  have "indentString two_spaces (int (column_of 4 0 blanks) + 2) \<noteq> takeWhile js_space (doc_lines d ! k)"
    using assms(8,9) split by (simp add: assms(4))
  from indentLine_changes [OF two_cursors_ok(5) assms(1,3) target this] that show thesis
    using assms(2,8) split by (auto simp: assms(4))
qed

lemma last_line: "doc_inv G d \<Longrightarrow> td_first d = 0 \<Longrightarrow> doc_lastLine d = int (length (doc_lines d)) - 1"
  using doc_size_eq [of d] by (simp add: doc_inv_def doc_lastLine_def)

lemma indentSelection_twice:
  "\<exists>d'. indentSelection example_editor two_spaces Add (selecting [Range (Pos 2 0) (Pos 2 0), Range (Pos 2 1) (Pos 2 2)]) = Some d'
     \<and> doc_lines d' = [[97], [97, 97], [tab, 97, 97, 97]]"
proof -
  let ?d = "selecting [Range (Pos 2 0) (Pos 2 0), Range (Pos 2 1) (Pos 2 2)]"
  obtain d1 G1 where d1: "indentLine example_editor two_spaces (int 2) Add True ?d = Some (True, d1)" "doc_inv G1 d1" "td_first d1 = 0"
    "doc_lines d1 = [[97], [97, 97], [space, space, 97, 97, 97]]"
    by (rule add_columns [OF selecting_ok(1,3), of 2 _ "[]" "[97, 97, 97]" "[space, space]" True])
      (auto simp: selecting_ok(2) two_spaces_strings column_of_def)
  obtain d2 G2 where d2: "indentLine example_editor two_spaces (int 2) Add False d1 = Some (True, d2)" "doc_inv G2 d2" "td_first d2 = 0"
    "doc_lines d2 = [[97], [97, 97], [tab, 97, 97, 97]]"
    by (rule add_columns [OF d1(2,3), of 2 "[space, space]" "[97, 97, 97]" "[tab]" False])
      (auto simp: d1(4) two_spaces_strings column_of_def column_step_def space_def tab_def js_space_blank [unfolded space_def])
  have "doc_lastLine d1 = 2" using last_line [OF d1(2,3)] d1(4) by simp
  then show ?thesis
    using d1 d2
    by (simp add: indentSelection_def selecting_ok(4) range_empty_def Range_def range_from_def range_to_def minPos_def maxPos_def cmp_def
        restore_start_def Let_def upto.simps [of 2 2] upto.simps [of 3 2])
qed

lemma indentSelection_skips:
  "\<exists>d'. indentSelection example_editor two_spaces Add (selecting [Range (Pos 1 1) (Pos 1 2), Range (Pos 2 1) (Pos 2 1)]) = Some d'
     \<and> doc_lines d' = [[97], [space, space, 97, 97], [97, 97, 97]]"
proof -
  let ?d = "selecting [Range (Pos 1 1) (Pos 1 2), Range (Pos 2 1) (Pos 2 1)]"
  obtain d1 G1 where d1: "indentLine example_editor two_spaces (int 1) Add False ?d = Some (True, d1)"
    "doc_lines d1 = [[97], [space, space, 97, 97], [97, 97, 97]]"
    by (rule add_columns [OF selecting_ok(1,3), of 1 _ "[]" "[97, 97]" "[space, space]" False])
      (auto simp: selecting_ok(2) two_spaces_strings column_of_def)
  have "doc_lastLine ?d = 2" using last_line [OF selecting_ok(1,3)] selecting_ok(2) by simp
  then show ?thesis
    using d1
    by (simp add: indentSelection_def selecting_ok(4) range_empty_def Range_def range_from_def range_to_def minPos_def maxPos_def cmp_def
        restore_start_def Let_def upto.simps [of 1 1] upto.simps [of 2 1])
qed

end
