(* ===== verification/Cm_Events.thy ===== *)
theory Cm_Events
  imports Web_Base
begin

text \<open>
  Events and operations of the editor (\<open>codemirror.js\<close>): handlers of emitters that are not elements of
  the page, calling them at once or when the operation ends, the group of operations that run
  together, and the callbacks and cursor handlers that are called at its end. What a handler does
  is an argument: from the calls made so far it gives the actions of the last call, and whether it
  throws after them. A handler signals other events with \<open>signalLater\<close> only; redrawing at the end of
  an operation is left out.
\<close>

section \<open>Emitters\<close>

text \<open>An operation: its editor, the cursor handlers to call at the end, and how many were called.\<close>

record ('e, 'h) editor_operation =
  op_cm :: 'e
  op_cursorActivityHandlers :: "'h list"
  op_cursorActivityCalled :: nat

text \<open>A call: a handler that was signalled with arguments, or a cursor handler with its editor.\<close>

datatype ('e, 'h, 'a) call = Signalled 'h 'a | Cursor_Handler 'h 'e

record ('e, 'h, 'a) events =
  ev_handlers :: "'e \<Rightarrow> string \<Rightarrow> 'h list option"
  ev_group :: "(('e, 'h) editor_operation list \<times> ('h \<times> 'a) list) option"
  ev_orphans :: "('h \<times> 'a) list option"
  ev_timers :: nat
  ev_calls :: "('e, 'h, 'a) call list"

definition getHandlers :: "'e \<Rightarrow> string \<Rightarrow> ('e, 'h, 'a) events \<Rightarrow> 'h list" where
  "getHandlers emitter type s = (case ev_handlers s emitter type of None \<Rightarrow> [] | Some arr \<Rightarrow> arr)"

definition on :: "'e \<Rightarrow> string \<Rightarrow> 'h \<Rightarrow> ('e, 'h, 'a) events \<Rightarrow> ('e, 'h, 'a) events" where
  "on emitter type f s =
     s\<lparr>ev_handlers := (ev_handlers s)(emitter := (ev_handlers s emitter)(type \<mapsto> getHandlers emitter type s @ [f]))\<rparr>"

definition off :: "'e \<Rightarrow> string \<Rightarrow> 'h \<Rightarrow> ('e, 'h, 'a) events \<Rightarrow> ('e, 'h, 'a) events" where
  "off emitter type f s =
     (case ev_handlers s emitter type of
        None \<Rightarrow> s
      | Some arr \<Rightarrow>
          (case find (\<lambda>i. arr ! i = f) [0..<length arr] of
             None \<Rightarrow> s
           | Some index \<Rightarrow> s\<lparr>ev_handlers := (ev_handlers s)(emitter := (ev_handlers s emitter)(type \<mapsto> take index arr @ drop (Suc index) arr))\<rparr>))"

definition hasHandler :: "'e \<Rightarrow> string \<Rightarrow> ('e, 'h, 'a) events \<Rightarrow> bool" where
  "hasHandler emitter type s \<longleftrightarrow> getHandlers emitter type s \<noteq> []"

section \<open>Operations\<close>

definition pushOperation :: "('e, 'h) editor_operation \<Rightarrow> ('e, 'h, 'a) events \<Rightarrow> ('e, 'h, 'a) events" where
  "pushOperation operation s =
     s\<lparr>ev_group := (case ev_group s of Some (ops, delayed) \<Rightarrow> Some (ops @ [operation], delayed) | None \<Rightarrow> Some ([operation], []))\<rparr>"

definition startOperation :: "'e \<Rightarrow> ('e, 'h, 'a) events \<Rightarrow> ('e, 'h, 'a) events" where
  "startOperation cm s = pushOperation \<lparr>op_cm = cm, op_cursorActivityHandlers = [], op_cursorActivityCalled = 0\<rparr> s"

text \<open>The current operation of an editor: its last one in the group.\<close>

definition curOp :: "'e \<Rightarrow> ('e, 'h) editor_operation list \<Rightarrow> nat option" where
  "curOp cm ops = find (\<lambda>k. op_cm (ops ! k) = cm) (rev [0..<length ops])"

definition add_new :: "'h list \<Rightarrow> 'h list \<Rightarrow> 'h list" where
  "add_new arr hs = fold (\<lambda>h hs. if h \<in> set hs then hs else hs @ [h]) arr hs"

text \<open>Outside an operation the editor has no set to add to, which throws.\<close>

definition signalCursorActivity :: "'e \<Rightarrow> ('e, 'h, 'a) events \<Rightarrow> ('e, 'h, 'a) events outcome" where
  "signalCursorActivity cm s =
     (case ev_handlers s cm ''cursorActivity'' of
        None \<Rightarrow> Return s
      | Some arr \<Rightarrow>
         (case ev_group s of
           None \<Rightarrow> Throw
         | Some (ops, delayed) \<Rightarrow>
             (case curOp cm ops of
                None \<Rightarrow> Throw
              | Some k \<Rightarrow> Return (s\<lparr>ev_group := Some (ops[k := (ops ! k)\<lparr>op_cursorActivityHandlers :=
                  add_new arr (op_cursorActivityHandlers (ops ! k))\<rparr>], delayed)\<rparr>))))"

definition signalLater :: "'e \<Rightarrow> string \<Rightarrow> 'a \<Rightarrow> ('e, 'h, 'a) events \<Rightarrow> ('e, 'h, 'a) events" where
  "signalLater emitter type args s =
     (let arr = getHandlers emitter type s; new = map (\<lambda>h. (h, args)) arr
      in if arr = [] then s
         else case ev_group s of
           Some (ops, delayed) \<Rightarrow> s\<lparr>ev_group := Some (ops, delayed @ new)\<rparr>
         | None \<Rightarrow>
             (case ev_orphans s of
                Some list \<Rightarrow> s\<lparr>ev_orphans := Some (list @ new)\<rparr>
              | None \<Rightarrow> s\<lparr>ev_orphans := Some new, ev_timers := ev_timers s + 1\<rparr>))"

section \<open>Calling handlers\<close>

datatype ('e, 'h, 'a) handler_action = On 'e string 'h | Off 'e string 'h | Later 'e string 'a | Cursor_Activity 'e | Start_Operation 'e

type_synonym ('e, 'h, 'a) behaviour = "('e, 'h, 'a) call list \<Rightarrow> ('e, 'h, 'a) handler_action list \<times> bool"

fun perform :: "('e, 'h, 'a) handler_action \<Rightarrow> ('e, 'h, 'a) events \<Rightarrow> ('e, 'h, 'a) events outcome" where
  "perform (On e t h) s = Return (on e t h s)"
| "perform (Off e t h) s = Return (off e t h s)"
| "perform (Later e t a) s = Return (signalLater e t a s)"
| "perform (Cursor_Activity cm) s = signalCursorActivity cm s"
| "perform (Start_Operation cm) s = Return (startOperation cm s)"

text \<open>The result says whether something threw.\<close>

fun perform_all :: "('e, 'h, 'a) handler_action list \<Rightarrow> ('e, 'h, 'a) events \<Rightarrow> bool \<times> ('e, 'h, 'a) events" where
  "perform_all [] s = (False, s)"
| "perform_all (x # xs) s = (case perform x s of Throw \<Rightarrow> (True, s) | Return s1 \<Rightarrow> perform_all xs s1)"

definition call_handler :: "('e, 'h, 'a) behaviour \<Rightarrow> ('e, 'h, 'a) call \<Rightarrow> ('e, 'h, 'a) events \<Rightarrow> bool \<times> ('e, 'h, 'a) events" where
  "call_handler env c s =
     (let s1 = s\<lparr>ev_calls := ev_calls s @ [c]\<rparr>
      in case env (ev_calls s1) of (acts, throws) \<Rightarrow>
           (case perform_all acts s1 of (thrown, s2) \<Rightarrow> (thrown \<or> throws, s2)))"

fun call_all_handlers :: "('e, 'h, 'a) behaviour \<Rightarrow> 'h list \<Rightarrow> 'a \<Rightarrow> ('e, 'h, 'a) events \<Rightarrow> bool \<times> ('e, 'h, 'a) events" where
  "call_all_handlers env [] args s = (False, s)"
| "call_all_handlers env (h # hs) args s =
     (case call_handler env (Signalled h args) s of (thrown, s1) \<Rightarrow> if thrown then (True, s1) else call_all_handlers env hs args s1)"

text \<open>Calling the handlers at once; the array of handlers is the one of the start, since \<open>on\<close> and \<open>off\<close> make new ones.\<close>

definition signal :: "('e, 'h, 'a) behaviour \<Rightarrow> 'e \<Rightarrow> string \<Rightarrow> 'a \<Rightarrow> ('e, 'h, 'a) events \<Rightarrow> bool \<times> ('e, 'h, 'a) events" where
  "signal env emitter type args s = call_all_handlers env (getHandlers emitter type s) args s"

section \<open>The end of an operation\<close>

text \<open>Where the loops stand: at a callback, or at the cursor handlers of an operation, with the number of
  callbacks that were called.\<close>

datatype phase = In_Callbacks | In_Operation nat

datatype 's progress = Running 's | Finished 's | Thrown 's

type_synonym ('e, 'h, 'a) firing = "nat \<times> phase \<times> ('e, 'h, 'a) events"

fun after_call :: "nat \<Rightarrow> phase \<Rightarrow> bool \<times> ('e, 'h, 'a) events \<Rightarrow> ('e, 'h, 'a) firing progress" where
  "after_call i ph (thrown, s) = (if thrown then Thrown (i, ph, s) else Running (i, ph, s))"

fun fire_step :: "('e, 'h, 'a) behaviour \<Rightarrow> ('e, 'h, 'a) firing \<Rightarrow> ('e, 'h, 'a) firing progress" where
  "fire_step env (i, In_Callbacks, s) =
     (case ev_group s of
        None \<Rightarrow> Finished (i, In_Callbacks, s)
      | Some (ops, callbacks) \<Rightarrow>
          if i < length callbacks
          then after_call (Suc i) In_Callbacks (call_handler env (Signalled (fst (callbacks ! i)) (snd (callbacks ! i))) s)
          else Running (i, In_Operation 0, s))"
| "fire_step env (i, In_Operation j, s) =
     (case ev_group s of
        None \<Rightarrow> Finished (i, In_Operation j, s)
      | Some (ops, callbacks) \<Rightarrow>
          if j < length ops
          then (let operation = ops ! j; k = op_cursorActivityCalled operation
                in if k < length (op_cursorActivityHandlers operation)
                   then after_call i (In_Operation j)
                     (call_handler env (Cursor_Handler (op_cursorActivityHandlers operation ! k) (op_cm operation))
                       (s\<lparr>ev_group := Some (ops[j := operation\<lparr>op_cursorActivityCalled := Suc k\<rparr>], callbacks)\<rparr>))
                   else Running (i, In_Operation (Suc j), s))
          else if i < length callbacks then Running (i, In_Callbacks, s)
          else Finished (i, In_Operation j, s))"

partial_function (option) fire_loop :: "('e, 'h, 'a) behaviour \<Rightarrow> ('e, 'h, 'a) firing \<Rightarrow> (bool \<times> ('e, 'h, 'a) firing) option" where
  [code]: "fire_loop env f = (case fire_step env f of Running f' \<Rightarrow> fire_loop env f' | Finished f' \<Rightarrow> Some (False, f') | Thrown f' \<Rightarrow> Some (True, f'))"

definition fireCallbacksForOps :: "('e, 'h, 'a) behaviour \<Rightarrow> ('e, 'h, 'a) events \<Rightarrow> (bool \<times> ('e, 'h, 'a) events) option" where
  "fireCallbacksForOps env s = map_option (\<lambda>(thrown, i, ph, s'). (thrown, s')) (fire_loop env (0, In_Callbacks, s))"

text \<open>The end of an operation, by its place in the group; the first operation owns the group, which
  ends even if a callback throws.\<close>

definition finishOperation :: "('e, 'h, 'a) behaviour \<Rightarrow> nat \<Rightarrow> ('e, 'h, 'a) events \<Rightarrow> (bool \<times> ('e, 'h, 'a) events) option" where
  "finishOperation env k s =
     (if k \<noteq> 0 then Some (False, s)
      else map_option (\<lambda>(thrown, s'). (thrown, s'\<lparr>ev_group := None\<rparr>)) (fireCallbacksForOps env s))"

definition cm_curOp :: "'e \<Rightarrow> ('e, 'h, 'a) events \<Rightarrow> nat option" where
  "cm_curOp cm s = (case ev_group s of None \<Rightarrow> None | Some (ops, delayed) \<Rightarrow> curOp cm ops)"

text \<open>An editor without an operation has nothing to end, which throws.\<close>

definition endOperation :: "('e, 'h, 'a) behaviour \<Rightarrow> 'e \<Rightarrow> ('e, 'h, 'a) events \<Rightarrow> (bool \<times> ('e, 'h, 'a) events) option" where
  "endOperation env cm s = (case cm_curOp cm s of None \<Rightarrow> Some (True, s) | Some k \<Rightarrow> finishOperation env k s)"

definition runInOp :: "('e, 'h, 'a) behaviour \<Rightarrow> 'e \<Rightarrow> ('e, 'h, 'a) handler_action list \<Rightarrow> ('e, 'h, 'a) events \<Rightarrow> (bool \<times> ('e, 'h, 'a) events) option" where
  "runInOp env cm acts s =
     (if cm_curOp cm s \<noteq> None then Some (perform_all acts s)
      else (case perform_all acts (startOperation cm s) of (thrown, s1) \<Rightarrow>
              map_option (\<lambda>(thrown', s2). (thrown \<or> thrown', s2)) (endOperation env cm s1)))"

text \<open>Without an operation a timer calls them.\<close>

fun call_delayed :: "('e, 'h, 'a) behaviour \<Rightarrow> ('h \<times> 'a) list \<Rightarrow> ('e, 'h, 'a) events \<Rightarrow> bool \<times> ('e, 'h, 'a) events" where
  "call_delayed env [] s = (False, s)"
| "call_delayed env ((h, a) # delayed) s =
     (case call_handler env (Signalled h a) s of (thrown, s1) \<Rightarrow> if thrown then (True, s1) else call_delayed env delayed s1)"

definition fireOrphanDelayed :: "('e, 'h, 'a) behaviour \<Rightarrow> ('e, 'h, 'a) events \<Rightarrow> bool \<times> ('e, 'h, 'a) events" where
  "fireOrphanDelayed env s =
     (case ev_orphans s of
        None \<Rightarrow> (True, s\<lparr>ev_timers := ev_timers s - 1\<rparr>)
      | Some delayed \<Rightarrow> call_delayed env delayed (s\<lparr>ev_orphans := None, ev_timers := ev_timers s - 1\<rparr>))"

section \<open>The order of the calls\<close>

fun signalled :: "('e, 'h, 'a) call list \<Rightarrow> ('h \<times> 'a) list" where
  "signalled [] = []"
| "signalled (Signalled h a # cs) = (h, a) # signalled cs"
| "signalled (Cursor_Handler h e # cs) = signalled cs"

fun cursor_calls :: "('e, 'h, 'a) call list \<Rightarrow> ('h \<times> 'e) list" where
  "cursor_calls [] = []"
| "cursor_calls (Signalled h a # cs) = cursor_calls cs"
| "cursor_calls (Cursor_Handler h e # cs) = (h, e) # cursor_calls cs"

lemma calls_append [simp]: "signalled (xs @ ys) = signalled xs @ signalled ys" "cursor_calls (xs @ ys) = cursor_calls xs @ cursor_calls ys"
  by (induction xs rule: signalled.induct) auto

text \<open>Actions make no calls, and only add to the callbacks of the group.\<close>

definition grows :: "('e, 'h, 'a) events \<Rightarrow> ('e, 'h, 'a) events \<Rightarrow> bool" where
  "grows s s' \<longleftrightarrow> ev_calls s' = ev_calls s \<and> (case ev_group s of None \<Rightarrow> True
     | Some (ops, callbacks) \<Rightarrow> \<exists>ops' more. ev_group s' = Some (ops', callbacks @ more))"

lemma grows_refl [simp]: "grows s s"
  by (auto simp: grows_def split: option.splits)

lemma grows_trans: "grows a b \<Longrightarrow> grows b c \<Longrightarrow> grows a c"
  by (fastforce simp: grows_def split: option.splits)

lemma perform_grows: "perform x s = Return s' \<Longrightarrow> grows s s'"
  by (cases x) (auto simp: grows_def on_def off_def signalLater_def signalCursorActivity_def startOperation_def pushOperation_def Let_def
      split: option.splits if_splits)

lemma perform_all_grows: "perform_all xs s = (t, s') \<Longrightarrow> grows s s'"
  by (induction xs arbitrary: s) (auto split: outcome.splits dest!: perform_grows intro: grows_trans)

lemma call_handler_grows:
  "call_handler env c s = (t, s') \<Longrightarrow> grows (s\<lparr>ev_calls := ev_calls s @ [c]\<rparr>) s'"
  by (auto simp: call_handler_def Let_def split: prod.splits dest: perform_all_grows)

text \<open>An induction rule for the loop.\<close>

lemma fire_loop_induct:
  assumes "fire_loop env f = Some r"
    and ends: "\<And>f f'. fire_step env f = Finished f' \<Longrightarrow> P f (False, f')" "\<And>f f'. fire_step env f = Thrown f' \<Longrightarrow> P f (True, f')"
    and step: "\<And>f f' r. fire_step env f = Running f' \<Longrightarrow> P f' r \<Longrightarrow> P f r"
  shows "P f r"
proof -
  have "fire_loop env' f = Some r \<Longrightarrow> env' = env \<longrightarrow> P f r" for env' f r
  proof (induction env' f r rule: fire_loop.raw_induct [rotated 1, consumes 1, case_names unfolded])
    case (unfolded rec env' f r)
    show ?case
    proof (intro impI)
      assume e: "env' = env"
      show "P f r"
      proof (cases "fire_step env f")
        case (Running f')
        with unfolded(2) e have "rec env f' = Some r" by simp
        with unfolded(1) have "P f' r" by blast
        with Running show ?thesis by (rule step)
      next
        case (Finished f')
        with unfolded(2) e have "r = (False, f')" by simp
        with ends(1) [OF Finished] show ?thesis by simp
      next
        case (Thrown f')
        with unfolded(2) e have "r = (True, f')" by simp
        with ends(2) [OF Thrown] show ?thesis by simp
      qed
    qed
  qed
  with assms(1) show ?thesis by blast
qed

text \<open>The callbacks that were called are the first ones of the group, in their order.\<close>

definition called_prefix :: "('h \<times> 'a) list \<Rightarrow> ('e, 'h, 'a) firing \<Rightarrow> bool" where
  "called_prefix before = (\<lambda>(i, ph, s). \<exists>ops callbacks. ev_group s = Some (ops, callbacks) \<and> i \<le> length callbacks
     \<and> signalled (ev_calls s) = before @ take i callbacks)"

lemma call_handler_prefix:
  assumes "call_handler env c s = (t, s')" "ev_group s = Some (ops, callbacks)"
  obtains ops' more where "ev_group s' = Some (ops', callbacks @ more)" "ev_calls s' = ev_calls s @ [c]"
  using call_handler_grows [OF assms(1)] assms(2) by (auto simp: grows_def)


lemma fire_step_prefix:
  assumes "called_prefix before f"
  shows "case fire_step env f of Running f' \<Rightarrow> called_prefix before f' | Thrown f' \<Rightarrow> called_prefix before f'
    | Finished f' \<Rightarrow> called_prefix before f' \<and> fst f' = length (snd (the (ev_group (snd (snd f')))))"
proof -
  obtain i ph s where f: "f = (i, ph, s)" by (cases f)
  from assms obtain ops callbacks where g: "ev_group s = Some (ops, callbacks)" "i \<le> length callbacks"
    "signalled (ev_calls s) = before @ take i callbacks" by (auto simp: called_prefix_def f)
  show ?thesis
  proof (cases ph)
    case In_Callbacks
    show ?thesis
    proof (cases "i < length callbacks")
      case True
      obtain t s' where c: "call_handler env (Signalled (fst (callbacks ! i)) (snd (callbacks ! i))) s = (t, s')" by fastforce
      obtain ops' more where "ev_group s' = Some (ops', callbacks @ more)"
        "ev_calls s' = ev_calls s @ [Signalled (fst (callbacks ! i)) (snd (callbacks ! i))]" by (rule call_handler_prefix [OF c g(1)])
      with g True have "called_prefix before (Suc i, In_Callbacks, s')"
        by (auto simp: called_prefix_def take_Suc_conv_app_nth)
      with True g c show ?thesis by (simp add: f In_Callbacks)
    qed (use g assms in \<open>auto simp: f In_Callbacks called_prefix_def\<close>)
  next
    case (In_Operation j)
    show ?thesis
    proof (cases "j < length ops \<and> op_cursorActivityCalled (ops ! j) < length (op_cursorActivityHandlers (ops ! j))")
      case True
      let ?k = "op_cursorActivityCalled (ops ! j)"
      let ?c = "Cursor_Handler (op_cursorActivityHandlers (ops ! j) ! ?k) (op_cm (ops ! j))"
      let ?s = "s\<lparr>ev_group := Some (ops[j := (ops ! j)\<lparr>op_cursorActivityCalled := Suc ?k\<rparr>], callbacks)\<rparr>"
      obtain t s' where c: "call_handler env ?c ?s = (t, s')" by fastforce
      have group: "ev_group ?s = Some (ops[j := (ops ! j)\<lparr>op_cursorActivityCalled := Suc ?k\<rparr>], callbacks)" by simp
      obtain ops' more where "ev_group s' = Some (ops', callbacks @ more)" "ev_calls s' = ev_calls ?s @ [?c]"
        by (rule call_handler_prefix [OF c group])
      with g have "called_prefix before (i, In_Operation j, s')" by (auto simp: called_prefix_def)
      with True g c show ?thesis by (simp add: f In_Operation Let_def)
    qed (use g assms in \<open>auto simp: f In_Operation called_prefix_def Let_def\<close>)
  qed
qed


definition two_callbacks :: "(nat, nat, nat) events" where
  "two_callbacks = \<lparr>ev_handlers = (\<lambda>e t. if t = ''change'' then Some [9] else None),
     ev_group = Some ([\<lparr>op_cm = 0, op_cursorActivityHandlers = [5], op_cursorActivityCalled = 0\<rparr>], [(7, 0), (8, 1)]),
     ev_orphans = None, ev_timers = 0, ev_calls = []\<rparr>"

text \<open>The cursor handler signals a change, whose handler is called after it.\<close>

definition cursor_then_change :: "(nat, nat, nat) behaviour" where
  "cursor_then_change calls = ((if last calls = Cursor_Handler 5 0 then [Later 0 ''change'' 2] else []), False)"

lemma two_callbacks_fired:
  "fireCallbacksForOps cursor_then_change two_callbacks = Some (False, two_callbacks\<lparr>
     ev_group := Some ([\<lparr>op_cm = 0, op_cursorActivityHandlers = [5], op_cursorActivityCalled = 1\<rparr>], [(7, 0), (8, 1), (9, 2)]),
     ev_calls := [Signalled 7 0, Signalled 8 1, Cursor_Handler 5 0, Signalled 9 2]\<rparr>)"
  by (simp add: fireCallbacksForOps_def fire_loop.simps two_callbacks_def cursor_then_change_def call_handler_def
      signalLater_def getHandlers_def Let_def)


text \<open>Ending the operation that owns the group always ends the group, whatever throws.\<close>

lemma finishOperation_ends_group: "finishOperation env 0 s = Some (t, s') \<Longrightarrow> ev_group s' = None"
  by (auto simp: finishOperation_def)

text \<open>A cursor handler that is added to an operation whose cursor handlers are done is never called: the
  loop goes back only for new callbacks. Here the cursor handler of the second editor moves the
  cursor of the first.\<close>

definition two_editors :: "(nat, nat, nat) events" where
  "two_editors = \<lparr>ev_handlers = (\<lambda>e t. if t = ''cursorActivity'' then Some [e + 10] else None),
     ev_group = Some ([\<lparr>op_cm = 0, op_cursorActivityHandlers = [], op_cursorActivityCalled = 0\<rparr>,
       \<lparr>op_cm = 1, op_cursorActivityHandlers = [11], op_cursorActivityCalled = 0\<rparr>], []),
     ev_orphans = None, ev_timers = 0, ev_calls = []\<rparr>"

definition second_moves_first :: "(nat, nat, nat) behaviour" where
  "second_moves_first calls = ((if last calls = Cursor_Handler 11 1 then [Cursor_Activity 0] else []), False)"

theorem late_cursor_handler_lost:
  "fireCallbacksForOps second_moves_first two_editors = Some (False, two_editors\<lparr>
     ev_group := Some ([\<lparr>op_cm = 0, op_cursorActivityHandlers = [10], op_cursorActivityCalled = 0\<rparr>,
       \<lparr>op_cm = 1, op_cursorActivityHandlers = [11], op_cursorActivityCalled = 1\<rparr>], []),
     ev_calls := [Cursor_Handler 11 1]\<rparr>)"
  by (simp add: fireCallbacksForOps_def fire_loop.simps two_editors_def second_moves_first_def call_handler_def
      signalCursorActivity_def curOp_def add_new_def Let_def)

section \<open>Handlers that signal nothing\<close>

text \<open>A handler that only adds or removes handlers, and does not throw.\<close>

fun changes_handlers :: "('e, 'h, 'a) handler_action \<Rightarrow> bool" where
  "changes_handlers (On e t h) = True"
| "changes_handlers (Off e t h) = True"
| "changes_handlers (Later e t a) = False"
| "changes_handlers (Cursor_Activity cm) = False"
| "changes_handlers (Start_Operation cm) = False"

definition quiet :: "('e, 'h, 'a) handler_action list \<times> bool \<Rightarrow> bool" where
  "quiet r \<longleftrightarrow> list_all changes_handlers (fst r) \<and> \<not> snd r"

lemma on_off_keep [simp]: "ev_group (on e t h s) = ev_group s" "ev_calls (on e t h s) = ev_calls s"
  "ev_group (off e t h s) = ev_group s" "ev_calls (off e t h s) = ev_calls s"
  by (auto simp: on_def off_def split: option.splits)

lemma quiet_actions:
  "list_all changes_handlers acts \<Longrightarrow> \<exists>s'. perform_all acts s = (False, s') \<and> ev_group s' = ev_group s \<and> ev_calls s' = ev_calls s"
proof (induction acts arbitrary: s)
  case (Cons x acts)
  then obtain s1 where "perform x s = Return s1" "ev_group s1 = ev_group s" "ev_calls s1 = ev_calls s" by (cases x) auto
  with Cons.IH [of s1] Cons.prems show ?case by auto
qed simp

lemma quiet_call:
  assumes "\<And>calls. quiet (env calls)"
  obtains s' where "call_handler env c s = (False, s')" "ev_group s' = ev_group s" "ev_calls s' = ev_calls s @ [c]"
proof -
  obtain acts where e: "env (ev_calls s @ [c]) = (acts, False)" and "list_all changes_handlers acts"
    using assms [of "ev_calls s @ [c]"] by (cases "env (ev_calls s @ [c])") (auto simp: quiet_def)
  then obtain s' where "perform_all acts (s\<lparr>ev_calls := ev_calls s @ [c]\<rparr>) = (False, s')"
    "ev_group s' = ev_group s" "ev_calls s' = ev_calls s @ [c]"
    using quiet_actions [of acts "s\<lparr>ev_calls := ev_calls s @ [c]\<rparr>"] by auto
  with e that show ?thesis by (simp add: call_handler_def Let_def)
qed

lemma quiet_callbacks:
  assumes quiet: "\<And>calls. quiet (env calls)" and "ev_group s = Some (ops, callbacks)" "i \<le> length callbacks"
  shows "\<exists>s'. fire_loop env (i, In_Callbacks, s) = fire_loop env (length callbacks, In_Operation 0, s') \<and> ev_group s' = ev_group s
    \<and> ev_calls s' = ev_calls s @ map (\<lambda>(h, a). Signalled h a) (drop i callbacks)"
  using assms(2-)
proof (induction "length callbacks - i" arbitrary: i s)
  case 0
  then show ?case by (auto simp: fire_loop.simps intro!: exI [of _ s])
next
  case (Suc n)
  obtain h a where cb: "callbacks ! i = (h, a)" by fastforce
  obtain s1 where s1: "call_handler env (Signalled h a) s = (False, s1)" "ev_group s1 = ev_group s"
    "ev_calls s1 = ev_calls s @ [Signalled h a]" by (rule quiet_call [OF quiet])
  from Suc.hyps(2) have i: "i < length callbacks" by simp
  have "fire_loop env (i, In_Callbacks, s) = fire_loop env (Suc i, In_Callbacks, s1)"
    using i s1 Suc.prems cb by (subst fire_loop.simps) simp
  moreover have "n = length callbacks - Suc i" "ev_group s1 = Some (ops, callbacks)" "Suc i \<le> length callbacks"
    using Suc i s1 by auto
  ultimately show ?case using Suc.hyps(1) [of "Suc i" s1] s1 cb i by (auto simp: Cons_nth_drop_Suc [symmetric])
qed

text \<open>The cursor handlers of an operation that are still to be called, with its editor.\<close>

definition pending :: "('e, 'h) editor_operation \<Rightarrow> ('h \<times> 'e) list" where
  "pending operation = map (\<lambda>h. (h, op_cm operation)) (drop (op_cursorActivityCalled operation) (op_cursorActivityHandlers operation))"

lemma quiet_operations:
  assumes quiet: "\<And>calls. quiet (env calls)" and "ev_group s = Some (ops, callbacks)"
  shows "\<exists>f. fire_loop env (length callbacks, In_Operation j, s) = Some (False, f)
    \<and> ev_calls (snd (snd f)) = ev_calls s @ map (\<lambda>(h, e). Cursor_Handler h e) (concat (map pending (drop j ops)))"
  using assms(2)
proof (induction "length (concat (map pending (drop j ops))) + (length ops - j)" arbitrary: j s ops rule: less_induct)
  case less
  let ?op = "ops ! j" let ?k = "op_cursorActivityCalled (ops ! j)"
  show ?case
  proof (cases "j < length ops")
    case False
    with less.prems show ?thesis by (subst fire_loop.simps) simp
  next
    case j: True
    then have d: "drop j ops = ?op # drop (Suc j) ops" by (simp add: Cons_nth_drop_Suc)
    show ?thesis
    proof (cases "?k < length (op_cursorActivityHandlers ?op)")
      case False
      then have "pending ?op = []" by (simp add: pending_def)
      moreover have "fire_loop env (length callbacks, In_Operation j, s) = fire_loop env (length callbacks, In_Operation (Suc j), s)"
        using False j less.prems by (subst fire_loop.simps) (simp add: Let_def)
      ultimately show ?thesis using less.hyps [of "Suc j" ops s] less.prems j d by simp
    next
      case True
      let ?h = "op_cursorActivityHandlers ?op ! ?k" let ?op' = "?op\<lparr>op_cursorActivityCalled := Suc ?k\<rparr>"
      let ?ops = "ops[j := ?op']" let ?s = "s\<lparr>ev_group := Some (?ops, callbacks)\<rparr>"
      obtain s1 where s1: "call_handler env (Cursor_Handler ?h (op_cm ?op)) ?s = (False, s1)" "ev_group s1 = ev_group ?s"
        "ev_calls s1 = ev_calls ?s @ [Cursor_Handler ?h (op_cm ?op)]" by (rule quiet_call [OF quiet])
      have p: "pending ?op = (?h, op_cm ?op) # pending ?op'" using True by (simp add: pending_def Cons_nth_drop_Suc [symmetric])
      have d': "drop j ?ops = ?op' # drop (Suc j) ops" using j by (simp add: Cons_nth_drop_Suc [symmetric])
      have "fire_loop env (length callbacks, In_Operation j, s) = fire_loop env (length callbacks, In_Operation j, s1)"
        using True j less.prems s1 by (subst fire_loop.simps) (simp add: Let_def)
      then show ?thesis using less.hyps [of j ?ops s1] s1 d d' p by simp
    qed
  qed
qed

text \<open>C39. When no handler signals another event or throws, ending the operation that owns the group returns,
  and calls exactly the callbacks of the group, in order, and then the cursor handlers of each operation
  that were not called yet, each with the editor of its operation; the group is over then.\<close>

theorem quiet_operation_ends:
  assumes "\<And>calls. quiet (env calls)" "ev_group s = Some (ops, callbacks)"
  shows "\<exists>s'. finishOperation env 0 s = Some (False, s') \<and> ev_group s' = None
    \<and> ev_calls s' = ev_calls s @ map (\<lambda>(h, a). Signalled h a) callbacks @ map (\<lambda>(h, e). Cursor_Handler h e) (concat (map pending ops))"
proof -
  obtain s1 where s1: "fire_loop env (0, In_Callbacks, s) = fire_loop env (length callbacks, In_Operation 0, s1)"
    "ev_group s1 = Some (ops, callbacks)" "ev_calls s1 = ev_calls s @ map (\<lambda>(h, a). Signalled h a) callbacks"
    using quiet_callbacks [where env = env and i = 0, OF assms(1) assms(2)] assms(2) by (metis drop0 le0)
  obtain f where "fire_loop env (length callbacks, In_Operation 0, s1) = Some (False, f)"
    "ev_calls (snd (snd f)) = ev_calls s1 @ map (\<lambda>(h, e). Cursor_Handler h e) (concat (map pending ops))"
    using quiet_operations [where env = env and j = 0, OF assms(1) s1(2)] by (metis drop0)
  with s1 show ?thesis by (cases f) (auto simp: finishOperation_def fireCallbacksForOps_def)
qed

definition removes_itself :: "(nat, nat, nat) behaviour" where
  "removes_itself calls = ([Off 0 ''change'' 7], False)"

theorem quiet_operation_ends_witness:
  "\<exists>s'. finishOperation removes_itself 0 two_callbacks = Some (False, s') \<and> ev_group s' = None
    \<and> ev_calls s' = ev_calls two_callbacks @ map (\<lambda>(h, a). Signalled h a) [(7, 0), (8, 1)]
      @ map (\<lambda>(h, e). Cursor_Handler h e) (concat (map pending [\<lparr>op_cm = 0, op_cursorActivityHandlers = [5], op_cursorActivityCalled = 0\<rparr>]))"
  by (rule quiet_operation_ends) (simp_all add: quiet_def removes_itself_def two_callbacks_def)

end
