(* ===== verification/Js_Date.thy ===== *)
theory Js_Date
  imports Web_Base
begin

text \<open>
  Dates of JavaScript as the scripts use them: a date is the number of milliseconds since the
  start of 1970 in local time, the zone a constant difference to universal time. Zones that change
  between summer and winter time are left out, so a local time exists always and once, and dates
  are not limited to a hundred million days.
\<close>

type_synonym js_date = int

definition msPerDay :: int where
  "msPerDay = 86400000"

section \<open>Years and months\<close>

definition dayFromYear :: "int \<Rightarrow> int" where
  "dayFromYear y = 365 * (y - 1970) + (y - 1969) div 4 - (y - 1901) div 100 + (y - 1601) div 400"

definition leap_year :: "int \<Rightarrow> bool" where
  "leap_year y \<longleftrightarrow> y mod 4 = 0 \<and> y mod 100 \<noteq> 0 \<or> y mod 400 = 0"

text \<open>The estimate is off by at most one year.\<close>

definition yearFromDay :: "int \<Rightarrow> int" where
  "yearFromDay d =
     (let y = 1970 + 10000 * d div 3652425
      in if d < dayFromYear y then y - 1 else if dayFromYear (y + 1) \<le> d then y + 1 else y)"

definition month_start :: "bool \<Rightarrow> int \<Rightarrow> int" where
  "month_start leap m = [0, 31, 59, 90, 120, 151, 181, 212, 243, 273, 304, 334, 365] ! nat m + (if leap \<and> 2 \<le> m then 1 else 0)"

definition monthFromDay :: "bool \<Rightarrow> int \<Rightarrow> int" where
  "monthFromDay leap n = int (length (filter (\<lambda>m. month_start leap m \<le> n) [1, 2, 3, 4, 5, 6, 7, 8, 9, 10, 11]))"

section \<open>Dates\<close>

definition date_day :: "js_date \<Rightarrow> int" where
  "date_day t = t div msPerDay"

definition getFullYear :: "js_date \<Rightarrow> int" where
  "getFullYear t = yearFromDay (date_day t)"

definition day_of_year :: "js_date \<Rightarrow> int" where
  "day_of_year t = date_day t - dayFromYear (getFullYear t)"

definition getMonth :: "js_date \<Rightarrow> int" where
  "getMonth t = monthFromDay (leap_year (getFullYear t)) (day_of_year t)"

definition getDate :: "js_date \<Rightarrow> int" where
  "getDate t = day_of_year t - month_start (leap_year (getFullYear t)) (getMonth t) + 1"

definition getDay :: "js_date \<Rightarrow> int" where
  "getDay t = (date_day t + 4) mod 7"

definition getYear :: "js_date \<Rightarrow> int" where
  "getYear t = getFullYear t - 1900"

definition getTime :: "int \<Rightarrow> js_date \<Rightarrow> int" where
  "getTime zone t = t - zone"

definition fromTime :: "int \<Rightarrow> int \<Rightarrow> js_date" where
  "fromTime zone n = n + zone"

definition getHours :: "js_date \<Rightarrow> int" where
  "getHours t = t mod msPerDay div 3600000"

text \<open>The day of a year, month and date, any of which may be out of its range but the year.\<close>

definition makeDay :: "int \<Rightarrow> int \<Rightarrow> int \<Rightarrow> int" where
  "makeDay y m d = (let y' = y + m div 12; m' = m mod 12 in dayFromYear y' + month_start (leap_year y') m' + d - 1)"

definition newDate :: "int \<Rightarrow> int \<Rightarrow> int \<Rightarrow> js_date" where
  "newDate y m d = makeDay (if 0 \<le> y \<and> y \<le> 99 then 1900 + y else y) m d * msPerDay"

definition setDate :: "int \<Rightarrow> js_date \<Rightarrow> js_date" where
  "setDate d t = makeDay (getFullYear t) (getMonth t) d * msPerDay + t mod msPerDay"

definition setMonth :: "int \<Rightarrow> js_date \<Rightarrow> js_date" where
  "setMonth m t = makeDay (getFullYear t) m (getDate t) * msPerDay + t mod msPerDay"

definition setHours :: "int \<Rightarrow> js_date \<Rightarrow> js_date" where
  "setHours h t = date_day t * msPerDay + h * 3600000 + t mod 3600000"

definition math_round_div :: "int \<Rightarrow> int \<Rightarrow> int" where
  "math_round_div a b = (2 * a + b) div (2 * b)"

text \<open>The remainder of JavaScript, with the sign of the dividend.\<close>

definition js_mod :: "int \<Rightarrow> int \<Rightarrow> int" where
  "js_mod a b = (if a < 0 then - (- a mod b) else a mod b)"

section \<open>Days, and years, months and dates\<close>

lemma div_step: "(a + 1) div k = a div k + (if k dvd a + 1 then 1 else 0)" if "0 < k" for a k :: int
proof (cases "k dvd a + 1")
  case True
  then obtain q where "a + 1 = k * q" ..
  then have "a = (k - 1) + k * (q - 1)" by (simp add: algebra_simps)
  then have "a div k = q - 1" using that by simp
  with \<open>a + 1 = k * q\<close> True that show ?thesis by simp
next
  case False
  from that have "a mod k < k" "0 \<le> a mod k" by simp_all
  moreover have "a mod k + 1 \<noteq> k"
  proof
    assume "a mod k + 1 = k"
    then have "(a + 1) mod k = 0" by (metis mod_add_left_eq mod_self)
    with False show False by auto
  qed
  ultimately have "a mod k + 1 < k" "0 \<le> a mod k + 1" by linarith+
  moreover have "a + 1 = k * (a div k) + (a mod k + 1)" by simp
  ultimately have "(a + 1) div k = a div k" by (intro int_div_pos_eq)
  with False show ?thesis by simp
qed

lemma dvd_year: "4 dvd y - 1969 + 1 \<longleftrightarrow> 4 dvd y" "100 dvd y - 1901 + 1 \<longleftrightarrow> 100 dvd y" "400 dvd y - 1601 + 1 \<longleftrightarrow> 400 dvd y"
  for y :: int
  using dvd_add_times_triv_right_iff [of 4 y "-492"] dvd_add_times_triv_right_iff [of 100 y "-19"]
    dvd_add_times_triv_right_iff [of 400 y "-4"] by simp_all

lemma dayFromYear_step: "dayFromYear (y + 1) = dayFromYear y + (if leap_year y then 366 else 365)"
proof -
  have "400 dvd y \<Longrightarrow> 100 dvd y" "100 dvd y \<Longrightarrow> 4 dvd y" by (auto intro: dvd_trans [of 100 400 y] dvd_trans [of 4 100 y])
  then show ?thesis
    using div_step [of 4 "y - 1969"] div_step [of 100 "y - 1901"] div_step [of 400 "y - 1601"]
    unfolding dayFromYear_def leap_year_def dvd_year mod_eq_0_iff_dvd by (auto simp: algebra_simps)
qed

lemma div_bounds:
  assumes "0 < (k :: int)"
  shows "k * (a div k) \<le> a" "a < k * (a div k) + k"
  using mult_div_mod_eq [of k a] pos_mod_bound [OF assms, of a] pos_mod_sign [OF assms, of a] by linarith+

lemma dayFromYear_bounds: "146097 * (y - 1970) - 800 \<le> 400 * dayFromYear y" "400 * dayFromYear y \<le> 146097 * (y - 1970) + 800"
proof -
  define a b c where abc: "a = (y - 1969) div 4" "b = (y - 1901) div 100" "c = (y - 1601) div 400"
  have "4 * a \<le> y - 1969" "y - 1969 < 4 * a + 4" "100 * b \<le> y - 1901" "y - 1901 < 100 * b + 100" "400 * c \<le> y - 1601" "y - 1601 < 400 * c + 400"
    unfolding abc by (rule div_bounds, simp)+
  moreover have "dayFromYear y = 365 * (y - 1970) + a - b + c" by (simp add: dayFromYear_def abc)
  ultimately show "146097 * (y - 1970) - 800 \<le> 400 * dayFromYear y" "400 * dayFromYear y \<le> 146097 * (y - 1970) + 800"
    by (simp_all add: algebra_simps)
qed

lemma yearFromDay_bounds: "dayFromYear (yearFromDay d) \<le> d" "d < dayFromYear (yearFromDay d + 1)"
proof -
  define q where "q = 10000 * d div 3652425"
  define y where "y = 1970 + q"
  have "3652425 * q \<le> 10000 * d" "10000 * d < 3652425 * q + 3652425" unfolding q_def by (rule div_bounds, simp)+
  then have "dayFromYear (y - 1) \<le> d" "d < dayFromYear (y + 2)"
    using dayFromYear_bounds [of "y - 1"] dayFromYear_bounds [of "y + 2"] by (simp_all add: y_def algebra_simps)
  moreover have "yearFromDay d = (if d < dayFromYear y then y - 1 else if dayFromYear (y + 1) \<le> d then y + 1 else y)"
    by (simp add: yearFromDay_def y_def q_def)
  ultimately show "dayFromYear (yearFromDay d) \<le> d" "d < dayFromYear (yearFromDay d + 1)"
    by (auto simp: add.commute [of 2 y] split: if_splits)
qed

lemma dayFromYear_less: "y < z \<Longrightarrow> dayFromYear (y + 1) \<le> dayFromYear z"
proof (induction "nat (z - y)" arbitrary: z)
  case (Suc n)
  show ?case
  proof (cases "z = y + 1")
    case False
    then have "n = nat (z - 1 - y)" "y < z - 1" using Suc by auto
    with Suc(1) [of "z - 1"] have "dayFromYear (y + 1) \<le> dayFromYear (z - 1)" by blast
    then show ?thesis using dayFromYear_step [of "z - 1"] by (simp split: if_splits)
  qed simp
qed simp

lemma yearFromDay_unique: "dayFromYear y \<le> d \<Longrightarrow> d < dayFromYear (y + 1) \<Longrightarrow> yearFromDay d = y"
  using dayFromYear_less [of y "yearFromDay d"] dayFromYear_less [of "yearFromDay d" y] yearFromDay_bounds [of d]
  by (cases "yearFromDay d" y rule: linorder_cases) auto

lemma months: "0 \<le> m \<Longrightarrow> m \<le> 11 \<Longrightarrow> m = 0 \<or> m = 1 \<or> m = 2 \<or> m = 3 \<or> m = 4 \<or> m = 5 \<or> m = 6 \<or> m = 7 \<or> m = 8 \<or> m = 9 \<or> m = 10 \<or> m = (11 :: int)"
  by presburger

definition month_length :: "bool \<Rightarrow> int \<Rightarrow> int" where
  "month_length leap m = month_start leap (m + 1) - month_start leap m"

lemma monthFromDay_unique:
  assumes "0 \<le> m" "m \<le> 11" "month_start leap m \<le> n" "n < month_start leap (m + 1)"
  shows "monthFromDay leap n = m"
  using months [OF assms(1,2)] assms(3,4)
  by (elim disjE) (simp_all add: monthFromDay_def month_start_def split: if_splits)

lemma monthFromDay_bounds:
  assumes "0 \<le> n" "n < (if leap then 366 else 365)"
  shows "0 \<le> monthFromDay leap n \<and> monthFromDay leap n \<le> 11 \<and> month_start leap (monthFromDay leap n) \<le> n
    \<and> n < month_start leap (monthFromDay leap n + 1)"
proof -
  have "\<exists>m. 0 \<le> m \<and> m \<le> 11 \<and> month_start leap m \<le> n \<and> n < month_start leap (m + 1)"
  proof (rule ccontr)
    assume none: "\<not> ?thesis"
    have "month_start leap (int k) \<le> n" if "k \<le> 12" for k using that
    proof (induction k)
      case 0
      with assms show ?case by (simp add: month_start_def)
    next
      case (Suc k)
      with none show ?case by (force simp: algebra_simps dest: spec [of _ "int k"])
    qed
    from this [of 12] assms show False by (auto simp: month_start_def split: if_splits)
  qed
  then show ?thesis using monthFromDay_unique by metis
qed

section \<open>The fields of a date\<close>

text \<open>A valid year, month and date are read back from the day they make, and the fields of any date are
  valid and make its day.\<close>

definition valid_fields :: "int \<Rightarrow> int \<Rightarrow> int \<Rightarrow> bool" where
  "valid_fields y m d \<longleftrightarrow> 0 \<le> m \<and> m \<le> 11 \<and> 1 \<le> d \<and> d \<le> month_length (leap_year y) m"

lemma month_start_mono: "0 \<le> m \<Longrightarrow> m \<le> 11 \<Longrightarrow> 0 \<le> month_start leap m \<and> month_start leap m < month_start leap (m + 1)
    \<and> month_start leap (m + 1) \<le> (if leap then 366 else 365)"
  using months [of m] by (auto simp: month_start_def)

lemma month_length_bounds: "0 \<le> m \<Longrightarrow> m \<le> 11 \<Longrightarrow> 28 \<le> month_length leap m \<and> month_length leap m \<le> 31"
  using months [of m] by (auto simp: month_start_def month_length_def)

lemma msPerDay_pos [simp]: "0 < msPerDay" "msPerDay \<noteq> 0"
  by (simp_all add: msPerDay_def)

lemma makeDay_fields:
  assumes "valid_fields y m d" "date_day t = makeDay y m d"
  shows "getFullYear t = y" "day_of_year t = month_start (leap_year y) m + d - 1" "getMonth t = m" "getDate t = d"
proof -
  have m: "0 \<le> m" "m \<le> 11" "1 \<le> d" "d \<le> month_start (leap_year y) (m + 1) - month_start (leap_year y) m"
    using assms(1) by (auto simp: valid_fields_def month_length_def)
  then have day: "date_day t = dayFromYear y + month_start (leap_year y) m + d - 1" using assms(2) by (simp add: makeDay_def)
  note b = month_start_mono [OF m(1,2), of "leap_year y"]
  from b m day show y: "getFullYear t = y"
    unfolding getFullYear_def by (intro yearFromDay_unique) (auto simp: dayFromYear_step split: if_splits)
  from y day show n: "day_of_year t = month_start (leap_year y) m + d - 1" by (simp add: day_of_year_def)
  from m show mo: "getMonth t = m" unfolding getMonth_def y n by (intro monthFromDay_unique) auto
  show "getDate t = d" by (simp add: getDate_def y n mo)
qed

lemma fields_valid:
  "valid_fields (getFullYear t) (getMonth t) (getDate t)" "makeDay (getFullYear t) (getMonth t) (getDate t) = date_day t"
proof -
  let ?y = "getFullYear t"
  have "0 \<le> day_of_year t" "day_of_year t < (if leap_year ?y then 366 else 365)"
    using yearFromDay_bounds [of "date_day t"] by (auto simp: day_of_year_def getFullYear_def [symmetric] dayFromYear_step)
  from monthFromDay_bounds [OF this] have m: "0 \<le> getMonth t" "getMonth t \<le> 11" "month_start (leap_year ?y) (getMonth t) \<le> day_of_year t"
    "day_of_year t < month_start (leap_year ?y) (getMonth t + 1)" by (simp_all add: getMonth_def)
  then show "valid_fields ?y (getMonth t) (getDate t)" by (simp add: valid_fields_def month_length_def getDate_def)
  from m(1,2) have "makeDay ?y (getMonth t) (getDate t) = dayFromYear ?y + day_of_year t" by (simp add: makeDay_def getDate_def)
  then show "makeDay ?y (getMonth t) (getDate t) = date_day t" by (simp add: day_of_year_def)
qed

lemma date_day_times [simp]: "date_day (d * msPerDay) = d" "0 \<le> r \<Longrightarrow> r < msPerDay \<Longrightarrow> date_day (d * msPerDay + r) = d"
  by (simp_all add: date_day_def)

definition long_year :: "int \<Rightarrow> bool" where
  "long_year y \<longleftrightarrow> \<not> (0 \<le> y \<and> y \<le> 99)"

lemma newDate_day: "long_year y \<Longrightarrow> date_day (newDate y m d) = makeDay y m d"
  by (auto simp: newDate_def long_year_def)

lemma newDate_fields:
  assumes "valid_fields y m d" "long_year y"
  shows "getFullYear (newDate y m d) = y" "day_of_year (newDate y m d) = month_start (leap_year y) m + d - 1"
    "getMonth (newDate y m d) = m" "getDate (newDate y m d) = d"
  using makeDay_fields [OF assms(1) newDate_day [OF assms(2)]] by simp_all

text \<open>The start of a day.\<close>

definition midnight :: "js_date \<Rightarrow> js_date" where
  "midnight t = date_day t * msPerDay"

lemma newDate_midnight: "long_year (getFullYear t) \<Longrightarrow> newDate (getFullYear t) (getMonth t) (getDate t) = midnight t"
  by (auto simp: newDate_def long_year_def fields_valid(2) midnight_def)

lemma midnight_fields [simp]:
  "getFullYear (midnight t) = getFullYear t" "getMonth (midnight t) = getMonth t" "getDate (midnight t) = getDate t"
  "day_of_year (midnight t) = day_of_year t" "getDay (midnight t) = getDay t"
  by (simp_all add: getFullYear_def getMonth_def getDate_def day_of_year_def getDay_def midnight_def)

lemma midnight_hours [simp]: "getHours (d * msPerDay) = 0" "setHours 0 (d * msPerDay) = d * msPerDay"
proof -
  have "d * msPerDay = (d * 24) * 3600000" by (simp add: msPerDay_def)
  then have "d * msPerDay mod 3600000 = 0" by (simp only: mod_mult_self2_is_0)
  then show "getHours (d * msPerDay) = 0" "setHours 0 (d * msPerDay) = d * msPerDay" by (simp_all add: getHours_def setHours_def)
qed

lemma getDay_range: "0 \<le> getDay t" "getDay t \<le> 6"
  unfolding getDay_def by (simp, presburger)

end
