(* ===== verification/Date_Format.thy ===== *)
theory Date_Format
  imports Js_Date
begin

text \<open>
  Formats of dates in the date picker (\<open>jquery-ui.js\<close>): printing a date, reading one back, and the
  characters a format allows. The loops over the format carry what is left of it. Ticks, which the
  code computes with 53 bits, are exact here; \<open>toLowerCase\<close> is that of ASCII letters.
\<close>

section \<open>Settings\<close>

datatype year_cutoff = Cutoff_Number int | Cutoff_Text string

record date_settings =
  ds_shortYearCutoff :: "year_cutoff option"
  ds_dayNamesShort :: "string list option"
  ds_dayNames :: "string list option"
  ds_monthNamesShort :: "string list option"
  ds_monthNames :: "string list option"

record date_names =
  dn_dayNamesShort :: "string list"
  dn_dayNames :: "string list"
  dn_monthNamesShort :: "string list"
  dn_monthNames :: "string list"

definition default_names :: date_names where
  "default_names = \<lparr>
     dn_dayNamesShort = [''Sun'', ''Mon'', ''Tue'', ''Wed'', ''Thu'', ''Fri'', ''Sat''],
     dn_dayNames = [''Sunday'', ''Monday'', ''Tuesday'', ''Wednesday'', ''Thursday'', ''Friday'', ''Saturday''],
     dn_monthNamesShort = [''Jan'', ''Feb'', ''Mar'', ''Apr'', ''May'', ''Jun'', ''Jul'', ''Aug'', ''Sep'', ''Oct'', ''Nov'', ''Dec''],
     dn_monthNames = [''January'', ''February'', ''March'', ''April'', ''May'', ''June'',
       ''July'', ''August'', ''September'', ''October'', ''November'', ''December'']\<rparr>"

fun or_default :: "'a option \<Rightarrow> 'a \<Rightarrow> 'a" where
  "or_default None d = d"
| "or_default (Some x) d = x"

definition settings_names :: "date_settings option \<Rightarrow> date_names" where
  "settings_names settings =
     (case settings of
        None \<Rightarrow> default_names
      | Some ds \<Rightarrow> \<lparr>
          dn_dayNamesShort = or_default (ds_dayNamesShort ds) (dn_dayNamesShort default_names),
          dn_dayNames = or_default (ds_dayNames ds) (dn_dayNames default_names),
          dn_monthNamesShort = or_default (ds_monthNamesShort ds) (dn_monthNamesShort default_names),
          dn_monthNames = or_default (ds_monthNames ds) (dn_monthNames default_names)\<rparr>)"

text \<open>\<open>parseInt\<close> of a text: white space, a sign, digits; \<open>None\<close> is \<open>NaN\<close>.\<close>

definition date_space :: "char \<Rightarrow> bool" where
  "date_space c \<longleftrightarrow> (let n = of_char c :: nat in 9 \<le> n \<and> n \<le> 13 \<or> n = 32 \<or> n = 160)"

fun digits_value :: "int \<Rightarrow> string \<Rightarrow> int" where
  "digits_value acc [] = acc"
| "digits_value acc (c # cs) = digits_value (10 * acc + (of_char c - 48)) cs"

definition parse_digits :: "string \<Rightarrow> int option" where
  "parse_digits s = (let ds = takeWhile is_digit s in if ds = [] then None else Some (digits_value 0 ds))"

definition parseInt :: "string \<Rightarrow> int option" where
  "parseInt s =
     (case dropWhile date_space s of
        [] \<Rightarrow> None
      | c # cs \<Rightarrow> if c = CHR ''-'' then map_option uminus (parse_digits cs)
                else if c = CHR ''+'' then parse_digits cs else parse_digits (c # cs))"

text \<open>The number 0 and the empty text are taken for a missing cutoff.\<close>

definition cutoff_given :: "year_cutoff \<Rightarrow> bool" where
  "cutoff_given c \<longleftrightarrow> c \<noteq> Cutoff_Number 0 \<and> c \<noteq> Cutoff_Text []"

definition default_cutoff :: year_cutoff where
  "default_cutoff = Cutoff_Text ''+10''"

definition shortYearCutoff :: "int \<Rightarrow> year_cutoff \<Rightarrow> int option" where
  "shortYearCutoff this_year c =
     (case c of Cutoff_Number n \<Rightarrow> Some n | Cutoff_Text s \<Rightarrow> map_option (\<lambda>n. js_mod this_year 100 + n) (parseInt s))"

definition settings_cutoff :: "int \<Rightarrow> date_settings option \<Rightarrow> int option" where
  "settings_cutoff this_year settings =
     (case settings of
        None \<Rightarrow> shortYearCutoff this_year default_cutoff
      | Some ds \<Rightarrow> (case ds_shortYearCutoff ds of
          None \<Rightarrow> shortYearCutoff this_year default_cutoff
        | Some c \<Rightarrow> shortYearCutoff this_year (if cutoff_given c then c else default_cutoff)))"

section \<open>Days of a month\<close>

definition daylightSavingAdjust :: "js_date \<Rightarrow> js_date" where
  "daylightSavingAdjust t = setHours (if getHours t > 12 then getHours t + 2 else 0) t"

definition getDaysInMonth :: "int \<Rightarrow> int \<Rightarrow> int" where
  "getDaysInMonth year month = 32 - getDate (daylightSavingAdjust (newDate year month 32))"

definition getFirstDayOfMonth :: "int \<Rightarrow> int \<Rightarrow> int" where
  "getFirstDayOfMonth year month = getDay (newDate year month 1)"

lemma adjust_midnight [simp]: "daylightSavingAdjust (d * msPerDay) = d * msPerDay"
  by (simp add: daylightSavingAdjust_def)

lemma adjust_newDate [simp]: "daylightSavingAdjust (newDate y m d) = newDate y m d"
  by (simp add: newDate_def)

lemma getDate_makeDay_32:
  "date_day t = makeDay y m 32 \<Longrightarrow> getDate t = 32 - month_length (leap_year (y + m div 12)) (m mod 12)"
proof -
  assume day: "date_day t = makeDay y m 32"
  let ?y = "y + m div 12" let ?m = "m mod 12" let ?l = "leap_year (y + m div 12)"
  have m: "0 \<le> ?m" "?m \<le> 11" by (simp, presburger)
  note len = month_length_bounds [OF m, of ?l]
  show ?thesis
  proof (cases "?m = 11")
    case False
    with m have m1: "0 \<le> ?m + 1" "?m + 1 \<le> 11" by auto
    then have "valid_fields ?y (?m + 1) (32 - month_length ?l ?m)"
      using len month_length_bounds [OF m1, of ?l] by (auto simp: valid_fields_def)
    moreover have "date_day t = makeDay ?y (?m + 1) (32 - month_length ?l ?m)"
      using day m1 by (simp add: makeDay_def month_length_def Let_def)
    ultimately show ?thesis by (rule makeDay_fields)
  next
    case True
    have "valid_fields (?y + 1) 0 (32 - month_length ?l ?m)"
      using len month_length_bounds [of 0 "leap_year (?y + 1)"] by (auto simp: valid_fields_def)
    moreover have "date_day t = makeDay (?y + 1) 0 (32 - month_length ?l ?m)"
      using day True by (simp add: makeDay_def month_length_def Let_def dayFromYear_step month_start_def)
    ultimately show ?thesis by (rule makeDay_fields)
  qed
qed

lemma getDaysInMonth_bounds: "28 \<le> getDaysInMonth y m" "getDaysInMonth y m \<le> 31"
proof -
  obtain y' where "date_day (newDate y m 32) = makeDay y' m 32" by (auto simp: newDate_def)
  from getDate_makeDay_32 [OF this] month_length_bounds [of "m mod 12" "leap_year (y' + m div 12)"]
  show "28 \<le> getDaysInMonth y m" "getDaysInMonth y m \<le> 31" by (auto simp: getDaysInMonth_def)
qed

lemma getDaysInMonth_eq: "long_year y \<Longrightarrow> 0 \<le> m \<Longrightarrow> m \<le> 11 \<Longrightarrow> getDaysInMonth y m = month_length (leap_year y) m"
  using getDate_makeDay_32 [OF newDate_day, of y m] by (simp add: getDaysInMonth_def)

section \<open>Printing a date\<close>

text \<open>Is the next format character the given one, and what is behind it.\<close>

definition lookAhead :: "char \<Rightarrow> string \<Rightarrow> bool" where
  "lookAhead match format \<longleftrightarrow> format \<noteq> [] \<and> hd format = match"

definition behind :: "char \<Rightarrow> string \<Rightarrow> string" where
  "behind match format = (if lookAhead match format then tl format else format)"

lemma behind_length [termination_simp]: "length (behind match format) < Suc (length format)"
  by (auto simp: behind_def)

function decimal :: "nat \<Rightarrow> string" where
  "decimal n = (if n < 10 then [char_of (48 + n)] else decimal (n div 10) @ [char_of (48 + n mod 10)])"
  by pat_completeness auto
termination by (relation "measure id") auto

declare decimal.simps [simp del]

text \<open>A number as text.\<close>

definition number_text :: "int \<Rightarrow> string" where
  "number_text n = (if n < 0 then CHR ''-'' # decimal (nat (- n)) else decimal (nat n))"

definition formatNumber :: "bool \<Rightarrow> int \<Rightarrow> nat \<Rightarrow> string" where
  "formatNumber doubled value len =
     (let num = number_text value in if doubled then replicate (len - length num) CHR ''0'' @ num else num)"

definition formatName :: "bool \<Rightarrow> int \<Rightarrow> string list \<Rightarrow> string list \<Rightarrow> string" where
  "formatName doubled value shortNames longNames = (if doubled then longNames ! nat value else shortNames ! nat value)"

definition ticksTo1970 :: int where
  "ticksTo1970 = ((1970 - 1) * 365 + 1970 div 4 - 1970 div 100 + 1970 div 400) * 24 * 60 * 60 * 10000000"

definition short_year :: "js_date \<Rightarrow> string" where
  "short_year date = (if js_mod (getYear date) 100 < 10 then ''0'' else []) @ number_text (js_mod (getYear date) 100)"

definition formatDayOfYear :: "js_date \<Rightarrow> int" where
  "formatDayOfYear date =
     math_round_div (newDate (getFullYear date) (getMonth date) (getDate date) - newDate (getFullYear date) 0 0) 86400000"

fun format_loop :: "int \<Rightarrow> date_names \<Rightarrow> js_date \<Rightarrow> bool \<Rightarrow> string \<Rightarrow> string" where
  "format_loop zone names date literal [] = []"
| "format_loop zone names date literal (c # format) =
     (if literal
      then (if c = CHR 0x27 \<and> \<not> lookAhead CHR 0x27 format then format_loop zone names date False format
            else c # format_loop zone names date True (if c = CHR 0x27 then behind CHR 0x27 format else format))
      else if c = CHR ''d''
      then formatNumber (lookAhead c format) (getDate date) 2 @ format_loop zone names date False (behind c format)
      else if c = CHR ''D''
      then formatName (lookAhead c format) (getDay date) (dn_dayNamesShort names) (dn_dayNames names)
        @ format_loop zone names date False (behind c format)
      else if c = CHR ''o''
      then formatNumber (lookAhead c format) (formatDayOfYear date) 3 @ format_loop zone names date False (behind c format)
      else if c = CHR ''m''
      then formatNumber (lookAhead c format) (getMonth date + 1) 2 @ format_loop zone names date False (behind c format)
      else if c = CHR ''M''
      then formatName (lookAhead c format) (getMonth date) (dn_monthNamesShort names) (dn_monthNames names)
        @ format_loop zone names date False (behind c format)
      else if c = CHR ''y''
      then (if lookAhead c format then number_text (getFullYear date) else short_year date)
        @ format_loop zone names date False (behind c format)
      else if c = CHR ''@''
      then number_text (getTime zone date) @ format_loop zone names date False format
      else if c = CHR ''!''
      then number_text (getTime zone date * 10000 + ticksTo1970) @ format_loop zone names date False format
      else if c = CHR 0x27
      then (if lookAhead CHR 0x27 format then CHR 0x27 # format_loop zone names date False (tl format)
            else format_loop zone names date True format)
      else c # format_loop zone names date False format)"

definition formatDate :: "int \<Rightarrow> string \<Rightarrow> js_date option \<Rightarrow> date_settings option \<Rightarrow> string" where
  "formatDate zone format date settings =
     (case date of None \<Rightarrow> [] | Some t \<Rightarrow> format_loop zone (settings_names settings) t False format)"

section \<open>Reading a date\<close>

record parse_state =
  pd_value :: string
  pd_year :: int
  pd_month :: int
  pd_day :: int
  pd_doy :: int

definition number_size :: "char \<Rightarrow> bool \<Rightarrow> nat" where
  "number_size match isDoubled =
     (if match = CHR ''@'' then 14 else if match = CHR ''!'' then 20
      else if match = CHR ''y'' \<and> isDoubled then 4 else if match = CHR ''o'' then 3 else 2)"

definition number_minSize :: "char \<Rightarrow> bool \<Rightarrow> nat" where
  "number_minSize match isDoubled = (if match = CHR ''y'' then number_size match isDoubled else 1)"

definition getNumber :: "char \<Rightarrow> bool \<Rightarrow> string \<Rightarrow> (int \<times> string) outcome" where
  "getNumber match isDoubled value =
     (let num = take (number_size match isDoubled) (takeWhile is_digit value)
      in if length num < number_minSize match isDoubled then Throw else Return (digits_value 0 num, drop (length num) value))"

text \<open>The names are tried from the longest to the shortest.\<close>

definition getName :: "bool \<Rightarrow> string list \<Rightarrow> string list \<Rightarrow> string \<Rightarrow> (int \<times> string) outcome" where
  "getName doubled shortNames longNames value =
     (let names = sort_key (\<lambda>(k, name). - int (length name)) (enumerate 0 (if doubled then longNames else shortNames))
      in case find (\<lambda>(k, name). lower (take (length name) value) = lower name) names of
           None \<Rightarrow> Throw
         | Some (k, name) \<Rightarrow> Return (int k + 1, drop (length name) value))"

definition checkLiteral :: "char \<Rightarrow> string \<Rightarrow> string outcome" where
  "checkLiteral c value = (case value of [] \<Rightarrow> Throw | v # value' \<Rightarrow> if v = c then Return value' else Throw)"

fun then_read :: "'a outcome \<Rightarrow> ('a \<Rightarrow> 'b outcome) \<Rightarrow> 'b outcome" where
  "then_read Throw f = Throw"
| "then_read (Return x) f = f x"

lemma then_read_cong [fundef_cong]: "x = x' \<Longrightarrow> (\<And>y. x' = Return y \<Longrightarrow> f y = f' y) \<Longrightarrow> then_read x f = then_read x' f'"
  by (cases x') auto

definition set_fields :: "js_date \<Rightarrow> parse_state \<Rightarrow> parse_state" where
  "set_fields date st = st\<lparr>pd_year := getFullYear date, pd_month := getMonth date + 1, pd_day := getDate date\<rparr>"

text \<open>A millisecond that is a fraction is cut off.\<close>

definition truncated_div :: "int \<Rightarrow> int \<Rightarrow> int" where
  "truncated_div a b = (if a < 0 then - (- a div b) else a div b)"

text \<open>The cases of a format character that is not part of a literal.\<close>

definition parse_field :: "int \<Rightarrow> date_names \<Rightarrow> char \<Rightarrow> bool \<Rightarrow> parse_state \<Rightarrow> parse_state outcome" where
  "parse_field zone names c doubled st =
     (if c = CHR ''d'' then then_read (getNumber c doubled (pd_value st)) (\<lambda>(n, v). Return (st\<lparr>pd_value := v, pd_day := n\<rparr>))
      else if c = CHR ''D''
      then then_read (getName doubled (dn_dayNamesShort names) (dn_dayNames names) (pd_value st)) (\<lambda>(n, v). Return (st\<lparr>pd_value := v\<rparr>))
      else if c = CHR ''o'' then then_read (getNumber c doubled (pd_value st)) (\<lambda>(n, v). Return (st\<lparr>pd_value := v, pd_doy := n\<rparr>))
      else if c = CHR ''m'' then then_read (getNumber c doubled (pd_value st)) (\<lambda>(n, v). Return (st\<lparr>pd_value := v, pd_month := n\<rparr>))
      else if c = CHR ''M''
      then then_read (getName doubled (dn_monthNamesShort names) (dn_monthNames names) (pd_value st))
        (\<lambda>(n, v). Return (st\<lparr>pd_value := v, pd_month := n\<rparr>))
      else if c = CHR ''y'' then then_read (getNumber c doubled (pd_value st)) (\<lambda>(n, v). Return (st\<lparr>pd_value := v, pd_year := n\<rparr>))
      else if c = CHR ''@''
      then then_read (getNumber c doubled (pd_value st)) (\<lambda>(n, v). Return (set_fields (fromTime zone n) (st\<lparr>pd_value := v\<rparr>)))
      else then_read (getNumber c doubled (pd_value st))
        (\<lambda>(n, v). Return (set_fields (fromTime zone (truncated_div (n - ticksTo1970) 10000)) (st\<lparr>pd_value := v\<rparr>))))"

definition literal_char :: "char \<Rightarrow> parse_state \<Rightarrow> parse_state outcome" where
  "literal_char c st = then_read (checkLiteral c (pd_value st)) (\<lambda>v. Return (st\<lparr>pd_value := v\<rparr>))"

definition field_chars :: string where
  "field_chars = ''dDomMy@!''"

fun parse_loop :: "int \<Rightarrow> date_names \<Rightarrow> bool \<Rightarrow> string \<Rightarrow> parse_state \<Rightarrow> parse_state outcome" where
  "parse_loop zone names literal [] st = Return st"
| "parse_loop zone names literal (c # format) st =
     (if literal
      then (if c = CHR 0x27 \<and> \<not> lookAhead CHR 0x27 format then parse_loop zone names False format st
            else then_read (literal_char c st)
              (parse_loop zone names True (if c = CHR 0x27 then behind CHR 0x27 format else format)))
      else if c \<in> set field_chars
      then then_read (parse_field zone names c (lookAhead c format) st) (parse_loop zone names False (behind c format))
      else if c = CHR 0x27
      then (if lookAhead CHR 0x27 format then then_read (literal_char CHR 0x27 st) (parse_loop zone names False (tl format))
            else parse_loop zone names True format st)
      else then_read (literal_char c st) (parse_loop zone names False format))"

text \<open>From the day of the year to the month and the day.\<close>

function doy_loop :: "int \<Rightarrow> int \<Rightarrow> int \<Rightarrow> int \<times> int" where
  "doy_loop year month day =
     (let dim = getDaysInMonth year (month - 1) in if day \<le> dim then (month, day) else doy_loop year (month + 1) (day - dim))"
  by pat_completeness auto
termination
proof (relation "measure (\<lambda>(year, month, day). nat day)")
  fix year month day dim :: int
  assume "dim = getDaysInMonth year (month - 1)" "\<not> day \<le> dim"
  then show "((year, month + 1, day - dim), year, month, day) \<in> measure (\<lambda>(year, month, day). nat day)"
    using getDaysInMonth_bounds [of year "month - 1"] by auto
qed simp

declare doy_loop.simps [simp del]

definition expand_year :: "int \<Rightarrow> int option \<Rightarrow> int \<Rightarrow> int" where
  "expand_year this_year cutoff year =
     (if year = -1 then this_year
      else if year < 100
      then year + this_year - js_mod this_year 100 + (if (case cutoff of None \<Rightarrow> False | Some c \<Rightarrow> year \<le> c) then 0 else -100)
      else year)"

definition parsed_date :: "int \<Rightarrow> int option \<Rightarrow> parse_state \<Rightarrow> js_date outcome" where
  "parsed_date this_year cutoff st =
     (if pd_value st \<noteq> [] \<and> \<not> date_space (hd (pd_value st)) then Throw
      else (let year = expand_year this_year cutoff (pd_year st);
                (month, day) = (if pd_doy st > -1 then doy_loop year 1 (pd_doy st) else (pd_month st, pd_day st));
                date = daylightSavingAdjust (newDate year (month - 1) day)
            in if getFullYear date \<noteq> year \<or> getMonth date + 1 \<noteq> month \<or> getDate date \<noteq> day then Throw else Return date))"

definition parseDate :: "int \<Rightarrow> int \<Rightarrow> string option \<Rightarrow> string option \<Rightarrow> date_settings option \<Rightarrow> js_date option outcome" where
  "parseDate zone this_year format value settings =
     (case (format, value) of
        (Some f, Some v) \<Rightarrow>
          if v = [] then Return None
          else then_read (parse_loop zone (settings_names settings) False f
              \<lparr>pd_value = v, pd_year = -1, pd_month = -1, pd_day = -1, pd_doy = -1\<rparr>)
            (\<lambda>st. then_read (parsed_date this_year (settings_cutoff this_year settings) st) (\<lambda>date. Return (Some date)))
      | _ \<Rightarrow> Throw)"

section \<open>The characters of a format\<close>

text \<open>\<open>None\<close> allows any character.\<close>

fun possible_loop :: "bool \<Rightarrow> string \<Rightarrow> string option" where
  "possible_loop literal [] = Some []"
| "possible_loop literal (c # format) =
     (if literal
      then (if c = CHR 0x27 \<and> \<not> lookAhead CHR 0x27 format then possible_loop False format
            else map_option ((#) c) (possible_loop True (if c = CHR 0x27 then behind CHR 0x27 format else format)))
      else if c \<in> set ''dmy@'' then map_option ((@) ''0123456789'') (possible_loop False format)
      else if c \<in> set ''DM'' then None
      else if c = CHR 0x27
      then (if lookAhead CHR 0x27 format then map_option ((#) CHR 0x27) (possible_loop False (tl format))
            else possible_loop True format)
      else map_option ((#) c) (possible_loop False format))"

definition possibleChars :: "string \<Rightarrow> string option" where
  "possibleChars format = possible_loop False format"


section \<open>The elements of a format\<close>

text \<open>What a format consists of; the two loops print and read its elements one after the other.\<close>

datatype element = Field char bool | Literal char

fun elements :: "bool \<Rightarrow> string \<Rightarrow> element list" where
  "elements literal [] = []"
| "elements literal (c # format) =
     (if literal
      then (if c = CHR 0x27 \<and> \<not> lookAhead CHR 0x27 format then elements False format
            else Literal c # elements True (if c = CHR 0x27 then behind CHR 0x27 format else format))
      else if c \<in> set field_chars then Field c (lookAhead c format) # elements False (behind c format)
      else if c = CHR 0x27
      then (if lookAhead CHR 0x27 format then Literal CHR 0x27 # elements False (tl format) else elements True format)
      else Literal c # elements False format)"

fun element_text :: "int \<Rightarrow> date_names \<Rightarrow> js_date \<Rightarrow> element \<Rightarrow> string" where
  "element_text zone names t (Literal c) = [c]"
| "element_text zone names t (Field c doubled) =
     (if c = CHR ''d'' then formatNumber doubled (getDate t) 2
      else if c = CHR ''D'' then formatName doubled (getDay t) (dn_dayNamesShort names) (dn_dayNames names)
      else if c = CHR ''o'' then formatNumber doubled (formatDayOfYear t) 3
      else if c = CHR ''m'' then formatNumber doubled (getMonth t + 1) 2
      else if c = CHR ''M'' then formatName doubled (getMonth t) (dn_monthNamesShort names) (dn_monthNames names)
      else if c = CHR ''y'' then (if doubled then number_text (getFullYear t) else short_year t)
      else let stamp = number_text (if c = CHR ''@'' then getTime zone t else getTime zone t * 10000 + ticksTo1970)
           in if doubled then stamp @ stamp else stamp)"

abbreviation elements_text :: "int \<Rightarrow> date_names \<Rightarrow> js_date \<Rightarrow> element list \<Rightarrow> string" where
  "elements_text zone names t es \<equiv> concat (map (element_text zone names t) es)"

lemma ahead_behind: "lookAhead c format \<Longrightarrow> format = c # behind c format" "\<not> lookAhead c format \<Longrightarrow> behind c format = format"
  by (cases format; auto simp: lookAhead_def behind_def)+

lemma stamp_behind: "c \<in> {CHR ''@'', CHR ''!''} \<Longrightarrow> format_loop zone names t False format =
    (if lookAhead c format then number_text (if c = CHR ''@'' then getTime zone t else getTime zone t * 10000 + ticksTo1970) else [])
      @ format_loop zone names t False (behind c format)"
  by (cases format) (auto simp: lookAhead_def behind_def)

lemma field_char_cases:
  assumes "c \<in> set field_chars"
  obtains "c = CHR ''d''" | "c = CHR ''D''" | "c = CHR ''o''" | "c = CHR ''m''" | "c = CHR ''M''" | "c = CHR ''y''" | "c = CHR ''@''" | "c = CHR ''!''"
  using assms unfolding field_chars_def by (simp only: list.set insert_iff empty_iff) blast

lemma not_field_char:
  assumes "c \<notin> set field_chars"
  shows "c \<noteq> CHR ''d''" "c \<noteq> CHR ''D''" "c \<noteq> CHR ''o''" "c \<noteq> CHR ''m''" "c \<noteq> CHR ''M''" "c \<noteq> CHR ''y''" "c \<noteq> CHR ''@''" "c \<noteq> CHR ''!''"
  using assms by (simp_all add: field_chars_def)

lemma format_loop_elements: "format_loop zone names t literal format = elements_text zone names t (elements literal format)"
proof (induction literal format rule: elements.induct)
  case (2 literal c format)
  show ?case
  proof (cases literal)
    case True
    with 2(1,2) show ?thesis by (cases "c = CHR 0x27"; cases "lookAhead CHR 0x27 format") simp_all
  next
    case not_literal: False
    show ?thesis
    proof (cases "c \<in> set field_chars")
      case True
      with 2(3) not_literal have IH: "elements_text zone names t (elements False (behind c format)) = format_loop zone names t False (behind c format)"
        by simp
      have e: "elements literal (c # format) = Field c (lookAhead c format) # elements False (behind c format)"
        using True not_literal by simp
      from True show ?thesis
        unfolding e using stamp_behind [of c zone names t format] not_literal IH
        by (cases rule: field_char_cases) (simp_all add: Let_def)
    next
      case False
      with 2(4-6) not_literal not_field_char [OF False] show ?thesis
        by (cases "c = CHR 0x27"; cases "lookAhead CHR 0x27 format"; simp)
    qed
  qed
qed simp

fun parse_element :: "int \<Rightarrow> date_names \<Rightarrow> element \<Rightarrow> parse_state \<Rightarrow> parse_state outcome" where
  "parse_element zone names (Literal c) st = literal_char c st"
| "parse_element zone names (Field c doubled) st = parse_field zone names c doubled st"

fun parse_elements :: "int \<Rightarrow> date_names \<Rightarrow> element list \<Rightarrow> parse_state \<Rightarrow> parse_state outcome" where
  "parse_elements zone names [] st = Return st"
| "parse_elements zone names (x # xs) st = then_read (parse_element zone names x st) (parse_elements zone names xs)"

lemma parse_loop_elements: "parse_loop zone names literal format = parse_elements zone names (elements literal format)"
proof (induction literal format rule: elements.induct)
  case (2 literal c format)
  show ?case
  proof (cases literal)
    case True
    with 2(1,2) show ?thesis by (cases "c = CHR 0x27 \<and> \<not> lookAhead CHR 0x27 format") (auto intro!: ext)
  next
    case not_literal: False
    show ?thesis
    proof (cases "c \<in> set field_chars")
      case True
      with 2(3) not_literal show ?thesis by (intro ext) simp
    next
      case False
      with 2(4-6) not_literal show ?thesis
        by (intro ext) (cases "c = CHR 0x27"; cases "lookAhead CHR 0x27 format"; simp)
    qed
  qed
qed (simp add: fun_eq_iff)

section \<open>Reading numbers and names\<close>

lemma is_digit_char_of [simp]: "n < 10 \<Longrightarrow> is_digit (char_of (48 + n :: nat))"
  by (simp add: is_digit_def Let_def)

lemma digit_char_value [simp]: "n < 10 \<Longrightarrow> (of_char (char_of (48 + n :: nat)) :: int) = 48 + int n"
proof -
  assume "n < 10"
  then have "int (of_char (char_of (48 + n) :: char)) = 48 + int n" by simp
  then show ?thesis by (simp only: of_nat_of_char)
qed

lemma is_digit_zero [simp]: "is_digit CHR ''0''"
  by (simp add: is_digit_def)

lemma digits_value_append: "digits_value acc (xs @ ys) = digits_value (digits_value acc xs) ys"
  by (induction xs arbitrary: acc) auto

lemma digits_value_zeros [simp]: "digits_value 0 (replicate n CHR ''0'' @ xs) = digits_value 0 xs"
  by (induction n) auto

lemma decimal_digits: "list_all is_digit (decimal n)"
  by (induction n rule: decimal.induct) (subst decimal.simps, simp)

lemma decimal_nonempty [simp]: "decimal n \<noteq> []"
  by (subst decimal.simps) simp

lemma decimal_value: "digits_value 0 (decimal n) = int n"
proof (induction n rule: decimal.induct)
  case (1 n)
  show ?case
  proof (cases "n < 10")
    case True
    then show ?thesis by (subst decimal.simps) simp
  next
    case False
    with 1 have "digits_value 0 (decimal (n div 10)) = int (n div 10)" by simp
    with False show ?thesis by (subst decimal.simps) (simp add: digits_value_append zdiv_int zmod_int)
  qed
qed

lemma decimal_length: "n < 10 ^ k \<Longrightarrow> 0 < k \<Longrightarrow> length (decimal n) \<le> k"
proof (induction n arbitrary: k rule: decimal.induct)
  case (1 n)
  show ?case
  proof (cases "n < 10")
    case False
    with 1(2,3) obtain j where k: "k = Suc j" "0 < j" by (cases k) (auto, metis One_nat_def not_less power_0 mult_1_right neq0_conv)
    with 1(2) have "n div 10 < 10 ^ j" by (simp add: less_mult_imp_div_less mult.commute)
    with 1(1) False k have "length (decimal (n div 10)) \<le> j" by simp
    with False k show ?thesis by (subst decimal.simps) simp
  qed (use 1(3) in \<open>subst decimal.simps, simp\<close>)
qed

lemma decimal_length_ge: "10 ^ k \<le> n \<Longrightarrow> Suc k \<le> length (decimal n)"
proof (induction k arbitrary: n)
  case (Suc k)
  then have "10 ^ k \<le> n div 10" by (simp add: less_eq_div_iff_mult_less_eq mult.commute)
  moreover from Suc.prems have "\<not> n < 10" by (metis not_le one_le_power mult_le_mono2 nat_mult_1_right power_Suc le_trans one_le_numeral)
  ultimately show ?case using Suc.IH by (subst decimal.simps) simp
qed (simp add: Suc_le_eq)

text \<open>A number of at most the size, which has the size or ends in front of another character.\<close>

lemma getNumber_text:
  assumes "list_all is_digit num" "num \<noteq> []" "number_minSize c doubled \<le> length num" "length num \<le> number_size c doubled"
    "length num = number_size c doubled \<or> rest = [] \<or> \<not> is_digit (hd rest)"
  shows "getNumber c doubled (num @ rest) = Return (digits_value 0 num, rest)"
proof -
  have "takeWhile is_digit (num @ rest) = num @ takeWhile is_digit rest" using assms(1) by (simp add: list_all_iff)
  moreover have "length num = number_size c doubled \<or> takeWhile is_digit rest = []" using assms(5) by (cases rest) auto
  ultimately have "take (number_size c doubled) (takeWhile is_digit (num @ rest)) = num" using assms(4) by auto
  with assms(3) show ?thesis by (simp add: getNumber_def)
qed

lemma formatNumber_number:
  assumes "0 \<le> n" "n < 10 ^ len" "0 < len"
  shows "list_all is_digit (formatNumber doubled n len)" "formatNumber doubled n len \<noteq> []" "digits_value 0 (formatNumber doubled n len) = n"
    "length (formatNumber doubled n len) \<le> len" "doubled \<Longrightarrow> length (formatNumber doubled n len) = len"
proof -
  have "nat n < 10 ^ len" using assms(1,2) by (simp add: nat_less_iff)
  from decimal_length [OF this assms(3)] assms(1)
  show "list_all is_digit (formatNumber doubled n len)" "formatNumber doubled n len \<noteq> []" "digits_value 0 (formatNumber doubled n len) = n"
    "length (formatNumber doubled n len) \<le> len" "doubled \<Longrightarrow> length (formatNumber doubled n len) = len"
    using decimal_digits [of "nat n"]
    by (auto simp: formatNumber_def number_text_def decimal_value Let_def list_all_iff)
qed


lemma formatNumber_single: "formatNumber False n len = number_text n"
  by (simp add: formatNumber_def)

lemma short_year_two_digits:
  assumes "1900 \<le> getFullYear t"
  shows "short_year t = formatNumber True (getFullYear t mod 100) 2"
proof -
  have "(getFullYear t - 19 * 100) mod 100 = getFullYear t mod 100" by (metis mod_diff_right_eq mod_mult_self2_is_0 diff_zero)
  then have m: "js_mod (getYear t) 100 = getFullYear t mod 100" using assms by (simp add: js_mod_def getYear_def)
  have len: "length (decimal (nat (getFullYear t mod 100))) = (if getFullYear t mod 100 < 10 then 1 else 2)"
  proof (cases "getFullYear t mod 100 < 10")
    case True
    then show ?thesis by (subst decimal.simps) simp
  next
    case False
    then have "10 ^ 1 \<le> nat (getFullYear t mod 100)" "nat (getFullYear t mod 100) < 10 ^ 2" by (simp_all add: nat_less_iff)
    with decimal_length_ge [of 1] decimal_length [of _ 2] False show ?thesis by (simp add: le_antisym numeral_2_eq_2)
  qed
  show ?thesis unfolding short_year_def m formatNumber_def number_text_def using len
    by (simp add: Let_def replicate_Suc numeral_2_eq_2)
qed

lemma full_year_four_digits:
  assumes "1000 \<le> n" "n \<le> 9999"
  shows "length (number_text n) = 4"
proof -
  have "10 ^ 3 \<le> nat n" "nat n < 10 ^ 4" using assms by (simp_all add: nat_less_iff)
  then have "length (decimal (nat n)) = 4" using decimal_length_ge [of 3 "nat n"] decimal_length [of "nat n" 4] by simp
  with assms show ?thesis by (simp add: number_text_def)
qed

lemma find_unique: "x \<in> set xs \<Longrightarrow> P x \<Longrightarrow> \<forall>y\<in>set xs. P y \<longrightarrow> y = x \<Longrightarrow> find P xs = Some x"
proof (induction xs)
  case (Cons a xs)
  show ?case
  proof (cases "P a")
    case True
    with Cons.prems(3) have "a = x" by auto
    with True show ?thesis by simp
  next
    case False
    with Cons.prems have "x \<in> set xs" by auto
    from Cons.IH [OF this Cons.prems(2)] Cons.prems(3) False show ?thesis by auto
  qed
qed simp

text \<open>No name is the start of another one, and none starts with a digit.\<close>

fun starts_apart :: "string list \<Rightarrow> bool" where
  "starts_apart [] = True"
| "starts_apart (n # ns) = (list_all (\<lambda>m. take (length n) m \<noteq> n \<and> take (length m) n \<noteq> m) ns \<and> starts_apart ns)"

definition distinct_names :: "string list \<Rightarrow> bool" where
  "distinct_names ns \<longleftrightarrow> list_all (\<lambda>n. n \<noteq> [] \<and> \<not> is_digit (hd n)) ns \<and> starts_apart (map lower ns)"

lemma starts_apart_nth: "starts_apart ns \<Longrightarrow> i < length ns \<Longrightarrow> j < length ns \<Longrightarrow> i \<noteq> j \<Longrightarrow> take (length (ns ! i)) (ns ! j) \<noteq> ns ! i"
proof (induction ns arbitrary: i j)
  case (Cons n ns)
  then show ?case by (cases i; cases j) (auto simp: list_all_length)
qed simp

lemma distinct_names_nth:
  "distinct_names ns \<Longrightarrow> i < length ns \<Longrightarrow> j < length ns \<Longrightarrow> i \<noteq> j \<Longrightarrow> take (length (ns ! i)) (lower (ns ! j)) \<noteq> lower (ns ! i)"
  using starts_apart_nth [of "map lower ns" i j] by (simp add: distinct_names_def lower_def)

lemma lower_take: "lower (take n s) = take n (lower s)" "length (lower s) = length s" "lower (s @ s') = lower s @ lower s'"
  by (simp_all add: lower_def take_map)

lemma getName_text:
  assumes "ns = (if doubled then longNames else shortNames)" "distinct_names ns" "k < length ns"
  shows "getName doubled shortNames longNames (ns ! k @ rest) = Return (int k + 1, rest)"
proof -
  let ?P = "\<lambda>(k', name). lower (take (length name) (ns ! k @ rest)) = lower name"
  let ?names = "sort_key (\<lambda>(k, name). - int (length name)) (enumerate 0 ns)"
  have "find ?P ?names = Some (k, ns ! k)"
  proof (rule find_unique)
    show "(k, ns ! k) \<in> set ?names" using assms(3) by (simp add: in_set_enumerate_eq)
    show "?P (k, ns ! k)" by (simp add: lower_take)
    show "\<forall>y\<in>set ?names. ?P y \<longrightarrow> y = (k, ns ! k)"
    proof (intro ballI impI)
      fix y assume y: "y \<in> set ?names" "?P y"
      then obtain j where j: "j < length ns" "y = (j, ns ! j)" by (auto simp: in_set_enumerate_eq)
      show "y = (k, ns ! k)"
      proof (rule ccontr)
        assume "y \<noteq> (k, ns ! k)"
        with j have jk: "j \<noteq> k" by auto
        from y(2) j have eq: "take (length (ns ! j)) (lower (ns ! k) @ lower rest) = lower (ns ! j)" by (simp add: lower_take)
        show False
        proof (cases "length (ns ! j) \<le> length (ns ! k)")
          case True
          with eq have "take (length (ns ! j)) (lower (ns ! k)) = lower (ns ! j)" by (simp add: lower_take)
          with distinct_names_nth [OF assms(2) j(1) assms(3) jk] show False by simp
        next
          case False
          then have "take (length (ns ! k)) (lower (ns ! j)) = lower (ns ! k)" unfolding eq [symmetric] by (simp add: lower_take)
          with distinct_names_nth [OF assms(2,3) j(1)] jk show False by simp
        qed
      qed
    qed
  qed
  then show ?thesis unfolding getName_def using assms(1) by (simp add: Let_def)
qed

section \<open>Reading back what was printed\<close>

lemma formatDayOfYear_eq:
  assumes "long_year (getFullYear t)"
  shows "formatDayOfYear t = day_of_year t + 1"
proof -
  have "newDate (getFullYear t) 0 0 = (dayFromYear (getFullYear t) - 1) * msPerDay"
    using assms by (auto simp: newDate_def long_year_def makeDay_def month_start_def)
  then have "newDate (getFullYear t) (getMonth t) (getDate t) - newDate (getFullYear t) 0 0 = (day_of_year t + 1) * 86400000"
    using newDate_midnight [OF assms] by (simp add: midnight_def day_of_year_def msPerDay_def algebra_simps)
  then show ?thesis by (simp add: formatDayOfYear_def math_round_div_def)
qed

lemma field_ranges: "1 \<le> getDate t" "getDate t < 100" "0 \<le> getMonth t" "getMonth t \<le> 11" "0 \<le> day_of_year t" "day_of_year t < 999"
proof -
  have v: "valid_fields (getFullYear t) (getMonth t) (getDate t)" by (rule fields_valid)
  then show "1 \<le> getDate t" "0 \<le> getMonth t" "getMonth t \<le> 11" by (simp_all add: valid_fields_def)
  with v month_length_bounds [of "getMonth t" "leap_year (getFullYear t)"] show "getDate t < 100" by (simp add: valid_fields_def)
  show "0 \<le> day_of_year t" "day_of_year t < 999"
    using yearFromDay_bounds [of "date_day t"] dayFromYear_step [of "getFullYear t"]
    by (auto simp: day_of_year_def getFullYear_def split: if_splits)
qed

text \<open>A format is clear if a number of varying length is not followed by a digit; a time stamp is printed
  twice, but read once, when its letter is doubled.\<close>

fun stops_number :: "element list \<Rightarrow> bool" where
  "stops_number [] = True"
| "stops_number (Literal c # es) = (\<not> is_digit c)"
| "stops_number (Field c doubled # es) = (c \<in> set ''DM'')"

fun clear_format :: "element list \<Rightarrow> bool" where
  "clear_format [] = True"
| "clear_format (Literal c # es) = clear_format es"
| "clear_format (Field c doubled # es) =
     (c \<in> set field_chars \<and> (c \<in> set ''DMy'' \<or> doubled \<and> c \<in> set ''dmo'' \<or> stops_number es) \<and> (c \<in> set ''@!'' \<longrightarrow> \<not> doubled) \<and> clear_format es)"

text \<open>What the fields of a format determine: year, month, day, day of the year.\<close>

fun determined :: "element \<Rightarrow> char set" where
  "determined (Literal c) = {}"
| "determined (Field c doubled) =
     (if c = CHR ''M'' then {CHR ''m''} else if c \<in> set ''@!'' then set ''ymd'' else if c \<in> set ''ymdo'' then {c} else {})"

definition determines_date :: "element list \<Rightarrow> bool" where
  "determines_date es \<longleftrightarrow> (let fs = \<Union> (set (map determined es))
     in CHR ''y'' \<in> fs \<and> (CHR ''o'' \<in> fs \<or> CHR ''m'' \<in> fs \<and> CHR ''d'' \<in> fs))"

text \<open>The date can be printed: time stamps in range, and short years in the hundred years around the cutoff.\<close>

fun prints :: "int \<Rightarrow> int \<Rightarrow> int option \<Rightarrow> js_date \<Rightarrow> element \<Rightarrow> bool" where
  "prints zone this_year cutoff t (Literal c) = True"
| "prints zone this_year cutoff t (Field c doubled) =
     (if c = CHR ''@'' then 0 \<le> getTime zone t \<and> getTime zone t < 10 ^ 14
      else if c = CHR ''!'' then 0 \<le> getTime zone t * 10000 + ticksTo1970 \<and> getTime zone t * 10000 + ticksTo1970 < 10 ^ 20
      else if c = CHR ''y'' \<and> \<not> doubled then 1900 \<le> getFullYear t \<and> expand_year this_year cutoff (getFullYear t mod 100) = getFullYear t
      else True)"

definition good_names :: "date_names \<Rightarrow> bool" where
  "good_names names \<longleftrightarrow> distinct_names (dn_dayNamesShort names) \<and> distinct_names (dn_dayNames names)
     \<and> distinct_names (dn_monthNamesShort names) \<and> distinct_names (dn_monthNames names)
     \<and> length (dn_dayNamesShort names) = 7 \<and> length (dn_dayNames names) = 7
     \<and> length (dn_monthNamesShort names) = 12 \<and> length (dn_monthNames names) = 12"

lemma default_names_good: "good_names default_names"
  by code_simp


text \<open>The fields that have been read are those of the date; a short year may still be without its century.\<close>

definition agrees :: "bool \<Rightarrow> js_date \<Rightarrow> parse_state \<Rightarrow> bool" where
  "agrees short t st \<longleftrightarrow> (pd_year st = -1 \<or> pd_year st = getFullYear t \<or> short \<and> pd_year st = getFullYear t mod 100)
     \<and> (pd_month st = -1 \<or> pd_month st = getMonth t + 1) \<and> (pd_day st = -1 \<or> pd_day st = getDate t)
     \<and> (pd_doy st = -1 \<or> pd_doy st = day_of_year t + 1)"

definition known :: "parse_state \<Rightarrow> char set" where
  "known st = (if pd_year st = -1 then {} else {CHR ''y''}) \<union> (if pd_month st = -1 then {} else {CHR ''m''})
     \<union> (if pd_day st = -1 then {} else {CHR ''d''}) \<union> (if pd_doy st = -1 then {} else {CHR ''o''})"

text \<open>What reading an element has to achieve.\<close>

definition reads :: "bool \<Rightarrow> js_date \<Rightarrow> char set \<Rightarrow> parse_state \<Rightarrow> string \<Rightarrow> parse_state outcome \<Rightarrow> bool" where
  "reads short t fs st rest r \<longleftrightarrow>
     (\<exists>st'. r = Return st' \<and> pd_value st' = rest \<and> agrees short t st' \<and> known st \<union> fs \<subseteq> known st')"

definition ends_number :: "string \<Rightarrow> bool" where
  "ends_number rest \<longleftrightarrow> rest = [] \<or> \<not> is_digit (hd rest)"

lemma read_number:
  assumes "0 \<le> n" "n < 10 ^ len" "0 < len" "len = number_size c size_doubled" "c \<noteq> CHR ''y'' \<or> doubled" "doubled \<or> ends_number rest"
  shows "getNumber c size_doubled (formatNumber doubled n len @ rest) = Return (n, rest)"
  using formatNumber_number [OF assms(1-3), of doubled] assms(4-6)
  by (subst getNumber_text) (auto simp: number_minSize_def ends_number_def Suc_le_eq)

lemma reads_fields:
  assumes "agrees short t st"
  shows "n = getDate t \<Longrightarrow> reads short t {CHR ''d''} st rest (Return (st\<lparr>pd_value := rest, pd_day := n\<rparr>))"
    "n = getMonth t + 1 \<Longrightarrow> reads short t {CHR ''m''} st rest (Return (st\<lparr>pd_value := rest, pd_month := n\<rparr>))"
    "n = day_of_year t + 1 \<Longrightarrow> reads short t {CHR ''o''} st rest (Return (st\<lparr>pd_value := rest, pd_doy := n\<rparr>))"
    "n = getFullYear t \<or> short \<and> n = getFullYear t mod 100 \<Longrightarrow> n \<noteq> -1 \<Longrightarrow> reads short t {CHR ''y''} st rest (Return (st\<lparr>pd_value := rest, pd_year := n\<rparr>))"
    "reads short t {} st rest (Return (st\<lparr>pd_value := rest\<rparr>))"
  using assms field_ranges [of t] by (simp_all add: reads_def agrees_def known_def)

lemma reads_all_fields:
  "agrees short t st \<Longrightarrow> getFullYear t \<noteq> -1 \<Longrightarrow> reads short t (set ''ymd'') st rest (Return (set_fields t (st\<lparr>pd_value := rest\<rparr>)))"
  using field_ranges [of t] by (simp add: reads_def agrees_def known_def set_fields_def)

lemma read_day:
  assumes "agrees short t st" "pd_value st = formatNumber doubled (getDate t) 2 @ rest" "doubled \<or> ends_number rest"
  shows "reads short t {CHR ''d''} st rest (parse_field zone names CHR ''d'' doubled st)"
proof -
  have "getNumber CHR ''d'' doubled (pd_value st) = Return (getDate t, rest)"
    unfolding assms(2) using field_ranges(1,2) [of t] assms(3) by (intro read_number) (simp_all add: number_size_def)
  with reads_fields(1) [OF assms(1)] show ?thesis by (simp add: parse_field_def)
qed

lemma read_month:
  assumes "agrees short t st" "pd_value st = formatNumber doubled (getMonth t + 1) 2 @ rest" "doubled \<or> ends_number rest"
  shows "reads short t {CHR ''m''} st rest (parse_field zone names CHR ''m'' doubled st)"
proof -
  have "getNumber CHR ''m'' doubled (pd_value st) = Return (getMonth t + 1, rest)"
    unfolding assms(2) using field_ranges(3,4) [of t] assms(3) by (intro read_number) (simp_all add: number_size_def)
  with reads_fields(2) [OF assms(1)] show ?thesis by (simp add: parse_field_def)
qed

lemma read_day_of_year:
  assumes "agrees short t st" "pd_value st = formatNumber doubled (day_of_year t + 1) 3 @ rest" "doubled \<or> ends_number rest"
  shows "reads short t {CHR ''o''} st rest (parse_field zone names CHR ''o'' doubled st)"
proof -
  have "getNumber CHR ''o'' doubled (pd_value st) = Return (day_of_year t + 1, rest)"
    unfolding assms(2) using field_ranges(5,6) [of t] assms(3) by (intro read_number) (simp_all add: number_size_def)
  with reads_fields(3) [OF assms(1)] show ?thesis by (simp add: parse_field_def)
qed

lemma read_full_year:
  assumes "agrees short t st" "pd_value st = number_text (getFullYear t) @ rest" "1000 \<le> getFullYear t" "getFullYear t \<le> 9999"
  shows "reads short t {CHR ''y''} st rest (parse_field zone names CHR ''y'' True st)"
proof -
  have "getNumber CHR ''y'' True (pd_value st) = Return (digits_value 0 (number_text (getFullYear t)), rest)"
    unfolding assms(2) using formatNumber_number(1,2) [of "getFullYear t" 4 False] full_year_four_digits [OF assms(3,4)] assms(3,4)
    by (intro getNumber_text) (simp_all add: number_minSize_def number_size_def formatNumber_single)
  moreover have "digits_value 0 (number_text (getFullYear t)) = getFullYear t"
    using formatNumber_number(3) [of "getFullYear t" 4 False] assms(3,4) by (simp add: formatNumber_single)
  ultimately show ?thesis using reads_fields(4) [OF assms(1)] assms(3) by (simp add: parse_field_def)
qed

lemma read_short_year:
  assumes "agrees short t st" "pd_value st = short_year t @ rest" "1900 \<le> getFullYear t" short
  shows "reads short t {CHR ''y''} st rest (parse_field zone names CHR ''y'' False st)"
proof -
  have "getNumber CHR ''y'' False (pd_value st) = Return (getFullYear t mod 100, rest)"
    unfolding assms(2) short_year_two_digits [OF assms(3)] using formatNumber_number [of "getFullYear t mod 100" 2 True]
    by (subst getNumber_text) (simp_all add: number_minSize_def number_size_def)
  moreover have "getFullYear t mod 100 \<noteq> -1" using pos_mod_sign [of 100 "getFullYear t"] by linarith
  ultimately show ?thesis using reads_fields(4) [OF assms(1)] assms(4) by (simp add: parse_field_def)
qed

lemma read_day_name:
  assumes "agrees short t st" "pd_value st = formatName doubled (getDay t) (dn_dayNamesShort names) (dn_dayNames names) @ rest" "good_names names"
  shows "reads short t {} st rest (parse_field zone names CHR ''D'' doubled st)"
proof -
  let ?ns = "if doubled then dn_dayNames names else dn_dayNamesShort names"
  have "getName doubled (dn_dayNamesShort names) (dn_dayNames names) (?ns ! nat (getDay t) @ rest) = Return (int (nat (getDay t)) + 1, rest)"
    using assms(3) getDay_range [of t] by (intro getName_text) (auto simp: good_names_def)
  moreover have "formatName doubled (getDay t) (dn_dayNamesShort names) (dn_dayNames names) = ?ns ! nat (getDay t)" by (simp add: formatName_def)
  ultimately show ?thesis using reads_fields(5) [OF assms(1)] by (simp add: parse_field_def assms(2))
qed

lemma read_month_name:
  assumes "agrees short t st" "pd_value st = formatName doubled (getMonth t) (dn_monthNamesShort names) (dn_monthNames names) @ rest" "good_names names"
  shows "reads short t {CHR ''m''} st rest (parse_field zone names CHR ''M'' doubled st)"
proof -
  let ?ns = "if doubled then dn_monthNames names else dn_monthNamesShort names"
  have "getName doubled (dn_monthNamesShort names) (dn_monthNames names) (?ns ! nat (getMonth t) @ rest) = Return (int (nat (getMonth t)) + 1, rest)"
    using assms(3) field_ranges(3,4) [of t] by (intro getName_text) (auto simp: good_names_def)
  moreover have "formatName doubled (getMonth t) (dn_monthNamesShort names) (dn_monthNames names) = ?ns ! nat (getMonth t)" by (simp add: formatName_def)
  ultimately show ?thesis using reads_fields(2) [OF assms(1)] field_ranges(3) [of t] by (simp add: parse_field_def assms(2))
qed

lemma read_stamp:
  assumes "agrees short t st" "1000 \<le> getFullYear t" "ends_number rest" "0 \<le> n"
    "c = CHR ''@'' \<and> n = getTime zone t \<and> n < 10 ^ 14 \<or> c = CHR ''!'' \<and> n = getTime zone t * 10000 + ticksTo1970 \<and> n < 10 ^ 20"
    "pd_value st = number_text n @ rest"
  shows "reads short t (set ''ymd'') st rest (parse_field zone names c False st)"
proof -
  have "c \<noteq> CHR ''y''" "n < 10 ^ number_size c False" using assms(5) by (elim disjE; simp add: number_size_def)+
  moreover have "0 < number_size c False" by (simp add: number_size_def)
  ultimately have "getNumber c False (formatNumber False n (number_size c False) @ rest) = Return (n, rest)"
    using assms(3,4) by (intro read_number) simp_all
  then have num: "getNumber c False (pd_value st) = Return (n, rest)" unfolding assms(6) formatNumber_single .
  have "truncated_div (getTime zone t * 10000) 10000 = getTime zone t"
    by (simp add: truncated_div_def flip: mult_minus_left)
  moreover have "fromTime zone (getTime zone t) = t" by (simp add: fromTime_def getTime_def)
  ultimately have "parse_field zone names c False st = Return (set_fields t (st\<lparr>pd_value := rest\<rparr>))"
    using assms(5) num by (elim disjE conjE) (simp_all add: parse_field_def)
  with reads_all_fields [OF assms(1)] assms(2) show ?thesis by simp
qed


text \<open>The elements one after the other.\<close>

lemma stops_number_text:
  assumes "stops_number es" "good_names names"
  shows "ends_number (elements_text zone names t es)"
proof (cases es rule: stops_number.cases)
  case (2 c es')
  with assms(1) show ?thesis by (simp add: ends_number_def)
next
  case (3 c doubled es')
  have nth: "ns \<noteq> [] \<and> ends_number ns" if "distinct_names nss" "ns \<in> set nss" for ns nss
    using that by (auto simp: distinct_names_def list_all_iff ends_number_def)
  have "element_text zone names t (Field c doubled) \<in> set (dn_dayNamesShort names) \<union> set (dn_dayNames names)
      \<union> set (dn_monthNamesShort names) \<union> set (dn_monthNames names)"
    using assms 3 getDay_range [of t] field_ranges(3,4) [of t] by (auto simp: formatName_def good_names_def)
  with nth assms(2) have "element_text zone names t (Field c doubled) \<noteq> []" "ends_number (element_text zone names t (Field c doubled))"
    unfolding good_names_def by blast+
  with 3 show ?thesis by (simp add: ends_number_def)
qed (simp add: ends_number_def)

lemma read_element:
  assumes "agrees short t st" "pd_value st = element_text zone names t x @ rest" "clear_format (x # es)" "prints zone this_year cutoff t x"
    "1000 \<le> getFullYear t" "getFullYear t \<le> 9999" "good_names names" "stops_number es \<longrightarrow> ends_number rest" "x = Field CHR ''y'' False \<longrightarrow> short"
  shows "reads short t (determined x) st rest (parse_element zone names x st)"
proof (cases x)
  case (Literal c)
  with assms(2) reads_fields(5) [OF assms(1)] show ?thesis by (simp add: literal_char_def checkLiteral_def)
next
  case x: (Field c doubled)
  have doy: "formatDayOfYear t = day_of_year t + 1" using assms(5) by (intro formatDayOfYear_eq) (simp add: long_year_def)
  from assms(3) have "c \<in> set field_chars" by (simp add: x)
  then show ?thesis
  proof (cases rule: field_char_cases)
    case 1
    with assms show ?thesis by (auto simp: x intro!: read_day)
  next
    case 2
    with assms show ?thesis by (auto simp: x intro!: read_day_name)
  next
    case 3
    with assms show ?thesis by (auto simp: x doy intro!: read_day_of_year)
  next
    case 4
    with assms show ?thesis by (auto simp: x intro!: read_month)
  next
    case 5
    with assms show ?thesis by (auto simp: x intro!: read_month_name)
  next
    case 6
    with assms show ?thesis by (cases doubled) (auto simp: x intro!: read_full_year read_short_year)
  next
    case 7
    with assms have "\<not> doubled" "ends_number rest" by (simp_all add: x)
    with 7 assms read_stamp [of short t st rest "getTime zone t" c zone names] show ?thesis by (simp add: x)
  next
    case 8
    with assms have "\<not> doubled" "ends_number rest" by (simp_all add: x)
    with 8 assms read_stamp [of short t st rest "getTime zone t * 10000 + ticksTo1970" c zone names] show ?thesis by (simp add: x)
  qed
qed

lemma read_elements:
  assumes "agrees short t st" "pd_value st = elements_text zone names t es" "clear_format es" "list_all (prints zone this_year cutoff t) es"
    "1000 \<le> getFullYear t" "getFullYear t \<le> 9999" "good_names names" "Field CHR ''y'' False \<in> set es \<longrightarrow> short"
  shows "reads short t (\<Union> (set (map determined es))) st [] (parse_elements zone names es st)"
  using assms
proof (induction es arbitrary: st)
  case Nil
  then show ?case by (simp add: reads_def)
next
  case (Cons x es)
  have "stops_number es \<longrightarrow> ends_number (elements_text zone names t es)" using stops_number_text Cons.prems(7) by blast
  with Cons.prems have "reads short t (determined x) st (elements_text zone names t es) (parse_element zone names x st)"
    by (intro read_element) auto
  then obtain st' where st': "parse_element zone names x st = Return st'" "pd_value st' = elements_text zone names t es"
    "agrees short t st'" "known st \<union> determined x \<subseteq> known st'" by (auto simp: reads_def)
  have "clear_format es" using Cons.prems(3) by (cases x) auto
  with st' Cons.prems have "reads short t (\<Union> (set (map determined es))) st' [] (parse_elements zone names es st')"
    by (intro Cons.IH) auto
  with st' show ?case by (auto simp: reads_def)
qed


lemma month_start_le: "0 \<le> k \<Longrightarrow> k \<le> m \<Longrightarrow> m \<le> 12 \<Longrightarrow> month_start leap k \<le> month_start leap m"
proof (induction "nat (m - k)" arbitrary: k)
  case (Suc n)
  then have "n = nat (m - (k + 1))" "0 \<le> k + 1" "k + 1 \<le> m" by auto
  with Suc.hyps(1) [of "k + 1"] Suc.prems(3) have "month_start leap (k + 1) \<le> month_start leap m" by blast
  moreover have "month_start leap k < month_start leap (k + 1)"
    using month_start_mono [of k leap] Suc.prems \<open>k + 1 \<le> m\<close> by simp
  ultimately show ?case by simp
qed simp

lemma doy_loop_from:
  assumes "long_year y" "valid_fields y m d" "0 \<le> k" "k \<le> m"
  shows "doy_loop y (k + 1) (month_start (leap_year y) m + d - month_start (leap_year y) k) = (m + 1, d)"
  using assms(3,4)
proof (induction "nat (m - k)" arbitrary: k)
  case 0
  then have "k = m" by simp
  with assms show ?case by (subst doy_loop.simps) (simp add: getDaysInMonth_eq valid_fields_def)
next
  case (Suc n)
  then have k: "k < m" "n = nat (m - (k + 1))" "0 \<le> k + 1" "k + 1 \<le> m" by auto
  have m: "m \<le> 11" "1 \<le> d" using assms(2) by (simp_all add: valid_fields_def)
  have dim: "getDaysInMonth y k = month_start (leap_year y) (k + 1) - month_start (leap_year y) k"
    using assms(1) Suc.prems k m by (subst getDaysInMonth_eq) (simp_all add: month_length_def)
  have "month_start (leap_year y) (k + 1) \<le> month_start (leap_year y) m"
    using Suc.prems k(4) m(1) by (intro month_start_le) simp_all
  with m(2) have "\<not> month_start (leap_year y) m + d - month_start (leap_year y) k \<le> getDaysInMonth y k" by (simp add: dim)
  then have "doy_loop y (k + 1) (month_start (leap_year y) m + d - month_start (leap_year y) k)
      = doy_loop y (k + 1 + 1) (month_start (leap_year y) m + d - month_start (leap_year y) (k + 1))"
    by (subst doy_loop.simps) (simp add: Let_def dim add_diff_eq)
  also have "\<dots> = (m + 1, d)" using Suc.hyps(1) k by blast
  finally show ?case .
qed

lemma doy_loop_date: "long_year (getFullYear t) \<Longrightarrow> doy_loop (getFullYear t) 1 (day_of_year t + 1) = (getMonth t + 1, getDate t)"
  using doy_loop_from [OF _ fields_valid(1), of t 0] field_ranges(3) [of t] by (simp add: getDate_def month_start_def)

lemma parsed_date_of_fields:
  assumes "agrees short t st" "pd_value st = []" "1000 \<le> getFullYear t"
    "CHR ''y'' \<in> known st" "CHR ''o'' \<in> known st \<or> CHR ''m'' \<in> known st \<and> CHR ''d'' \<in> known st"
    "short \<longrightarrow> expand_year this_year cutoff (getFullYear t mod 100) = getFullYear t"
  shows "parsed_date this_year cutoff st = Return (midnight t)"
proof -
  have long: "long_year (getFullYear t)" using assms(3) by (simp add: long_year_def)
  have "pd_year st \<noteq> -1" using assms(4) by (simp add: known_def split: if_splits)
  with assms(1) have "pd_year st = getFullYear t \<or> short \<and> pd_year st = getFullYear t mod 100" by (auto simp: agrees_def)
  moreover have "expand_year this_year cutoff (getFullYear t) = getFullYear t" using assms(3) by (simp add: expand_year_def)
  ultimately have year: "expand_year this_year cutoff (pd_year st) = getFullYear t" using assms(6) by auto
  have fields: "(if pd_doy st > -1 then doy_loop (getFullYear t) 1 (pd_doy st) else (pd_month st, pd_day st)) = (getMonth t + 1, getDate t)"
  proof (cases "pd_doy st > -1")
    case True
    with assms(1) have "pd_doy st = day_of_year t + 1" by (simp add: agrees_def)
    with doy_loop_date [OF long] True show ?thesis by simp
  next
    case False
    with assms(1) field_ranges(5) [of t] have "pd_doy st = -1" by (auto simp: agrees_def)
    with assms(5) have "pd_month st \<noteq> -1" "pd_day st \<noteq> -1" by (auto simp: known_def split: if_splits)
    with assms(1) False show ?thesis by (simp add: agrees_def)
  qed
  from newDate_midnight [OF long] show ?thesis by (simp add: parsed_date_def assms(2) year fields)
qed

lemma year_text_nonempty: "CHR ''y'' \<in> determined x \<Longrightarrow> element_text zone names t x \<noteq> []"
  by (cases x) (auto simp: number_text_def short_year_def Let_def split: if_splits)




section \<open>Dates that are not read back, and characters\<close>

text \<open>Four digits are printed for a full year only from the year 1000 on, but always asked for: \<open>yy\<close> does not read
  back an earlier year, which should be padded.\<close>

theorem early_year_unreadable:
  assumes "100 \<le> getFullYear t" "getFullYear t \<le> 999"
  shows "parseDate zone this_year (Some ''yy-mm-dd'') (Some (formatDate zone ''yy-mm-dd'' (Some t) settings)) settings = Throw"
proof -
  let ?y = "number_text (getFullYear t)"
  have y: "list_all is_digit ?y" "?y \<noteq> []" "length ?y \<le> 3"
    using formatNumber_number [of "getFullYear t" 3 False] assms by (simp_all add: formatNumber_single)
  obtain rest where printed: "formatDate zone ''yy-mm-dd'' (Some t) settings = ?y @ CHR ''-'' # rest"
    by (simp add: formatDate_def lookAhead_def behind_def)
  have "takeWhile is_digit (?y @ CHR ''-'' # rest) = ?y" using y(1) by (simp add: list_all_iff is_digit_def)
  then have "getNumber CHR ''y'' True (?y @ CHR ''-'' # rest) = Throw"
    using y by (simp add: getNumber_def number_minSize_def number_size_def Let_def)
  then show ?thesis using y(2) by (simp add: parseDate_def printed field_chars_def lookAhead_def behind_def parse_field_def)
qed

text \<open>A text behind the date is refused only if it does not start with white space; what follows the white space
  is not looked at.\<close>

theorem text_behind_date_ignored:
  "parseDate 0 2026 (Some ''yy'') (Some ''2024 no date'') None = parseDate 0 2026 (Some ''yy'') (Some ''2024'') None"
  by (simp add: parseDate_def field_chars_def lookAhead_def behind_def parse_field_def getNumber_def number_size_def
      number_minSize_def is_digit_def parsed_date_def date_space_def)

text \<open>The characters of a format with the day of the year have no digits.\<close>

theorem day_of_year_without_digits: "possibleChars ''oo'' = Some ''oo''"
  by (simp add: possibleChars_def)

fun digits_allowed :: "int \<Rightarrow> js_date \<Rightarrow> element \<Rightarrow> bool" where
  "digits_allowed zone t (Literal c) = True"
| "digits_allowed zone t (Field c doubled) = (c \<notin> set ''o!'' \<and> (c = CHR ''@'' \<longrightarrow> 0 \<le> getTime zone t))"

lemma possible_behind:
  assumes "possible_loop False format = Some chars" "c \<in> set ''dmy@''"
  shows "\<exists>chars'. possible_loop False (behind c format) = Some chars' \<and> set chars' \<subseteq> set chars"
  using assms by (cases format) (auto simp: behind_def lookAhead_def split: if_splits)

lemma digit_in_digits:
  assumes "is_digit c"
  shows "c \<in> set ''0123456789''"
proof -
  from assms have "48 \<le> (of_char c :: nat)" "(of_char c :: nat) \<le> 57" by (simp_all add: is_digit_def Let_def)
  then have "(of_char c :: nat) \<in> {48, 49, 50, 51, 52, 53, 54, 55, 56, 57}" by (simp only: insert_iff empty_iff) presburger
  then have "char_of (of_char c :: nat) \<in> char_of ` {48, 49, 50, 51, 52, 53, 54, 55, 56, 57 :: nat}" by (rule imageI)
  then have "c \<in> char_of ` {48, 49, 50, 51, 52, 53, 54, 55, 56, 57 :: nat}" by (simp only: char_of_char)
  also have "char_of ` {48, 49, 50, 51, 52, 53, 54, 55, 56, 57 :: nat} = set ''0123456789''" by (simp add: char_of_def bit_0)
  finally show ?thesis .
qed

lemma number_text_digits: "0 \<le> n \<Longrightarrow> set (number_text n) \<subseteq> set ''0123456789''"
  using decimal_digits [of "nat n"] digit_in_digits by (auto simp: number_text_def list_all_iff)

lemma formatNumber_digits: "0 \<le> n \<Longrightarrow> set (formatNumber doubled n len) \<subseteq> set ''0123456789''"
  using number_text_digits [of n] by (auto simp: formatNumber_def Let_def)

lemma element_digits:
  assumes "digits_allowed zone t (Field c doubled)" "c \<in> set ''dmy@''" "1900 \<le> getFullYear t"
  shows "set (element_text zone names t (Field c doubled)) \<subseteq> set ''0123456789''"
proof -
  have "set (short_year t) \<subseteq> set ''0123456789''"
    unfolding short_year_two_digits [OF assms(3)] by (rule formatNumber_digits) simp
  moreover have "set (number_text (getFullYear t)) \<subseteq> set ''0123456789''" using assms(3) by (intro number_text_digits) simp
  moreover have "set (formatNumber doubled (getDate t) 2) \<subseteq> set ''0123456789''" "set (formatNumber doubled (getMonth t + 1) 2) \<subseteq> set ''0123456789''"
    using field_ranges [of t] by (intro formatNumber_digits; simp)+
  moreover have "c = CHR ''@'' \<Longrightarrow> set (number_text (getTime zone t)) \<subseteq> set ''0123456789''" using assms(1) by (intro number_text_digits) simp
  ultimately show ?thesis using assms(2) by (cases doubled) (auto simp: Let_def)
qed

lemma possible_loop_covers:
  "possible_loop literal format = Some chars \<Longrightarrow> list_all (digits_allowed zone t) (elements literal format) \<Longrightarrow> 1900 \<le> getFullYear t
    \<Longrightarrow> x \<in> set (elements literal format) \<Longrightarrow> set (element_text zone names t x) \<subseteq> set chars"
proof (induction literal format arbitrary: chars rule: elements.induct)
  case (2 literal c format)
  have literal_case: ?case
    if "possible_loop literal (c # format) = map_option ((#) c') (possible_loop l f)" "elements literal (c # format) = Literal c' # elements l f"
      and IH: "\<And>z. possible_loop l f = Some z \<Longrightarrow> list_all (digits_allowed zone t) (elements l f) \<Longrightarrow> 1900 \<le> getFullYear t
        \<Longrightarrow> x \<in> set (elements l f) \<Longrightarrow> set (element_text zone names t x) \<subseteq> set z" for c' l f
  proof -
    from that(1) 2(7) obtain z where z: "possible_loop l f = Some z" "chars = c' # z" by auto
    show ?thesis
    proof (cases "x = Literal c'")
      case False
      with 2(8,10) that(2) have "list_all (digits_allowed zone t) (elements l f)" "x \<in> set (elements l f)" by auto
      from IH [OF z(1) this(1) 2(9) this(2)] z(2) show ?thesis by auto
    qed (simp add: z)
  qed
  show ?case
  proof (cases literal)
    case True
    show ?thesis
    proof (cases "c = CHR 0x27 \<and> \<not> lookAhead CHR 0x27 format")
      case ends: True
      with 2(1) [OF True ends] 2(7-) True show ?thesis by simp
    next
      case False
      show ?thesis
      proof (rule literal_case)
        show "possible_loop literal (c # format) = map_option ((#) c) (possible_loop True (if c = CHR 0x27 then behind CHR 0x27 format else format))"
          "elements literal (c # format) = Literal c # elements True (if c = CHR 0x27 then behind CHR 0x27 format else format)"
          using True False by auto
      qed (rule 2(2) [OF True False])
    qed
  next
    case not_literal: False
    show ?thesis
    proof (cases "c \<in> set field_chars")
      case True
      from 2(8) True not_literal have "digits_allowed zone t (Field c (lookAhead c format))" by simp
      with True 2(7) not_literal have c: "c \<in> set ''dmy@''" by (cases rule: field_char_cases) simp_all
      with 2(7) not_literal obtain chars1 where c1: "possible_loop False format = Some chars1" "chars = ''0123456789'' @ chars1" by auto
      from possible_behind [OF c1(1) c] obtain chars2 where c2: "possible_loop False (behind c format) = Some chars2" "set chars2 \<subseteq> set chars1" by blast
      from 2(8) not_literal True have allowed: "digits_allowed zone t (Field c (lookAhead c format))"
        "list_all (digits_allowed zone t) (elements False (behind c format))" by simp_all
      have within: "set ''0123456789'' \<subseteq> set chars" "set chars1 \<subseteq> set chars" unfolding c1(2) set_append by blast+
      show ?thesis
      proof (cases "x = Field c (lookAhead c format)")
        case True
        show ?thesis unfolding True by (rule order_trans [OF element_digits [OF allowed(1) c 2(9)] within(1)])
      next
        case False
        with 2(10) True not_literal have "x \<in> set (elements False (behind c format))" by simp
        from 2(3) [OF not_literal True c2(1) allowed(2) 2(9) this] c2(2) within(2) show ?thesis by (meson order_trans)
      qed
    next
      case not_field: False
      note chars = not_literal not_field not_field_char [OF not_field]
      show ?thesis
      proof (cases "c = CHR 0x27")
        case True
        show ?thesis
        proof (cases "lookAhead CHR 0x27 format")
          case look: True
          show ?thesis by (rule literal_case [where c' = "CHR 0x27"], use chars True look in simp, use chars True look in simp,
              rule 2(4) [OF not_literal not_field True look])
        next
          case False
          with 2(5) [OF not_literal not_field True False] 2(7-) chars True show ?thesis by simp
        qed
      next
        case False
        show ?thesis by (rule literal_case [where c' = c], use chars False in simp, use chars False in simp,
            rule 2(6) [OF not_literal not_field False])
      qed
    qed
  qed
qed simp

text \<open>The characters that a format allows to be typed are enough to type any date from 1900 on in this format, if
  the format has no day of the year and no ticks (for which the digits are missing) and a time
  stamp is not negative.\<close>

theorem printed_chars_possible:
  assumes "possibleChars format = Some chars" "list_all (digits_allowed zone t) (elements False format)" "1900 \<le> getFullYear t"
  shows "set (formatDate zone format (Some t) settings) \<subseteq> set chars"
  using possible_loop_covers [OF assms(1) [unfolded possibleChars_def] assms(2,3)] by (fastforce simp: formatDate_def format_loop_elements)


end
