(* ===== verification/Date_Picker.thy ===== *)
theory Date_Picker
  imports Date_Format
begin

text \<open>
  The date picker (\<open>jquery-ui.js\<close>): its selection, the limits, moving the selection, the weeks and the grid of a
  month. Drawing, showing and hiding are left out, and what the callbacks of a page do; that
  \<open>onChangeMonthYear\<close> is called is recorded. \<open>now\<close> is the current time.
\<close>

section \<open>The state of a picker\<close>

text \<open>A date given to the picker: nothing, an offset in days, a number that is none, a text, a date.\<close>

datatype given_date = No_Date | Offset int | Not_A_Number | Date_Text string | Date_Object js_date

record picker_settings =
  ps_dateFormat :: string
  ps_minDate :: given_date
  ps_maxDate :: given_date
  ps_defaultDate :: given_date
  ps_yearRange :: string
  ps_numberOfMonths :: "(int \<times> int)"
  ps_gotoCurrent :: bool
  ps_showCurrentAtPos :: int
  ps_shortYearCutoff :: year_cutoff
  ps_constrainInput :: bool
  ps_names :: date_names

record picker =
  pk_settings :: picker_settings
  pk_input :: "string option"
  pk_lastVal :: "string option"
  pk_selectedDay :: int
  pk_selectedMonth :: int
  pk_selectedYear :: int
  pk_drawMonth :: int
  pk_drawYear :: int
  pk_currentDay :: int
  pk_currentMonth :: int
  pk_currentYear :: int
  pk_notified :: "(int \<times> int) list"

definition getFormatConfig :: "js_date \<Rightarrow> picker \<Rightarrow> date_settings" where
  "getFormatConfig now inst =
     (let ps = pk_settings inst; names = ps_names ps
      in \<lparr>ds_shortYearCutoff = map_option Cutoff_Number (shortYearCutoff (getFullYear now) (ps_shortYearCutoff ps)),
          ds_dayNamesShort = Some (dn_dayNamesShort names), ds_dayNames = Some (dn_dayNames names),
          ds_monthNamesShort = Some (dn_monthNamesShort names), ds_monthNames = Some (dn_monthNames names)\<rparr>)"

definition picker_getDate :: "picker \<Rightarrow> js_date option" where
  "picker_getDate inst =
     (if pk_currentYear inst = 0 \<or> pk_input inst = Some [] then None
      else Some (daylightSavingAdjust (newDate (pk_currentYear inst) (pk_currentMonth inst) (pk_currentDay inst))))"

section \<open>Relative dates\<close>

text \<open>The next number with its unit, and what is behind it.\<close>

definition offset_number :: "string \<Rightarrow> (int \<times> string) option" where
  "offset_number s =
     (case s of
        [] \<Rightarrow> None
      | c # cs \<Rightarrow> (let ds = takeWhile is_digit (if c \<in> set ''+-'' then cs else s)
                 in if ds = [] then None
                    else Some (if c = CHR ''-'' then - digits_value 0 ds else digits_value 0 ds,
                               drop (length ds) (if c \<in> set ''+-'' then cs else s))))"

definition offset_unit :: "string \<Rightarrow> char \<times> string" where
  "offset_unit s =
     (case dropWhile date_space s of
        [] \<Rightarrow> (CHR ''d'', [])
      | c # cs \<Rightarrow> if c \<in> set ''dDwWmMyY'' then (c, cs) else (CHR ''d'', c # cs))"

fun next_offset :: "string \<Rightarrow> (int \<times> char \<times> string) option" where
  "next_offset [] = None"
| "next_offset (c # cs) =
     (case offset_number (c # cs) of
        Some (n, s) \<Rightarrow> (case offset_unit s of (u, s') \<Rightarrow> Some (n, u, s'))
      | None \<Rightarrow> next_offset cs)"

lemma offset_number_length: "offset_number s = Some (n, s') \<Longrightarrow> length s' < length s"
  by (auto simp: offset_number_def Let_def split: list.splits if_splits)

lemma offset_unit_length: "offset_unit s = (u, s') \<Longrightarrow> length s' \<le> length s"
proof (cases "dropWhile date_space s")
  case (Cons c cs)
  then have "length (c # cs) \<le> length s" using length_dropWhile_le [of date_space s] by simp
  with Cons show "offset_unit s = (u, s') \<Longrightarrow> length s' \<le> length s"
    unfolding offset_unit_def Cons by (auto split: if_splits)
qed (simp add: offset_unit_def)

lemma next_offset_length: "next_offset s = Some (n, u, s') \<Longrightarrow> length s' < length s"
proof (induction s)
  case (Cons c cs)
  show ?case
  proof (cases "offset_number (c # cs)")
    case None
    with Cons show ?thesis by simp
  next
    case (Some r)
    obtain m s1 where r: "r = (m, s1)" by (cases r)
    with Cons.prems Some have "offset_unit s1 = (u, s')" by (auto split: prod.splits)
    from offset_unit_length [OF this] offset_number_length [of "c # cs" m s1] Some r show ?thesis by simp
  qed
qed simp

function add_offsets :: "string \<Rightarrow> int \<Rightarrow> int \<Rightarrow> int \<Rightarrow> int \<times> int \<times> int" where
  "add_offsets s year month day =
     (case next_offset s of
        None \<Rightarrow> (year, month, day)
      | Some (n, u, s') \<Rightarrow>
          if u \<in> set ''dD'' then add_offsets s' year month (day + n)
          else if u \<in> set ''wW'' then add_offsets s' year month (day + n * 7)
          else if u \<in> set ''mM'' then add_offsets s' year (month + n) (min day (getDaysInMonth year (month + n)))
          else add_offsets s' (year + n) month (min day (getDaysInMonth (year + n) month)))"
  by pat_completeness auto
termination
  by (relation "measure (\<lambda>(s, year, month, day). length s)") (auto dest: next_offset_length)

declare add_offsets.simps [simp del]

definition offsetNumeric :: "js_date \<Rightarrow> int \<Rightarrow> js_date" where
  "offsetNumeric now n = setDate (getDate now + n) now"

definition offsetString :: "int \<Rightarrow> js_date \<Rightarrow> picker \<Rightarrow> string \<Rightarrow> js_date option" where
  "offsetString zone now inst s =
     (case parseDate zone (getFullYear now) (Some (ps_dateFormat (pk_settings inst))) (Some s) (Some (getFormatConfig now inst)) of
        Return date \<Rightarrow> date
      | Throw \<Rightarrow>
          (let date = or_default (if s \<noteq> [] \<and> lower_char (hd s) = CHR ''c'' then picker_getDate inst else None) now
           in case add_offsets s (getFullYear date) (getMonth date) (getDate date) of (y, m, d) \<Rightarrow> Some (newDate y m d)))"

definition determineDate :: "int \<Rightarrow> js_date \<Rightarrow> picker \<Rightarrow> given_date \<Rightarrow> js_date option \<Rightarrow> js_date option" where
  "determineDate zone now inst date defaultDate =
     map_option (\<lambda>t. daylightSavingAdjust (midnight t))
       (case date of
          No_Date \<Rightarrow> defaultDate
        | Date_Text s \<Rightarrow> if s = [] then defaultDate else offsetString zone now inst s
        | Offset n \<Rightarrow> Some (offsetNumeric now n)
        | Not_A_Number \<Rightarrow> defaultDate
        | Date_Object t \<Rightarrow> Some t)"

definition minDate :: "int \<Rightarrow> js_date \<Rightarrow> picker \<Rightarrow> js_date option" where
  "minDate zone now inst = determineDate zone now inst (ps_minDate (pk_settings inst)) None"

definition maxDate :: "int \<Rightarrow> js_date \<Rightarrow> picker \<Rightarrow> js_date option" where
  "maxDate zone now inst = determineDate zone now inst (ps_maxDate (pk_settings inst)) None"

definition restrictMinMax :: "int \<Rightarrow> js_date \<Rightarrow> picker \<Rightarrow> js_date \<Rightarrow> js_date" where
  "restrictMinMax zone now inst date =
     (let newDate = (case minDate zone now inst of Some lo \<Rightarrow> if date < lo then lo else date | None \<Rightarrow> date)
      in case maxDate zone now inst of Some hi \<Rightarrow> if newDate > hi then hi else newDate | None \<Rightarrow> newDate)"

definition getDefaultDate :: "int \<Rightarrow> js_date \<Rightarrow> picker \<Rightarrow> js_date" where
  "getDefaultDate zone now inst =
     restrictMinMax zone now inst (the (determineDate zone now inst (ps_defaultDate (pk_settings inst)) (Some now)))"

section \<open>Moving the selection\<close>

definition notifyChange :: "picker \<Rightarrow> picker" where
  "notifyChange inst = inst\<lparr>pk_notified := pk_notified inst @ [(pk_selectedYear inst, pk_selectedMonth inst + 1)]\<rparr>"

definition select_date :: "js_date \<Rightarrow> picker \<Rightarrow> picker" where
  "select_date date inst =
     inst\<lparr>pk_selectedDay := getDate date, pk_drawMonth := getMonth date, pk_selectedMonth := getMonth date,
       pk_drawYear := getFullYear date, pk_selectedYear := getFullYear date\<rparr>"

datatype period = No_Period | Days | Months | Years

definition adjustInstDate :: "int \<Rightarrow> js_date \<Rightarrow> int \<Rightarrow> period \<Rightarrow> picker \<Rightarrow> picker" where
  "adjustInstDate zone now offset period inst =
     (let year = pk_drawYear inst + (if period = Years then offset else 0);
          month = pk_drawMonth inst + (if period = Months then offset else 0);
          day = min (pk_selectedDay inst) (getDaysInMonth year month) + (if period = Days then offset else 0);
          date = restrictMinMax zone now inst (daylightSavingAdjust (newDate year month day));
          inst' = select_date date inst
      in if period = Months \<or> period = Years then notifyChange inst' else inst')"

definition adjustDate :: "int \<Rightarrow> js_date \<Rightarrow> bool \<Rightarrow> int \<Rightarrow> period \<Rightarrow> picker \<Rightarrow> picker" where
  "adjustDate zone now disabled offset period inst =
     (if disabled then inst
      else adjustInstDate zone now (offset + (if period = Months then ps_showCurrentAtPos (pk_settings inst) else 0)) period inst)"

definition gotoToday :: "int \<Rightarrow> js_date \<Rightarrow> bool \<Rightarrow> picker \<Rightarrow> picker" where
  "gotoToday zone now disabled inst =
     (let inst' = (if ps_gotoCurrent (pk_settings inst) \<and> pk_currentDay inst \<noteq> 0
                   then inst\<lparr>pk_selectedDay := pk_currentDay inst, pk_drawMonth := pk_currentMonth inst, pk_selectedMonth := pk_currentMonth inst,
                          pk_drawYear := pk_currentYear inst, pk_selectedYear := pk_currentYear inst\<rparr>
                   else select_date now inst)
      in adjustDate zone now disabled 0 No_Period (notifyChange inst'))"

definition selectMonthYear :: "int \<Rightarrow> js_date \<Rightarrow> bool \<Rightarrow> int \<Rightarrow> period \<Rightarrow> picker \<Rightarrow> picker" where
  "selectMonthYear zone now disabled n period inst =
     (let inst' = (if period = Months then inst\<lparr>pk_selectedMonth := n, pk_drawMonth := n\<rparr> else inst\<lparr>pk_selectedYear := n, pk_drawYear := n\<rparr>)
      in adjustDate zone now disabled 0 No_Period (notifyChange inst'))"

text \<open>The text of the current date, or of the selected one, which then is the current one.\<close>

definition picker_formatDate :: "int \<Rightarrow> js_date \<Rightarrow> (int \<times> int \<times> int) option \<Rightarrow> picker \<Rightarrow> string \<times> picker" where
  "picker_formatDate zone now given inst =
     (let (date, inst') = (case given of
        Some (day, month, year) \<Rightarrow> (daylightSavingAdjust (newDate year month day), inst)
      | None \<Rightarrow>
          (let i = inst\<lparr>pk_currentDay := pk_selectedDay inst, pk_currentMonth := pk_selectedMonth inst, pk_currentYear := pk_selectedYear inst\<rparr>
           in (daylightSavingAdjust (newDate (pk_currentYear i) (pk_currentMonth i) (pk_currentDay i)), i)))
      in (formatDate zone (ps_dateFormat (pk_settings inst)) (Some date) (Some (getFormatConfig now inst)), inst'))"

definition input_val :: "string \<Rightarrow> picker \<Rightarrow> picker" where
  "input_val s inst = inst\<lparr>pk_input := map_option (\<lambda>_. s) (pk_input inst)\<rparr>"

definition selectDay :: "int \<Rightarrow> js_date \<Rightarrow> bool \<Rightarrow> int \<Rightarrow> int \<Rightarrow> int \<Rightarrow> picker \<Rightarrow> picker" where
  "selectDay zone now unselectable day month year inst =
     (if unselectable then inst
      else (let inst1 = inst\<lparr>pk_selectedDay := day, pk_currentDay := day, pk_selectedMonth := month, pk_currentMonth := month,
                  pk_selectedYear := year, pk_currentYear := year\<rparr>;
                (s, inst2) = picker_formatDate zone now (Some (day, month, year)) inst1
            in input_val s inst2))"

definition set_current :: "js_date \<Rightarrow> bool \<Rightarrow> picker \<Rightarrow> picker" where
  "set_current date noChange inst =
     (let inst1 = (select_date date inst)\<lparr>pk_currentDay := getDate date, pk_currentMonth := getMonth date, pk_currentYear := getFullYear date\<rparr>
      in if (pk_selectedMonth inst \<noteq> pk_selectedMonth inst1 \<or> pk_selectedYear inst \<noteq> pk_selectedYear inst1) \<and> \<not> noChange
         then notifyChange inst1 else inst1)"

definition picker_setDate :: "int \<Rightarrow> js_date \<Rightarrow> given_date \<Rightarrow> bool \<Rightarrow> picker \<Rightarrow> picker" where
  "picker_setDate zone now date noChange inst =
     (let clear = (date = No_Date \<or> date = Offset 0 \<or> date = Not_A_Number \<or> date = Date_Text []);
          newDate = restrictMinMax zone now inst (the (determineDate zone now inst date (Some now)));
          inst' = adjustInstDate zone now 0 No_Period (set_current newDate noChange inst)
      in if pk_input inst' = None then inst'
         else if clear then input_val [] inst'
         else (case picker_formatDate zone now None inst' of (s, inst'') \<Rightarrow> input_val s inst''))"

text \<open>A text that is no date, or none, gives the default date; without a field the code throws.\<close>

definition setDateFromField :: "int \<Rightarrow> js_date \<Rightarrow> bool \<Rightarrow> picker \<Rightarrow> picker outcome" where
  "setDateFromField zone now noDefault inst =
     (if pk_input inst = None then Throw
      else if pk_input inst = pk_lastVal inst then Return inst
      else (let defaultDate = getDefaultDate zone now inst;
                (date, dates) = (case parseDate zone (getFullYear now) (Some (ps_dateFormat (pk_settings inst))) (pk_input inst) (Some (getFormatConfig now inst)) of
                    Return date \<Rightarrow> (or_default date defaultDate, pk_input inst)
                  | Throw \<Rightarrow> (defaultDate, if noDefault then Some [] else pk_input inst));
                given = (dates \<noteq> None \<and> dates \<noteq> Some []);
                inst1 = (select_date date inst)\<lparr>pk_lastVal := pk_input inst,
                  pk_currentDay := if given then getDate date else 0, pk_currentMonth := if given then getMonth date else 0,
                  pk_currentYear := if given then getFullYear date else 0\<rparr>
            in Return (adjustInstDate zone now 0 No_Period inst1)))"

text \<open>A change of the field by typing is taken over if it is a date.\<close>

definition doKeyUp :: "int \<Rightarrow> js_date \<Rightarrow> picker \<Rightarrow> picker outcome" where
  "doKeyUp zone now inst =
     (if pk_input inst = None then Throw
      else if pk_input inst = pk_lastVal inst then Return inst
      else case parseDate zone (getFullYear now) (Some (ps_dateFormat (pk_settings inst))) (pk_input inst) (Some (getFormatConfig now inst)) of
             Return (Some date) \<Rightarrow> setDateFromField zone now False inst
           | _ \<Rightarrow> Return inst)"

section \<open>Ranges\<close>

text \<open>The two parts of a range of years; a part with a sign is relative to this year.\<close>

definition relative_year :: "string \<Rightarrow> bool" where
  "relative_year s \<longleftrightarrow> list_ex (\<lambda>c. c \<in> set ''+-'') s"

definition range_year :: "js_date \<Rightarrow> string \<Rightarrow> int option" where
  "range_year now s = map_option (\<lambda>n. n + (if relative_year s then getFullYear now else 0)) (parseInt s)"

fun split_at_colon :: "string \<Rightarrow> string list" where
  "split_at_colon [] = [[]]"
| "split_at_colon (c # cs) =
     (case split_at_colon cs of
        [] \<Rightarrow> []
      | p # ps \<Rightarrow> if c = CHR '':'' then [] # p # ps else (c # p) # ps)"

text \<open>A limit that is 0 or no number is none; without a colon the second part is missing, which throws.\<close>

definition isInRange :: "int \<Rightarrow> js_date \<Rightarrow> picker \<Rightarrow> js_date \<Rightarrow> bool outcome" where
  "isInRange zone now inst date =
     (let years = ps_yearRange (pk_settings inst);
          parts = split_at_colon years;
          limits = (if years = [] then Some (None, None)
                    else case parts of lo # hi # _ \<Rightarrow> Some (range_year now lo, range_year now hi) | _ \<Rightarrow> None)
      in case limits of
           None \<Rightarrow> Throw
         | Some (minYear, maxYear) \<Rightarrow>
             Return ((case minDate zone now inst of None \<Rightarrow> True | Some lo \<Rightarrow> getTime zone date \<ge> getTime zone lo)
               \<and> (case maxDate zone now inst of None \<Rightarrow> True | Some hi \<Rightarrow> getTime zone date \<le> getTime zone hi)
               \<and> (case minYear of None \<Rightarrow> True | Some n \<Rightarrow> n = 0 \<or> getFullYear date \<ge> n)
               \<and> (case maxYear of None \<Rightarrow> True | Some n \<Rightarrow> n = 0 \<or> getFullYear date \<le> n)))"

definition canAdjustMonth :: "int \<Rightarrow> js_date \<Rightarrow> picker \<Rightarrow> int \<Rightarrow> int \<Rightarrow> int \<Rightarrow> bool outcome" where
  "canAdjustMonth zone now inst offset curYear curMonth =
     (let numMonths = ps_numberOfMonths (pk_settings inst);
          date = daylightSavingAdjust (newDate curYear (curMonth + (if offset < 0 then offset else fst numMonths * snd numMonths)) 1)
      in isInRange zone now inst
           (if offset < 0 then setDate (getDaysInMonth (getFullYear date) (getMonth date)) date else date))"

text \<open>Is a typed character accepted; control characters always are.\<close>

definition doKeyPress :: "picker \<Rightarrow> bool \<Rightarrow> char \<Rightarrow> bool" where
  "doKeyPress inst ctrlKey chr \<longleftrightarrow>
     \<not> ps_constrainInput (pk_settings inst) \<or> ctrlKey \<or> (of_char chr :: nat) < 32
     \<or> (case possibleChars (ps_dateFormat (pk_settings inst)) of None \<Rightarrow> True | Some chars \<Rightarrow> chars = [] \<or> chr \<in> set chars)"

section \<open>Weeks and the grid of a month\<close>

definition iso8601Week :: "js_date \<Rightarrow> int" where
  "iso8601Week date =
     (let checkDate = setDate (getDate date + 4 - (if getDay date = 0 then 7 else getDay date)) date;
          time = checkDate;
          checkDate' = setDate 1 (setMonth 0 checkDate)
      in math_round_div (time - checkDate') 86400000 div 7 + 1)"

fun print_days :: "nat \<Rightarrow> js_date \<Rightarrow> js_date list" where
  "print_days 0 printDate = []"
| "print_days (Suc n) printDate = printDate # print_days n (daylightSavingAdjust (setDate (getDate printDate + 1) printDate))"

definition leadDays :: "int \<Rightarrow> int \<Rightarrow> int \<Rightarrow> int" where
  "leadDays firstDay drawYear drawMonth = js_mod (getFirstDayOfMonth drawYear drawMonth - firstDay + 7) 7"

definition numRows :: "int \<Rightarrow> int \<Rightarrow> int \<Rightarrow> bool \<Rightarrow> nat \<Rightarrow> nat" where
  "numRows firstDay drawYear drawMonth isMultiMonth maxRows =
     (let curRows = nat ((leadDays firstDay drawYear drawMonth + getDaysInMonth drawYear drawMonth + 6) div 7)
      in if isMultiMonth then max maxRows curRows else curRows)"

definition month_grid :: "int \<Rightarrow> int \<Rightarrow> int \<Rightarrow> bool \<Rightarrow> nat \<Rightarrow> js_date list" where
  "month_grid firstDay drawYear drawMonth isMultiMonth maxRows =
     print_days (7 * numRows firstDay drawYear drawMonth isMultiMonth maxRows)
       (daylightSavingAdjust (newDate drawYear drawMonth (1 - leadDays firstDay drawYear drawMonth)))"


section \<open>Days after days\<close>

lemma makeDay_shift: "makeDay y m d = makeDay y m d' + (d - d')"
  by (simp add: makeDay_def Let_def)

lemma setDate_day [simp]: "date_day (setDate d t) = date_day t + (d - getDate t)" "setDate d t mod msPerDay = t mod msPerDay"
proof -
  have "makeDay (getFullYear t) (getMonth t) d = date_day t + (d - getDate t)"
    using makeDay_shift [of "getFullYear t" "getMonth t" d "getDate t"] fields_valid(2) [of t] by simp
  then show "date_day (setDate d t) = date_day t + (d - getDate t)" "setDate d t mod msPerDay = t mod msPerDay"
    by (simp_all add: setDate_def)
qed

lemma date_split: "t = date_day t * msPerDay + t mod msPerDay"
  by (simp add: date_day_def)

lemma next_day: "daylightSavingAdjust (setDate (getDate (d * msPerDay) + 1) (d * msPerDay)) = (d + 1) * msPerDay"
proof -
  have "setDate (getDate (d * msPerDay) + 1) (d * msPerDay) = (d + 1) * msPerDay"
    using date_split [of "setDate (getDate (d * msPerDay) + 1) (d * msPerDay)"] by simp
  then show ?thesis by simp
qed

lemma print_days_midnights: "print_days n (d * msPerDay) = map (\<lambda>i. (d + int i) * msPerDay) [0..<n]"
proof (induction n arbitrary: d)
  case (Suc n)
  have "[0..<Suc n] = 0 # map Suc [0..<n]" by (simp only: map_Suc_upt upt_conv_Cons zero_less_Suc)
  then have "map (\<lambda>i. (d + int i) * msPerDay) [0..<Suc n] = d * msPerDay # map (\<lambda>i. (d + 1 + int i) * msPerDay) [0..<n]"
    by (simp only: list.map map_map comp_def) (simp add: add.assoc)
  then show ?case by (simp only: print_days.simps next_day Suc.IH)
qed simp

text \<open>The grid of a month has whole weeks that begin with the first day of the week, and shows every day
  of the month, in order.\<close>

lemma leadDays_range: "0 \<le> firstDay \<Longrightarrow> firstDay \<le> 6 \<Longrightarrow> 0 \<le> leadDays firstDay y m \<and> leadDays firstDay y m \<le> 6
    \<and> leadDays firstDay y m = (getFirstDayOfMonth y m - firstDay) mod 7"
proof -
  assume f: "0 \<le> firstDay" "firstDay \<le> 6"
  have r: "0 \<le> getFirstDayOfMonth y m" by (simp add: getFirstDayOfMonth_def getDay_range)
  from f r have "leadDays firstDay y m = (getFirstDayOfMonth y m - firstDay + 7) mod 7" by (simp add: leadDays_def js_mod_def)
  then have "leadDays firstDay y m = (getFirstDayOfMonth y m - firstDay) mod 7" by simp
  then show ?thesis using pos_mod_bound [of 7 "getFirstDayOfMonth y m - firstDay"] pos_mod_sign [of 7 "getFirstDayOfMonth y m - firstDay"] by simp
qed

theorem calendar_shows_month:
  assumes "0 \<le> firstDay" "firstDay \<le> 6" "0 \<le> m" "m \<le> 11" "long_year y"
  shows "length (month_grid firstDay y m multi rows) mod 7 = 0
    \<and> (\<forall>i < length (month_grid firstDay y m multi rows). getDay (month_grid firstDay y m multi rows ! i) = (firstDay + int i) mod 7)
    \<and> (\<forall>d. 1 \<le> d \<and> d \<le> getDaysInMonth y m \<longrightarrow>
         nat (leadDays firstDay y m + d - 1) < length (month_grid firstDay y m multi rows)
         \<and> month_grid firstDay y m multi rows ! nat (leadDays firstDay y m + d - 1) = newDate y m d)"
proof -
  let ?lead = "leadDays firstDay y m" let ?n = "numRows firstDay y m multi rows"
  have day: "newDate y m d = makeDay y m d * msPerDay" for d using assms(5) by (auto simp: newDate_def long_year_def)
  note lead = leadDays_range [OF assms(1,2), of y m]
  have grid: "month_grid firstDay y m multi rows = map (\<lambda>i. (makeDay y m (1 - ?lead) + int i) * msPerDay) [0..<7 * ?n]"
    by (simp add: month_grid_def day print_days_midnights)
  have "getFirstDayOfMonth y m = (makeDay y m 1 + 4) mod 7" by (simp add: getFirstDayOfMonth_def getDay_def day)
  with lead have "?lead = (makeDay y m 1 + 4 - firstDay) mod 7" by (simp add: mod_diff_left_eq)
  then have "(makeDay y m 1 + 4 - ?lead) mod 7 = (makeDay y m 1 + 4 - (makeDay y m 1 + 4 - firstDay)) mod 7" by (simp only: mod_diff_right_eq)
  then have first: "(makeDay y m (1 - ?lead) + 4) mod 7 = firstDay mod 7"
  proof -
    have "makeDay y m (1 - ?lead) + 4 = makeDay y m 1 + 4 - ?lead" using makeDay_shift [of y m "1 - ?lead" 1] by simp
    with \<open>(makeDay y m 1 + 4 - ?lead) mod 7 = (makeDay y m 1 + 4 - (makeDay y m 1 + 4 - firstDay)) mod 7\<close>
    show ?thesis by (simp only:) simp
  qed
  have "getDay (month_grid firstDay y m multi rows ! i) = (firstDay + int i) mod 7" if "i < 7 * ?n" for i
  proof -
    have "getDay (month_grid firstDay y m multi rows ! i) = ((makeDay y m (1 - ?lead) + 4) + int i) mod 7"
      using that by (simp add: grid getDay_def) (simp add: add_ac)
    also have "\<dots> = (firstDay + int i) mod 7" using first by (metis mod_add_left_eq)
    finally show ?thesis .
  qed
  moreover have "nat (?lead + d - 1) < 7 * ?n \<and> month_grid firstDay y m multi rows ! nat (?lead + d - 1) = newDate y m d"
    if d: "1 \<le> d" "d \<le> getDaysInMonth y m" for d
  proof -
    have "?lead + getDaysInMonth y m \<le> 7 * ((?lead + getDaysInMonth y m + 6) div 7)"
      using div_bounds(2) [of 7 "?lead + getDaysInMonth y m + 6"] by simp
    moreover have "nat ((?lead + getDaysInMonth y m + 6) div 7) \<le> ?n" by (simp add: numRows_def Let_def)
    ultimately have less: "nat (?lead + d - 1) < 7 * ?n" using lead d by linarith
    with lead d makeDay_shift [of y m "1 - ?lead" d] show ?thesis by (simp add: grid day)
  qed
  moreover have "length (month_grid firstDay y m multi rows) = 7 * ?n" by (simp add: grid)
  ultimately show ?thesis by auto
qed

section \<open>Weeks\<close>

text \<open>The Monday of the week of a day.\<close>

definition monday :: "int \<Rightarrow> int" where
  "monday d = d - (d + 3) mod 7"

lemma monday_mod: "(monday d + 3) mod 7 = 0"
proof -
  have "(d + 3 - (d + 3) mod 7) mod 7 = 0" by (simp only: minus_mod_eq_mult_div mod_mult_self1_is_0)
  then show ?thesis by (simp add: monday_def algebra_simps)
qed

lemma monday_unique:
  assumes "(x + 3) mod 7 = 0" "x \<le> e" "e < x + 7"
  shows "monday e = x"
proof -
  have "(e + 3) mod 7 = ((x + 3) mod 7 + (e - x)) mod 7" by (simp only: mod_add_left_eq) (simp add: add.commute)
  also have "\<dots> = e - x" using assms by simp
  finally show ?thesis by (simp add: monday_def)
qed

lemma weekday_step: "(d + 3) mod 7 = (if (d + 4) mod 7 = 0 then 6 else (d + 4) mod 7 - 1)" for d :: int
proof -
  have "(d + 4) mod 7 = ((d + 3) mod 7 + 1) mod 7" by (simp only: mod_add_left_eq) (simp add: add.commute)
  moreover have "0 \<le> (d + 3) mod 7" "(d + 3) mod 7 < 7" by simp_all
  ultimately show ?thesis by (cases "(d + 3) mod 7 = 6") simp_all
qed

text \<open>C37. The week number is that of ISO 8601: counted from the week with the fourth of January, in the year
  that has the Thursday of the week, and between 1 and 53.\<close>

theorem iso8601Week_correct:
  "monday (date_day t) = monday (dayFromYear (yearFromDay (monday (date_day t) + 3)) + 3) + 7 * (iso8601Week t - 1)
    \<and> 1 \<le> iso8601Week t \<and> iso8601Week t \<le> 53"
proof -
  define c where "c = setDate (getDate t + 4 - (if getDay t = 0 then 7 else getDay t)) t"
  let ?y = "getFullYear c"
  have "date_day c = date_day t + 4 - (if (date_day t + 4) mod 7 = 0 then 7 else (date_day t + 4) mod 7)"
    by (simp add: c_def getDay_def)
  then have thursday: "date_day c = monday (date_day t) + 3" by (simp add: monday_def weekday_step)
  define c1 where "c1 = setMonth 0 c"
  have m0: "valid_fields ?y 0 (getDate c)"
    using fields_valid(1) [of c] month_length_bounds [of "getMonth c" "leap_year ?y"] by (auto simp: valid_fields_def month_length_def month_start_def)
  have c1: "date_day c1 = makeDay ?y 0 (getDate c)" "c1 mod msPerDay = c mod msPerDay" by (simp_all add: c1_def setMonth_def)
  note f1 = makeDay_fields [OF m0 c1(1)]
  have "date_day (setDate 1 c1) = makeDay ?y 0 1" using makeDay_shift [of ?y 0 1 "getDate c"] f1(4) c1(1) by simp
  then have jan: "setDate 1 c1 = dayFromYear ?y * msPerDay + c mod msPerDay"
    using date_split [of "setDate 1 c1"] c1(2) by (simp add: makeDay_def month_start_def)
  have "c - setDate 1 c1 = day_of_year c * 86400000"
    unfolding jan using date_split [of c] by (simp add: day_of_year_def algebra_simps msPerDay_def)
  then have week: "iso8601Week t = day_of_year c div 7 + 1"
    by (simp add: iso8601Week_def Let_def c_def [symmetric] c1_def [symmetric] math_round_div_def)
  have "day_of_year c = monday (date_day t) + 3 - dayFromYear ?y" by (simp add: day_of_year_def thursday)
  moreover have "?y = yearFromDay (monday (date_day t) + 3)" by (simp add: getFullYear_def thursday)
  moreover have "0 \<le> day_of_year c" "day_of_year c < 366"
    using yearFromDay_bounds [of "date_day c"] dayFromYear_step [of ?y] by (auto simp: day_of_year_def getFullYear_def split: if_splits)
  moreover have "monday (dayFromYear ?y + 3) = monday (date_day t) - 7 * (day_of_year c div 7)"
  proof (rule monday_unique)
    have "monday (date_day t) - 7 * (day_of_year c div 7) + 3 = monday (date_day t) + 3 + (- (day_of_year c div 7)) * 7" by simp
    then show "(monday (date_day t) - 7 * (day_of_year c div 7) + 3) mod 7 = 0"
      using monday_mod [of "date_day t"] by (simp only: mod_mult_self1)
    show "monday (date_day t) - 7 * (day_of_year c div 7) \<le> dayFromYear ?y + 3" "dayFromYear ?y + 3 < monday (date_day t) - 7 * (day_of_year c div 7) + 7"
      using div_bounds [of 7 "day_of_year c"] calculation(1) by simp_all
  qed
  moreover have "0 \<le> day_of_year c div 7" "day_of_year c div 7 < 53" using calculation(3,4) div_bounds [of 7 "day_of_year c"] by simp_all
  ultimately show ?thesis unfolding week by simp
qed

section \<open>The selection stays within the limits\<close>

text \<open>Limits that are dates, the first not behind the last.\<close>

definition fixed_limits :: "picker_settings \<Rightarrow> bool" where
  "fixed_limits ps \<longleftrightarrow>
     (case (ps_minDate ps, ps_maxDate ps) of
        (Date_Object lo, Date_Object hi) \<Rightarrow> midnight lo \<le> midnight hi
      | (Date_Object lo, No_Date) \<Rightarrow> True
      | (No_Date, Date_Object hi) \<Rightarrow> True
      | (No_Date, No_Date) \<Rightarrow> True
      | _ \<Rightarrow> False)"

definition allowed_date :: "picker_settings \<Rightarrow> js_date \<Rightarrow> bool" where
  "allowed_date ps t \<longleftrightarrow> (case ps_minDate ps of Date_Object lo \<Rightarrow> midnight lo \<le> t | _ \<Rightarrow> True)
     \<and> (case ps_maxDate ps of Date_Object hi \<Rightarrow> t \<le> midnight hi | _ \<Rightarrow> True)"

definition selects :: "picker \<Rightarrow> js_date \<Rightarrow> bool" where
  "selects inst t \<longleftrightarrow> pk_selectedDay inst = getDate t \<and> pk_selectedMonth inst = getMonth t \<and> pk_selectedYear inst = getFullYear t
     \<and> pk_drawMonth inst = getMonth t \<and> pk_drawYear inst = getFullYear t"

text \<open>What the user and the program do with a picker that is not disabled.\<close>

inductive picker_step :: "int \<Rightarrow> picker \<Rightarrow> picker \<Rightarrow> bool" for zone where
  adjust: "picker_step zone inst (adjustDate zone now False offset period inst)"
| today: "picker_step zone inst (gotoToday zone now False inst)"
| month_year: "picker_step zone inst (selectMonthYear zone now False n period inst)"
| set_date: "picker_step zone inst (picker_setDate zone now date noChange inst)"
| from_field: "pk_input inst \<noteq> pk_lastVal inst \<Longrightarrow> setDateFromField zone now noDefault inst = Return inst' \<Longrightarrow> picker_step zone inst inst'"

lemma midnight_adjust [simp]: "daylightSavingAdjust (midnight t) = midnight t"
  by (simp add: midnight_def)

lemma restrictMinMax_allowed: "fixed_limits (pk_settings inst) \<Longrightarrow> allowed_date (pk_settings inst) (restrictMinMax zone now inst t)"
  by (auto simp: fixed_limits_def allowed_date_def restrictMinMax_def minDate_def maxDate_def determineDate_def Let_def
      split: given_date.splits)

lemma kept_settings [simp]:
  "pk_settings (notifyChange inst) = pk_settings inst" "pk_settings (select_date t inst) = pk_settings inst"
  "pk_settings (adjustInstDate zone now offset period inst) = pk_settings inst" "pk_settings (input_val s inst) = pk_settings inst"
  "pk_settings (snd (picker_formatDate zone now given inst)) = pk_settings inst"
  by (simp_all add: notifyChange_def select_date_def adjustInstDate_def input_val_def picker_formatDate_def Let_def split: option.splits)

lemma set_current_settings [simp]: "pk_settings (set_current t noChange inst) = pk_settings inst"
  by (simp add: set_current_def Let_def)

lemma kept_selection [simp]:
  "selects (notifyChange inst) t = selects inst t" "selects (input_val s inst) t = selects inst t"
  "selects (snd (picker_formatDate zone now given inst)) t = selects inst t" "selects (select_date t inst) t"
  by (simp_all add: selects_def notifyChange_def select_date_def input_val_def picker_formatDate_def Let_def split: option.splits)

definition within_limits :: "picker \<Rightarrow> bool" where
  "within_limits inst \<longleftrightarrow> (\<exists>t. selects inst t \<and> allowed_date (pk_settings inst) t)"

lemma within_kept [simp]: "within_limits (input_val s inst) = within_limits inst"
  "within_limits (snd (picker_formatDate zone now given inst)) = within_limits inst"
  by (simp_all add: within_limits_def)

lemma adjustInstDate_within: "fixed_limits (pk_settings inst) \<Longrightarrow> within_limits (adjustInstDate zone now offset period inst)"
  unfolding within_limits_def kept_settings
  by (rule exI [of _ "restrictMinMax zone now inst (daylightSavingAdjust (newDate (pk_drawYear inst + (if period = Years then offset else 0))
      (pk_drawMonth inst + (if period = Months then offset else 0))
      (min (pk_selectedDay inst) (getDaysInMonth (pk_drawYear inst + (if period = Years then offset else 0)) (pk_drawMonth inst + (if period = Months then offset else 0)))
        + (if period = Days then offset else 0))))"])
    (simp add: adjustInstDate_def Let_def restrictMinMax_allowed)

lemma step_within:
  assumes "picker_step zone inst inst'" "fixed_limits (pk_settings inst)"
  shows "within_limits inst' \<and> pk_settings inst' = pk_settings inst"
  using assms
proof (cases rule: picker_step.cases)
  case (adjust now offset period)
  with assms(2) show ?thesis by (simp add: adjustDate_def adjustInstDate_within)
next
  case (today now)
  with assms(2) show ?thesis by (simp add: gotoToday_def adjustDate_def adjustInstDate_within Let_def)
next
  case (month_year now n period)
  with assms(2) show ?thesis by (simp add: selectMonthYear_def adjustDate_def adjustInstDate_within Let_def)
next
  case (set_date now date noChange)
  with assms(2) show ?thesis by (simp add: picker_setDate_def adjustInstDate_within Let_def case_prod_unfold)
next
  case (from_field now noDefault)
  with assms(2) show ?thesis
    unfolding setDateFromField_def Let_def case_prod_unfold
    by (cases "pk_input inst"; cases "pk_lastVal inst = pk_input inst") (simp_all only: if_True if_False outcome.inject outcome.distinct option.distinct, auto simp: adjustInstDate_within)
qed


definition example_picker :: picker where
  "example_picker = \<lparr>pk_settings = \<lparr>ps_dateFormat = ''mm/dd/yy'', ps_minDate = No_Date, ps_maxDate = Date_Object (newDate 2024 1 15),
       ps_defaultDate = No_Date, ps_yearRange = ''c-10:c+10'', ps_numberOfMonths = (1, 1), ps_gotoCurrent = False, ps_showCurrentAtPos = 0,
       ps_shortYearCutoff = default_cutoff, ps_constrainInput = True, ps_names = default_names\<rparr>,
     pk_input = Some [], pk_lastVal = None, pk_selectedDay = 31, pk_selectedMonth = 0, pk_selectedYear = 2024, pk_drawMonth = 0, pk_drawYear = 2024,
     pk_currentDay = 0, pk_currentMonth = 0, pk_currentYear = 0, pk_notified = []\<rparr>"


text \<open>Moving by months without limits keeps the day, or takes the last day of the month if it has fewer days.\<close>

theorem month_step_clamps_day:
  assumes "ps_minDate (pk_settings inst) = No_Date" "ps_maxDate (pk_settings inst) = No_Date" "ps_showCurrentAtPos (pk_settings inst) = 0"
    "selects inst t" "long_year (getFullYear t)"
    "y = getFullYear t + (getMonth t + n) div 12" "m = (getMonth t + n) mod 12"
  shows "selects (adjustDate zone now False n Months inst) (makeDay y m (min (getDate t) (month_length (leap_year y) m)) * msPerDay)
    \<and> pk_selectedDay (adjustDate zone now False n Months inst) = min (getDate t) (month_length (leap_year y) m)
    \<and> pk_selectedMonth (adjustDate zone now False n Months inst) = m \<and> pk_selectedYear (adjustDate zone now False n Months inst) = y"
proof -
  let ?d = "min (getDate t) (month_length (leap_year y) m)"
  have dim: "getDaysInMonth (getFullYear t) (getMonth t + n) = month_length (leap_year y) m"
    using getDate_makeDay_32 [OF newDate_day [OF assms(5)], of "getMonth t + n"] by (simp add: getDaysInMonth_def assms(6,7))
  have m: "0 \<le> m" "m \<le> 11" unfolding assms(7) by (simp, presburger)
  then have v: "valid_fields y m ?d"
    using field_ranges(1) [of t] month_length_bounds [of m "leap_year y"] by (simp add: valid_fields_def)
  have "newDate (getFullYear t) (getMonth t + n) ?d = makeDay y m ?d * msPerDay"
    using assms(5) m by (auto simp: newDate_def long_year_def makeDay_def assms(6,7) Let_def)
  then have "adjustDate zone now False n Months inst = notifyChange (select_date (makeDay y m ?d * msPerDay) inst)"
    using assms(1-4) by (simp add: adjustDate_def adjustInstDate_def Let_def selects_def dim restrictMinMax_def minDate_def maxDate_def determineDate_def)
  with makeDay_fields [OF v, of "makeDay y m ?d * msPerDay"] show ?thesis by (simp add: select_date_def notifyChange_def selects_def)
qed


text \<open>Setting the offset 0, today, selects today but empties the field, as if no date had been given.\<close>

theorem set_today_empties_field:
  assumes "pk_input inst \<noteq> None"
  shows "pk_input (picker_setDate zone now (Offset 0) noChange inst) = Some []"
  using assms by (auto simp: picker_setDate_def input_val_def adjustInstDate_def set_current_def select_date_def notifyChange_def Let_def)


end
