(* ===== verification/Spec2Isabelle.thy ===== *)
theory Spec2Isabelle
  imports Service Event_Filter Schema_Pages Fast_Click Cm_Undo Cm_Bidi Cm_Sql_Dialects Cm_State_Cache Jq_Callbacks Cm_Keys Cm_Rebase Cm_Indent Cm_Events Date_Picker
begin

text \<open>
  A verification library for the CCX Notification Service (RedHatInsights/ccx-notification-service).

  \<^bold>\<open>The program.\<close> The service is a job: it reads the latest report of every cluster from a
  PostgreSQL database, compares each report with what was sent before, and sends the new issues
  either to the notification backend (a Kafka topic) or to the Service Log (HTTP); it records what
  it did in the database and leaves. Its repository also holds a small language for filtering
  events (\<open>docs/demos/dsl-events-filtering\<close>) and the pages that document the database
  (\<open>docs/db-description\<close>), a single-page JavaScript application with the scripts it is delivered with:
  its own pages, a click library, an editor that shows SQL, jQuery and the date picker of jQuery UI.

  \<^bold>\<open>The service (Go), in the order in which the parts call each other.\<close>
  \<^item> \<open>Prelude\<close>: lemmas on lists and maps, the collections the proofs share.
  \<^item> \<open>Notif_Types\<close> (\<open>types/types.go\<close>): the structs and enumerations; a report as JSON and what the
    decoder makes of it.
  \<^item> \<open>Configuration\<close> (\<open>conf/config.go\<close>): the sections, loading, defaults and overrides.
  \<^item> \<open>Cluster_Filter\<close> (\<open>differ/cluster_filter.go\<close>), \<open>Rule_Filter\<close> (\<open>differ/differ.go\<close>, \<open>differ/renderer.go\<close>):
    which clusters and which rule hits count.
  \<^item> \<open>Messages\<close> (\<open>differ/differ.go\<close>): the message for the backend.
  \<^item> \<open>Storage\<close> (\<open>differ/storage.go\<close>): the tables are lists of rows, every query and statement is a
    function on them, and the engine may fail at every call, which a function of the call says.
  \<^item> \<open>Producers\<close> (\<open>producer/*\<close>): Kafka, Service Log and disabled. The locale \<open>message_sink\<close> is the
    interface of \<open>producer.go\<close>; it is interpreted for all three, its extension
    \<open>acknowledging_sink\<close> for the two that send.
  \<^item> \<open>Comparator\<close> (\<open>differ/comparator.go\<close>, \<open>differ/metrics.go\<close>): should a rule hit be notified, and the
    records that are written; the locale \<open>notification_store\<close> states what a written record
    answers later.
  \<^item> \<open>Differ\<close>, \<open>Differ_Run\<close> (\<open>differ/differ.go\<close>): the turn of one cluster, and the run over all.
  \<^item> \<open>Service\<close> (\<open>differ/differ.go\<close>, \<open>differ/cleaner.go\<close>, \<open>differ/errors.go\<close>, \<open>cmd/*\<close>): set up, start, clean up
    and exit codes.
  The state of a run is a world (database, producer, counters) and a progress record;
  every operation returns them updated. Panics and exits are values of an error type, the left
  side of a sum.

  \<^bold>\<open>The event filter (Go).\<close> \<open>Event_Filter\<close>: the shunting yard and the evaluation of its postfix form.

  \<^bold>\<open>The documentation pages (JavaScript).\<close>
  \<^item> \<open>Web_Base\<close>: JavaScript values, outcomes (a value or an exception), loops that may not end.
  \<^item> \<open>Schema_Pages\<close> (\<open>main.js\<close>, \<open>column.js\<close>, \<open>routines.js\<close>, \<open>schemaSpy.js\<close>, \<open>tables/table.js\<close>): the filters and
    the buttons; the locale \<open>filter_page\<close> is interpreted for the three pages.
  \<^item> \<open>Fast_Click\<close> (\<open>fastclick.js\<close>): the state machine that turns taps into clicks.
  \<^item> \<open>Jq_Callbacks\<close> (\<open>jquery.js\<close>): callback lists, which deferred objects and animations are made of.
  \<^item> \<open>Js_Date\<close>, \<open>Date_Format\<close>, \<open>Date_Picker\<close> (\<open>jquery-ui.js\<close>): dates of JavaScript with a constant time zone,
    printing and reading them by a format, and the selection of the date picker with its limits.

  \<^bold>\<open>The editor on the pages (\<open>codemirror.js\<close>, \<open>sql.js\<close>).\<close> A document is a tree of lines; changes rewrite
  the tree, move positions, selections and marked spans, and are stored in the history; modes
  cut lines into tokens, and states of the mode are kept with the lines.
  \<^item> \<open>Cm_Text\<close>: columns with tabs, binary search. \<open>Cm_Document\<close>: the tree of chunks; the locale
    \<open>line_store\<close> is what the rest of the editor uses of it. \<open>Cm_Position\<close>: positions and changes.
    \<open>Cm_Selection\<close>: ranges and their normal form. \<open>Cm_Spans\<close>: marked spans. \<open>Cm_Update\<close>: \<open>updateDoc\<close>.
    \<open>Cm_History\<close>, \<open>Cm_Edit\<close>, \<open>Cm_Undo\<close>: events, making changes, undo and redo. \<open>Cm_Rebase\<close>: moving
    the history of a document when a linked one has changed.
  \<^item> \<open>Cm_Bidi\<close>: the display order of lines with text in both directions.
  \<^item> \<open>Cm_Stream\<close>: regular expressions and \<open>StringStream\<close>. \<open>Cm_Sql\<close>, \<open>Cm_Sql_Dialects\<close>: the SQL mode.
    \<open>Cm_Mode\<close>, \<open>Cm_Highlight\<close>, \<open>Cm_State_Cache\<close>: running a mode over lines; the locales
    \<open>advancing_mode\<close> and \<open>plain_mode\<close> are the contract between the editor and a mode,
    interpreted for the SQL mode with any configuration and for the mode without tokens.
  \<^item> \<open>Cm_Keys\<close>: key maps and sequences of keys. \<open>Cm_Commands\<close>: the commands that delete near the
    selections. \<open>Cm_Indent\<close>: indenting lines and selections, tabs and new lines.
  \<^item> \<open>Cm_Events\<close>: handlers, signals that wait for the end of an operation, and what its end calls.

  \<^bold>\<open>What the lemmas show.\<close> The service: the outcome of a cluster's turn on every branch, that what is
  recorded as sent was delivered, that an issue is not repeated within the cool down and is
  repeated when its rule is enabled again, that a run ends with an exit code that says whether
  it failed. The filter language computes the value of the expression. The pages show what the
  last button says. A tap gives one click. The tree refines the list of its lines; a change
  replaces a range of the text; undo gives the text before, all the way down; a clean document
  has the text it was marked clean with; marks stay with their text, also the history of a document
  whose linked one has changed; deleting near selections removes the union of the
  ranges, and an indented line starts at its column. Display order is a permutation of the line. Every
  token of the SQL mode advances, so highlighting ends and covers the line, and cached states are
  the states the mode would compute. Keys typed in sequence reach their command. What is
  signalled for the end of an operation is called in order, and the operation ends. A callback
  list calls each callback as often as it should. A printed date is read back, the selection of a date picker
  stays within its limits, and weeks are those of ISO 8601. The theorems that show a defect say what the
  code does; what it should do is named in the text before them.

  \<^bold>\<open>Loops and bounds.\<close> Most loops are structural or have a measure. \<open>readToken\<close> gives a mode ten tries,
  as the code does. Loops whose end depends on a mode, on callbacks or on key maps that refer
  to each other are partial functions with the result \<open>None\<close> when they do not end; the properties
  show that the result is not \<open>None\<close>. The recursion of \<open>ProduceMessage\<close> and the
  refreshing of the token, where the server decides how often they repeat, are partial functions
  as well. Offsets and durations are integers of the width the program has where it can matter.

  \<^bold>\<open>Parameters.\<close> The database engine's failures, the broker, the HTTP server, the template renderer,
  the clock, the configuration reader, the evaluator of event filters, the scanner of Go, the page
  and the browser, what a command or a callback does. What a property needs of them is among its
  hypotheses.

  \<^bold>\<open>Not modelled.\<close> The client of the content service, the transport of the metrics, the SCRAM
  wrapper, mocks, tests and scripts (requests, registrations and calls of libraries). Of the editor
  what draws, measures and listens: the display, scrolling, input, creating and clearing
  markers, linking documents (their histories are moved), modes inside modes. Of jQuery all but the
  callback lists; Bootstrap, jQuery UI but for the date picker, whose drawing is left out too, DataTables with
  its exports, AdminLTE and the other scripts the pages are delivered with, which work on the page or the
  browser's objects.
\<close>

end
